(* ===== verification/Prelude.thy ===== *)
theory Prelude
  imports Complex_Main "HOL-Library.Word" "HOL-Library.Multiset"
begin

text \<open>
  Shared vocabulary of the development: Go error values and gRPC status codes, IEEE-754 doubles
  as far as the program compares them, decimal conversion of integers (Go's \<open>strconv\<close>), the
  configuration view, and the generic lemmas on lists and maps that the component theories use.
\<close>

named_theorems store_simps
  \<open>equations that describe the operations of the state store on a healthy connection\<close>

named_theorems step_invs
  \<open>one-step preservation facts of the state machines\<close>

section \<open>Errors\<close>

text \<open>
  The gRPC status codes that the program returns. The text of an error message is not modelled: no
  code of the program branches on it. What the program does branch on is kept: the status code, the
  identity of the sentinel errors, \<open>redis.ErrNil\<close>, \<open>io.EOF\<close>, and whether an error is a bare status
  or one wrapped by \<open>errors.Wrap\<close> / \<open>fmt.Errorf\<close> (\<open>status.FromError\<close> sees only the former).
\<close>

datatype code =
    InvalidArgument | NotFound | AlreadyExists | FailedPrecondition | Aborted | Internal | Unavailable

datatype rerr = ErrNil | RErr nat

datatype go_error =
    Status code
  | RedisErr rerr
  | LockErr nat
  | ErrBackfillGenerationMismatch
  | ErrNoEvaluatorType
  | CtxErr nat
  | StreamErr nat
  | FmtErr
  | Panic
  | Wrapped go_error

text \<open>A result of a fallible Go function: the error, or the value.\<close>

type_synonym 'a res = "go_error + 'a"

text \<open>\<open>status.FromError\<close> followed by \<open>Code()\<close>: defined for a bare status only.\<close>

fun status_code :: "go_error \<Rightarrow> code option" where
  "status_code (Status c) = Some c"
| "status_code _ = None"

section \<open>Doubles\<close>

text \<open>
  A \<open>float64\<close> as the program uses it in comparisons: every finite double is a rational, the two
  zeros compare equal, and every comparison with a NaN is false.
\<close>

datatype f64 = NaN | NegInf | Fin rat | PosInf

fun f64_less :: "f64 \<Rightarrow> f64 \<Rightarrow> bool" where
  "f64_less NaN _ = False"
| "f64_less _ NaN = False"
| "f64_less NegInf y = (y \<noteq> NegInf)"
| "f64_less (Fin a) (Fin b) = (a < b)"
| "f64_less (Fin a) PosInf = True"
| "f64_less (Fin a) NegInf = False"
| "f64_less PosInf _ = False"

fun f64_le :: "f64 \<Rightarrow> f64 \<Rightarrow> bool" where
  "f64_le NaN _ = False"
| "f64_le _ NaN = False"
| "f64_le NegInf _ = True"
| "f64_le (Fin a) (Fin b) = (a \<le> b)"
| "f64_le (Fin a) PosInf = True"
| "f64_le (Fin a) NegInf = False"
| "f64_le PosInf y = (y = PosInf)"

lemma f64_less_NaN [simp]: "\<not> f64_less x NaN"
  by (cases x) auto

lemma f64_le_NaN [simp]: "\<not> f64_le x NaN"
  by (cases x) auto

lemma f64_less_imp_le: "f64_less x y \<Longrightarrow> f64_le x y"
  by (cases x; cases y) auto

lemma f64_le_iff: "x \<noteq> NaN \<Longrightarrow> y \<noteq> NaN \<Longrightarrow> f64_le x y \<longleftrightarrow> \<not> f64_less y x"
  by (cases x; cases y) auto

lemma f64_less_irrefl [simp]: "\<not> f64_less x x"
  by (cases x) auto

lemma f64_less_trans: "f64_less x y \<Longrightarrow> f64_less y z \<Longrightarrow> f64_less x z"
  by (cases x; cases y; cases z) auto

lemma f64_le_trans: "f64_le x y \<Longrightarrow> f64_le y z \<Longrightarrow> f64_le x z"
  by (cases x; cases y; cases z) auto

lemma f64_not_less_trans:
  "y \<noteq> NaN \<Longrightarrow> \<not> f64_less x y \<Longrightarrow> \<not> f64_less y z \<Longrightarrow> \<not> f64_less x z"
  by (cases x; cases y; cases z) auto

section \<open>Decimal integers\<close>

text \<open>
  \<open>strconv.FormatInt\<close> and \<open>strconv.Atoi\<close> in base ten. \<open>Atoi\<close> accepts an optional sign and at
  least one digit, and rejects a value outside the 64-bit range.
\<close>

definition digit_char :: "nat \<Rightarrow> char" where
  "digit_char d = char_of (48 + d)"

definition is_digit :: "char \<Rightarrow> bool" where
  "is_digit c \<longleftrightarrow> 48 \<le> (of_char c :: nat) \<and> (of_char c :: nat) \<le> 57"

definition digit_val :: "char \<Rightarrow> nat" where
  "digit_val c = of_char c - 48"

fun nat_digits :: "nat \<Rightarrow> string" where
  "nat_digits n = (if n < 10 then [digit_char n] else nat_digits (n div 10) @ [digit_char (n mod 10)])"

declare nat_digits.simps [simp del]

definition digits_nat :: "string \<Rightarrow> nat" where
  "digits_nat cs = foldl (\<lambda>a c. 10 * a + digit_val c) 0 cs"

definition itoa :: "int \<Rightarrow> string" where
  "itoa i = (if i < 0 then CHR ''-'' # nat_digits (nat (- i)) else nat_digits (nat i))"

definition int64_range :: "int \<Rightarrow> bool" where
  "int64_range i \<longleftrightarrow> - (2 ^ 63) \<le> i \<and> i < 2 ^ 63"

definition atoi :: "string \<Rightarrow> int option" where
  "atoi s =
    (let (neg, ds) = (case s of
           [] \<Rightarrow> (False, [])
         | c # cs \<Rightarrow> if c = CHR ''-'' then (True, cs)
                    else if c = CHR ''+'' then (False, cs) else (False, s))
     in if ds \<noteq> [] \<and> list_all is_digit ds then
          (let v = (if neg then - int (digits_nat ds) else int (digits_nat ds))
           in if int64_range v then Some v else None)
        else None)"

lemma is_digit_digit_char [simp]: "d < 10 \<Longrightarrow> is_digit (digit_char d)"
  by (simp add: is_digit_def digit_char_def)

lemma digit_val_digit_char [simp]: "d < 10 \<Longrightarrow> digit_val (digit_char d) = d"
  by (simp add: digit_val_def digit_char_def)

lemma nat_digits_nonempty [simp]: "nat_digits n \<noteq> []"
  by (subst nat_digits.simps) simp

lemma nat_digits_all: "list_all is_digit (nat_digits n)"
proof (induction n rule: nat_digits.induct)
  case (1 n)
  then show ?case by (cases "n < 10") (simp_all add: nat_digits.simps [of n])
qed

lemma digits_nat_snoc [simp]: "digits_nat (cs @ [c]) = 10 * digits_nat cs + digit_val c"
  by (simp add: digits_nat_def)

lemma digits_nat_nat_digits [simp]: "digits_nat (nat_digits n) = n"
proof (induction n rule: nat_digits.induct)
  case (1 n)
  show ?case
  proof (cases "n < 10")
    case True
    then show ?thesis by (simp add: nat_digits.simps [of n] digits_nat_def)
  next
    case False
    with 1 show ?thesis by (simp add: nat_digits.simps [of n])
  qed
qed

lemma nat_digits_hd: "is_digit (hd (nat_digits n))"
  using nat_digits_all [of n] by (cases "nat_digits n") auto

lemma not_digit_signs: "\<not> is_digit (CHR ''-'')" "\<not> is_digit (CHR ''+'')"
  by (simp_all add: is_digit_def)

lemma atoi_itoa [simp]:
  assumes "int64_range i"
  shows "atoi (itoa i) = Some i"
proof (cases "i < 0")
  case True
  with assms show ?thesis by (simp add: atoi_def itoa_def nat_digits_all)
next
  case False
  obtain c cs where cs: "nat_digits (nat i) = c # cs"
    by (cases "nat_digits (nat i)") auto
  with nat_digits_hd [of "nat i"] have "c \<noteq> CHR ''-''" "c \<noteq> CHR ''+''"
    using not_digit_signs by auto
  moreover have "list_all is_digit (c # cs)" "digits_nat (c # cs) = nat i"
    using nat_digits_all [of "nat i"] digits_nat_nat_digits [of "nat i"] by (simp_all add: cs)
  ultimately show ?thesis using assms False by (simp add: atoi_def itoa_def cs)
qed

section \<open>Configuration\<close>

text \<open>
  The read-only view of the configuration (\<open>config.View\<close>): the getters of the interface. What
  stands behind it (viper, files, environment variables) is outside the model.
\<close>

record config_view =
  IsSet :: "string \<Rightarrow> bool"
  GetString :: "string \<Rightarrow> string"
  GetInt :: "string \<Rightarrow> int"
  GetInt64 :: "string \<Rightarrow> int"
  GetFloat64 :: "string \<Rightarrow> f64"
  GetStringSlice :: "string \<Rightarrow> string list"
  GetBool :: "string \<Rightarrow> bool"
  GetDuration :: "string \<Rightarrow> int"

text \<open>\<open>time.Duration\<close> constants, in nanoseconds.\<close>

abbreviation Millisecond :: int where "Millisecond \<equiv> 1000000"
abbreviation Second :: int where "Second \<equiv> 1000 * Millisecond"
abbreviation Minute :: int where "Minute \<equiv> 60 * Second"
abbreviation Hour :: int where "Hour \<equiv> 60 * Minute"

text \<open>Go's integer division truncates towards zero.\<close>

definition go_div :: "int \<Rightarrow> int \<Rightarrow> int" where
  "go_div a b = sgn a * sgn b * (\<bar>a\<bar> div \<bar>b\<bar>)"

lemma go_div_nonneg: "0 \<le> a \<Longrightarrow> 0 < b \<Longrightarrow> go_div a b = a div b"
  by (cases "a = 0") (simp_all add: go_div_def)

section \<open>Lists and maps\<close>

lemma fold_upd_map_of:
  "fold (\<lambda>x m. m(f x \<mapsto> g x)) xs m k =
     (case find (\<lambda>x. f x = k) (rev xs) of None \<Rightarrow> m k | Some x \<Rightarrow> Some (g x))"
  by (induction xs rule: rev_induct) auto

lemma dom_fold_upd: "dom (fold (\<lambda>x m. m(f x \<mapsto> g x)) xs m) = dom m \<union> f ` set xs"
  by (induction xs arbitrary: m) auto

lemma fold_upd_notin:
  "k \<notin> f ` set xs \<Longrightarrow> fold (\<lambda>x m. m(f x \<mapsto> g x)) xs m k = m k"
  by (induction xs arbitrary: m) auto

lemma fold_remove_notin: "k \<notin> set xs \<Longrightarrow> fold (\<lambda>x m. m(x := None)) xs m k = m k"
  by (induction xs arbitrary: m) auto

lemma fold_remove: "fold (\<lambda>x m. m(x := None)) xs m = m |` (- set xs)"
  by (induction xs arbitrary: m) (auto simp: restrict_map_def fun_eq_iff)

lemma fold_const_upd: "fold (\<lambda>x m. m(x \<mapsto> v)) xs m = (\<lambda>k. if k \<in> set xs then Some v else m k)"
  by (induction xs arbitrary: m) (auto simp: fun_eq_iff)

end
