(* ===== verification/Messages.thy ===== *)
theory Messages
  imports Prelude
begin

text \<open>
  The protocol messages (\<open>api/messages.proto\<close>, generated into \<open>pkg/pb/messages.pb.go\<close>) as
  records. A message-typed field is a pointer in Go and therefore an \<open>option\<close>; a map field is a
  partial function (reading a nil map is reading an empty one); a repeated field is a list. Enum
  fields are open in proto3: a decoded value may be outside the declared constants.
\<close>

section \<open>Well-known types\<close>

text \<open>\<open>google.protobuf.Timestamp\<close> and \<open>google.protobuf.Any\<close>, as the program stores them.\<close>

record timestamp =
  Seconds :: int
  Nanos :: int

record any_msg =
  TypeUrl :: string
  AnyValue :: string

text \<open>
  A \<open>time.Time\<close> is the number of nanoseconds since the zero time, so \<open>IsZero\<close> is \<open>0\<close>,
  \<open>After\<close> is \<open>>\<close> and \<open>Before\<close> is \<open><\<close>.
\<close>

type_synonym gtime = int

section \<open>Messages\<close>

record search_fields =
  DoubleArgs :: "string \<rightharpoonup> f64"
  StringArgs :: "string \<rightharpoonup> string"
  Tags :: "string list"

record assignment =
  a_Connection :: string
  a_Extensions :: "string \<rightharpoonup> any_msg"

record ticket =
  t_Id :: string
  t_Assignment :: "assignment option"
  t_SearchFields :: "search_fields option"
  t_Extensions :: "string \<rightharpoonup> any_msg"
  t_PersistentField :: "string \<rightharpoonup> any_msg"
  t_CreateTime :: "timestamp option"

text \<open>The generation is a Go \<open>int64\<close>: it wraps, and it is compared as a signed number.\<close>

record backfill =
  bf_Id :: string
  bf_SearchFields :: "search_fields option"
  bf_Extensions :: "string \<rightharpoonup> any_msg"
  bf_PersistentField :: "string \<rightharpoonup> any_msg"
  bf_CreateTime :: "timestamp option"
  bf_Generation :: "64 word"

record match =
  m_MatchId :: string
  m_MatchProfile :: string
  m_MatchFunction :: string
  m_Tickets :: "ticket list"
  m_Extensions :: "string \<rightharpoonup> any_msg"
  m_Backfill :: "backfill option"
  m_AllocateGameserver :: bool

datatype exclude = ExNone | ExMin | ExMax | ExBoth | ExUnknown int

record double_range_filter =
  drf_DoubleArg :: string
  drf_Max :: f64
  drf_Min :: f64
  drf_Exclude :: exclude

record string_equals_filter =
  sef_StringArg :: string
  sef_Value :: string

record tag_present_filter =
  tpf_Tag :: string

record pool =
  p_Name :: string
  p_DoubleRangeFilters :: "double_range_filter list"
  p_StringEqualsFilters :: "string_equals_filter list"
  p_TagPresentFilters :: "tag_present_filter list"
  p_CreatedBefore :: "timestamp option"
  p_CreatedAfter :: "timestamp option"

record match_profile =
  mp_Name :: string
  mp_Pools :: "pool list"
  mp_Extensions :: "string \<rightharpoonup> any_msg"

text \<open>The stored form of a backfill (\<open>internal/api/messages.proto\<close>).\<close>

record backfill_internal =
  bi_Backfill :: "backfill option"
  bi_TicketIds :: "string list"

section \<open>Assignment requests\<close>

record assignment_group =
  ag_TicketIds :: "string list"
  ag_Assignment :: "assignment option"

datatype failure_cause = CAUSE_UNKNOWN | TICKET_NOT_FOUND

record assignment_failure =
  af_TicketId :: string
  af_Cause :: failure_cause

text \<open>\<open>Failures\<close> of an \<open>AssignTicketsResponse\<close>; the message has no other field.\<close>

type_synonym assign_response = "assignment_failure list"

section \<open>Empty messages\<close>

definition emptySearchFields :: search_fields where
  "emptySearchFields = \<lparr>DoubleArgs = Map.empty, StringArgs = Map.empty, Tags = []\<rparr>"

definition empty_ticket :: ticket where
  "empty_ticket = \<lparr>t_Id = [], t_Assignment = None, t_SearchFields = None,
     t_Extensions = Map.empty, t_PersistentField = Map.empty, t_CreateTime = None\<rparr>"

definition empty_backfill :: backfill where
  "empty_backfill = \<lparr>bf_Id = [], bf_SearchFields = None, bf_Extensions = Map.empty,
     bf_PersistentField = Map.empty, bf_CreateTime = None, bf_Generation = 0\<rparr>"

definition empty_match :: match where
  "empty_match = \<lparr>m_MatchId = [], m_MatchProfile = [], m_MatchFunction = [], m_Tickets = [],
     m_Extensions = Map.empty, m_Backfill = None, m_AllocateGameserver = False\<rparr>"

definition empty_pool :: pool where
  "empty_pool = \<lparr>p_Name = [], p_DoubleRangeFilters = [], p_StringEqualsFilters = [],
     p_TagPresentFilters = [], p_CreatedBefore = None, p_CreatedAfter = None\<rparr>"

lemma empty_ticket_sel [simp]:
  "t_Id empty_ticket = []" "t_Assignment empty_ticket = None" "t_SearchFields empty_ticket = None"
  "t_CreateTime empty_ticket = None"
  by (simp_all add: empty_ticket_def)

lemma empty_backfill_sel [simp]:
  "bf_Id empty_backfill = []" "bf_Generation empty_backfill = 0" "bf_CreateTime empty_backfill = None"
  "bf_SearchFields empty_backfill = None"
  by (simp_all add: empty_backfill_def)

lemma empty_match_sel [simp]:
  "m_MatchId empty_match = []" "m_Tickets empty_match = []" "m_Backfill empty_match = None"
  "m_Extensions empty_match = Map.empty"
  by (simp_all add: empty_match_def)

end
