(* ===== verification/Redis.thy ===== *)
theory Redis
  imports Messages
begin

text \<open>
  What the state store takes from outside the repository: the Redis server behind the redigo
  client, the redsync locks, protobuf serialisation, the clock and the \<open>xid\<close> generator. They are
  the fields of the record \<open>env\<close>, an argument of every definition of the store; the type \<open>'s\<close>
  of its state and the type \<open>'b\<close> of serialised messages stay abstract. The locale \<open>redis_laws\<close>
  names the documented behaviour the program relies on, stated over a \<open>view\<close> of the server's
  keyspace, and \<open>redis_up\<close> adds that no call fails. The theory \<open>Redis_Reference\<close> holds a server with
  list-valued collections and injected faults that satisfies the laws.
\<close>

section \<open>Commands, values and replies\<close>

datatype 'b rcmd =
    SET string 'b
  | SETNX string 'b
  | SETPX_XX string 'b int
  | GET string
  | DEL string
  | MGET "string list"
  | SADD string string
  | SREM string string
  | SMEMBERS string
  | ZADD string "(int \<times> string) list"
  | ZREM string "string list"
  | ZSCORE string string
  | ZRANGEBYSCORE string int int
  | HSET string string int
  | HDEL string string
  | HGETALL string
  | MULTI
  | EXEC
  | PING

text \<open>
  A key holds a string (with the time to live given by \<open>PX\<close>, if any), a set, a sorted set or a
  hash. Scores are doubles; \<open>dbl\<close> is the double nearest to an integer, as an integer.
\<close>

datatype 'b rval =
    RString 'b "int option"
  | RSet "string set"
  | RZset "string \<rightharpoonup> int"
  | RHash "string \<rightharpoonup> string"

type_synonym 'b keyspace = "string \<rightharpoonup> 'b rval"

datatype 'b reply =
    RNil
  | RInt int
  | RStatus string
  | RBulk string
  | RBlob 'b
  | RScore int
  | RArr "'b reply list"

definition str_of :: "'b keyspace \<Rightarrow> string \<Rightarrow> 'b option" where
  "str_of ks k = (case ks k of Some (RString b _) \<Rightarrow> Some b | _ \<Rightarrow> None)"

definition ttl_of :: "'b keyspace \<Rightarrow> string \<Rightarrow> int option" where
  "ttl_of ks k = (case ks k of Some (RString _ t) \<Rightarrow> t | _ \<Rightarrow> None)"

definition set_of :: "'b keyspace \<Rightarrow> string \<Rightarrow> string set" where
  "set_of ks k = (case ks k of Some (RSet S) \<Rightarrow> S | _ \<Rightarrow> {})"

definition zset_of :: "'b keyspace \<Rightarrow> string \<Rightarrow> (string \<rightharpoonup> int)" where
  "zset_of ks k = (case ks k of Some (RZset z) \<Rightarrow> z | _ \<Rightarrow> Map.empty)"

definition hash_of :: "'b keyspace \<Rightarrow> string \<Rightarrow> (string \<rightharpoonup> string)" where
  "hash_of ks k = (case ks k of Some (RHash h) \<Rightarrow> h | _ \<Rightarrow> Map.empty)"

lemmas key_access = str_of_def ttl_of_def set_of_def zset_of_def hash_of_def

section \<open>Documented behaviour of the commands\<close>

text \<open>A command on a key of another kind fails with \<open>WRONGTYPE\<close>; this is when it does not.\<close>

definition is_set_key :: "'b keyspace \<Rightarrow> string \<Rightarrow> bool" where
  "is_set_key ks k \<longleftrightarrow> (case ks k of None \<Rightarrow> True | Some (RSet _) \<Rightarrow> True | _ \<Rightarrow> False)"

definition is_zset_key :: "'b keyspace \<Rightarrow> string \<Rightarrow> bool" where
  "is_zset_key ks k \<longleftrightarrow> (case ks k of None \<Rightarrow> True | Some (RZset _) \<Rightarrow> True | _ \<Rightarrow> False)"

definition is_hash_key :: "'b keyspace \<Rightarrow> string \<Rightarrow> bool" where
  "is_hash_key ks k \<longleftrightarrow> (case ks k of None \<Rightarrow> True | Some (RHash _) \<Rightarrow> True | _ \<Rightarrow> False)"

definition is_string_key :: "'b keyspace \<Rightarrow> string \<Rightarrow> bool" where
  "is_string_key ks k \<longleftrightarrow> (case ks k of None \<Rightarrow> True | Some (RString _ _) \<Rightarrow> True | _ \<Rightarrow> False)"

lemmas key_kinds = is_set_key_def is_zset_key_def is_hash_key_def is_string_key_def

fun well_typed :: "'b rcmd \<Rightarrow> 'b keyspace \<Rightarrow> bool" where
  "well_typed (GET k) ks = is_string_key ks k"
| "well_typed (SADD k _) ks = is_set_key ks k"
| "well_typed (SREM k _) ks = is_set_key ks k"
| "well_typed (SMEMBERS k) ks = is_set_key ks k"
| "well_typed (ZADD k _) ks = is_zset_key ks k"
| "well_typed (ZREM k _) ks = is_zset_key ks k"
| "well_typed (ZSCORE k _) ks = is_zset_key ks k"
| "well_typed (ZRANGEBYSCORE k _ _) ks = is_zset_key ks k"
| "well_typed (HSET k _ _) ks = is_hash_key ks k"
| "well_typed (HDEL k _) ks = is_hash_key ks k"
| "well_typed (HGETALL k) ks = is_hash_key ks k"
| "well_typed _ ks = True"

text \<open>Effect on the keyspace. A collection that loses its last member ceases to exist.\<close>

fun redis_effect :: "(int \<Rightarrow> int) \<Rightarrow> 'b rcmd \<Rightarrow> 'b keyspace \<Rightarrow> 'b keyspace" where
  "redis_effect dbl (SET k v) ks = ks(k \<mapsto> RString v None)"
| "redis_effect dbl (SETNX k v) ks = (if ks k = None then ks(k \<mapsto> RString v None) else ks)"
| "redis_effect dbl (SETPX_XX k v px) ks = (if ks k \<noteq> None then ks(k \<mapsto> RString v (Some px)) else ks)"
| "redis_effect dbl (DEL k) ks = ks(k := None)"
| "redis_effect dbl (SADD k m) ks = ks(k \<mapsto> RSet (insert m (set_of ks k)))"
| "redis_effect dbl (SREM k m) ks =
     (let S = set_of ks k - {m} in if S = {} then ks(k := None) else ks(k \<mapsto> RSet S))"
| "redis_effect dbl (ZADD k ps) ks =
     ks(k \<mapsto> RZset (fold (\<lambda>(sc, m) z. z(m \<mapsto> dbl sc)) ps (zset_of ks k)))"
| "redis_effect dbl (ZREM k ms) ks =
     (let z = zset_of ks k |` (- set ms) in if z = Map.empty then ks(k := None) else ks(k \<mapsto> RZset z))"
| "redis_effect dbl (HSET k f v) ks = ks(k \<mapsto> RHash ((hash_of ks k)(f \<mapsto> itoa v)))"
| "redis_effect dbl (HDEL k f) ks =
     (let h = (hash_of ks k)(f := None) in if h = Map.empty then ks(k := None) else ks(k \<mapsto> RHash h))"
| "redis_effect dbl _ ks = ks"

text \<open>A command on a key of the wrong kind has no effect.\<close>

definition redis_next :: "(int \<Rightarrow> int) \<Rightarrow> 'b rcmd \<Rightarrow> 'b keyspace \<Rightarrow> 'b keyspace" where
  "redis_next dbl c ks = (if well_typed c ks then redis_effect dbl c ks else ks)"

definition blob_reply :: "'b option \<Rightarrow> 'b reply" where
  "blob_reply v = (case v of None \<Rightarrow> RNil | Some b \<Rightarrow> RBlob b)"

text \<open>The replies a command may give; the order of the members of a collection is not promised.\<close>

fun redis_reply :: "(int \<Rightarrow> int) \<Rightarrow> 'b rcmd \<Rightarrow> 'b keyspace \<Rightarrow> 'b reply \<Rightarrow> bool" where
  "redis_reply dbl (SETNX k _) ks r = (r = RInt (if ks k = None then 1 else 0))"
| "redis_reply dbl (SETPX_XX k _ _) ks r = (r = (if ks k \<noteq> None then RStatus ''OK'' else RNil))"
| "redis_reply dbl (GET k) ks r = (r = blob_reply (str_of ks k))"
| "redis_reply dbl (DEL k) ks r = (r = RInt (if ks k = None then 0 else 1))"
| "redis_reply dbl (MGET ids) ks r = (r = RArr (map (\<lambda>k. blob_reply (str_of ks k)) ids))"
| "redis_reply dbl (SMEMBERS k) ks r =
     (\<exists>xs. r = RArr (map RBulk xs) \<and> distinct xs \<and> set xs = set_of ks k)"
| "redis_reply dbl (ZSCORE k m) ks r =
     (r = (case zset_of ks k m of None \<Rightarrow> RNil | Some sc \<Rightarrow> RScore sc))"
| "redis_reply dbl (ZRANGEBYSCORE k lo hi) ks r =
     (\<exists>xs. r = RArr (map RBulk xs) \<and> distinct xs \<and>
           set xs = {m. \<exists>sc. zset_of ks k m = Some sc \<and> dbl lo \<le> sc \<and> sc \<le> dbl hi})"
| "redis_reply dbl (HGETALL k) ks r =
     (\<exists>xs. r = RArr (concat (map (\<lambda>(f, v). [RBulk f, RBulk v]) xs)) \<and>
           distinct (map fst xs) \<and> map_of xs = hash_of ks k)"
| "redis_reply dbl _ ks r = (case r of RInt _ \<Rightarrow> True | RStatus _ \<Rightarrow> True | _ \<Rightarrow> False)"

text \<open>Replies of a transaction, one per queued command, each in the state its predecessors left.\<close>

fun exec_replies :: "(int \<Rightarrow> int) \<Rightarrow> 'b rcmd list \<Rightarrow> 'b keyspace \<Rightarrow> 'b reply list \<Rightarrow> bool" where
  "exec_replies dbl [] ks rs = (rs = [])"
| "exec_replies dbl (c # cs) ks rs =
     (case rs of [] \<Rightarrow> False
      | r # rs' \<Rightarrow> (well_typed c ks \<longrightarrow> redis_reply dbl c ks r) \<and> exec_replies dbl cs (redis_next dbl c ks) rs')"

abbreviation redis_run :: "(int \<Rightarrow> int) \<Rightarrow> 'b rcmd list \<Rightarrow> 'b keyspace \<Rightarrow> 'b keyspace" where
  "redis_run dbl cs ks \<equiv> fold (redis_next dbl) cs ks"

section \<open>The environment\<close>

text \<open>
  The calls the store makes. \<open>Send\<close> only appends to the connection's output buffer; the next
  \<open>Do\<close>, or \<open>Close\<close> when the connection returns to its pool, transmits it. \<open>redisBytes\<close> to
  \<open>redisString\<close> are redigo's reply conversions. Serialisation reports failure as \<open>None\<close>. \<open>Sleep\<close>
  is the wait of a retry loop, during which other clients may act on the server.
\<close>

record ('s, 'b) env =
  GetContext :: "'s \<Rightarrow> rerr option \<times> 's"
  Send :: "'b rcmd \<Rightarrow> 's \<Rightarrow> rerr option \<times> 's"
  Do :: "'b rcmd \<Rightarrow> 's \<Rightarrow> (rerr + 'b reply) \<times> 's"
  Close :: "'s \<Rightarrow> rerr option \<times> 's"
  redisBytes :: "rerr + 'b reply \<Rightarrow> rerr + 'b option"
  redisInt :: "rerr + 'b reply \<Rightarrow> rerr + int"
  redisStrings :: "rerr + 'b reply \<Rightarrow> rerr + string list"
  redisByteSlices :: "rerr + 'b reply \<Rightarrow> rerr + 'b option list"
  redisFloat64 :: "rerr + 'b reply \<Rightarrow> rerr + int"
  redisStringMap :: "rerr + 'b reply \<Rightarrow> rerr + (string \<rightharpoonup> string)"
  redisValues :: "rerr + 'b reply \<Rightarrow> rerr + 'b reply list"
  redisString :: "'b reply \<Rightarrow> rerr + string"
  Lock :: "string \<Rightarrow> 's \<Rightarrow> go_error option \<times> 's"
  Unlock :: "string \<Rightarrow> 's \<Rightarrow> go_error option \<times> 's"
  MarshalTicket :: "ticket \<Rightarrow> 'b option"
  UnmarshalTicket :: "'b \<Rightarrow> ticket option"
  MarshalBackfill :: "backfill_internal \<Rightarrow> 'b option"
  UnmarshalBackfill :: "'b \<Rightarrow> backfill_internal option"
  Sleep :: "'s \<Rightarrow> 's"
  Now :: "'s \<Rightarrow> int"
  TimestampNow :: "'s \<Rightarrow> timestamp"
  NewID :: "'s \<Rightarrow> string \<times> 's"

text \<open>The keys under which the store keeps its indexes; generated ids never equal one of them.\<close>

definition allTickets :: string where "allTickets = ''allTickets''"
definition proposedTicketIDs :: string where "proposedTicketIDs = ''proposed_ticket_ids''"
definition backfillLastAckTime :: string where "backfillLastAckTime = ''backfill_last_ack_time''"
definition allBackfills :: string where "allBackfills = ''allBackfills''"

lemmas key_names = allTickets_def proposedTicketIDs_def backfillLastAckTime_def allBackfills_def

definition reserved :: "string set" where
  "reserved = {allTickets, proposedTicketIDs, backfillLastAckTime, allBackfills}"

lemma keys_distinct [simp]:
  "allTickets \<noteq> proposedTicketIDs" "allTickets \<noteq> backfillLastAckTime" "allTickets \<noteq> allBackfills"
  "proposedTicketIDs \<noteq> allTickets" "proposedTicketIDs \<noteq> backfillLastAckTime" "proposedTicketIDs \<noteq> allBackfills"
  "backfillLastAckTime \<noteq> allTickets" "backfillLastAckTime \<noteq> proposedTicketIDs" "backfillLastAckTime \<noteq> allBackfills"
  "allBackfills \<noteq> allTickets" "allBackfills \<noteq> proposedTicketIDs" "allBackfills \<noteq> backfillLastAckTime"
  by (simp_all add: key_names)

lemma reserved_simps [simp]:
  "allTickets \<in> reserved" "proposedTicketIDs \<in> reserved" "backfillLastAckTime \<in> reserved"
  "allBackfills \<in> reserved"
  by (simp_all add: reserved_def)

lemma not_reserved [simp]:
  assumes "i \<notin> reserved"
  shows "i \<noteq> allTickets" "i \<noteq> proposedTicketIDs" "i \<noteq> backfillLastAckTime" "i \<noteq> allBackfills"
    "allTickets \<noteq> i" "proposedTicketIDs \<noteq> i" "backfillLastAckTime \<noteq> i" "allBackfills \<noteq> i"
  using assms by (auto simp: reserved_def)

text \<open>An id is unused when it names no key and occurs in no index.\<close>

definition unused :: "'b keyspace \<Rightarrow> string \<Rightarrow> bool" where
  "unused ks i \<longleftrightarrow> i \<notin> reserved \<and> ks i = None \<and> i \<notin> set_of ks allTickets \<and>
     zset_of ks proposedTicketIDs i = None \<and> zset_of ks backfillLastAckTime i = None \<and>
     hash_of ks allBackfills i = None"

section \<open>Laws\<close>

text \<open>
  \<open>view\<close> is the server's keyspace without redsync's \<open>lock/\<close> keys and \<open>pend\<close> the commands buffered
  on the connection in use. A command that fails has taken effect or not; commands are atomic and
  buffered ones run in order. The clock does not step backwards. No other client acts between the commands of one operation: an
  operation on a backfill holds its lock, and interleavings of whole operations are sequences.
\<close>

locale redis_laws =
  fixes E :: "('s, 'b) env" and view :: "'s \<Rightarrow> 'b keyspace" and pend :: "'s \<Rightarrow> 'b rcmd list"
    and dbl :: "int \<Rightarrow> int"
  assumes get_context: "GetContext E s = (ro, s') \<Longrightarrow>
      view s' = view s \<and> Now E s \<le> Now E s' \<and> (ro = None \<longrightarrow> pend s' = [])"
    and send: "Send E c s = (ro, s') \<Longrightarrow>
      view s' = view s \<and> Now E s \<le> Now E s' \<and> (ro = None \<longrightarrow> pend s' = pend s @ [c])"
    and do_ok: "Do E c s = (Inr r, s') \<Longrightarrow> c \<noteq> EXEC \<Longrightarrow> MULTI \<notin> set (pend s) \<Longrightarrow>
      view s' = redis_next dbl c (redis_run dbl (pend s) (view s)) \<and>
      redis_reply dbl c (redis_run dbl (pend s) (view s)) r \<and>
      well_typed c (redis_run dbl (pend s) (view s)) \<and> pend s' = []"
    and do_err: "Do E c s = (Inl e, s') \<Longrightarrow> c \<noteq> EXEC \<Longrightarrow> pend s = [] \<Longrightarrow>
      pend s' = [] \<and> (view s' = view s \<or> view s' = redis_next dbl c (view s))"
    and exec_ok: "Do E EXEC s = (Inr r, s') \<Longrightarrow> pend s = MULTI # cs \<Longrightarrow> MULTI \<notin> set cs \<Longrightarrow>
      view s' = redis_run dbl cs (view s) \<and> pend s' = [] \<and>
      (\<exists>rs. r = RArr rs \<and> exec_replies dbl cs (view s) rs)"
    and do_clock: "Do E c s = (ro', s') \<Longrightarrow> Now E s \<le> Now E s'"
    and close_clock: "Close E s = (ro, s') \<Longrightarrow> Now E s \<le> Now E s'"
    and close_ok: "Close E s = (None, s') \<Longrightarrow>
      view s' = (if MULTI \<in> set (pend s) then view s else redis_run dbl (pend s) (view s))"
    and close_idle: "Close E s = (ro, s') \<Longrightarrow> pend s = [] \<Longrightarrow> view s' = view s"
    and bytes_conv: "redisBytes E (Inl e) = Inl e" "redisBytes E (Inr RNil) = Inl ErrNil"
      "redisBytes E (Inr (RBlob b)) = Inr (Some b)"
    and int_conv: "redisInt E (Inl e) = Inl e" "redisInt E (Inr (RInt n)) = Inr n"
    and strings_conv: "redisStrings E (Inl e) = Inl e" "redisStrings E (Inr (RArr (map RBulk xs))) = Inr xs"
    and slices_conv: "redisByteSlices E (Inl e) = Inl e"
      "redisByteSlices E (Inr (RArr (map blob_reply vs))) = Inr vs"
    and float_conv: "redisFloat64 E (Inl e) = Inl e" "redisFloat64 E (Inr RNil) = Inl ErrNil"
      "redisFloat64 E (Inr (RScore x)) = Inr x"
    and map_conv: "redisStringMap E (Inl e) = Inl e"
      "distinct (map fst ps) \<Longrightarrow>
       redisStringMap E (Inr (RArr (concat (map (\<lambda>(f, v). [RBulk f, RBulk v]) ps)))) = Inr (map_of ps)"
    and values_conv: "redisValues E (Inl e) = Inl e" "redisValues E (Inr (RArr rs)) = Inr rs"
    and string_conv: "redisString E RNil = Inl ErrNil" "redisString E (RStatus str) = Inr str"
    and lock: "Lock E k s = (r', s') \<Longrightarrow> view s' = view s \<and> Now E s \<le> Now E s'"
    and unlock: "Unlock E k s = (r', s') \<Longrightarrow> view s' = view s \<and> Now E s \<le> Now E s'"
    and ticket_codec: "MarshalTicket E t = Some b \<Longrightarrow> UnmarshalTicket E b = Some t"
    and backfill_codec: "MarshalBackfill E bi = Some b \<Longrightarrow> UnmarshalBackfill E b = Some bi"
    and dbl_mono: "x \<le> y \<Longrightarrow> dbl x \<le> dbl y"
    and dbl_near: "\<bar>x\<bar> \<le> 2 ^ 61 \<Longrightarrow> \<bar>dbl x - x\<bar> \<le> 128"
    and new_id: "NewID E s = (i, s') \<Longrightarrow> view s' = view s \<and> Now E s \<le> Now E s' \<and> i \<noteq> [] \<and> unused (view s) i"

text \<open>A healthy environment: every call succeeds unless the key has the wrong type.\<close>

locale redis_up = redis_laws E view pend dbl
  for E :: "('s, 'b) env" and view :: "'s \<Rightarrow> 'b keyspace" and pend :: "'s \<Rightarrow> 'b rcmd list"
    and dbl :: "int \<Rightarrow> int" +
  assumes up_get: "fst (GetContext E s) = None"
    and up_send: "fst (Send E c s) = None"
    and up_do: "c \<noteq> EXEC \<Longrightarrow> MULTI \<notin> set (pend s) \<Longrightarrow>
      well_typed c (redis_run dbl (pend s) (view s)) \<Longrightarrow> \<exists>r. fst (Do E c s) = Inr r"
    and up_exec: "pend s = MULTI # cs \<Longrightarrow> MULTI \<notin> set cs \<Longrightarrow> \<exists>r. fst (Do E EXEC s) = Inr r"
    and up_close: "fst (Close E s) = None"
    and up_lock: "fst (Lock E k s) = None"

section \<open>Using the laws\<close>

text \<open>Every operation of the store obtains a connection and defers its return to the pool.\<close>

definition with_conn ::
  "('s, 'b) env \<Rightarrow> ('s \<Rightarrow> 'a res \<times> 's) \<Rightarrow> 's \<Rightarrow> 'a res \<times> 's" where
  "with_conn E body s =
    (case GetContext E s of
       (Some _, s1) \<Rightarrow> (Inl (Status Unavailable), s1)
     | (None, s1) \<Rightarrow> (case body s1 of (r, s2) \<Rightarrow> (r, snd (Close E s2))))"

context redis_laws
begin

text \<open>The keyspace once the connection is closed: an open transaction is discarded.\<close>

definition flushed :: "'s \<Rightarrow> 'b keyspace" where
  "flushed s = (if MULTI \<in> set (pend s) then view s else redis_run dbl (pend s) (view s))"

lemma flushed_idle [simp]: "pend s = [] \<Longrightarrow> flushed s = view s"
  by (simp add: flushed_def)

lemma do_idle:
  assumes "Do E c s = (Inr r, s')" and "c \<noteq> EXEC" and "pend s = []"
  shows "view s' = redis_effect dbl c (view s)" "redis_reply dbl c (view s) r"
    "well_typed c (view s)" "pend s' = []"
  using do_ok [OF assms(1,2)] assms(3) by (auto simp: redis_next_def)

lemma with_conn_unavailable:
  "GetContext E s = (Some e, s') \<Longrightarrow> with_conn E body s = (Inl (Status Unavailable), s') \<and> view s' = view s"
  using get_context by (auto simp: with_conn_def)

end

context redis_up
begin

lemma do_up:
  assumes "well_typed c (view s)" and "c \<noteq> EXEC" and "pend s = []"
  obtains r s' where "Do E c s = (Inr r, s')" "view s' = redis_effect dbl c (view s)"
    "redis_reply dbl c (view s) r" "pend s' = []" "Now E s \<le> Now E s'"
proof -
  from up_do [of c s] assms obtain r where "fst (Do E c s) = Inr r" by auto
  then obtain s' where s': "Do E c s = (Inr r, s')" by (cases "Do E c s") auto
  from that [OF s'] do_idle [OF s' assms(2,3)] do_clock [OF s'] show ?thesis by blast
qed

lemma send_up:
  obtains s' where "Send E c s = (None, s')" "view s' = view s" "pend s' = pend s @ [c]"
    "Now E s \<le> Now E s'"
  using up_send [of c s] send [of c s] by (cases "Send E c s") auto

text \<open>
  The rule for an operation on a healthy server: it suffices to run the body on a fresh connection.
  \<open>Q\<close> relates the result, the keyspace the operation leaves and the time at its end.
\<close>

lemma with_conn_up:
  assumes body: "\<And>s1. view s1 = view s \<Longrightarrow> pend s1 = [] \<Longrightarrow> Now E s \<le> Now E s1 \<Longrightarrow>
    \<exists>r s2. body s1 = (r, s2) \<and> Now E s1 \<le> Now E s2 \<and> Q r (flushed s2) (Now E s2)"
    and mono: "\<And>r ks t t'. Q r ks t \<Longrightarrow> t \<le> t' \<Longrightarrow> Q r ks t'"
  shows "\<exists>r s'. with_conn E body s = (r, s') \<and> Now E s \<le> Now E s' \<and> Q r (view s') (Now E s')"
proof -
  obtain s1 where s1: "GetContext E s = (None, s1)"
    using up_get [of s] by (cases "GetContext E s") auto
  with get_context have v1: "view s1 = view s" "pend s1 = []" and t1: "Now E s \<le> Now E s1" by blast+
  from body [OF this] obtain r s2 where s2: "body s1 = (r, s2)"
    "Now E s1 \<le> Now E s2" "Q r (flushed s2) (Now E s2)" by blast
  moreover obtain s3 where s3: "Close E s2 = (None, s3)"
    using up_close [of s2] by (cases "Close E s2") auto
  ultimately show ?thesis
    using s1 t1 close_ok [OF s3] close_clock [OF s3] mono
    by (fastforce simp: with_conn_def flushed_def)
qed

end

section \<open>The store as the program sees it\<close>

text \<open>
  The keyspace read as the store's data: serialised tickets and backfills under their ids, the time
  to live of an assigned ticket, the ticket index, the pending-release set, the last acknowledgement
  of every backfill and the backfill index with its generations.
\<close>

record 'b astore =
  objs :: "string \<rightharpoonup> 'b"
  ttls :: "string \<rightharpoonup> int"
  tindex :: "string set"
  pending :: "string \<rightharpoonup> int"
  acks :: "string \<rightharpoonup> int"
  bindex :: "string \<rightharpoonup> string"

definition astore_of :: "'b keyspace \<Rightarrow> 'b astore" where
  "astore_of ks = \<lparr>objs = str_of ks, ttls = ttl_of ks, tindex = set_of ks allTickets,
     pending = zset_of ks proposedTicketIDs, acks = zset_of ks backfillLastAckTime,
     bindex = hash_of ks allBackfills\<rparr>"

lemma astore_of_sel [simp]:
  "objs (astore_of ks) = str_of ks" "ttls (astore_of ks) = ttl_of ks"
  "tindex (astore_of ks) = set_of ks allTickets" "pending (astore_of ks) = zset_of ks proposedTicketIDs"
  "acks (astore_of ks) = zset_of ks backfillLastAckTime" "bindex (astore_of ks) = hash_of ks allBackfills"
  by (simp_all add: astore_of_def)

text \<open>Well-formed keyspace: the index keys have their kinds and every other key holds a string.\<close>

definition wf_keys :: "'b keyspace \<Rightarrow> bool" where
  "wf_keys ks \<longleftrightarrow> is_set_key ks allTickets \<and> is_zset_key ks proposedTicketIDs \<and>
     is_zset_key ks backfillLastAckTime \<and> is_hash_key ks allBackfills \<and>
     (\<forall>i. i \<notin> reserved \<longrightarrow> is_string_key ks i)"

lemma wf_keysD:
  assumes "wf_keys ks"
  shows "is_set_key ks allTickets" "is_zset_key ks proposedTicketIDs"
    "is_zset_key ks backfillLastAckTime" "is_hash_key ks allBackfills"
    "i \<notin> reserved \<Longrightarrow> is_string_key ks i"
  using assms by (auto simp: wf_keys_def)

lemma wf_keys_empty [simp]: "wf_keys Map.empty"
  by (simp add: wf_keys_def key_kinds)

lemma str_of_None_iff: "wf_keys ks \<Longrightarrow> i \<notin> reserved \<Longrightarrow> str_of ks i = None \<longleftrightarrow> ks i = None"
  by (auto simp: str_of_def is_string_key_def dest!: wf_keysD(5) split: option.splits rval.splits)

text \<open>What each command the store issues does to the data.\<close>

lemma astore_SET:
  "i \<notin> reserved \<Longrightarrow> astore_of (redis_effect dbl (SET i b) ks) =
     (astore_of ks)\<lparr>objs := (str_of ks)(i \<mapsto> b), ttls := (ttl_of ks)(i := None)\<rparr>"
  by (auto simp: astore_of_def key_access)

lemma astore_SETNX:
  "i \<notin> reserved \<Longrightarrow> ks i = None \<Longrightarrow> astore_of (redis_effect dbl (SETNX i b) ks) =
     (astore_of ks)\<lparr>objs := (str_of ks)(i \<mapsto> b), ttls := (ttl_of ks)(i := None)\<rparr>"
  by (auto simp: astore_of_def key_access)

lemma astore_SETPX_XX:
  "i \<notin> reserved \<Longrightarrow> ks i \<noteq> None \<Longrightarrow> astore_of (redis_effect dbl (SETPX_XX i b px) ks) =
     (astore_of ks)\<lparr>objs := (str_of ks)(i \<mapsto> b), ttls := (ttl_of ks)(i \<mapsto> px)\<rparr>"
  by (auto simp: astore_of_def key_access)

lemma astore_DEL:
  "i \<notin> reserved \<Longrightarrow> astore_of (redis_effect dbl (DEL i) ks) =
     (astore_of ks)\<lparr>objs := (str_of ks)(i := None), ttls := (ttl_of ks)(i := None)\<rparr>"
  by (auto simp: astore_of_def key_access)

lemma coll_key_str:
  "is_set_key ks k \<or> is_zset_key ks k \<or> is_hash_key ks k \<Longrightarrow> str_of ks k = None \<and> ttl_of ks k = None"
  by (cases "ks k"; cases "the (ks k)") (auto simp: key_kinds str_of_def ttl_of_def)

lemma reserved_cases:
  assumes "i \<in> reserved"
  obtains "i = allTickets" | "i = proposedTicketIDs" | "i = backfillLastAckTime" | "i = allBackfills"
  using assms unfolding reserved_def by blast

lemma str_of_reserved:
  assumes "wf_keys ks" and "i \<in> reserved"
  shows "str_of ks i = None" "ttl_of ks i = None"
  using assms(2) wf_keysD(1-4) [OF assms(1)] coll_key_str [of ks i]
  by (cases rule: reserved_cases; simp)+

lemma astore_upd_reserved:
  assumes "wf_keys ks" and "i \<in> reserved" and "\<forall>b t. v \<noteq> Some (RString b t)"
  shows "str_of (ks(i := v)) = str_of ks" "ttl_of (ks(i := v)) = ttl_of ks"
proof -
  have "str_of (ks(i := v)) j = str_of ks j \<and> ttl_of (ks(i := v)) j = ttl_of ks j" for j
    using assms str_of_reserved [OF assms(1,2)]
    by (cases "j = i") (auto simp: str_of_def ttl_of_def split: option.splits rval.splits)
  then show "str_of (ks(i := v)) = str_of ks" "ttl_of (ks(i := v)) = ttl_of ks" by auto
qed

lemma zset_of_upd: "zset_of (ks(k := v)) k' = (if k' = k then (case v of Some (RZset z) \<Rightarrow> z | _ \<Rightarrow> Map.empty) else zset_of ks k')"
  by (simp add: zset_of_def)

lemma set_of_upd: "set_of (ks(k := v)) k' = (if k' = k then (case v of Some (RSet z) \<Rightarrow> z | _ \<Rightarrow> {}) else set_of ks k')"
  by (simp add: set_of_def)

lemma hash_of_upd: "hash_of (ks(k := v)) k' = (if k' = k then (case v of Some (RHash z) \<Rightarrow> z | _ \<Rightarrow> Map.empty) else hash_of ks k')"
  by (simp add: hash_of_def)

lemmas coll_upd = zset_of_upd set_of_upd hash_of_upd

lemma astore_SADD:
  "wf_keys ks \<Longrightarrow> astore_of (redis_effect dbl (SADD allTickets m) ks) =
     (astore_of ks)\<lparr>tindex := insert m (set_of ks allTickets)\<rparr>"
  by (simp add: astore_of_def coll_upd astore_upd_reserved)

lemma astore_SREM:
  "wf_keys ks \<Longrightarrow> astore_of (redis_effect dbl (SREM allTickets m) ks) =
     (astore_of ks)\<lparr>tindex := set_of ks allTickets - {m}\<rparr>"
  by (auto simp: Let_def astore_of_def coll_upd astore_upd_reserved)

lemma astore_ZADD_pending:
  "wf_keys ks \<Longrightarrow> astore_of (redis_effect dbl (ZADD proposedTicketIDs ps) ks) =
     (astore_of ks)\<lparr>pending := fold (\<lambda>(sc, m) z. z(m \<mapsto> dbl sc)) ps (zset_of ks proposedTicketIDs)\<rparr>"
  by (simp add: astore_of_def coll_upd astore_upd_reserved)

lemma astore_ZREM_pending:
  "wf_keys ks \<Longrightarrow> astore_of (redis_effect dbl (ZREM proposedTicketIDs ms) ks) =
     (astore_of ks)\<lparr>pending := zset_of ks proposedTicketIDs |` (- set ms)\<rparr>"
  by (auto simp: Let_def astore_of_def coll_upd astore_upd_reserved)

lemma astore_DEL_pending:
  "wf_keys ks \<Longrightarrow> astore_of (redis_effect dbl (DEL proposedTicketIDs) ks) =
     (astore_of ks)\<lparr>pending := Map.empty\<rparr>"
  by (simp add: astore_of_def coll_upd astore_upd_reserved)

lemma astore_ZADD_ack:
  "wf_keys ks \<Longrightarrow> astore_of (redis_effect dbl (ZADD backfillLastAckTime [(sc, m)]) ks) =
     (astore_of ks)\<lparr>acks := (zset_of ks backfillLastAckTime)(m \<mapsto> dbl sc)\<rparr>"
  by (simp add: astore_of_def coll_upd astore_upd_reserved)

lemma astore_ZREM_ack:
  "wf_keys ks \<Longrightarrow> astore_of (redis_effect dbl (ZREM backfillLastAckTime [m]) ks) =
     (astore_of ks)\<lparr>acks := (zset_of ks backfillLastAckTime)(m := None)\<rparr>"
  by (auto simp: Let_def astore_of_def coll_upd astore_upd_reserved restrict_map_def fun_eq_iff)

lemma astore_HSET:
  "wf_keys ks \<Longrightarrow> astore_of (redis_effect dbl (HSET allBackfills f v) ks) =
     (astore_of ks)\<lparr>bindex := (hash_of ks allBackfills)(f \<mapsto> itoa v)\<rparr>"
  by (simp add: astore_of_def coll_upd astore_upd_reserved)

lemma astore_HDEL:
  "wf_keys ks \<Longrightarrow> astore_of (redis_effect dbl (HDEL allBackfills f) ks) =
     (astore_of ks)\<lparr>bindex := (hash_of ks allBackfills)(f := None)\<rparr>"
  by (auto simp: Let_def astore_of_def coll_upd astore_upd_reserved)

lemmas astore_effects = astore_SET astore_SETNX astore_SETPX_XX astore_DEL astore_SADD astore_SREM
  astore_ZADD_pending astore_ZREM_pending astore_DEL_pending astore_ZADD_ack astore_ZREM_ack
  astore_HSET astore_HDEL

text \<open>No command breaks the kinds of the keys, as long as strings are stored under ids only.\<close>

lemma is_key_upd:
  "is_set_key (ks(k := v)) j = (if j = k then is_set_key (\<lambda>_. v) j else is_set_key ks j)"
  "is_zset_key (ks(k := v)) j = (if j = k then is_zset_key (\<lambda>_. v) j else is_zset_key ks j)"
  "is_hash_key (ks(k := v)) j = (if j = k then is_hash_key (\<lambda>_. v) j else is_hash_key ks j)"
  "is_string_key (ks(k := v)) j = (if j = k then is_string_key (\<lambda>_. v) j else is_string_key ks j)"
  by (simp_all add: key_kinds)

lemma is_key_const [simp]:
  "is_set_key (\<lambda>_. None) j" "is_zset_key (\<lambda>_. None) j" "is_hash_key (\<lambda>_. None) j"
  "is_string_key (\<lambda>_. None) j" "is_set_key (\<lambda>_. Some (RSet S)) j" "is_zset_key (\<lambda>_. Some (RZset z)) j"
  "is_hash_key (\<lambda>_. Some (RHash h)) j" "is_string_key (\<lambda>_. Some (RString b t)) j"
  by (simp_all add: key_kinds)

lemma wf_keys_string: "wf_keys ks \<Longrightarrow> i \<notin> reserved \<Longrightarrow> wf_keys (ks(i \<mapsto> RString b t))"
  by (auto simp: wf_keys_def is_key_upd)

lemma wf_keys_DEL: "wf_keys ks \<Longrightarrow> wf_keys (ks(i := None))"
  by (auto simp: wf_keys_def is_key_upd)

lemma wf_keys_effect:
  "wf_keys ks \<Longrightarrow> i \<notin> reserved \<Longrightarrow> wf_keys (redis_effect dbl (SET i b) ks)"
  "wf_keys ks \<Longrightarrow> i \<notin> reserved \<Longrightarrow> wf_keys (redis_effect dbl (SETNX i b) ks)"
  "wf_keys ks \<Longrightarrow> i \<notin> reserved \<Longrightarrow> wf_keys (redis_effect dbl (SETPX_XX i b px) ks)"
  "wf_keys ks \<Longrightarrow> wf_keys (redis_effect dbl (DEL i) ks)"
  by (simp_all add: wf_keys_string wf_keys_DEL)

lemma wf_keys_coll:
  "wf_keys ks \<Longrightarrow> wf_keys (redis_effect dbl (SADD allTickets m) ks)"
  "wf_keys ks \<Longrightarrow> wf_keys (redis_effect dbl (SREM allTickets m) ks)"
  "wf_keys ks \<Longrightarrow> wf_keys (redis_effect dbl (ZADD proposedTicketIDs ps) ks)"
  "wf_keys ks \<Longrightarrow> wf_keys (redis_effect dbl (ZREM proposedTicketIDs ms) ks)"
  "wf_keys ks \<Longrightarrow> wf_keys (redis_effect dbl (ZADD backfillLastAckTime ps) ks)"
  "wf_keys ks \<Longrightarrow> wf_keys (redis_effect dbl (ZREM backfillLastAckTime ms) ks)"
  "wf_keys ks \<Longrightarrow> wf_keys (redis_effect dbl (HSET allBackfills f v) ks)"
  "wf_keys ks \<Longrightarrow> wf_keys (redis_effect dbl (HDEL allBackfills f) ks)"
  by (auto simp: wf_keys_def is_key_upd Let_def)

end
