(* ===== verification/Store_Service.thy ===== *)
theory Store_Service
  imports Redis
begin

text \<open>
  The interface \<open>statestore.Service\<close> (\<open>internal/statestore/public.go\<close>) as a record of operations, and
  its contract: what each operation promises, as a function on the abstract store of \<open>Redis\<close>. The
  locale \<open>statestore\<close> states the contract over any implementation; the services that use a store
  are verified against it, and \<open>Redis_Backend\<close> shows that the Redis implementation meets it.
\<close>

section \<open>Abstract operations\<close>

text \<open>Tickets. \<open>enc\<close> and \<open>dec\<close> are the serialisation functions, \<open>dbl\<close> rounds a time to a score.\<close>

definition as_CreateTicket :: "(ticket \<Rightarrow> 'b option) \<Rightarrow> ticket \<Rightarrow> 'b astore \<Rightarrow> unit res \<times> 'b astore" where
  "as_CreateTicket enc t a =
    (case enc t of
       None \<Rightarrow> (Inl (Status Internal), a)
     | Some b \<Rightarrow> (Inr (), a\<lparr>objs := (objs a)(t_Id t \<mapsto> b), ttls := (ttls a)(t_Id t := None)\<rparr>))"

definition as_GetTicket :: "('b \<Rightarrow> ticket option) \<Rightarrow> string \<Rightarrow> 'b astore \<Rightarrow> ticket res" where
  "as_GetTicket dec i a =
    (case objs a i of
       None \<Rightarrow> Inl (Status NotFound)
     | Some b \<Rightarrow> (case dec b of None \<Rightarrow> Inl (Status Internal) | Some t \<Rightarrow> Inr t))"

definition as_DeleteTicket :: "string \<Rightarrow> 'b astore \<Rightarrow> unit res \<times> 'b astore" where
  "as_DeleteTicket i a =
    (if objs a i = None then (Inl (Status NotFound), a)
     else (Inr (), a\<lparr>objs := (objs a)(i := None), ttls := (ttls a)(i := None)\<rparr>))"

text \<open>Ids whose score falls between two times.\<close>

definition scored :: "(int \<Rightarrow> int) \<Rightarrow> (string \<rightharpoonup> int) \<Rightarrow> int \<Rightarrow> int \<Rightarrow> string set" where
  "scored dbl z lo hi = {i. \<exists>sc. z i = Some sc \<and> dbl lo \<le> sc \<and> sc \<le> dbl hi}"

definition as_GetIndexedIDSet :: "(int \<Rightarrow> int) \<Rightarrow> int \<Rightarrow> int \<Rightarrow> 'b astore \<Rightarrow> string set" where
  "as_GetIndexedIDSet dbl ttl now a = tindex a - scored dbl (pending a) (now - ttl) (now + Hour)"

definition as_GetTickets :: "('b \<Rightarrow> ticket option) \<Rightarrow> string list \<Rightarrow> 'b astore \<Rightarrow> ticket list res" where
  "as_GetTickets dec ids a =
    (case those (map dec (List.map_filter (objs a) ids)) of
       None \<Rightarrow> Inl (Status Internal)
     | Some ts \<Rightarrow> Inr ts)"

definition as_AddPending :: "(int \<Rightarrow> int) \<Rightarrow> string list \<Rightarrow> int \<Rightarrow> 'b astore \<Rightarrow> 'b astore" where
  "as_AddPending dbl ids now a =
    a\<lparr>pending := (\<lambda>i. if i \<in> set ids then Some (dbl now) else pending a i)\<rparr>"

definition as_DeletePending :: "string list \<Rightarrow> 'b astore \<Rightarrow> 'b astore" where
  "as_DeletePending ids a = a\<lparr>pending := pending a |` (- set ids)\<rparr>"

text \<open>
  Assignments. A request is valid when every group has an assignment, no id occurs twice and there
  is an id. Missing tickets are reported as failures in the order of the request; the others get
  their assignment and a time to live.
\<close>

definition assign_ids :: "assignment_group list \<Rightarrow> string list" where
  "assign_ids gs = concat (map ag_TicketIds gs)"

definition assign_valid :: "assignment_group list \<Rightarrow> bool" where
  "assign_valid gs \<longleftrightarrow> list_all (\<lambda>g. ag_Assignment g \<noteq> None) gs \<and> distinct (assign_ids gs) \<and> assign_ids gs \<noteq> []"

definition assign_pairs :: "assignment_group list \<Rightarrow> (string \<times> assignment) list" where
  "assign_pairs gs = concat (map (\<lambda>g. map (\<lambda>i. (i, the (ag_Assignment g))) (ag_TicketIds g)) gs)"

definition assign_map :: "assignment_group list \<Rightarrow> string \<rightharpoonup> assignment" where
  "assign_map gs = map_of (assign_pairs gs)"

lemma fst_assign_pairs [simp]: "fst ` set (assign_pairs gs) = set (assign_ids gs)"
  by (force simp: assign_pairs_def assign_ids_def)

definition assigned :: "assignment_group list \<Rightarrow> ticket \<Rightarrow> ticket" where
  "assigned gs t = t\<lparr>t_Assignment := assign_map gs (t_Id t)\<rparr>"

definition not_found_failure :: "string \<Rightarrow> assignment_failure" where
  "not_found_failure i = \<lparr>af_TicketId = i, af_Cause = TICKET_NOT_FOUND\<rparr>"

definition store_all :: "int \<Rightarrow> (string \<times> 'b) list \<Rightarrow> 'b astore \<Rightarrow> 'b astore" where
  "store_all px xs a = a\<lparr>objs := fold (\<lambda>(i, b) m. m(i \<mapsto> b)) xs (objs a),
     ttls := fold (\<lambda>(i, b) m. m(i \<mapsto> px)) xs (ttls a)\<rparr>"

definition as_UpdateAssignments :: "(ticket \<Rightarrow> 'b option) \<Rightarrow> ('b \<Rightarrow> ticket option) \<Rightarrow> int \<Rightarrow>
    assignment_group list \<Rightarrow> 'b astore \<Rightarrow> (assign_response \<times> ticket list) res \<times> 'b astore" where
  "as_UpdateAssignments enc dec px gs a =
    (if gs = [] then (Inr ([], []), a)
     else if \<not> assign_valid gs then (Inl (Status InvalidArgument), a)
     else case those (map dec (List.map_filter (objs a) (assign_ids gs))) of
            None \<Rightarrow> (Inl (Status Internal), a)
          | Some ts \<Rightarrow>
              (case those (map (enc \<circ> assigned gs) ts) of
                 None \<Rightarrow> (Inl (Status Internal), a)
               | Some bs \<Rightarrow>
                   (Inr (map not_found_failure (filter (\<lambda>i. objs a i = None) (assign_ids gs)),
                         map (assigned gs) ts),
                    store_all px (zip (map t_Id ts) bs) a)))"

text \<open>Every value stored under one of the ids, if it is a ticket at all, is the ticket of that id.\<close>

definition tickets_at :: "('b \<Rightarrow> ticket option) \<Rightarrow> string list \<Rightarrow> 'b astore \<Rightarrow> bool" where
  "tickets_at dec ids a \<longleftrightarrow> (\<forall>i \<in> set ids. \<forall>b t. objs a i = Some b \<longrightarrow> dec b = Some t \<longrightarrow> t_Id t = i)"

section \<open>Abstract operations on backfills\<close>

definition as_CreateBackfill :: "(backfill_internal \<Rightarrow> 'b option) \<Rightarrow> (int \<Rightarrow> int) \<Rightarrow> backfill \<Rightarrow> string list \<Rightarrow>
    int \<Rightarrow> 'b astore \<Rightarrow> unit res \<times> 'b astore" where
  "as_CreateBackfill enc dbl bf tids now a =
    (case enc \<lparr>bi_Backfill = Some bf, bi_TicketIds = tids\<rparr> of
       None \<Rightarrow> (Inl (Status Internal), a)
     | Some b \<Rightarrow>
         if objs a (bf_Id bf) \<noteq> None then (Inl (Status AlreadyExists), a)
         else (Inr (), a\<lparr>objs := (objs a)(bf_Id bf \<mapsto> b), ttls := (ttls a)(bf_Id bf := None),
                        acks := (acks a)(bf_Id bf \<mapsto> dbl now)\<rparr>))"

definition as_GetBackfill :: "('b \<Rightarrow> backfill_internal option) \<Rightarrow> string \<Rightarrow> 'b astore \<Rightarrow>
    (backfill option \<times> string list) res" where
  "as_GetBackfill dec i a =
    (case objs a i of
       None \<Rightarrow> Inl (Status NotFound)
     | Some b \<Rightarrow> (case dec b of None \<Rightarrow> Inl (Status Internal)
                  | Some bi \<Rightarrow> Inr (bi_Backfill bi, bi_TicketIds bi)))"

text \<open>Several backfills: in the order of the request, those that were found under their own id.\<close>

definition backfill_table :: "backfill_internal list \<Rightarrow> string \<rightharpoonup> backfill" where
  "backfill_table bis =
    fold (\<lambda>bi m. case bi_Backfill bi of None \<Rightarrow> m | Some b \<Rightarrow> m(bf_Id b \<mapsto> b)) bis Map.empty"

definition as_GetBackfills :: "('b \<Rightarrow> backfill_internal option) \<Rightarrow> string list \<Rightarrow> 'b astore \<Rightarrow> backfill list res" where
  "as_GetBackfills dec ids a =
    (case those (map dec (List.map_filter (objs a) ids)) of
       None \<Rightarrow> Inl (Status Internal)
     | Some bis \<Rightarrow> Inr (List.map_filter (backfill_table bis) ids))"

definition as_DeleteBackfill :: "string \<Rightarrow> 'b astore \<Rightarrow> unit res \<times> 'b astore" where
  "as_DeleteBackfill i a =
    (if objs a i = None then (Inl (Status NotFound), a)
     else (Inr (), a\<lparr>objs := (objs a)(i := None), ttls := (ttls a)(i := None), acks := (acks a)(i := None)\<rparr>))"

text \<open>A backfill is expired when its last acknowledgement is older than the release timeout.\<close>

definition as_expired :: "int \<Rightarrow> int \<Rightarrow> string \<Rightarrow> 'b astore \<Rightarrow> bool res" where
  "as_expired ttl now i a =
    (case acks a i of None \<Rightarrow> Inl (Status Internal) | Some sc \<Rightarrow> Inr (sc < now - ttl))"

definition as_UpdateBackfill :: "(backfill_internal \<Rightarrow> 'b option) \<Rightarrow> int \<Rightarrow> backfill \<Rightarrow> string list \<Rightarrow>
    int \<Rightarrow> 'b astore \<Rightarrow> unit res \<times> 'b astore" where
  "as_UpdateBackfill enc ttl bf tids now a =
    (case as_expired ttl now (bf_Id bf) a of
       Inl e \<Rightarrow> (Inl e, a)
     | Inr True \<Rightarrow> (Inl (Status Unavailable), a)
     | Inr False \<Rightarrow>
         (case enc \<lparr>bi_Backfill = Some bf, bi_TicketIds = tids\<rparr> of
            None \<Rightarrow> (Inl (Status Internal), a)
          | Some b \<Rightarrow> (Inr (), a\<lparr>objs := (objs a)(bf_Id bf \<mapsto> b), ttls := (ttls a)(bf_Id bf := None)\<rparr>)))"

definition as_Acknowledge :: "(int \<Rightarrow> int) \<Rightarrow> int \<Rightarrow> string \<Rightarrow> int \<Rightarrow> int \<Rightarrow> 'b astore \<Rightarrow> unit res \<times> 'b astore" where
  "as_Acknowledge dbl ttl i now now' a =
    (case as_expired ttl now i a of
       Inl e \<Rightarrow> (Inl e, a)
     | Inr True \<Rightarrow> (Inl (Status Unavailable), a)
     | Inr False \<Rightarrow> (Inr (), a\<lparr>acks := (acks a)(i \<mapsto> dbl now')\<rparr>))"

definition as_IndexBackfill :: "backfill \<Rightarrow> 'b astore \<Rightarrow> 'b astore" where
  "as_IndexBackfill bf a = a\<lparr>bindex := (bindex a)(bf_Id bf \<mapsto> itoa (sint (bf_Generation bf)))\<rparr>"

definition as_DeindexBackfill :: "string \<Rightarrow> 'b astore \<Rightarrow> 'b astore" where
  "as_DeindexBackfill i a = a\<lparr>bindex := (bindex a)(i := None)\<rparr>"

text \<open>The indexed backfills that are acknowledged within the timeout, with their generations.\<close>

definition as_GetIndexedBackfills :: "(int \<Rightarrow> int) \<Rightarrow> int \<Rightarrow> int \<Rightarrow> 'b astore \<Rightarrow> (string \<rightharpoonup> int) res" where
  "as_GetIndexedBackfills dbl ttl now a =
    (let live = scored dbl (acks a) (now - ttl) (now + Hour) in
     if \<exists>i \<in> live. \<exists>g. bindex a i = Some g \<and> atoi g = None then Inl (Status Internal)
     else Inr (\<lambda>i. if i \<in> live then Option.bind (bindex a i) atoi else None))"

definition as_DeleteCompletely :: "('b \<Rightarrow> backfill_internal option) \<Rightarrow> string \<Rightarrow> 'b astore \<Rightarrow> 'b astore" where
  "as_DeleteCompletely dec i a =
    (let a1 = as_DeindexBackfill i a;
         tids = (case as_GetBackfill dec i a1 of Inl _ \<Rightarrow> [] | Inr (_, tids) \<Rightarrow> tids)
     in snd (as_DeleteBackfill i (as_DeletePending tids a1)))"

section \<open>The interface\<close>

text \<open>
  One field per method. \<open>GetAssignments\<close> takes the number of polls to run (see \<open>Ticket_Store\<close>) and
  the state of its callback, of type \<open>'c\<close>. The two mutex fields are \<open>NewMutex(key).Lock\<close> and
  \<open>NewMutex(key).Unlock\<close>.
\<close>

record ('s, 'c) service =
  HealthCheck :: "'s \<Rightarrow> unit res \<times> 's"
  CreateTicket :: "ticket \<Rightarrow> 's \<Rightarrow> unit res \<times> 's"
  GetTicket :: "string \<Rightarrow> 's \<Rightarrow> ticket res \<times> 's"
  DeleteTicket :: "string \<Rightarrow> 's \<Rightarrow> unit res \<times> 's"
  IndexTicket :: "ticket \<Rightarrow> 's \<Rightarrow> unit res \<times> 's"
  DeindexTicket :: "string \<Rightarrow> 's \<Rightarrow> unit res \<times> 's"
  GetIndexedIDSet :: "'s \<Rightarrow> string set res \<times> 's"
  GetTickets :: "string list \<Rightarrow> 's \<Rightarrow> ticket list res \<times> 's"
  UpdateAssignments :: "assignment_group list \<Rightarrow> 's \<Rightarrow> (assign_response \<times> ticket list) res \<times> 's"
  GetAssignments :: "nat \<Rightarrow> string \<Rightarrow> (assignment option \<Rightarrow> 'c \<Rightarrow> go_error option \<times> 'c) \<Rightarrow>
    'c \<Rightarrow> 's \<Rightarrow> (go_error \<times> 'c \<times> 's) option"
  AddTicketsToPendingRelease :: "string list \<Rightarrow> 's \<Rightarrow> unit res \<times> 's"
  DeleteTicketsFromPendingRelease :: "string list \<Rightarrow> 's \<Rightarrow> unit res \<times> 's"
  ReleaseAllTickets :: "'s \<Rightarrow> unit res \<times> 's"
  CreateBackfill :: "backfill \<Rightarrow> string list \<Rightarrow> 's \<Rightarrow> unit res \<times> 's"
  GetBackfill :: "string \<Rightarrow> 's \<Rightarrow> (backfill option \<times> string list) res \<times> 's"
  GetBackfills :: "string list \<Rightarrow> 's \<Rightarrow> backfill list res \<times> 's"
  DeleteBackfill :: "string \<Rightarrow> 's \<Rightarrow> unit res \<times> 's"
  DeleteBackfillCompletely :: "string \<Rightarrow> 's \<Rightarrow> unit res \<times> 's"
  UpdateBackfill :: "backfill \<Rightarrow> string list \<Rightarrow> 's \<Rightarrow> unit res \<times> 's"
  MutexLock :: "string \<Rightarrow> 's \<Rightarrow> go_error option \<times> 's"
  MutexUnlock :: "string \<Rightarrow> 's \<Rightarrow> go_error option \<times> 's"
  CleanupBackfills :: "'s \<Rightarrow> unit res \<times> 's"
  UpdateAcknowledgmentTimestamp :: "string \<Rightarrow> 's \<Rightarrow> unit res \<times> 's"
  GetExpiredBackfillIDs :: "'s \<Rightarrow> string list res \<times> 's"
  IndexBackfill :: "backfill \<Rightarrow> 's \<Rightarrow> unit res \<times> 's"
  DeindexBackfill :: "string \<Rightarrow> 's \<Rightarrow> unit res \<times> 's"
  GetIndexedBackfills :: "'s \<Rightarrow> (string \<rightharpoonup> int) res \<times> 's"

text \<open>
  \<open>meets_at\<close>: in the state \<open>s\<close> the operation establishes the invariant \<open>good\<close>, and relates the abstract
  stores before and after as \<open>P\<close> says for two times \<open>now \<le> now'\<close> that pass during the call.
  \<open>meets\<close>: it does so in every state that satisfies the invariant.
\<close>

definition meets_at :: "('s \<Rightarrow> bool) \<Rightarrow> ('s \<Rightarrow> 'b astore) \<Rightarrow> ('s \<Rightarrow> int) \<Rightarrow> ('s \<Rightarrow> 'r \<times> 's) \<Rightarrow>
    (int \<Rightarrow> int \<Rightarrow> 'b astore \<Rightarrow> 'r \<Rightarrow> 'b astore \<Rightarrow> bool) \<Rightarrow> 's \<Rightarrow> bool" where
  "meets_at good store clock f P s \<longleftrightarrow>
    (\<exists>now now'. clock s \<le> now \<and> now \<le> now' \<and> now' \<le> clock (snd (f s)) \<and>
       good (snd (f s)) \<and> P now now' (store s) (fst (f s)) (store (snd (f s))))"

definition meets :: "('s \<Rightarrow> bool) \<Rightarrow> ('s \<Rightarrow> 'b astore) \<Rightarrow> ('s \<Rightarrow> int) \<Rightarrow> ('s \<Rightarrow> 'r \<times> 's) \<Rightarrow>
    (int \<Rightarrow> int \<Rightarrow> 'b astore \<Rightarrow> 'r \<Rightarrow> 'b astore \<Rightarrow> bool) \<Rightarrow> bool" where
  "meets good store clock f P \<longleftrightarrow> (\<forall>s. good s \<longrightarrow> meets_at good store clock f P s)"

lemma meets_atE:
  assumes "meets_at good store clock f P s"
  obtains now now' r s' where "f s = (r, s')" "clock s \<le> now" "now \<le> now'" "now' \<le> clock s'" "good s'"
    "P now now' (store s) r (store s')"
proof -
  obtain r s' where "f s = (r, s')" by (cases "f s")
  with assms that show thesis unfolding meets_at_def by (metis fst_conv snd_conv)
qed

lemma meetsE:
  assumes "meets good store clock f P" and "good s"
  obtains now now' r s' where "f s = (r, s')" "clock s \<le> now" "now \<le> now'" "now' \<le> clock s'" "good s'"
    "P now now' (store s) r (store s')"
  using assms unfolding meets_def by (metis meets_atE)

lemma meets_atD:
  assumes "meets_at good store clock f P s" and "f s = (r, s')"
  obtains now now' where "clock s \<le> now" "now \<le> now'" "now' \<le> clock s'" "good s'" "P now now' (store s) r (store s')"
  using assms by (auto elim!: meets_atE)

lemma meetsD:
  assumes "meets good store clock f P" and "good s" and "f s = (r, s')"
  obtains now now' where "clock s \<le> now" "now \<le> now'" "now' \<le> clock s'" "good s'" "P now now' (store s) r (store s')"
proof -
  from assms(1,2) have "meets_at good store clock f P s" by (simp add: meets_def)
  then show thesis using assms(3) by (rule meets_atD) (rule that)
qed

lemma meets_weaken:
  "meets good store clock f P \<Longrightarrow> (\<And>now now' a r a'. now \<le> now' \<Longrightarrow> P now now' a r a' \<Longrightarrow> P' now now' a r a') \<Longrightarrow>
   meets good store clock f P'"
  unfolding meets_def meets_at_def by (meson order_trans)

section \<open>The contract\<close>

text \<open>
  \<open>good\<close> is the invariant of the implementation, \<open>store\<close> its abstraction function, \<open>clock\<close> its time.
  Ids passed to the operations are not names of index keys.
\<close>

locale statestore =
  fixes S :: "('s, 'c) service" and good :: "'s \<Rightarrow> bool" and store :: "'s \<Rightarrow> 'b astore" and clock :: "'s \<Rightarrow> int"
    and dbl :: "int \<Rightarrow> int" and encT :: "ticket \<Rightarrow> 'b option" and decT :: "'b \<Rightarrow> ticket option"
    and encB :: "backfill_internal \<Rightarrow> 'b option" and decB :: "'b \<Rightarrow> backfill_internal option"
    and pttl :: int and bttl :: int and px :: int
  assumes create_ticket: "t_Id t \<notin> reserved \<Longrightarrow>
      meets good store clock (CreateTicket S t) (\<lambda>now now' a r a'. (r, a') = as_CreateTicket encT t a)"
    and get_ticket: "i \<notin> reserved \<Longrightarrow>
      meets good store clock (GetTicket S i) (\<lambda>now now' a r a'. r = as_GetTicket decT i a \<and> a' = a)"
    and delete_ticket: "i \<notin> reserved \<Longrightarrow>
      meets good store clock (DeleteTicket S i) (\<lambda>now now' a r a'. (r, a') = as_DeleteTicket i a)"
    and index_ticket: "meets good store clock (IndexTicket S t)
      (\<lambda>now now' a r a'. r = Inr () \<and> a' = a\<lparr>tindex := insert (t_Id t) (tindex a)\<rparr>)"
    and deindex_ticket: "meets good store clock (DeindexTicket S i)
      (\<lambda>now now' a r a'. r = Inr () \<and> a' = a\<lparr>tindex := tindex a - {i}\<rparr>)"
    and get_indexed: "meets good store clock (GetIndexedIDSet S)
      (\<lambda>now now' a r' a'. a' = a \<and> r' = Inr (as_GetIndexedIDSet dbl pttl now a) \<and> finite (tindex a))"
    and get_tickets: "meets good store clock (GetTickets S ids)
      (\<lambda>now now' a rts a'. a' = a \<and> rts = as_GetTickets decT ids a)"
    and update_assignments: "good s \<Longrightarrow> \<forall>i \<in> set (assign_ids gs). i \<notin> reserved \<Longrightarrow>
      tickets_at decT (assign_ids gs) (store s) \<Longrightarrow>
      meets_at good store clock (UpdateAssignments S gs)
        (\<lambda>now now' a ra a'. (ra, a') = as_UpdateAssignments encT decT px gs a) s"
    and add_pending: "meets good store clock (AddTicketsToPendingRelease S ids)
      (\<lambda>now now' a r a'. r = Inr () \<and> a' = as_AddPending dbl ids now a)"
    and delete_pending: "meets good store clock (DeleteTicketsFromPendingRelease S ids)
      (\<lambda>now now' a r a'. r = Inr () \<and> a' = as_DeletePending ids a)"
    and release_all: "meets good store clock (ReleaseAllTickets S)
      (\<lambda>now now' a r a'. r = Inr () \<and> a' = a\<lparr>pending := Map.empty\<rparr>)"
    and create_backfill: "bf_Id bf \<notin> reserved \<Longrightarrow>
      meets good store clock (CreateBackfill S bf tids)
        (\<lambda>now now' a r a'. (r, a') = as_CreateBackfill encB dbl bf tids now a)"
    and get_backfill: "i \<notin> reserved \<Longrightarrow>
      meets good store clock (GetBackfill S i) (\<lambda>now now' a rb a'. rb = as_GetBackfill decB i a \<and> a' = a)"
    and get_backfills: "meets good store clock (GetBackfills S ids)
      (\<lambda>now now' a rbs a'. a' = a \<and> rbs = as_GetBackfills decB ids a)"
    and delete_backfill: "i \<notin> reserved \<Longrightarrow>
      meets good store clock (DeleteBackfill S i) (\<lambda>now now' a r a'. (r, a') = as_DeleteBackfill i a)"
    and delete_completely: "i \<notin> reserved \<Longrightarrow>
      meets good store clock (DeleteBackfillCompletely S i)
        (\<lambda>now now' a r a'. r = Inr () \<and> a' = as_DeleteCompletely decB i a)"
    and update_backfill: "bf_Id bf \<notin> reserved \<Longrightarrow>
      meets good store clock (UpdateBackfill S bf tids)
        (\<lambda>now now' a r a'. (r, a') = as_UpdateBackfill encB bttl bf tids now a)"
    and mutex_lock: "meets good store clock (MutexLock S i) (\<lambda>now now' a re a'. re = None \<and> a' = a)"
    and mutex_unlock: "meets good store clock (MutexUnlock S i) (\<lambda>now now' a re a'. a' = a)"
    and cleanup: "good s \<Longrightarrow> dom (acks (store s)) \<inter> reserved = {} \<Longrightarrow>
      meets_at good store clock (CleanupBackfills S) (\<lambda>now now' a r a'. r = Inr () \<and>
        (\<exists>ids. distinct ids \<and> set ids = scored dbl (acks a) 0 (now - bttl) \<and>
          a' = fold (as_DeleteCompletely decB) ids a)) s"
    and acknowledge: "meets good store clock (UpdateAcknowledgmentTimestamp S i)
      (\<lambda>now now' a r a'. (r, a') = as_Acknowledge dbl bttl i now now' a)"
    and get_expired: "meets good store clock (GetExpiredBackfillIDs S) (\<lambda>now now' a rs a'. a' = a \<and>
      (\<exists>ids. rs = Inr ids \<and> distinct ids \<and> set ids = scored dbl (acks a) 0 (now - bttl)))"
    and index_backfill: "meets good store clock (IndexBackfill S bf)
      (\<lambda>now now' a r a'. r = Inr () \<and> a' = as_IndexBackfill bf a)"
    and deindex_backfill: "meets good store clock (DeindexBackfill S i)
      (\<lambda>now now' a r a'. r = Inr () \<and> a' = as_DeindexBackfill i a)"
    and get_indexed_backfills: "meets good store clock (GetIndexedBackfills S)
      (\<lambda>now now' a rm a'. a' = a \<and> rm = as_GetIndexedBackfills dbl bttl now a \<and>
        finite (scored dbl (acks a) (now - bttl) (now + Hour)))"
    and codecT: "encT t = Some b \<Longrightarrow> decT b = Some t"
    and codecB: "encB bi = Some b \<Longrightarrow> decB b = Some bi"
    and score_mono: "x \<le> y \<Longrightarrow> dbl x \<le> dbl y"
    and score_near: "\<bar>x\<bar> \<le> 2 ^ 61 \<Longrightarrow> \<bar>dbl x - x\<bar> \<le> 128"

end
