(* ===== verification/Ticket_Store.thy ===== *)
theory Ticket_Store
  imports Store_Service
begin

text \<open>
  The ticket half of the Redis state store (\<open>internal/statestore/ticket.go\<close>): creation, retrieval
  and deletion of tickets, the ticket index, the pending-release set, assignments, and the health
  check. Every operation is a state transformer over the environment of \<open>Redis\<close>; the \<open>redis_up\<close>
  section describes each one on a healthy server as a function of the keyspace.
\<close>

section \<open>Tickets\<close>

definition rb_CreateTicket :: "('s, 'b) env \<Rightarrow> ticket \<Rightarrow> 's \<Rightarrow> unit res \<times> 's" where
  "rb_CreateTicket E t = with_conn E (\<lambda>s.
     case MarshalTicket E t of
       None \<Rightarrow> (Inl (Status Internal), s)
     | Some value \<Rightarrow>
         (case Do E (SET (t_Id t) value) s of
            (Inl _, s') \<Rightarrow> (Inl (Status Internal), s')
          | (Inr _, s') \<Rightarrow> (Inr (), s')))"

definition rb_GetTicket :: "('s, 'b) env \<Rightarrow> string \<Rightarrow> 's \<Rightarrow> ticket res \<times> 's" where
  "rb_GetTicket E i = with_conn E (\<lambda>s.
     case Do E (GET i) s of (rep, s') \<Rightarrow>
       (case redisBytes E rep of
          Inl ErrNil \<Rightarrow> (Inl (Status NotFound), s')
        | Inl _ \<Rightarrow> (Inl (Status Internal), s')
        | Inr None \<Rightarrow> (Inl (Status NotFound), s')
        | Inr (Some value) \<Rightarrow>
            (case UnmarshalTicket E value of
               None \<Rightarrow> (Inl (Status Internal), s')
             | Some t \<Rightarrow> (Inr t, s'))))"

definition rb_DeleteTicket :: "('s, 'b) env \<Rightarrow> string \<Rightarrow> 's \<Rightarrow> unit res \<times> 's" where
  "rb_DeleteTicket E i = with_conn E (\<lambda>s.
     case Do E (DEL i) s of (rep, s') \<Rightarrow>
       (case redisInt E rep of
          Inl _ \<Rightarrow> (Inl (Status Internal), s')
        | Inr value \<Rightarrow> if value = 0 then (Inl (Status NotFound), s') else (Inr (), s')))"

section \<open>The ticket index\<close>

text \<open>The two updates of the index are only buffered: their replies are never read.\<close>

definition rb_IndexTicket :: "('s, 'b) env \<Rightarrow> ticket \<Rightarrow> 's \<Rightarrow> unit res \<times> 's" where
  "rb_IndexTicket E t = with_conn E (\<lambda>s.
     case Send E (SADD allTickets (t_Id t)) s of
       (Some _, s') \<Rightarrow> (Inl (Status Internal), s')
     | (None, s') \<Rightarrow> (Inr (), s'))"

definition rb_DeindexTicket :: "('s, 'b) env \<Rightarrow> string \<Rightarrow> 's \<Rightarrow> unit res \<times> 's" where
  "rb_DeindexTicket E i = with_conn E (\<lambda>s.
     case Send E (SREM allTickets i) s of
       (Some _, s') \<Rightarrow> (Inl (Status Internal), s')
     | (None, s') \<Rightarrow> (Inr (), s'))"

definition rb_GetIndexedIDSet :: "config_view \<Rightarrow> ('s, 'b) env \<Rightarrow> 's \<Rightarrow> string set res \<times> 's" where
  "rb_GetIndexedIDSet cfg E = with_conn E (\<lambda>s.
     let ttl = GetDuration cfg ''pendingReleaseTimeout'';
         curTime = Now E s;
         endTimeInt = curTime + Hour;
         startTimeInt = curTime - ttl
     in case Do E (ZRANGEBYSCORE proposedTicketIDs startTimeInt endTimeInt) s of (rep, s') \<Rightarrow>
       (case redisStrings E rep of
          Inl _ \<Rightarrow> (Inl (Status Internal), s')
        | Inr idsInPendingReleases \<Rightarrow>
            (case Do E (SMEMBERS allTickets) s' of (rep', s'') \<Rightarrow>
               (case redisStrings E rep' of
                  Inl _ \<Rightarrow> (Inl (Status Internal), s'')
                | Inr idsIndexed \<Rightarrow>
                    (Inr (fold (\<lambda>i r. r - {i}) idsInPendingReleases
                            (fold insert idsIndexed {})), s'')))))"

text \<open>The decoding loop of \<open>GetTickets\<close>: a missing value is skipped, a malformed one is an error.\<close>

fun decode_tickets :: "('s, 'b) env \<Rightarrow> 'b option list \<Rightarrow> ticket list res" where
  "decode_tickets E [] = Inr []"
| "decode_tickets E (None # bs) = decode_tickets E bs"
| "decode_tickets E (Some b # bs) =
     (case UnmarshalTicket E b of
        None \<Rightarrow> Inl (Status Internal)
      | Some t \<Rightarrow> (case decode_tickets E bs of Inl e \<Rightarrow> Inl e | Inr ts \<Rightarrow> Inr (t # ts)))"

definition rb_GetTickets :: "('s, 'b) env \<Rightarrow> string list \<Rightarrow> 's \<Rightarrow> ticket list res \<times> 's" where
  "rb_GetTickets E ids s =
    (if ids = [] then (Inr [], s)
     else with_conn E (\<lambda>s.
       case Do E (MGET ids) s of (rep, s') \<Rightarrow>
         (case redisByteSlices E rep of
            Inl _ \<Rightarrow> (Inl (Status Internal), s')
          | Inr ticketBytes \<Rightarrow> (decode_tickets E ticketBytes, s'))) s)"

section \<open>Assignments\<close>

definition getAssignedDeleteTimeout :: "config_view \<Rightarrow> int" where
  "getAssignedDeleteTimeout cfg =
    (if \<not> IsSet cfg ''assignedDeleteTimeout'' then 10 * Minute
     else GetDuration cfg ''assignedDeleteTimeout'')"

text \<open>
  The validation loops of \<open>UpdateAssignments\<close>: they collect the ids in order and the assignment of
  each, and refuse a group without an assignment and an id that occurs twice.
\<close>

fun ua_ids :: "assignment \<Rightarrow> string list \<Rightarrow> (string \<rightharpoonup> assignment) \<times> string list \<Rightarrow>
    ((string \<rightharpoonup> assignment) \<times> string list) res" where
  "ua_ids a [] acc = Inr acc"
| "ua_ids a (i # is) (idToA, ids) =
     (if idToA i \<noteq> None then Inl (Status InvalidArgument)
      else ua_ids a is (idToA(i \<mapsto> a), ids @ [i]))"

fun ua_groups :: "assignment_group list \<Rightarrow> (string \<rightharpoonup> assignment) \<times> string list \<Rightarrow>
    ((string \<rightharpoonup> assignment) \<times> string list) res" where
  "ua_groups [] acc = Inr acc"
| "ua_groups (g # gs) acc =
     (case ag_Assignment g of
        None \<Rightarrow> Inl (Status InvalidArgument)
      | Some a \<Rightarrow>
          (case ua_ids a (ag_TicketIds g) acc of
             Inl e \<Rightarrow> Inl e
           | Inr acc' \<Rightarrow> ua_groups gs acc'))"

text \<open>The loop over the values read: failures for the missing tickets, the others decoded.\<close>

fun ua_read :: "('s, 'b) env \<Rightarrow> (string \<times> 'b option) list \<Rightarrow> assign_response \<Rightarrow> ticket list \<Rightarrow>
    (assign_response \<times> ticket list) res" where
  "ua_read E [] fs ts = Inr (fs, ts)"
| "ua_read E ((i, None) # xs) fs ts = ua_read E xs (fs @ [not_found_failure i]) ts"
| "ua_read E ((i, Some b) # xs) fs ts =
     (case UnmarshalTicket E b of
        None \<Rightarrow> Inl (Status Internal)
      | Some t \<Rightarrow> ua_read E xs fs (ts @ [t]))"

text \<open>The loop that queues the writes; it returns the tickets with their assignment set.\<close>

fun ua_send :: "('s, 'b) env \<Rightarrow> int \<Rightarrow> (string \<rightharpoonup> assignment) \<Rightarrow> ticket list \<Rightarrow> 's \<Rightarrow>
    ticket list res \<times> 's" where
  "ua_send E px idToA [] s = (Inr [], s)"
| "ua_send E px idToA (t # ts) s =
     (let t' = t\<lparr>t_Assignment := idToA (t_Id t)\<rparr> in
      case MarshalTicket E t' of
        None \<Rightarrow> (Inl (Status Internal), s)
      | Some b \<Rightarrow>
          (case Send E (SETPX_XX (t_Id t') b px) s of
             (Some e, s') \<Rightarrow> (Inl (Wrapped (RedisErr e)), s')
           | (None, s') \<Rightarrow>
               (case ua_send E px idToA ts s' of
                  (Inl e, s'') \<Rightarrow> (Inl e, s'')
                | (Inr ts', s'') \<Rightarrow> (Inr (t' # ts'), s''))))"

text \<open>The loop over the replies of the transaction.\<close>

fun ua_check :: "('s, 'b) env \<Rightarrow> (ticket \<times> 'b reply) list \<Rightarrow> assign_response \<Rightarrow> ticket list \<Rightarrow>
    (assign_response \<times> ticket list) res" where
  "ua_check E [] fs ts = Inr (fs, ts)"
| "ua_check E ((t, r) # xs) fs ts =
     (case redisString E r of
        Inl ErrNil \<Rightarrow> ua_check E xs (fs @ [not_found_failure (t_Id t)]) ts
      | Inl e \<Rightarrow> Inl (Wrapped (RedisErr e))
      | Inr v \<Rightarrow>
          if v \<noteq> ''OK'' then Inl (Status Internal) else ua_check E xs fs (ts @ [t]))"

text \<open>The part of \<open>UpdateAssignments\<close> from \<open>MULTI\<close> on.\<close>

definition ua_commit :: "config_view \<Rightarrow> ('s, 'b) env \<Rightarrow> (string \<rightharpoonup> assignment) \<Rightarrow> assign_response \<Rightarrow>
    ticket list \<Rightarrow> 's \<Rightarrow> (assign_response \<times> ticket list) res \<times> 's" where
  "ua_commit cfg E idToA fs tickets s =
    (let assignmentTimeout = go_div (getAssignedDeleteTimeout cfg) Millisecond in
     case Send E MULTI s of
       (Some e, s1) \<Rightarrow> (Inl (Wrapped (RedisErr e)), s1)
     | (None, s1) \<Rightarrow>
         (case ua_send E assignmentTimeout idToA tickets s1 of
            (Inl e, s2) \<Rightarrow> (Inl e, s2)
          | (Inr tickets', s2) \<Rightarrow>
              (case Do E EXEC s2 of (rep, s3) \<Rightarrow>
                 (case redisValues E rep of
                    Inl e \<Rightarrow> (Inl (Wrapped (RedisErr e)), s3)
                  | Inr wasSet \<Rightarrow>
                      if length wasSet \<noteq> length tickets' then (Inl (Status Internal), s3)
                      else (ua_check E (zip tickets' wasSet) fs [], s3)))))"

definition ua_body :: "config_view \<Rightarrow> ('s, 'b) env \<Rightarrow> assignment_group list \<Rightarrow> 's \<Rightarrow>
    (assign_response \<times> ticket list) res \<times> 's" where
  "ua_body cfg E groups s =
    (case ua_groups groups (Map.empty, []) of
       Inl e \<Rightarrow> (Inl e, s)
     | Inr (idToA, ids) \<Rightarrow>
         if ids = [] then (Inl (Status InvalidArgument), s)
         else (case Do E (MGET ids) s of (rep, s') \<Rightarrow>
                (case redisByteSlices E rep of
                   Inl e \<Rightarrow> (Inl (RedisErr e), s')
                 | Inr ticketBytes \<Rightarrow>
                     (case ua_read E (zip ids ticketBytes) [] [] of
                        Inl e \<Rightarrow> (Inl e, s')
                      | Inr (fs, tickets) \<Rightarrow> ua_commit cfg E idToA fs tickets s'))))"

definition rb_UpdateAssignments :: "config_view \<Rightarrow> ('s, 'b) env \<Rightarrow> assignment_group list \<Rightarrow> 's \<Rightarrow>
    (assign_response \<times> ticket list) res \<times> 's" where
  "rb_UpdateAssignments cfg E groups s =
    (if groups = [] then (Inr ([], []), s) else with_conn E (ua_body cfg E groups) s)"

text \<open>
  \<open>GetAssignments\<close> polls the ticket until reading it or the callback fails: there is no other way out
  of the retry loop. The model runs at most \<open>n\<close> polls; \<open>None\<close> means that it is still polling. The
  state \<open>'c\<close> is what the callback updates.
\<close>

fun ga_loop :: "nat \<Rightarrow> ('s, 'b) env \<Rightarrow> string \<Rightarrow> (assignment option \<Rightarrow> 'c \<Rightarrow> go_error option \<times> 'c) \<Rightarrow>
    'c \<Rightarrow> 's \<Rightarrow> (go_error \<times> 'c \<times> 's) option" where
  "ga_loop 0 E i callback c s = None"
| "ga_loop (Suc n) E i callback c s =
     (case rb_GetTicket E i s of
        (Inl e, s') \<Rightarrow> Some (e, c, s')
      | (Inr t, s') \<Rightarrow>
          (case callback (t_Assignment t) c of
             (Some e, c') \<Rightarrow> Some (e, c', s')
           | (None, c') \<Rightarrow> ga_loop n E i callback c' (Sleep E s')))"

definition rb_GetAssignments :: "nat \<Rightarrow> ('s, 'b) env \<Rightarrow> string \<Rightarrow>
    (assignment option \<Rightarrow> 'c \<Rightarrow> go_error option \<times> 'c) \<Rightarrow> 'c \<Rightarrow> 's \<Rightarrow> (go_error \<times> 'c \<times> 's) option" where
  "rb_GetAssignments n E i callback c s =
    (case GetContext E s of
       (Some _, s1) \<Rightarrow> Some (Status Unavailable, c, s1)
     | (None, s1) \<Rightarrow>
         (case ga_loop n E i callback c s1 of
            None \<Rightarrow> None
          | Some (e, c', s2) \<Rightarrow> Some (e, c', snd (Close E s2))))"

section \<open>Pending release\<close>

definition rb_AddTicketsToPendingRelease :: "('s, 'b) env \<Rightarrow> string list \<Rightarrow> 's \<Rightarrow> unit res \<times> 's" where
  "rb_AddTicketsToPendingRelease E ids s =
    (if ids = [] then (Inr (), s)
     else with_conn E (\<lambda>s.
       let currentTime = Now E s in
       case Do E (ZADD proposedTicketIDs (map (\<lambda>i. (currentTime, i)) ids)) s of
         (Inl _, s') \<Rightarrow> (Inl (Status Internal), s')
       | (Inr _, s') \<Rightarrow> (Inr (), s')) s)"

definition rb_DeleteTicketsFromPendingRelease :: "('s, 'b) env \<Rightarrow> string list \<Rightarrow> 's \<Rightarrow> unit res \<times> 's" where
  "rb_DeleteTicketsFromPendingRelease E ids s =
    (if ids = [] then (Inr (), s)
     else with_conn E (\<lambda>s.
       case Do E (ZREM proposedTicketIDs ids) s of
         (Inl _, s') \<Rightarrow> (Inl (Status Internal), s')
       | (Inr _, s') \<Rightarrow> (Inr (), s')) s)"

definition rb_ReleaseAllTickets :: "('s, 'b) env \<Rightarrow> 's \<Rightarrow> unit res \<times> 's" where
  "rb_ReleaseAllTickets E = with_conn E (\<lambda>s.
     case Do E (DEL proposedTicketIDs) s of
       (Inl e, s') \<Rightarrow> (Inl (RedisErr e), s')
     | (Inr _, s') \<Rightarrow> (Inr (), s'))"

text \<open>\<open>HealthCheck\<close> (\<open>redis.go\<close>) pings the server on a connection of its own pool.\<close>

definition rb_HealthCheck :: "('s, 'b) env \<Rightarrow> 's \<Rightarrow> unit res \<times> 's" where
  "rb_HealthCheck E = with_conn E (\<lambda>s.
     case Do E PING s of
       (Inl _, s') \<Rightarrow> (Inl (Status Unavailable), s')
     | (Inr _, s') \<Rightarrow> (Inr (), s'))"

section \<open>The loops of UpdateAssignments\<close>

lemma ua_ids_spec:
  "ua_ids a is (m, ids) =
    (if distinct is \<and> set is \<inter> dom m = {} then Inr (fold (\<lambda>i m. m(i \<mapsto> a)) is m, ids @ is)
     else Inl (Status InvalidArgument))"
  by (induction a "is" "(m, ids)" arbitrary: m ids rule: ua_ids.induct) auto

lemma fold_const_map_of: "distinct is \<Longrightarrow> fold (\<lambda>i m. m(i \<mapsto> a)) is m = m ++ map_of (map (\<lambda>i. (i, a)) is)"
  by (auto simp: fold_const_upd fun_eq_iff map_add_def map_of_map_restrict restrict_map_def split: option.splits)

lemma ua_groups_spec:
  "ua_groups gs (m, ids) =
    (if list_all (\<lambda>g. ag_Assignment g \<noteq> None) gs \<and> distinct (assign_ids gs) \<and> set (assign_ids gs) \<inter> dom m = {}
     then Inr (m ++ map_of (assign_pairs gs), ids @ assign_ids gs)
     else Inl (Status InvalidArgument))"
proof (induction gs "(m, ids)" arbitrary: m ids rule: ua_groups.induct)
  case 1
  show ?case by (simp add: assign_ids_def assign_pairs_def)
next
  case (2 g gs)
  show ?case
  proof (cases "ag_Assignment g")
    case None
    then show ?thesis by simp
  next
    case (Some a)
    let ?is = "ag_TicketIds g" and ?m = "fold (\<lambda>i m. m(i \<mapsto> a)) (ag_TicketIds g) m"
    have dom: "dom ?m = dom m \<union> set ?is" by (auto simp: fold_const_upd)
    show ?thesis
    proof (cases "distinct ?is \<and> set ?is \<inter> dom m = {}")
      case True
      have m: "?m ++ map_of (assign_pairs gs) = m ++ map_of (assign_pairs (g # gs))"
        if "set ?is \<inter> set (assign_ids gs) = {}"
      proof -
        let ?A = "map_of (map (\<lambda>i. (i, a)) ?is)" and ?B = "map_of (assign_pairs gs)"
        have "assign_pairs (g # gs) = map (\<lambda>i. (i, a)) ?is @ assign_pairs gs"
          by (simp add: assign_pairs_def Some)
        moreover have "?A ++ ?B = ?B ++ ?A"
          by (rule map_add_comm) (use that in \<open>auto simp: dom_map_of_conv_image_fst image_image\<close>)
        ultimately show ?thesis using True
          by (simp add: fold_const_map_of map_add_assoc [symmetric] del: map_add_assoc)
      qed
      show ?thesis
        using True Some 2 [OF Some, of "?m" "ids @ ?is"] dom m
        by (simp add: ua_ids_spec assign_ids_def) (metis (no_types, lifting) Int_commute Int_Un_distrib Un_empty)
    qed (use Some in \<open>auto simp: ua_ids_spec assign_ids_def\<close>)
  qed
qed

lemma ua_read_spec:
  "ua_read E (zip ids (map f ids)) fs ts =
    (case those (map (UnmarshalTicket E) (List.map_filter f ids)) of
       None \<Rightarrow> Inl (Status Internal)
     | Some xs \<Rightarrow> Inr (fs @ map not_found_failure (filter (\<lambda>i. f i = None) ids), ts @ xs))"
proof (induction ids arbitrary: fs ts)
  case (Cons i ids)
  then show ?case by (cases "f i") (auto simp: List.map_filter_simps split: option.splits)
qed (simp add: List.map_filter_simps)

lemma found_ids:
  assumes "those (map dec (List.map_filter f ids)) = Some ts" and "t \<in> set ts"
  shows "\<exists>i \<in> set ids. \<exists>b. f i = Some b \<and> dec b = Some t"
  using assms by (induction ids arbitrary: ts) (auto simp: List.map_filter_simps split: option.splits)

lemma ua_check_spec:
  assumes "\<And>str. redisString E (RStatus str) = Inr str"
  shows "ua_check E (zip xs (map (\<lambda>_. RStatus ''OK'') xs)) fs ts = Inr (fs, ts @ xs)"
  using assms by (induction xs arbitrary: ts) auto

lemma those_eq_Some_length: "those xs = Some ys \<Longrightarrow> length ys = length xs"
  by (induction xs arbitrary: ys) (auto split: option.splits)

text \<open>A transaction of conditional writes to existing keys.\<close>

definition set_cmds :: "int \<Rightarrow> (string \<times> 'b) list \<Rightarrow> 'b rcmd list" where
  "set_cmds px ps = map (\<lambda>(i, b). SETPX_XX i b px) ps"

lemma set_cmds_Cons: "set_cmds px ((i, b) # ps) = SETPX_XX i b px # set_cmds px ps"
  by (simp add: set_cmds_def)

lemma store_all_Cons: "store_all px (p # ps) a = store_all px ps (store_all px [p] a)"
  by (simp add: store_all_def)

lemma set_cmds_run:
  assumes "wf_keys ks" and "\<forall>i \<in> fst ` set ps. i \<notin> reserved \<and> ks i \<noteq> None"
  shows "wf_keys (redis_run dbl (set_cmds px ps) ks) \<and>
    astore_of (redis_run dbl (set_cmds px ps) ks) = store_all px ps (astore_of ks) \<and>
    (exec_replies dbl (set_cmds px ps) ks rs \<longrightarrow> rs = map (\<lambda>_. RStatus ''OK'') ps)"
  using assms
proof (induction ps arbitrary: ks rs)
  case Nil
  then show ?case by (simp add: set_cmds_def store_all_def)
next
  case (Cons p ps)
  obtain i b where p: "p = (i, b)" by (cases p)
  define ks' where "ks' = redis_effect dbl (SETPX_XX i b px) ks"
  from Cons.prems p have i: "i \<notin> reserved" "ks i \<noteq> None" by auto
  have nxt: "redis_next dbl (SETPX_XX i b px) ks = ks'" by (simp add: redis_next_def ks'_def)
  have wf: "wf_keys ks'" unfolding ks'_def using Cons.prems(1) i(1) by (rule wf_keys_effect(3))
  have "\<forall>i \<in> fst ` set ps. i \<notin> reserved \<and> ks' i \<noteq> None" using Cons.prems(2) by (auto simp: ks'_def)
  note IH = Cons.IH [OF wf this]
  have upd: "astore_of ks' = store_all px [(i, b)] (astore_of ks)"
    using astore_SETPX_XX [of i ks] i by (simp add: ks'_def store_all_def)
  have "rs = map (\<lambda>_. RStatus ''OK'') (p # ps)" if "exec_replies dbl (set_cmds px (p # ps)) ks rs"
    using that IH [of "tl rs"] i by (cases rs) (auto simp: p set_cmds_Cons nxt)
  with IH show ?case
    by (simp add: p set_cmds_Cons nxt upd store_all_Cons [of _ _ ps])
qed

section \<open>Behaviour on a healthy server\<close>

context redis_up
begin

abbreviation rmeets ::
  "('s \<Rightarrow> 'r \<times> 's) \<Rightarrow> (int \<Rightarrow> int \<Rightarrow> 'b astore \<Rightarrow> 'r \<Rightarrow> 'b astore \<Rightarrow> bool) \<Rightarrow> bool" where
  "rmeets \<equiv> meets (\<lambda>s. wf_keys (view s)) (\<lambda>s. astore_of (view s)) (Now E)"

abbreviation rmeets_at ::
  "('s \<Rightarrow> 'r \<times> 's) \<Rightarrow> (int \<Rightarrow> int \<Rightarrow> 'b astore \<Rightarrow> 'r \<Rightarrow> 'b astore \<Rightarrow> bool) \<Rightarrow> 's \<Rightarrow> bool" where
  "rmeets_at \<equiv> meets_at (\<lambda>s. wf_keys (view s)) (\<lambda>s. astore_of (view s)) (Now E)"

lemma meets_at_conn:
  assumes "\<And>s1. view s1 = view s \<Longrightarrow> pend s1 = [] \<Longrightarrow>
    \<exists>r s2 now now'. body s1 = (r, s2) \<and> Now E s1 \<le> now \<and> now \<le> now' \<and> now' \<le> Now E s2 \<and>
      wf_keys (flushed s2) \<and> P now now' (astore_of (view s)) r (astore_of (flushed s2))"
  shows "rmeets_at (with_conn E body) P s"
proof -
  let ?Q = "\<lambda>r ks t. \<exists>now now'. Now E s \<le> now \<and> now \<le> now' \<and> now' \<le> t \<and> wf_keys ks \<and>
    P now now' (astore_of (view s)) r (astore_of ks)"
  have "\<exists>r s'. with_conn E body s = (r, s') \<and> Now E s \<le> Now E s' \<and> ?Q r (view s') (Now E s')"
  proof (rule with_conn_up)
    fix s1 assume v: "view s1 = view s" and p: "pend s1 = []" and t: "Now E s \<le> Now E s1"
    from assms [of s1] v p obtain r s2 now now' where *: "body s1 = (r, s2)"
      "Now E s1 \<le> now" "now \<le> now'" "now' \<le> Now E s2" "wf_keys (flushed s2)"
      "P now now' (astore_of (view s)) r (astore_of (flushed s2))" by auto
    from t * have "Now E s \<le> now" "Now E s1 \<le> Now E s2" by auto
    with * show "\<exists>r s2. body s1 = (r, s2) \<and> Now E s1 \<le> Now E s2 \<and> ?Q r (flushed s2) (Now E s2)" by blast
  qed (meson order_trans)
  then show ?thesis unfolding meets_at_def by (elim exE conjE) (simp, blast)
qed

lemma meets_conn:
  assumes "\<And>s1. wf_keys (view s1) \<Longrightarrow> pend s1 = [] \<Longrightarrow>
    \<exists>r s2 now now'. body s1 = (r, s2) \<and> Now E s1 \<le> now \<and> now \<le> now' \<and> now' \<le> Now E s2 \<and>
      wf_keys (flushed s2) \<and> P now now' (astore_of (view s1)) r (astore_of (flushed s2))"
  shows "rmeets (with_conn E body) P"
  unfolding meets_def
proof (intro allI impI meets_at_conn)
  fix s s1 assume "wf_keys (view s)" "view s1 = view s" "pend s1 = []"
  with assms [of s1] show "\<exists>r s2 now now'. body s1 = (r, s2) \<and> Now E s1 \<le> now \<and> now \<le> now' \<and> now' \<le> Now E s2 \<and>
      wf_keys (flushed s2) \<and> P now now' (astore_of (view s)) r (astore_of (flushed s2))" by simp
qed

text \<open>Bodies that make one call, or one buffered call, and answer from its reply.\<close>

lemma meets_Do:
  assumes body: "\<And>s rep s'. Do E (c (Now E s)) s = (Inr rep, s') \<Longrightarrow> body s = (k rep, s')"
    and ok: "\<And>now ks. wf_keys ks \<Longrightarrow> well_typed (c now) ks \<and> c now \<noteq> EXEC \<and> wf_keys (redis_effect dbl (c now) ks)"
    and post: "\<And>now ks rep. wf_keys ks \<Longrightarrow> redis_reply dbl (c now) ks rep \<Longrightarrow>
      P now now (astore_of ks) (k rep) (astore_of (redis_effect dbl (c now) ks))"
  shows "rmeets (with_conn E body) P"
proof (rule meets_conn)
  fix s1 assume wf: "wf_keys (view s1)" and p: "pend s1 = []"
  let ?c = "c (Now E s1)"
  from ok [OF wf] have c: "well_typed ?c (view s1)" "?c \<noteq> EXEC" by auto
  obtain r s' where *: "Do E ?c s1 = (Inr r, s')" "view s' = redis_effect dbl ?c (view s1)"
    "redis_reply dbl ?c (view s1) r" "pend s' = []" "Now E s1 \<le> Now E s'"
    using do_up [OF c p] .
  from body [OF *(1)] *(2-5) post [OF wf *(3)] ok [OF wf] show "\<exists>r s2 now now'. body s1 = (r, s2) \<and>
    Now E s1 \<le> now \<and> now \<le> now' \<and> now' \<le> Now E s2 \<and>
    wf_keys (flushed s2) \<and>
    P now now' (astore_of (view s1)) r (astore_of (flushed s2))" by auto
qed

lemma meets_Send:
  assumes "c \<noteq> MULTI" and "\<And>ks. wf_keys ks \<Longrightarrow> well_typed c ks \<and> wf_keys (redis_effect dbl c ks)"
  shows "rmeets (with_conn E (\<lambda>s. case Send E c s of (Some _, s') \<Rightarrow> (Inl e, s') | (None, s') \<Rightarrow> (Inr (), s')))
    (\<lambda>now now' a r a'. r = Inr () \<and> (\<exists>ks. wf_keys ks \<and> a = astore_of ks \<and> a' = astore_of (redis_effect dbl c ks)))"
proof (rule meets_conn)
  fix s1 assume wf: "wf_keys (view s1)" and p: "pend s1 = []"
  obtain s' where "Send E c s1 = (None, s')" "view s' = view s1" "pend s' = pend s1 @ [c]" "Now E s1 \<le> Now E s'"
    by (rule send_up)
  with p wf assms show "\<exists>r s2 now now'.
    (case Send E c s1 of (Some _, s') \<Rightarrow> (Inl e, s') | (None, s') \<Rightarrow> (Inr (), s')) = (r, s2) \<and>
    Now E s1 \<le> now \<and> now \<le> now' \<and> now' \<le> Now E s2 \<and>
    wf_keys (flushed s2) \<and> r = Inr () \<and>
    (\<exists>ks. wf_keys ks \<and> astore_of (view s1) = astore_of ks \<and>
      astore_of (flushed s2) = astore_of (redis_effect dbl c ks))"
    by (auto simp: redis_next_def flushed_def)
qed

lemmas wf_effects = wf_keys_effect wf_keys_coll

lemma wf_well_typed:
  assumes "wf_keys ks"
  shows "well_typed (SADD allTickets m) ks" "well_typed (SREM allTickets m) ks"
    "well_typed (SMEMBERS allTickets) ks" "well_typed (ZADD proposedTicketIDs ps) ks"
    "well_typed (ZREM proposedTicketIDs ms) ks" "well_typed (ZRANGEBYSCORE proposedTicketIDs lo hi) ks"
    "well_typed (ZADD backfillLastAckTime ps) ks" "well_typed (ZREM backfillLastAckTime ms) ks"
    "well_typed (ZSCORE backfillLastAckTime m) ks" "well_typed (ZRANGEBYSCORE backfillLastAckTime lo hi) ks"
    "well_typed (HSET allBackfills f v) ks" "well_typed (HDEL allBackfills f) ks"
    "well_typed (HGETALL allBackfills) ks" "i \<notin> reserved \<Longrightarrow> well_typed (GET i) ks"
    "well_typed (SET k b) ks" "well_typed (SETNX k b) ks" "well_typed (SETPX_XX k b px) ks"
    "well_typed (DEL k) ks" "well_typed (MGET ids) ks" "well_typed PING ks"
  using wf_keysD [OF assms] by simp_all

lemmas meets_simps = astore_effects wf_effects wf_well_typed

declare redis_effect.simps [simp del] well_typed.simps [simp del]

lemma CreateTicket_meets:
  assumes "t_Id t \<notin> reserved"
  shows "rmeets (rb_CreateTicket E t) (\<lambda>now now' a r a'. (r, a') = as_CreateTicket (MarshalTicket E) t a)"
proof (cases "MarshalTicket E t")
  case None
  show ?thesis unfolding rb_CreateTicket_def
    by (rule meets_conn) (use None in \<open>auto simp: as_CreateTicket_def\<close>)
next
  case (Some b)
  show ?thesis unfolding rb_CreateTicket_def
    by (rule meets_Do [where c = "\<lambda>_. SET (t_Id t) b" and k = "\<lambda>_. Inr ()"])
      (use assms Some in \<open>auto simp: as_CreateTicket_def meets_simps\<close>)
qed

lemma GetTicket_meets:
  assumes "i \<notin> reserved"
  shows "rmeets (rb_GetTicket E i) (\<lambda>now now' a r a'. r = as_GetTicket (UnmarshalTicket E) i a \<and> a' = a)"
  unfolding rb_GetTicket_def
  by (rule meets_Do [where c = "\<lambda>_. GET i" and k = "\<lambda>rep. case redisBytes E (Inr rep) of
          Inl ErrNil \<Rightarrow> Inl (Status NotFound) | Inl _ \<Rightarrow> Inl (Status Internal)
        | Inr None \<Rightarrow> Inl (Status NotFound)
        | Inr (Some v) \<Rightarrow> (case UnmarshalTicket E v of None \<Rightarrow> Inl (Status Internal) | Some t \<Rightarrow> Inr t)"])
    (use assms in \<open>auto simp: as_GetTicket_def meets_simps redis_effect.simps blob_reply_def bytes_conv
       split: sum.splits option.splits rerr.splits\<close>)

lemma DeleteTicket_meets:
  assumes "i \<notin> reserved"
  shows "rmeets (rb_DeleteTicket E i) (\<lambda>now now' a r a'. (r, a') = as_DeleteTicket i a)"
  unfolding rb_DeleteTicket_def
proof (rule meets_Do [where c = "\<lambda>_. DEL i" and k = "\<lambda>rep. case redisInt E (Inr rep) of
     Inl _ \<Rightarrow> Inl (Status Internal) | Inr v \<Rightarrow> if v = 0 then Inl (Status NotFound) else Inr ()"])
  fix now :: int and ks :: "'b keyspace" and rep
  assume wf: "wf_keys ks" and rep: "redis_reply dbl (DEL i) ks rep"
  have "ks i = None \<Longrightarrow> str_of ks = (str_of ks)(i := None) \<and> ttl_of ks = (ttl_of ks)(i := None)"
    by (auto simp: key_access)
  with rep assms wf show "(case redisInt E (Inr rep) of
     Inl _ \<Rightarrow> Inl (Status Internal) | Inr v \<Rightarrow> if v = 0 then Inl (Status NotFound) else Inr (),
     astore_of (redis_effect dbl (DEL i) ks)) = as_DeleteTicket i (astore_of ks)"
    by (auto simp: as_DeleteTicket_def int_conv astore_DEL str_of_None_iff)
qed (use assms in \<open>auto simp: meets_simps well_typed.simps split: sum.splits\<close>)

lemma IndexTicket_meets:
  "rmeets (rb_IndexTicket E t) (\<lambda>now now' a r a'. r = Inr () \<and> a' = a\<lparr>tindex := insert (t_Id t) (tindex a)\<rparr>)"
  unfolding rb_IndexTicket_def by (rule meets_weaken [OF meets_Send]) (auto simp: meets_simps)

lemma DeindexTicket_meets:
  "rmeets (rb_DeindexTicket E i) (\<lambda>now now' a r a'. r = Inr () \<and> a' = a\<lparr>tindex := tindex a - {i}\<rparr>)"
  unfolding rb_DeindexTicket_def by (rule meets_weaken [OF meets_Send]) (auto simp: meets_simps)

lemma GetIndexedIDSet_meets:
  "rmeets (rb_GetIndexedIDSet cfg E) (\<lambda>now now' a r a'. a' = a \<and>
     r = Inr (as_GetIndexedIDSet dbl (GetDuration cfg ''pendingReleaseTimeout'') now a) \<and> finite (tindex a))"
  unfolding rb_GetIndexedIDSet_def Let_def
proof (rule meets_conn, goal_cases)
  case wf: (1 s1)
  let ?lo = "Now E s1 - GetDuration cfg ''pendingReleaseTimeout''" and ?hi = "Now E s1 + Hour"
  let ?c = "ZRANGEBYSCORE proposedTicketIDs ?lo ?hi"
  obtain rep s2 where 1: "Do E ?c s1 = (Inr rep, s2)" "view s2 = redis_effect dbl ?c (view s1)"
    "redis_reply dbl ?c (view s1) rep" "pend s2 = []" "Now E s1 \<le> Now E s2"
    by (rule do_up [of ?c s1]) (use wf in \<open>auto simp: wf_well_typed\<close>)
  then have v: "view s2 = view s1" by (simp add: redis_effect.simps)
  obtain rep' s3 where 2: "Do E (SMEMBERS allTickets) s2 = (Inr rep', s3)"
    "view s3 = redis_effect dbl (SMEMBERS allTickets) (view s2)"
    "redis_reply dbl (SMEMBERS allTickets) (view s2) rep'" "pend s3 = []" "Now E s2 \<le> Now E s3"
    by (rule do_up [of "SMEMBERS allTickets" s2]) (use wf v 1 in \<open>auto simp: wf_well_typed\<close>)
  from 1(3) obtain xs where xs: "rep = RArr (map RBulk xs)"
    "set xs = scored dbl (zset_of (view s1) proposedTicketIDs) ?lo ?hi" by (auto simp: scored_def)
  from 2(3) v obtain ys where ys: "rep' = RArr (map RBulk ys)" "set ys = set_of (view s1) allTickets" by auto
  have diff: "fold (\<lambda>i r. r - {i}) xs (fold insert ys {}) = set ys - set xs"
    by (induction xs rule: rev_induct) (auto simp: union_set_fold [symmetric])
  have v3: "flushed s3 = view s1" using 2(2,4) v by (simp add: redis_effect.simps)
  show ?case
    by (rule exI [of _ "Inr (set ys - set xs)"], rule exI [of _ s3], intro exI [of _ "Now E s1"])
      (use 1(1,5) 2(1,5) wf xs ys in \<open>simp add: strings_conv diff v3 as_GetIndexedIDSet_def ys(2) [symmetric]\<close>)
qed

lemma decode_tickets_those:
  "decode_tickets E (map f ids) =
    (case those (map (UnmarshalTicket E) (List.map_filter f ids)) of
       None \<Rightarrow> Inl (Status Internal) | Some ts \<Rightarrow> Inr ts)"
  by (induction ids) (auto simp: List.map_filter_simps split: option.splits)

lemma GetTickets_meets:
  "rmeets (rb_GetTickets E ids) (\<lambda>now now' a r a'. a' = a \<and> r = as_GetTickets (UnmarshalTicket E) ids a)"
proof (cases "ids = []")
  case True
  then show ?thesis by (auto simp: meets_def meets_at_def rb_GetTickets_def as_GetTickets_def List.map_filter_simps)
next
  case False
  then have "rb_GetTickets E ids = with_conn E (\<lambda>s. case Do E (MGET ids) s of (rep, s') \<Rightarrow>
      (case redisByteSlices E rep of Inl _ \<Rightarrow> (Inl (Status Internal), s')
       | Inr ticketBytes \<Rightarrow> (decode_tickets E ticketBytes, s')))"
    by (auto simp: rb_GetTickets_def)
  moreover have "redisByteSlices E (Inr (RArr (map (\<lambda>k. blob_reply (str_of ks k)) ids))) = Inr (map (str_of ks) ids)"
    for ks :: "'b keyspace"
    using slices_conv(2) [of "map (str_of ks) ids"] by (simp add: comp_def)
  ultimately show ?thesis
    by (simp only:, intro meets_Do [where c = "\<lambda>_. MGET ids" and k = "\<lambda>rep. case redisByteSlices E (Inr rep) of
          Inl _ \<Rightarrow> Inl (Status Internal) | Inr bs \<Rightarrow> decode_tickets E bs"])
      (auto simp: as_GetTickets_def meets_simps redis_effect.simps decode_tickets_those split: sum.splits)
qed

text \<open>Operations that do nothing on an empty list.\<close>

lemma meets_nonempty:
  assumes "rmeets f P" and "\<And>now a. ids = [] \<Longrightarrow> P now now a r0 a"
  shows "rmeets (\<lambda>s. if ids = [] then (r0, s) else f s) P"
  using assms by (cases "ids = []") (auto simp: meets_def meets_at_def intro!: exI)

lemma AddTicketsToPendingRelease_meets:
  "rmeets (rb_AddTicketsToPendingRelease E ids)
     (\<lambda>now now' a r a'. r = Inr () \<and> a' = as_AddPending dbl ids now a)"
proof -
  have fold: "fold (\<lambda>(sc, m) z. z(m \<mapsto> dbl sc)) (map (\<lambda>i. (now, i)) ids) z =
      (\<lambda>i. if i \<in> set ids then Some (dbl now) else z i)" for now z
    by (simp add: fold_map comp_def fold_const_upd)
  show ?thesis
    unfolding rb_AddTicketsToPendingRelease_def Let_def
    by (intro meets_nonempty meets_Do [where c = "\<lambda>now. ZADD proposedTicketIDs (map (\<lambda>i. (now, i)) ids)"
          and k = "\<lambda>_. Inr ()"])
      (auto simp: as_AddPending_def meets_simps fold cong: if_cong)
qed

lemma DeleteTicketsFromPendingRelease_meets:
  "rmeets (rb_DeleteTicketsFromPendingRelease E ids)
     (\<lambda>now now' a r a'. r = Inr () \<and> a' = as_DeletePending ids a)"
  unfolding rb_DeleteTicketsFromPendingRelease_def
  by (intro meets_nonempty meets_Do [where c = "\<lambda>_. ZREM proposedTicketIDs ids" and k = "\<lambda>_. Inr ()"])
    (auto simp: as_DeletePending_def meets_simps restrict_map_def)

lemma ReleaseAllTickets_meets:
  "rmeets (rb_ReleaseAllTickets E) (\<lambda>now now' a r a'. r = Inr () \<and> a' = a\<lparr>pending := Map.empty\<rparr>)"
  unfolding rb_ReleaseAllTickets_def
  by (rule meets_Do [where c = "\<lambda>_. DEL proposedTicketIDs" and k = "\<lambda>_. Inr ()"]) (auto simp: meets_simps)

lemma HealthCheck_meets: "rmeets (rb_HealthCheck E) (\<lambda>now now' a r a'. r = Inr () \<and> a' = a)"
  unfolding rb_HealthCheck_def
  by (rule meets_Do [where c = "\<lambda>_. PING" and k = "\<lambda>_. Inr ()"]) (auto simp: meets_simps redis_effect.simps)

lemma ua_send_up:
  "\<exists>s'. view s' = view s \<and> Now E s \<le> Now E s' \<and>
    (case those (map (\<lambda>t. MarshalTicket E (t\<lparr>t_Assignment := m (t_Id t)\<rparr>)) ts) of
       None \<Rightarrow> ua_send E px m ts s = (Inl (Status Internal), s') \<and> (\<exists>cs. pend s' = pend s @ cs)
     | Some bs \<Rightarrow> ua_send E px m ts s = (Inr (map (\<lambda>t. t\<lparr>t_Assignment := m (t_Id t)\<rparr>) ts), s') \<and>
         pend s' = pend s @ set_cmds px (zip (map t_Id ts) bs))"
proof (induction ts arbitrary: s)
  case Nil
  show ?case by (rule exI [of _ s]) (simp add: set_cmds_def)
next
  case (Cons t ts)
  let ?t = "t\<lparr>t_Assignment := m (t_Id t)\<rparr>"
  show ?case
  proof (cases "MarshalTicket E ?t")
    case None
    then show ?thesis by (intro exI [of _ s]) simp
  next
    case (Some b)
    obtain s1 where s1: "Send E (SETPX_XX (t_Id t) b px) s = (None, s1)" "view s1 = view s"
      "pend s1 = pend s @ [SETPX_XX (t_Id t) b px]" "Now E s \<le> Now E s1" by (rule send_up)
    with Cons.IH [of s1] Some show ?thesis
      by (auto simp: set_cmds_def split: option.splits)
  qed
qed

lemma ua_commit_up:
  assumes wf: "wf_keys (view s)" and p: "pend s = []"
    and ids: "\<forall>t \<in> set ts. t_Id t \<notin> reserved \<and> view s (t_Id t) \<noteq> None"
    and px: "px = go_div (getAssignedDeleteTimeout cfg) Millisecond"
    and upd: "upd = (\<lambda>t. t\<lparr>t_Assignment := m (t_Id t)\<rparr>)"
  shows "\<exists>r s'. ua_commit cfg E m fs ts s = (r, s') \<and> Now E s \<le> Now E s' \<and> wf_keys (flushed s') \<and>
    (case those (map (MarshalTicket E \<circ> upd) ts) of
       None \<Rightarrow> r = Inl (Status Internal) \<and> flushed s' = view s
     | Some bs \<Rightarrow> r = Inr (fs, map upd ts) \<and>
         astore_of (flushed s') = store_all px (zip (map t_Id ts) bs) (astore_of (view s)))"
proof -
  obtain s1 where s1: "Send E MULTI s = (None, s1)" "view s1 = view s" "pend s1 = [MULTI]" "Now E s \<le> Now E s1"
    using send_up [of MULTI s] p by auto
  obtain s2 where s2: "view s2 = view s1" "Now E s1 \<le> Now E s2"
    "case those (map (MarshalTicket E \<circ> upd) ts) of
       None \<Rightarrow> ua_send E px m ts s1 = (Inl (Status Internal), s2) \<and> (\<exists>cs. pend s2 = pend s1 @ cs)
     | Some bs \<Rightarrow> ua_send E px m ts s1 = (Inr (map upd ts), s2) \<and>
         pend s2 = pend s1 @ set_cmds px (zip (map t_Id ts) bs)"
    using ua_send_up [where s = s1 and m = m and ts = ts and px = px]
    unfolding upd comp_def by blast
  show ?thesis
  proof (cases "those (map (MarshalTicket E \<circ> upd) ts)")
    case None
    with s1 s2 wf px show ?thesis by (auto simp: ua_commit_def flushed_def Let_def)
  next
    case (Some bs)
    let ?cs = "set_cmds px (zip (map t_Id ts) bs)"
    have len: "length bs = length ts" using those_eq_Some_length [OF Some] by simp
    have p2: "pend s2 = MULTI # ?cs" "MULTI \<notin> set ?cs" using s1 s2 Some by (auto simp: set_cmds_def)
    obtain r s3 where s3: "Do E EXEC s2 = (Inr r, s3)" using up_exec [OF p2] by (cases "Do E EXEC s2") auto
    from exec_ok [OF s3 p2] obtain rs where rs: "r = RArr rs" "exec_replies dbl ?cs (view s2) rs"
      "view s3 = redis_run dbl ?cs (view s2)" "pend s3 = []" by auto
    have "\<forall>i \<in> fst ` set (zip (map t_Id ts) bs). i \<notin> reserved \<and> view s2 i \<noteq> None"
      using ids s1(2) s2(1) by (fastforce dest: set_zip_leftD)
    from set_cmds_run [OF _ this] wf s1(2) s2(1) rs(2)
    have run: "wf_keys (redis_run dbl ?cs (view s2))"
      "astore_of (redis_run dbl ?cs (view s2)) = store_all px (zip (map t_Id ts) bs) (astore_of (view s))"
      "rs = map (\<lambda>_. RStatus ''OK'') (zip (map t_Id ts) bs)" by auto
    then have "rs = map (\<lambda>_. RStatus ''OK'') (map upd ts)" "length rs = length ts"
      using len by (auto simp: map_eq_conv intro: nth_equalityI)
    moreover have "ua_send E px m ts s1 = (Inr (map upd ts), s2)" using s2 Some by simp
    ultimately have "ua_commit cfg E m fs ts s = (Inr (fs, map upd ts), s3)"
      using ua_check_spec [OF string_conv(2), of "map upd ts" fs "[]"]
      by (simp add: ua_commit_def px [symmetric] s1 s3 rs(1) values_conv)
    then show ?thesis
      using Some rs run do_clock [OF s3] s1(4) s2(2) by auto
  qed
qed

lemma ua_body_up:
  assumes wf: "wf_keys (view s)" "pend s = []" and gs: "gs \<noteq> []"
    and ids: "\<forall>i \<in> set (assign_ids gs). i \<notin> reserved" "tickets_at (UnmarshalTicket E) (assign_ids gs) (astore_of (view s))"
  shows "\<exists>r s'. ua_body cfg E gs s = (r, s') \<and> Now E s \<le> Now E s' \<and> wf_keys (flushed s') \<and>
    (r, astore_of (flushed s')) = as_UpdateAssignments (MarshalTicket E) (UnmarshalTicket E)
       (go_div (getAssignedDeleteTimeout cfg) Millisecond) gs (astore_of (view s))"
proof (cases "assign_valid gs")
  case False
  then show ?thesis
    using wf gs by (auto simp: ua_body_def ua_groups_spec assign_valid_def as_UpdateAssignments_def)
next
  case True
  let ?ids = "assign_ids gs"
  let ?found = "those (map (UnmarshalTicket E) (List.map_filter (str_of (view s)) ?ids))"
  from True have valid: "ua_groups gs (Map.empty, []) = Inr (assign_map gs, ?ids)" "?ids \<noteq> []"
    by (auto simp: ua_groups_spec assign_valid_def assign_map_def)
  obtain rep s2 where s2: "Do E (MGET ?ids) s = (Inr rep, s2)" "view s2 = redis_effect dbl (MGET ?ids) (view s)"
    "redis_reply dbl (MGET ?ids) (view s) rep" "pend s2 = []" "Now E s \<le> Now E s2"
    by (rule do_up [of "MGET ?ids" s]) (use wf in \<open>auto simp: wf_well_typed\<close>)
  then have v: "view s2 = view s" by (simp add: redis_effect.simps)
  have slices: "redisByteSlices E (Inr rep) = Inr (map (str_of (view s)) ?ids)"
    using s2(3) slices_conv(2) [of "map (str_of (view s)) ?ids"] by (simp add: comp_def)
  show ?thesis
  proof (cases ?found)
    case None
    then show ?thesis
      using wf(1) s2(1,4,5) v valid True gs by (simp add: ua_body_def slices ua_read_spec as_UpdateAssignments_def)
  next
    case (Some ts)
    let ?fs = "map not_found_failure (filter (\<lambda>i. str_of (view s) i = None) ?ids)"
    have body: "ua_body cfg E gs s = ua_commit cfg E (assign_map gs) ?fs ts s2"
      using s2(1,4,5) valid Some by (simp add: ua_body_def slices ua_read_spec)
    have "\<forall>t \<in> set ts. t_Id t \<notin> reserved \<and> view s2 (t_Id t) \<noteq> None"
      using found_ids [OF Some] ids by (fastforce simp: v tickets_at_def str_of_def split: option.splits)
    from ua_commit_up [OF _ s2(4) this refl refl, of cfg "assign_map gs" ?fs] wf(1) v
    show ?thesis
      using s2(5) body Some True gs
      by (auto simp: as_UpdateAssignments_def assigned_def [abs_def] comp_def split: option.splits)
  qed
qed

lemma UpdateAssignments_meets:
  assumes "wf_keys (view s)" and "\<forall>i \<in> set (assign_ids gs). i \<notin> reserved"
    and "tickets_at (UnmarshalTicket E) (assign_ids gs) (astore_of (view s))"
  shows "rmeets_at (rb_UpdateAssignments cfg E gs) (\<lambda>now now' a r a'.
     (r, a') = as_UpdateAssignments (MarshalTicket E) (UnmarshalTicket E)
       (go_div (getAssignedDeleteTimeout cfg) Millisecond) gs a) s"
proof (cases "gs = []")
  case True
  then show ?thesis
    using assms(1) by (auto simp: meets_at_def rb_UpdateAssignments_def as_UpdateAssignments_def)
next
  case False
  have "rb_UpdateAssignments cfg E gs = with_conn E (ua_body cfg E gs)"
    by (rule ext) (simp add: rb_UpdateAssignments_def False)
  then show ?thesis
    by (simp only:) (rule meets_at_conn,
      metis assms False ua_body_up order_refl)
qed

end

end
