(* ===== verification/Backfill_Store.thy ===== *)
theory Backfill_Store
  imports Ticket_Store
begin

text \<open>
  The backfill half of the Redis state store (\<open>internal/statestore/backfill.go\<close>): creation, retrieval,
  update and deletion of backfills, their acknowledgement and expiry, the backfill index, complete
  deletion under the backfill's lock and the clean-up of expired backfills.
\<close>

section \<open>Backfills\<close>

definition getBackfillReleaseTimeout :: "config_view \<Rightarrow> int" where
  "getBackfillReleaseTimeout cfg = go_div (GetDuration cfg ''pendingReleaseTimeout'') 5 * 4"

definition doUpdateAcknowledgmentTimestamp :: "('s, 'b) env \<Rightarrow> string \<Rightarrow> 's \<Rightarrow> unit res \<times> 's" where
  "doUpdateAcknowledgmentTimestamp E backfillID s =
    (let currentTime = Now E s in
     case Do E (ZADD backfillLastAckTime [(currentTime, backfillID)]) s of
       (Inl _, s') \<Rightarrow> (Inl (Status Internal), s')
     | (Inr _, s') \<Rightarrow> (Inr (), s'))"

text \<open>A reply of \<open>SETNX\<close> that is not an integer fails the type assertion of the source.\<close>

definition rb_CreateBackfill :: "('s, 'b) env \<Rightarrow> backfill \<Rightarrow> string list \<Rightarrow> 's \<Rightarrow> unit res \<times> 's" where
  "rb_CreateBackfill E backfill ticketIDs = with_conn E (\<lambda>s.
     let bf = \<lparr>bi_Backfill = Some backfill, bi_TicketIds = ticketIDs\<rparr> in
     case MarshalBackfill E bf of
       None \<Rightarrow> (Inl (Status Internal), s)
     | Some value \<Rightarrow>
         (case Do E (SETNX (bf_Id backfill) value) s of
            (Inl _, s') \<Rightarrow> (Inl (Status Internal), s')
          | (Inr (RInt n), s') \<Rightarrow>
              if n = 0 then (Inl (Status AlreadyExists), s')
              else doUpdateAcknowledgmentTimestamp E (bf_Id backfill) s'
          | (Inr _, s') \<Rightarrow> (Inl Panic, s')))"

definition rb_GetBackfill :: "('s, 'b) env \<Rightarrow> string \<Rightarrow> 's \<Rightarrow> (backfill option \<times> string list) res \<times> 's" where
  "rb_GetBackfill E i = with_conn E (\<lambda>s.
     case Do E (GET i) s of (rep, s') \<Rightarrow>
       (case redisBytes E rep of
          Inl ErrNil \<Rightarrow> (Inl (Status NotFound), s')
        | Inl _ \<Rightarrow> (Inl (Status Internal), s')
        | Inr None \<Rightarrow> (Inl (Status NotFound), s')
        | Inr (Some value) \<Rightarrow>
            (case UnmarshalBackfill E value of
               None \<Rightarrow> (Inl (Status Internal), s')
             | Some bi \<Rightarrow> (Inr (bi_Backfill bi, bi_TicketIds bi), s'))))"

text \<open>The two loops of \<open>GetBackfills\<close>: decode what was read into a map by backfill id, then collect.\<close>

fun decode_backfills :: "('s, 'b) env \<Rightarrow> 'b option list \<Rightarrow> (string \<rightharpoonup> backfill) \<Rightarrow> (string \<rightharpoonup> backfill) res" where
  "decode_backfills E [] m = Inr m"
| "decode_backfills E (None # slices) m = decode_backfills E slices m"
| "decode_backfills E (Some b # slices) m =
     (case UnmarshalBackfill E b of
        None \<Rightarrow> Inl (Status Internal)
      | Some bi \<Rightarrow>
          (case bi_Backfill bi of
             None \<Rightarrow> decode_backfills E slices m
           | Some bf \<Rightarrow> decode_backfills E slices (m(bf_Id bf \<mapsto> bf))))"

fun collect_backfills :: "(string \<rightharpoonup> backfill) \<Rightarrow> string list \<Rightarrow> backfill list \<Rightarrow> backfill list" where
  "collect_backfills m [] result = result"
| "collect_backfills m (i # ids) result =
     (case m i of
        Some b \<Rightarrow> collect_backfills m ids (result @ [b])
      | None \<Rightarrow> collect_backfills m ids result)"

definition rb_GetBackfills :: "('s, 'b) env \<Rightarrow> string list \<Rightarrow> 's \<Rightarrow> backfill list res \<times> 's" where
  "rb_GetBackfills E ids s =
    (if ids = [] then (Inr [], s)
     else with_conn E (\<lambda>s.
       case Do E (MGET ids) s of (rep, s') \<Rightarrow>
         (case redisByteSlices E rep of
            Inl _ \<Rightarrow> (Inl (Status Internal), s')
          | Inr slices \<Rightarrow>
              (case decode_backfills E slices Map.empty of
                 Inl e \<Rightarrow> (Inl e, s')
               | Inr m \<Rightarrow> (Inr (collect_backfills m ids []), s')))) s)"

definition deleteExpiredBackfillID :: "('s, 'b) env \<Rightarrow> string \<Rightarrow> 's \<Rightarrow> unit res \<times> 's" where
  "deleteExpiredBackfillID E backfillID s =
    (case Do E (ZREM backfillLastAckTime [backfillID]) s of
       (Inl _, s') \<Rightarrow> (Inl (Status Internal), s')
     | (Inr _, s') \<Rightarrow> (Inr (), s'))"

definition rb_DeleteBackfill :: "('s, 'b) env \<Rightarrow> string \<Rightarrow> 's \<Rightarrow> unit res \<times> 's" where
  "rb_DeleteBackfill E i = with_conn E (\<lambda>s.
     case Do E (DEL i) s of (rep, s') \<Rightarrow>
       (case redisInt E rep of
          Inl _ \<Rightarrow> (Inl (Status Internal), s')
        | Inr value \<Rightarrow>
            if value = 0 then (Inl (Status NotFound), s') else deleteExpiredBackfillID E i s'))"

section \<open>Expiry and acknowledgement\<close>

definition isBackfillExpired :: "('s, 'b) env \<Rightarrow> string \<Rightarrow> int \<Rightarrow> 's \<Rightarrow> bool res \<times> 's" where
  "isBackfillExpired E i ttl s =
    (case Do E (ZSCORE backfillLastAckTime i) s of (rep, s') \<Rightarrow>
       (case redisFloat64 E rep of
          Inl _ \<Rightarrow> (Inl (Status Internal), s')
        | Inr lastAckTime \<Rightarrow>
            let endTime = Now E s' - ttl in (Inr (lastAckTime < endTime), s')))"

definition rb_UpdateBackfill :: "config_view \<Rightarrow> ('s, 'b) env \<Rightarrow> backfill \<Rightarrow> string list \<Rightarrow> 's \<Rightarrow> unit res \<times> 's" where
  "rb_UpdateBackfill cfg E backfill ticketIDs = with_conn E (\<lambda>s.
     case isBackfillExpired E (bf_Id backfill) (getBackfillReleaseTimeout cfg) s of
       (Inl e, s') \<Rightarrow> (Inl e, s')
     | (Inr expired, s') \<Rightarrow>
         if expired then (Inl (Status Unavailable), s')
         else
           (case MarshalBackfill E \<lparr>bi_Backfill = Some backfill, bi_TicketIds = ticketIDs\<rparr> of
              None \<Rightarrow> (Inl (Status Internal), s')
            | Some value \<Rightarrow>
                (case Do E (SET (bf_Id backfill) value) s' of
                   (Inl _, s'') \<Rightarrow> (Inl (Status Internal), s'')
                 | (Inr _, s'') \<Rightarrow> (Inr (), s''))))"

definition rb_UpdateAcknowledgmentTimestamp :: "config_view \<Rightarrow> ('s, 'b) env \<Rightarrow> string \<Rightarrow> 's \<Rightarrow> unit res \<times> 's" where
  "rb_UpdateAcknowledgmentTimestamp cfg E i = with_conn E (\<lambda>s.
     case isBackfillExpired E i (getBackfillReleaseTimeout cfg) s of
       (Inl e, s') \<Rightarrow> (Inl e, s')
     | (Inr expired, s') \<Rightarrow>
         if expired then (Inl (Status Unavailable), s') else doUpdateAcknowledgmentTimestamp E i s')"

definition rb_GetExpiredBackfillIDs :: "config_view \<Rightarrow> ('s, 'b) env \<Rightarrow> 's \<Rightarrow> string list res \<times> 's" where
  "rb_GetExpiredBackfillIDs cfg E = with_conn E (\<lambda>s.
     let ttl = getBackfillReleaseTimeout cfg;
         curTime = Now E s;
         endTimeInt = curTime - ttl
     in case Do E (ZRANGEBYSCORE backfillLastAckTime 0 endTimeInt) s of (rep, s') \<Rightarrow>
       (case redisStrings E rep of
          Inl _ \<Rightarrow> (Inl (Status Internal), s')
        | Inr expiredBackfillIds \<Rightarrow> (Inr expiredBackfillIds, s')))"

section \<open>The backfill index\<close>

definition rb_IndexBackfill :: "('s, 'b) env \<Rightarrow> backfill \<Rightarrow> 's \<Rightarrow> unit res \<times> 's" where
  "rb_IndexBackfill E backfill = with_conn E (\<lambda>s.
     case Send E (HSET allBackfills (bf_Id backfill) (sint (bf_Generation backfill))) s of
       (Some _, s') \<Rightarrow> (Inl (Status Internal), s')
     | (None, s') \<Rightarrow> (Inr (), s'))"

definition rb_DeindexBackfill :: "('s, 'b) env \<Rightarrow> string \<Rightarrow> 's \<Rightarrow> unit res \<times> 's" where
  "rb_DeindexBackfill E i = with_conn E (\<lambda>s.
     case Send E (HDEL allBackfills i) s of
       (Some _, s') \<Rightarrow> (Inl (Status Internal), s')
     | (None, s') \<Rightarrow> (Inr (), s'))"

fun gib_loop :: "(string \<rightharpoonup> string) \<Rightarrow> string list \<Rightarrow> (string \<rightharpoonup> int) \<Rightarrow> (string \<rightharpoonup> int) res" where
  "gib_loop index [] r = Inr r"
| "gib_loop index (i # ids) r =
     (case index i of
        None \<Rightarrow> gib_loop index ids r
      | Some generation \<Rightarrow>
          (case atoi generation of
             None \<Rightarrow> Inl (Status Internal)
           | Some gen \<Rightarrow> gib_loop index ids (r(i \<mapsto> gen))))"

definition rb_GetIndexedBackfills :: "config_view \<Rightarrow> ('s, 'b) env \<Rightarrow> 's \<Rightarrow> (string \<rightharpoonup> int) res \<times> 's" where
  "rb_GetIndexedBackfills cfg E = with_conn E (\<lambda>s.
     let ttl = getBackfillReleaseTimeout cfg;
         curTime = Now E s;
         endTimeInt = curTime + Hour;
         startTimeInt = curTime - ttl
     in case Do E (ZRANGEBYSCORE backfillLastAckTime startTimeInt endTimeInt) s of (rep, s') \<Rightarrow>
       (case redisStrings E rep of
          Inl _ \<Rightarrow> (Inl (Status Internal), s')
        | Inr acknowledgedIds \<Rightarrow>
            (case Do E (HGETALL allBackfills) s' of (rep', s'') \<Rightarrow>
               (case redisStringMap E rep' of
                  Inl _ \<Rightarrow> (Inl (Status Internal), s'')
                | Inr index \<Rightarrow> (gib_loop index acknowledgedIds Map.empty, s'')))))"

section \<open>Complete deletion and clean-up\<close>

text \<open>
  Under the lock of the backfill: deindex it, release its tickets, delete it. Only a failure to lock or
  to deindex is reported; the later steps run whatever their predecessors returned.
\<close>

definition rb_DeleteBackfillCompletely :: "('s, 'b) env \<Rightarrow> string \<Rightarrow> 's \<Rightarrow> unit res \<times> 's" where
  "rb_DeleteBackfillCompletely E i s =
    (case Lock E i s of
       (Some e, s1) \<Rightarrow> (Inl e, s1)
     | (None, s1) \<Rightarrow>
         (case rb_DeindexBackfill E i s1 of
            (Inl e, s2) \<Rightarrow> (Inl e, snd (Unlock E i s2))
          | (Inr _, s2) \<Rightarrow>
              (case rb_GetBackfill E i s2 of (rget, s3) \<Rightarrow>
                 let associatedTickets = (case rget of Inl _ \<Rightarrow> [] | Inr (_, tids) \<Rightarrow> tids);
                     s4 = snd (rb_DeleteTicketsFromPendingRelease E associatedTickets s3);
                     s5 = snd (rb_DeleteBackfill E i s4)
                 in (Inr (), snd (Unlock E i s5)))))"

text \<open>The workers of \<open>CleanupBackfills\<close> take ids from a channel; errors are only logged.\<close>

fun cleanupWorker :: "('s, 'b) env \<Rightarrow> string list \<Rightarrow> 's \<Rightarrow> 's" where
  "cleanupWorker E [] s = s"
| "cleanupWorker E (i # ids) s = cleanupWorker E ids (snd (rb_DeleteBackfillCompletely E i s))"

text \<open>
  Three workers share the channel. Deletions of different backfills hold different locks; \<open>sched\<close>
  is the order in which the workers get to complete them, some permutation of the ids.
\<close>

definition rb_CleanupBackfills :: "(string list \<Rightarrow> string list) \<Rightarrow> config_view \<Rightarrow> ('s, 'b) env \<Rightarrow> 's \<Rightarrow> unit res \<times> 's" where
  "rb_CleanupBackfills sched cfg E s =
    (case rb_GetExpiredBackfillIDs cfg E s of
       (Inl e, s') \<Rightarrow> (Inl e, s')
     | (Inr expiredBfIDs, s') \<Rightarrow> (Inr (), cleanupWorker E (sched expiredBfIDs) s'))"

section \<open>The loops\<close>

lemma decode_backfills_spec:
  "decode_backfills E (map f ids) m =
    (case those (map (UnmarshalBackfill E) (List.map_filter f ids)) of
       None \<Rightarrow> Inl (Status Internal)
     | Some bis \<Rightarrow> Inr (fold (\<lambda>bi m. case bi_Backfill bi of None \<Rightarrow> m | Some b \<Rightarrow> m(bf_Id b \<mapsto> b)) bis m))"
proof (induction ids arbitrary: m)
  case (Cons i ids)
  then show ?case by (cases "f i") (auto simp: List.map_filter_simps split: option.splits)
qed (simp add: List.map_filter_simps)

lemma collect_backfills_spec: "collect_backfills m ids r = r @ List.map_filter m ids"
  by (induction m ids r rule: collect_backfills.induct) (auto simp: List.map_filter_simps split: option.splits)

lemma gib_loop_spec:
  "gib_loop index ids r =
    (if \<exists>i \<in> set ids. \<exists>g. index i = Some g \<and> atoi g = None then Inl (Status Internal)
     else Inr (\<lambda>i. if i \<in> set ids \<and> index i \<noteq> None then Option.bind (index i) atoi else r i))"
proof (induction ids arbitrary: r)
  case (Cons i ids)
  show ?case
  proof (cases "index i")
    case None
    then show ?thesis using Cons by (auto simp: fun_eq_iff)
  next
    case (Some g)
    then show ?thesis using Cons by (cases "atoi g") (auto simp: fun_eq_iff)
  qed
qed simp

lemma acks_of_DEL: "i \<notin> reserved \<Longrightarrow> zset_of (redis_effect dbl (DEL i) ks) backfillLastAckTime = zset_of ks backfillLastAckTime"
  by (simp add: zset_of_def)

section \<open>Behaviour on a healthy server\<close>

context redis_up
begin

lemma meets_lift:
  "rmeets f P \<Longrightarrow> (\<And>s. g s = f s) \<Longrightarrow> rmeets g P"
  by (simp add: meets_def meets_at_def)

lemma doUpdateAcknowledgmentTimestamp_up:
  assumes "wf_keys (view s)" and "pend s = []"
  obtains s' where "doUpdateAcknowledgmentTimestamp E i s = (Inr (), s')" "pend s' = []" "wf_keys (view s')"
    "astore_of (view s') = (astore_of (view s))\<lparr>acks := (acks (astore_of (view s)))(i \<mapsto> dbl (Now E s))\<rparr>"
    "Now E s \<le> Now E s'"
proof -
  obtain r s' where "Do E (ZADD backfillLastAckTime [(Now E s, i)]) s = (Inr r, s')"
    "view s' = redis_effect dbl (ZADD backfillLastAckTime [(Now E s, i)]) (view s)" "pend s' = []" "Now E s \<le> Now E s'"
    by (rule do_up [of "ZADD backfillLastAckTime [(Now E s, i)]" s]) (use assms in \<open>auto simp: wf_well_typed\<close>)
  with assms that show thesis by (simp add: doUpdateAcknowledgmentTimestamp_def meets_simps)
qed

lemma isBackfillExpired_up:
  assumes "wf_keys (view s)" and "pend s = []"
  obtains s' where "isBackfillExpired E i ttl s = (as_expired ttl (Now E s') i (astore_of (view s)), s')"
    "view s' = view s" "pend s' = []" "Now E s \<le> Now E s'"
proof -
  obtain r s' where "Do E (ZSCORE backfillLastAckTime i) s = (Inr r, s')"
    "view s' = redis_effect dbl (ZSCORE backfillLastAckTime i) (view s)"
    "redis_reply dbl (ZSCORE backfillLastAckTime i) (view s) r" "pend s' = []" "Now E s \<le> Now E s'"
    by (rule do_up [of "ZSCORE backfillLastAckTime i" s]) (use assms in \<open>auto simp: wf_well_typed\<close>)
  with that show thesis
    by (auto simp: isBackfillExpired_def redis_effect.simps as_expired_def float_conv Let_def split: option.splits)
qed

lemma CreateBackfill_meets:
  assumes "bf_Id bf \<notin> reserved"
  shows "rmeets (rb_CreateBackfill E bf tids)
    (\<lambda>now now' a r a'. (r, a') = as_CreateBackfill (MarshalBackfill E) dbl bf tids now a)"
  unfolding rb_CreateBackfill_def Let_def
proof (rule meets_conn, goal_cases)
  case wf: (1 s)
  show ?case
  proof (cases "MarshalBackfill E \<lparr>bi_Backfill = Some bf, bi_TicketIds = tids\<rparr>")
    case None
    then show ?thesis using wf by (intro exI [of _ s] exI [of _ "Now E s"] exI) (auto simp: as_CreateBackfill_def)
  next
    case (Some b)
    let ?c = "SETNX (bf_Id bf) b"
    obtain r s1 where 1: "Do E ?c s = (Inr r, s1)" "view s1 = redis_effect dbl ?c (view s)"
      "redis_reply dbl ?c (view s) r" "pend s1 = []" "Now E s \<le> Now E s1"
      by (rule do_up [of ?c s]) (use wf in \<open>auto simp: wf_well_typed\<close>)
    have wf1: "wf_keys (view s1)" unfolding 1(2) using wf(1) assms by (rule wf_keys_effect(2))
    obtain s2 where 2: "doUpdateAcknowledgmentTimestamp E (bf_Id bf) s1 = (Inr (), s2)" "pend s2 = []" "wf_keys (view s2)"
      "astore_of (view s2) = (astore_of (view s1))\<lparr>acks := (acks (astore_of (view s1)))(bf_Id bf \<mapsto> dbl (Now E s1))\<rparr>"
      "Now E s1 \<le> Now E s2"
      by (rule doUpdateAcknowledgmentTimestamp_up [OF wf1 1(4)])
    show ?thesis
    proof (cases "view s (bf_Id bf)")
      case None
      then have "astore_of (view s1) = (astore_of (view s))\<lparr>objs := (str_of (view s))(bf_Id bf \<mapsto> b),
          ttls := (ttl_of (view s))(bf_Id bf := None)\<rparr>"
        using astore_SETNX [OF assms] 1(2) by simp
      moreover have "str_of (view s) (bf_Id bf) = None" "r = RInt 1" using None 1(3) by (simp_all add: str_of_def)
      ultimately show ?thesis
        by (intro exI [of _ "Inr ()"] exI [of _ s2] exI [of _ "Now E s1"])
          (use 1(1,5) 2 Some in \<open>simp add: as_CreateBackfill_def\<close>)
    next
      case (Some v)
      then have "view s1 = view s" "r = RInt 0" "str_of (view s) (bf_Id bf) \<noteq> None"
        using 1(2,3) str_of_None_iff [OF wf(1) assms] by (simp_all add: redis_effect.simps)
      then show ?thesis
        by (intro exI [of _ "Inl (Status AlreadyExists)"] exI [of _ s1] exI [of _ "Now E s1"])
          (use 1(1,4,5) wf \<open>MarshalBackfill E _ = Some b\<close> in \<open>simp add: as_CreateBackfill_def\<close>)
    qed
  qed
qed

lemma GetBackfill_meets:
  assumes "i \<notin> reserved"
  shows "rmeets (rb_GetBackfill E i) (\<lambda>now now' a r a'. r = as_GetBackfill (UnmarshalBackfill E) i a \<and> a' = a)"
  unfolding rb_GetBackfill_def
  by (rule meets_Do [where c = "\<lambda>_. GET i" and k = "\<lambda>rep. case redisBytes E (Inr rep) of
          Inl ErrNil \<Rightarrow> Inl (Status NotFound) | Inl _ \<Rightarrow> Inl (Status Internal)
        | Inr None \<Rightarrow> Inl (Status NotFound)
        | Inr (Some v) \<Rightarrow> (case UnmarshalBackfill E v of None \<Rightarrow> Inl (Status Internal)
            | Some bi \<Rightarrow> Inr (bi_Backfill bi, bi_TicketIds bi))"])
    (use assms in \<open>auto simp: as_GetBackfill_def meets_simps redis_effect.simps blob_reply_def bytes_conv
       split: sum.splits option.splits rerr.splits\<close>)

lemma GetBackfills_meets:
  "rmeets (rb_GetBackfills E ids) (\<lambda>now now' a r a'. a' = a \<and> r = as_GetBackfills (UnmarshalBackfill E) ids a)"
proof -
  have "redisByteSlices E (Inr (RArr (map (\<lambda>k. blob_reply (str_of ks k)) ids))) = Inr (map (str_of ks) ids)"
    for ks :: "'b keyspace"
    using slices_conv(2) [of "map (str_of ks) ids"] by (simp add: comp_def)
  then show ?thesis
    unfolding rb_GetBackfills_def
    by (intro meets_nonempty meets_Do [where c = "\<lambda>_. MGET ids" and k = "\<lambda>rep. case redisByteSlices E (Inr rep) of
          Inl _ \<Rightarrow> Inl (Status Internal)
        | Inr bs \<Rightarrow> (case decode_backfills E bs Map.empty of Inl e \<Rightarrow> Inl e | Inr m \<Rightarrow> Inr (collect_backfills m ids []))"])
      (auto simp: as_GetBackfills_def meets_simps redis_effect.simps decode_backfills_spec collect_backfills_spec
         backfill_table_def List.map_filter_simps split: sum.splits option.splits)
qed

lemma DeleteBackfill_meets:
  assumes "i \<notin> reserved"
  shows "rmeets (rb_DeleteBackfill E i) (\<lambda>now now' a r a'. (r, a') = as_DeleteBackfill i a)"
  unfolding rb_DeleteBackfill_def
proof (rule meets_conn, goal_cases)
  case wf: (1 s)
  obtain r s1 where 1: "Do E (DEL i) s = (Inr r, s1)" "view s1 = redis_effect dbl (DEL i) (view s)"
    "redis_reply dbl (DEL i) (view s) r" "pend s1 = []" "Now E s \<le> Now E s1"
    by (rule do_up [of "DEL i" s]) (use wf in \<open>auto simp: wf_well_typed\<close>)
  have wf1: "wf_keys (view s1)" unfolding 1(2) using wf(1) by (rule wf_keys_effect(4))
  let ?c = "ZREM backfillLastAckTime [i]"
  obtain r' s2 where 2: "Do E ?c s1 = (Inr r', s2)" "view s2 = redis_effect dbl ?c (view s1)" "pend s2 = []" "Now E s1 \<le> Now E s2"
    by (rule do_up [of ?c s1]) (use 1(4) wf1 in \<open>auto simp: wf_well_typed\<close>)
  show ?case
  proof (cases "view s i")
    case None
    then have "view s1 = view s" "r = RInt 0" "str_of (view s) i = None"
      using 1(2,3) by (auto simp: redis_effect.simps str_of_def)
    then show ?thesis
      by (intro exI [of _ "Inl (Status NotFound)"] exI [of _ s1] exI [of _ "Now E s"])
        (use 1(1,4,5) wf in \<open>simp add: int_conv as_DeleteBackfill_def\<close>)
  next
    case (Some v)
    then have "r = RInt 1" "str_of (view s) i \<noteq> None" using 1(3) str_of_None_iff [OF wf(1) assms] by simp_all
    moreover have "wf_keys (view s2)" "astore_of (view s2) = (astore_of (view s))\<lparr>objs := (str_of (view s))(i := None),
        ttls := (ttl_of (view s))(i := None), acks := (zset_of (view s) backfillLastAckTime)(i := None)\<rparr>"
      unfolding 2(2) using wf1 astore_ZREM_ack [OF wf1] astore_DEL [OF assms, of dbl "view s"]
      by (simp_all add: wf_effects 1(2) [symmetric]) (metis astore_of_sel(5) acks_of_DEL [OF assms] 1(2))
    ultimately show ?thesis
      by (intro exI [of _ "Inr ()"] exI [of _ s2] exI [of _ "Now E s"])
        (use 1(1,5) 2(1,3,4) in \<open>simp add: int_conv as_DeleteBackfill_def deleteExpiredBackfillID_def\<close>)
  qed
qed

lemma UpdateBackfill_meets:
  assumes "bf_Id bf \<notin> reserved"
  shows "rmeets (rb_UpdateBackfill cfg E bf tids) (\<lambda>now now' a r a'.
     (r, a') = as_UpdateBackfill (MarshalBackfill E) (getBackfillReleaseTimeout cfg) bf tids now a)"
  unfolding rb_UpdateBackfill_def
proof (rule meets_conn, goal_cases)
  case wf: (1 s)
  let ?ttl = "getBackfillReleaseTimeout cfg" and ?bi = "\<lparr>bi_Backfill = Some bf, bi_TicketIds = tids\<rparr>"
  obtain s1 where 1: "isBackfillExpired E (bf_Id bf) ?ttl s = (as_expired ?ttl (Now E s1) (bf_Id bf) (astore_of (view s)), s1)"
    "view s1 = view s" "pend s1 = []" "Now E s \<le> Now E s1"
    using isBackfillExpired_up [OF wf] .
  have keep: ?case if "as_expired ?ttl (Now E s1) (bf_Id bf) (astore_of (view s)) \<noteq> Inr False \<or> MarshalBackfill E ?bi = None"
    by (intro exI [of _ "fst (as_UpdateBackfill (MarshalBackfill E) ?ttl bf tids (Now E s1) (astore_of (view s)))"]
          exI [of _ s1] exI [of _ "Now E s1"])
      (use 1 wf that in \<open>auto simp: as_UpdateBackfill_def split: sum.splits option.splits bool.splits\<close>)
  show ?case
  proof (cases "MarshalBackfill E ?bi")
    case None
    then show ?thesis using keep by simp
  next
    case (Some b)
    obtain r s2 where 2: "Do E (SET (bf_Id bf) b) s1 = (Inr r, s2)"
      "view s2 = redis_effect dbl (SET (bf_Id bf) b) (view s1)" "pend s2 = []" "Now E s1 \<le> Now E s2"
      by (rule do_up [of "SET (bf_Id bf) b" s1]) (use 1 wf in \<open>auto simp: wf_well_typed\<close>)
    have ?thesis if "as_expired ?ttl (Now E s1) (bf_Id bf) (astore_of (view s)) = Inr False"
      by (intro exI [of _ "Inr ()"] exI [of _ s2] exI [of _ "Now E s1"])
        (use 1 2 wf Some assms that in \<open>simp add: as_UpdateBackfill_def meets_simps\<close>)
    with keep show ?thesis by blast
  qed
qed

lemma UpdateAcknowledgmentTimestamp_meets:
  "rmeets (rb_UpdateAcknowledgmentTimestamp cfg E i) (\<lambda>now now' a r a'.
     (r, a') = as_Acknowledge dbl (getBackfillReleaseTimeout cfg) i now now' a)"
  unfolding rb_UpdateAcknowledgmentTimestamp_def
proof (rule meets_conn, goal_cases)
  case wf: (1 s)
  let ?ttl = "getBackfillReleaseTimeout cfg"
  obtain s1 where 1: "isBackfillExpired E i ?ttl s = (as_expired ?ttl (Now E s1) i (astore_of (view s)), s1)"
    "view s1 = view s" "pend s1 = []" "Now E s \<le> Now E s1"
    using isBackfillExpired_up [OF wf] .
  obtain s2 where 2: "doUpdateAcknowledgmentTimestamp E i s1 = (Inr (), s2)" "pend s2 = []" "wf_keys (view s2)"
    "astore_of (view s2) = (astore_of (view s1))\<lparr>acks := (acks (astore_of (view s1)))(i \<mapsto> dbl (Now E s1))\<rparr>"
    "Now E s1 \<le> Now E s2"
    using doUpdateAcknowledgmentTimestamp_up [of s1 i] 1 wf by auto
  show ?case
  proof (cases "as_expired ?ttl (Now E s1) i (astore_of (view s)) = Inr False")
    case True
    then show ?thesis
      by (intro exI [of _ "Inr ()"] exI [of _ s2] exI [of _ "Now E s1"])
        (use 1 2 in \<open>simp add: as_Acknowledge_def\<close>)
  next
    case False
    then show ?thesis
      by (intro exI [of _ "fst (as_Acknowledge dbl ?ttl i (Now E s1) (Now E s1) (astore_of (view s)))"]
            exI [of _ s1] exI [of _ "Now E s1"])
        (use 1 wf in \<open>auto simp: as_Acknowledge_def split: sum.splits bool.splits\<close>)
  qed
qed

lemma GetExpiredBackfillIDs_meets:
  "rmeets (rb_GetExpiredBackfillIDs cfg E) (\<lambda>now now' a r a'. a' = a \<and>
     (\<exists>ids. r = Inr ids \<and> distinct ids \<and> set ids = scored dbl (acks a) 0 (now - getBackfillReleaseTimeout cfg)))"
  unfolding rb_GetExpiredBackfillIDs_def Let_def
  by (rule meets_Do [where c = "\<lambda>now. ZRANGEBYSCORE backfillLastAckTime 0 (now - getBackfillReleaseTimeout cfg)"
        and k = "\<lambda>rep. case redisStrings E (Inr rep) of Inl _ \<Rightarrow> Inl (Status Internal) | Inr ids \<Rightarrow> Inr ids"])
    (auto simp: meets_simps redis_effect.simps strings_conv scored_def split: sum.splits)

lemma IndexBackfill_meets:
  "rmeets (rb_IndexBackfill E bf) (\<lambda>now now' a r a'. r = Inr () \<and> a' = as_IndexBackfill bf a)"
  unfolding rb_IndexBackfill_def as_IndexBackfill_def
  by (rule meets_weaken [OF meets_Send]) (auto simp: meets_simps)

lemma DeindexBackfill_meets:
  "rmeets (rb_DeindexBackfill E i) (\<lambda>now now' a r a'. r = Inr () \<and> a' = as_DeindexBackfill i a)"
  unfolding rb_DeindexBackfill_def as_DeindexBackfill_def
  by (rule meets_weaken [OF meets_Send]) (auto simp: meets_simps)

lemma GetIndexedBackfills_meets:
  "rmeets (rb_GetIndexedBackfills cfg E) (\<lambda>now now' a r a'. a' = a \<and>
     r = as_GetIndexedBackfills dbl (getBackfillReleaseTimeout cfg) now a \<and>
     finite (scored dbl (acks a) (now - getBackfillReleaseTimeout cfg) (now + Hour)))"
  unfolding rb_GetIndexedBackfills_def Let_def
proof (rule meets_conn, goal_cases)
  case wf: (1 s1)
  let ?lo = "Now E s1 - getBackfillReleaseTimeout cfg" and ?hi = "Now E s1 + Hour"
  let ?c = "ZRANGEBYSCORE backfillLastAckTime ?lo ?hi"
  obtain rep s2 where 1: "Do E ?c s1 = (Inr rep, s2)" "view s2 = redis_effect dbl ?c (view s1)"
    "redis_reply dbl ?c (view s1) rep" "pend s2 = []" "Now E s1 \<le> Now E s2"
    by (rule do_up [of ?c s1]) (use wf in \<open>auto simp: wf_well_typed\<close>)
  then have v: "view s2 = view s1" by (simp add: redis_effect.simps)
  obtain rep' s3 where 2: "Do E (HGETALL allBackfills) s2 = (Inr rep', s3)"
    "view s3 = redis_effect dbl (HGETALL allBackfills) (view s2)"
    "redis_reply dbl (HGETALL allBackfills) (view s2) rep'" "pend s3 = []" "Now E s2 \<le> Now E s3"
    by (rule do_up [of "HGETALL allBackfills" s2]) (use wf v 1 in \<open>auto simp: wf_well_typed\<close>)
  from 1(3) obtain xs where xs: "rep = RArr (map RBulk xs)"
    "set xs = scored dbl (zset_of (view s1) backfillLastAckTime) ?lo ?hi" by (auto simp: scored_def)
  from 2(3) v obtain ps where ps: "rep' = RArr (concat (map (\<lambda>(f, v). [RBulk f, RBulk v]) ps))"
    "distinct (map fst ps)" "map_of ps = hash_of (view s1) allBackfills" by auto
  have v3: "flushed s3 = view s1" using 2(2,4) v by (simp add: redis_effect.simps)
  have "gib_loop (hash_of (view s1) allBackfills) xs Map.empty =
      as_GetIndexedBackfills dbl (getBackfillReleaseTimeout cfg) (Now E s1) (astore_of (view s1))"
    by (auto simp: gib_loop_spec as_GetIndexedBackfills_def Let_def xs(2) fun_eq_iff)
  moreover have "finite (scored dbl (acks (astore_of (view s1))) ?lo ?hi)"
    using xs(2) by (metis List.finite_set astore_of_sel(5))
  ultimately show ?case
    by (intro exI [of _ "as_GetIndexedBackfills dbl (getBackfillReleaseTimeout cfg) (Now E s1) (astore_of (view s1))"]
          exI [of _ s3] exI [of _ "Now E s1"])
      (use 1(1,5) 2(1,5) wf xs(1) ps in \<open>simp add: strings_conv map_conv v3\<close>)
qed

lemma DeleteBackfillCompletely_meets:
  assumes i: "i \<notin> reserved"
  shows "rmeets (rb_DeleteBackfillCompletely E i) (\<lambda>now now' a r a'.
     r = Inr () \<and> a' = as_DeleteCompletely (UnmarshalBackfill E) i a)"
  unfolding meets_def
proof (intro allI impI)
  fix s assume wf: "wf_keys (view s)"
  obtain s1 where 1: "Lock E i s = (None, s1)" using up_lock [of i s] by (cases "Lock E i s") auto
  with lock have v1: "view s1 = view s" "Now E s \<le> Now E s1" by blast+
  obtain r2 s2 where 2: "rb_DeindexBackfill E i s1 = (r2, s2)" "Now E s1 \<le> Now E s2" "wf_keys (view s2)"
    "r2 = Inr ()" "astore_of (view s2) = as_DeindexBackfill i (astore_of (view s1))"
    by (rule meetsE [OF DeindexBackfill_meets [of i], of s1]) (use wf v1 in auto)
  obtain r3 s3 where 3: "rb_GetBackfill E i s2 = (r3, s3)" "Now E s2 \<le> Now E s3" "wf_keys (view s3)"
    "r3 = as_GetBackfill (UnmarshalBackfill E) i (astore_of (view s2))" "astore_of (view s3) = astore_of (view s2)"
    by (rule meetsE [OF GetBackfill_meets [OF i], of s2]) (use 2 in auto)
  define tids where "tids = (case r3 of Inl _ \<Rightarrow> [] | Inr (_, tids) \<Rightarrow> tids)"
  obtain r4 s4 where 4: "rb_DeleteTicketsFromPendingRelease E tids s3 = (r4, s4)" "Now E s3 \<le> Now E s4" "wf_keys (view s4)"
    "astore_of (view s4) = as_DeletePending tids (astore_of (view s3))"
    by (rule meetsE [OF DeleteTicketsFromPendingRelease_meets [of tids], of s3]) (use 3 in auto)
  obtain r5 s5 where 5: "rb_DeleteBackfill E i s4 = (r5, s5)" "Now E s4 \<le> Now E s5" "wf_keys (view s5)"
    "astore_of (view s5) = snd (as_DeleteBackfill i (astore_of (view s4)))"
    by (rule meetsE [OF DeleteBackfill_meets [OF i], of s4]) (use 4 in \<open>auto simp: prod_eq_iff\<close>)
  obtain r6 s6 where 6: "Unlock E i s5 = (r6, s6)" by (cases "Unlock E i s5")
  with unlock have v6: "view s6 = view s5" "Now E s5 \<le> Now E s6" by blast+
  have "rb_DeleteBackfillCompletely E i s = (Inr (), s6)"
    using 1 2 3 4 5 6 by (simp add: rb_DeleteBackfillCompletely_def Let_def tids_def)
  moreover have "astore_of (view s6) = as_DeleteCompletely (UnmarshalBackfill E) i (astore_of (view s))"
    using v6 5 4 3 2 v1 by (simp add: as_DeleteCompletely_def Let_def tids_def)
  ultimately show "rmeets_at (rb_DeleteBackfillCompletely E i) (\<lambda>now now' a r a'.
     r = Inr () \<and> a' = as_DeleteCompletely (UnmarshalBackfill E) i a) s"
    using v1 2(2) 3(2) 4(2) 5(2,3) v6
    unfolding meets_at_def by (intro exI [of _ "Now E s"]) simp
qed

lemma cleanupWorker_up:
  assumes "wf_keys (view s)" and "\<forall>i \<in> set ids. i \<notin> reserved"
  shows "wf_keys (view (cleanupWorker E ids s)) \<and> Now E s \<le> Now E (cleanupWorker E ids s) \<and>
    astore_of (view (cleanupWorker E ids s)) =
      fold (as_DeleteCompletely (UnmarshalBackfill E)) ids (astore_of (view s))"
  using assms
proof (induction ids arbitrary: s)
  case (Cons i ids)
  obtain r s1 where "rb_DeleteBackfillCompletely E i s = (r, s1)" "Now E s \<le> Now E s1" "wf_keys (view s1)"
    "astore_of (view s1) = as_DeleteCompletely (UnmarshalBackfill E) i (astore_of (view s))"
    by (rule meetsE [OF DeleteBackfillCompletely_meets [of i], of s]) (use Cons.prems in auto)
  with Cons.IH [of s1] Cons.prems(2) show ?case by auto
qed simp

lemma CleanupBackfills_meets:
  assumes sched: "\<And>xs. mset (sched xs) = mset xs"
    and wf: "wf_keys (view s)" and acks: "dom (zset_of (view s) backfillLastAckTime) \<inter> reserved = {}"
  shows "rmeets_at (rb_CleanupBackfills sched cfg E) (\<lambda>now now' a r a'. r = Inr () \<and>
     (\<exists>ids. distinct ids \<and> set ids = scored dbl (acks a) 0 (now - getBackfillReleaseTimeout cfg) \<and>
        a' = fold (as_DeleteCompletely (UnmarshalBackfill E)) ids a)) s"
proof -
  obtain now r s1 ids where 1: "rb_GetExpiredBackfillIDs cfg E s = (r, s1)" "Now E s \<le> now" "now \<le> Now E s1"
    "wf_keys (view s1)" "astore_of (view s1) = astore_of (view s)" "r = Inr ids" "distinct ids"
    "set ids = scored dbl (acks (astore_of (view s))) 0 (now - getBackfillReleaseTimeout cfg)"
    by (rule meetsE [OF GetExpiredBackfillIDs_meets [of cfg], of s]) (use wf in auto)
  let ?ids = "sched ids"
  have ids: "set ?ids = set ids" "distinct ?ids"
    using sched [of ids] 1(7) by (auto dest: mset_eq_setD mset_eq_imp_distinct_iff)
  have "\<forall>i \<in> set ?ids. i \<notin> reserved" using acks 1(8) ids(1) by (auto simp: scored_def)
  from cleanupWorker_up [OF 1(4) this] 1 ids show ?thesis
    unfolding meets_at_def
    by (intro exI [of _ now]) (auto simp: rb_CleanupBackfills_def intro!: exI [of _ ?ids])
qed

end

end
