(* ===== verification/Redis_Backend.thy ===== *)
theory Redis_Backend
  imports Backfill_Store
begin

text \<open>
  The Redis implementation of \<open>statestore.Service\<close> assembled from its operations (\<open>redis.go\<close>), the
  instrumented wrapper (\<open>instrumented.go\<close>) and the constructor that chooses between them
  (\<open>public.go\<close>), with the refinement theorem: on a healthy server the Redis store meets the contract
  of \<open>Store_Service\<close>.
\<close>

section \<open>Assembly\<close>

definition redis_service :: "(string list \<Rightarrow> string list) \<Rightarrow> config_view \<Rightarrow> ('s, 'b) env \<Rightarrow> ('s, 'c) service" where
  "redis_service sched cfg E = \<lparr>
     HealthCheck = rb_HealthCheck E,
     CreateTicket = rb_CreateTicket E,
     GetTicket = rb_GetTicket E,
     DeleteTicket = rb_DeleteTicket E,
     IndexTicket = rb_IndexTicket E,
     DeindexTicket = rb_DeindexTicket E,
     GetIndexedIDSet = rb_GetIndexedIDSet cfg E,
     GetTickets = rb_GetTickets E,
     UpdateAssignments = rb_UpdateAssignments cfg E,
     GetAssignments = (\<lambda>n. rb_GetAssignments n E),
     AddTicketsToPendingRelease = rb_AddTicketsToPendingRelease E,
     DeleteTicketsFromPendingRelease = rb_DeleteTicketsFromPendingRelease E,
     ReleaseAllTickets = rb_ReleaseAllTickets E,
     CreateBackfill = rb_CreateBackfill E,
     GetBackfill = rb_GetBackfill E,
     GetBackfills = rb_GetBackfills E,
     DeleteBackfill = rb_DeleteBackfill E,
     DeleteBackfillCompletely = rb_DeleteBackfillCompletely E,
     UpdateBackfill = rb_UpdateBackfill cfg E,
     MutexLock = Lock E,
     MutexUnlock = Unlock E,
     CleanupBackfills = rb_CleanupBackfills sched cfg E,
     UpdateAcknowledgmentTimestamp = rb_UpdateAcknowledgmentTimestamp cfg E,
     GetExpiredBackfillIDs = rb_GetExpiredBackfillIDs cfg E,
     IndexBackfill = rb_IndexBackfill E,
     DeindexBackfill = rb_DeindexBackfill E,
     GetIndexedBackfills = rb_GetIndexedBackfills cfg E\<rparr>"

text \<open>The wrapper opens a trace span around each call and delegates it.\<close>

definition instrumentedService :: "('s, 'c) service \<Rightarrow> ('s, 'c) service" where
  "instrumentedService s = \<lparr>
     HealthCheck = (\<lambda>st. case HealthCheck s st of (err, st') \<Rightarrow> (err, st')),
     CreateTicket = (\<lambda>ticket. CreateTicket s ticket),
     GetTicket = (\<lambda>i. GetTicket s i),
     DeleteTicket = (\<lambda>i. DeleteTicket s i),
     IndexTicket = (\<lambda>ticket. IndexTicket s ticket),
     DeindexTicket = (\<lambda>i. DeindexTicket s i),
     GetIndexedIDSet = GetIndexedIDSet s,
     GetTickets = (\<lambda>ids. GetTickets s ids),
     UpdateAssignments = (\<lambda>req. UpdateAssignments s req),
     GetAssignments = (\<lambda>n i callback. GetAssignments s n i callback),
     AddTicketsToPendingRelease = (\<lambda>ids. AddTicketsToPendingRelease s ids),
     DeleteTicketsFromPendingRelease = (\<lambda>ids. DeleteTicketsFromPendingRelease s ids),
     ReleaseAllTickets = ReleaseAllTickets s,
     CreateBackfill = (\<lambda>backfill ticketIDs. CreateBackfill s backfill ticketIDs),
     GetBackfill = (\<lambda>i. GetBackfill s i),
     GetBackfills = (\<lambda>ids. GetBackfills s ids),
     DeleteBackfill = (\<lambda>i. DeleteBackfill s i),
     DeleteBackfillCompletely = (\<lambda>i. DeleteBackfillCompletely s i),
     UpdateBackfill = (\<lambda>backfill ticketIDs. UpdateBackfill s backfill ticketIDs),
     MutexLock = (\<lambda>key. MutexLock s key),
     MutexUnlock = (\<lambda>key. MutexUnlock s key),
     CleanupBackfills = CleanupBackfills s,
     UpdateAcknowledgmentTimestamp = (\<lambda>i. UpdateAcknowledgmentTimestamp s i),
     GetExpiredBackfillIDs = GetExpiredBackfillIDs s,
     IndexBackfill = (\<lambda>backfill. IndexBackfill s backfill),
     DeindexBackfill = (\<lambda>i. DeindexBackfill s i),
     GetIndexedBackfills = GetIndexedBackfills s\<rparr>"

definition New :: "(string list \<Rightarrow> string list) \<Rightarrow> config_view \<Rightarrow> ('s, 'b) env \<Rightarrow> ('s, 'c) service" where
  "New sched cfg E =
    (let s = redis_service sched cfg E in
     if GetBool cfg ''telemetry.prometheus.enable'' then instrumentedService s else s)"

lemma instrumentedService_id: "instrumentedService s = s"
  by (simp add: instrumentedService_def)

lemma New_eq: "New sched cfg E = redis_service sched cfg E"
  by (simp add: New_def Let_def instrumentedService_id)

lemma redis_service_sel [simp]:
  "CreateTicket (redis_service sched cfg E) = rb_CreateTicket E"
  "GetTicket (redis_service sched cfg E) = rb_GetTicket E"
  "DeleteTicket (redis_service sched cfg E) = rb_DeleteTicket E"
  "IndexTicket (redis_service sched cfg E) = rb_IndexTicket E"
  "DeindexTicket (redis_service sched cfg E) = rb_DeindexTicket E"
  "GetIndexedIDSet (redis_service sched cfg E) = rb_GetIndexedIDSet cfg E"
  "GetTickets (redis_service sched cfg E) = rb_GetTickets E"
  "UpdateAssignments (redis_service sched cfg E) = rb_UpdateAssignments cfg E"
  "GetAssignments (redis_service sched cfg E) = (\<lambda>n. rb_GetAssignments n E)"
  "AddTicketsToPendingRelease (redis_service sched cfg E) = rb_AddTicketsToPendingRelease E"
  "DeleteTicketsFromPendingRelease (redis_service sched cfg E) = rb_DeleteTicketsFromPendingRelease E"
  "ReleaseAllTickets (redis_service sched cfg E) = rb_ReleaseAllTickets E"
  "CreateBackfill (redis_service sched cfg E) = rb_CreateBackfill E"
  "GetBackfill (redis_service sched cfg E) = rb_GetBackfill E"
  "GetBackfills (redis_service sched cfg E) = rb_GetBackfills E"
  "DeleteBackfill (redis_service sched cfg E) = rb_DeleteBackfill E"
  "DeleteBackfillCompletely (redis_service sched cfg E) = rb_DeleteBackfillCompletely E"
  "UpdateBackfill (redis_service sched cfg E) = rb_UpdateBackfill cfg E"
  "MutexLock (redis_service sched cfg E) = Lock E"
  "MutexUnlock (redis_service sched cfg E) = Unlock E"
  "CleanupBackfills (redis_service sched cfg E) = rb_CleanupBackfills sched cfg E"
  "UpdateAcknowledgmentTimestamp (redis_service sched cfg E) = rb_UpdateAcknowledgmentTimestamp cfg E"
  "GetExpiredBackfillIDs (redis_service sched cfg E) = rb_GetExpiredBackfillIDs cfg E"
  "IndexBackfill (redis_service sched cfg E) = rb_IndexBackfill E"
  "DeindexBackfill (redis_service sched cfg E) = rb_DeindexBackfill E"
  "GetIndexedBackfills (redis_service sched cfg E) = rb_GetIndexedBackfills cfg E"
  by (simp_all add: redis_service_def)

section \<open>Refinement\<close>

locale redis_backend = redis_up E view pend dbl
  for E :: "('s, 'b) env" and view :: "'s \<Rightarrow> 'b keyspace" and pend :: "'s \<Rightarrow> 'b rcmd list"
    and dbl :: "int \<Rightarrow> int" +
  fixes sched :: "string list \<Rightarrow> string list" and cfg :: config_view
  assumes sched: "mset (sched xs) = mset xs"
begin

lemma Lock_meets: "rmeets (Lock E i) (\<lambda>now now' a re a'. re = None \<and> a' = a)"
  unfolding meets_def meets_at_def
proof (intro allI impI)
  fix s assume "wf_keys (view s)"
  with up_lock [of i s] lock [of i s] show "\<exists>now now'. Now E s \<le> now \<and> now \<le> now' \<and> now' \<le> Now E (snd (Lock E i s)) \<and>
    wf_keys (view (snd (Lock E i s))) \<and> fst (Lock E i s) = None \<and> astore_of (view (snd (Lock E i s))) = astore_of (view s)"
    by (intro exI [of _ "Now E s"]) (cases "Lock E i s", auto)
qed

lemma Unlock_meets: "rmeets (Unlock E i) (\<lambda>now now' a re a'. a' = a)"
  unfolding meets_def meets_at_def
proof (intro allI impI)
  fix s assume "wf_keys (view s)"
  with unlock [of i s] show "\<exists>now now'. Now E s \<le> now \<and> now \<le> now' \<and> now' \<le> Now E (snd (Unlock E i s)) \<and>
    wf_keys (view (snd (Unlock E i s))) \<and> astore_of (view (snd (Unlock E i s))) = astore_of (view s)"
    by (intro exI [of _ "Now E s"]) (cases "Unlock E i s", auto)
qed

end

sublocale redis_backend \<subseteq> st: statestore "redis_service sched cfg E" "\<lambda>s. wf_keys (view s)"
  "\<lambda>s. astore_of (view s)" "Now E" dbl "MarshalTicket E" "UnmarshalTicket E" "MarshalBackfill E"
  "UnmarshalBackfill E" "GetDuration cfg ''pendingReleaseTimeout''" "getBackfillReleaseTimeout cfg"
  "go_div (getAssignedDeleteTimeout cfg) Millisecond"
  by unfold_locales
    (simp_all only: not_False_eq_True redis_service_sel CreateTicket_meets GetTicket_meets DeleteTicket_meets IndexTicket_meets
       DeindexTicket_meets GetIndexedIDSet_meets GetTickets_meets UpdateAssignments_meets
       AddTicketsToPendingRelease_meets DeleteTicketsFromPendingRelease_meets ReleaseAllTickets_meets
       CreateBackfill_meets GetBackfill_meets GetBackfills_meets DeleteBackfill_meets
       DeleteBackfillCompletely_meets UpdateBackfill_meets Lock_meets Unlock_meets
       CleanupBackfills_meets [OF sched] UpdateAcknowledgmentTimestamp_meets GetExpiredBackfillIDs_meets
       IndexBackfill_meets DeindexBackfill_meets GetIndexedBackfills_meets astore_of_sel
       ticket_codec backfill_codec dbl_mono dbl_near)

context redis_backend
begin

lemma backend_contract:
  "S = New sched cfg E \<Longrightarrow> statestore S (\<lambda>s. wf_keys (view s)) (\<lambda>s. astore_of (view s)) (Now E) dbl
    (MarshalTicket E) (UnmarshalTicket E) (MarshalBackfill E) (UnmarshalBackfill E)
    (GetDuration cfg ''pendingReleaseTimeout'') (getBackfillReleaseTimeout cfg)
    (go_div (getAssignedDeleteTimeout cfg) Millisecond)"
  unfolding New_eq by (simp only:) unfold_locales

end

end
