(* ===== verification/Redis_Reference.thy ===== *)
theory Redis_Reference
  imports Redis_Backend
begin

text \<open>
  A reference environment for the state store: an executable server that keeps its keys in an
  association list and its collections in lists, whose clock ticks with every call, and in which the
  calls whose number satisfies the predicate \<open>fault\<close> fail. It satisfies the laws of \<open>Redis\<close> for
  every \<open>fault\<close>, and those of a healthy server when no call fails, so the theorems that assume the laws
  apply to it.
\<close>

section \<open>Keys and values\<close>

datatype blob = BTicket ticket | BBackfill backfill_internal

datatype lval =
    LString blob "int option"
  | LSet "string list"
  | LZset "(string \<times> int) list"
  | LHash "(string \<times> string) list"

type_synonym lkeys = "(string \<times> lval) list"

fun lval_view :: "lval \<Rightarrow> blob rval" where
  "lval_view (LString b t) = RString b t"
| "lval_view (LSet xs) = RSet (set xs)"
| "lval_view (LZset ps) = RZset (map_of ps)"
| "lval_view (LHash ps) = RHash (map_of ps)"

definition lview :: "lkeys \<Rightarrow> blob keyspace" where
  "lview d k = map_option lval_view (map_of d k)"

definition lput :: "string \<Rightarrow> lval \<Rightarrow> lkeys \<Rightarrow> lkeys" where
  "lput k v d = (k, v) # d"

definition ldel :: "string \<Rightarrow> lkeys \<Rightarrow> lkeys" where
  "ldel k d = filter (\<lambda>p. fst p \<noteq> k) d"

definition lset :: "lkeys \<Rightarrow> string \<Rightarrow> string list" where
  "lset d k = (case map_of d k of Some (LSet xs) \<Rightarrow> xs | _ \<Rightarrow> [])"

definition lzset :: "lkeys \<Rightarrow> string \<Rightarrow> (string \<times> int) list" where
  "lzset d k = (case map_of d k of Some (LZset ps) \<Rightarrow> ps | _ \<Rightarrow> [])"

definition lhash :: "lkeys \<Rightarrow> string \<Rightarrow> (string \<times> string) list" where
  "lhash d k = (case map_of d k of Some (LHash ps) \<Rightarrow> ps | _ \<Rightarrow> [])"

definition lstr :: "lkeys \<Rightarrow> string \<Rightarrow> blob option" where
  "lstr d k = (case map_of d k of Some (LString b _) \<Rightarrow> Some b | _ \<Rightarrow> None)"

lemma lview_lput [simp]: "lview (lput k v d) = (lview d)(k \<mapsto> lval_view v)"
  by (auto simp: lview_def lput_def)

lemma lview_ldel [simp]: "lview (ldel k d) = (lview d)(k := None)"
proof -
  have "map_of (ldel k d) j = ((map_of d)(k := None)) j" for j
    by (induction d) (auto simp: ldel_def)
  then show ?thesis by (auto simp: lview_def)
qed

lemma lview_access [simp]:
  "set_of (lview d) k = set (lset d k)" "zset_of (lview d) k = map_of (lzset d k)"
  "hash_of (lview d) k = map_of (lhash d k)" "str_of (lview d) k = lstr d k"
  by (cases "map_of d k"; cases "the (map_of d k)";
      simp add: lview_def set_of_def lset_def zset_of_def lzset_def hash_of_def lhash_def str_of_def lstr_def)+

lemma map_of_filter_key: "map_of (filter (\<lambda>p. P (fst p)) ps) k = (if P k then map_of ps k else None)"
  by (induction ps) auto

section \<open>Commands\<close>

text \<open>Scores are rounded to the precision of a double near the current time.\<close>

definition dbl256 :: "int \<Rightarrow> int" where
  "dbl256 x = (x + 128) div 256 * 256"

fun l_typed :: "blob rcmd \<Rightarrow> lkeys \<Rightarrow> bool" where
  "l_typed c d = (case c of
       GET k \<Rightarrow> (case map_of d k of None \<Rightarrow> True | Some (LString _ _) \<Rightarrow> True | _ \<Rightarrow> False)
     | SADD k _ \<Rightarrow> (case map_of d k of None \<Rightarrow> True | Some (LSet _) \<Rightarrow> True | _ \<Rightarrow> False)
     | SREM k _ \<Rightarrow> (case map_of d k of None \<Rightarrow> True | Some (LSet _) \<Rightarrow> True | _ \<Rightarrow> False)
     | SMEMBERS k \<Rightarrow> (case map_of d k of None \<Rightarrow> True | Some (LSet _) \<Rightarrow> True | _ \<Rightarrow> False)
     | ZADD k _ \<Rightarrow> (case map_of d k of None \<Rightarrow> True | Some (LZset _) \<Rightarrow> True | _ \<Rightarrow> False)
     | ZREM k _ \<Rightarrow> (case map_of d k of None \<Rightarrow> True | Some (LZset _) \<Rightarrow> True | _ \<Rightarrow> False)
     | ZSCORE k _ \<Rightarrow> (case map_of d k of None \<Rightarrow> True | Some (LZset _) \<Rightarrow> True | _ \<Rightarrow> False)
     | ZRANGEBYSCORE k _ _ \<Rightarrow> (case map_of d k of None \<Rightarrow> True | Some (LZset _) \<Rightarrow> True | _ \<Rightarrow> False)
     | HSET k _ _ \<Rightarrow> (case map_of d k of None \<Rightarrow> True | Some (LHash _) \<Rightarrow> True | _ \<Rightarrow> False)
     | HDEL k _ \<Rightarrow> (case map_of d k of None \<Rightarrow> True | Some (LHash _) \<Rightarrow> True | _ \<Rightarrow> False)
     | HGETALL k \<Rightarrow> (case map_of d k of None \<Rightarrow> True | Some (LHash _) \<Rightarrow> True | _ \<Rightarrow> False)
     | _ \<Rightarrow> True)"

declare l_typed.simps [simp del]

lemma l_kinds:
  "(case map_of d k of None \<Rightarrow> True | Some (LString _ _) \<Rightarrow> True | _ \<Rightarrow> False) = is_string_key (lview d) k"
  "(case map_of d k of None \<Rightarrow> True | Some (LSet _) \<Rightarrow> True | _ \<Rightarrow> False) = is_set_key (lview d) k"
  "(case map_of d k of None \<Rightarrow> True | Some (LZset _) \<Rightarrow> True | _ \<Rightarrow> False) = is_zset_key (lview d) k"
  "(case map_of d k of None \<Rightarrow> True | Some (LHash _) \<Rightarrow> True | _ \<Rightarrow> False) = is_hash_key (lview d) k"
  by (auto simp: lview_def key_kinds split: option.splits lval.splits)

lemma l_typed: "l_typed c d = well_typed c (lview d)"
  by (cases c) (simp_all add: l_typed.simps l_kinds)

fun l_effect :: "blob rcmd \<Rightarrow> lkeys \<Rightarrow> lkeys" where
  "l_effect (SET k v) d = lput k (LString v None) d"
| "l_effect (SETNX k v) d = (if map_of d k = None then lput k (LString v None) d else d)"
| "l_effect (SETPX_XX k v px) d = (if map_of d k \<noteq> None then lput k (LString v (Some px)) d else d)"
| "l_effect (DEL k) d = ldel k d"
| "l_effect (SADD k m) d = lput k (LSet (m # lset d k)) d"
| "l_effect (SREM k m) d =
     (let xs = removeAll m (lset d k) in if xs = [] then ldel k d else lput k (LSet xs) d)"
| "l_effect (ZADD k ps) d = lput k (LZset (fold (\<lambda>(sc, m) z. (m, dbl256 sc) # z) ps (lzset d k))) d"
| "l_effect (ZREM k ms) d =
     (let ps = filter (\<lambda>p. fst p \<notin> set ms) (lzset d k) in if ps = [] then ldel k d else lput k (LZset ps) d)"
| "l_effect (HSET k f v) d = lput k (LHash ((f, itoa v) # lhash d k)) d"
| "l_effect (HDEL k f) d =
     (let ps = filter (\<lambda>p. fst p \<noteq> f) (lhash d k) in if ps = [] then ldel k d else lput k (LHash ps) d)"
| "l_effect _ d = d"

lemma map_of_empty_iff: "map_of ps = Map.empty \<longleftrightarrow> ps = []"
  by (cases ps) auto

lemma map_of_fold_ZADD:
  "map_of (fold (\<lambda>(sc, m) z. (m, dbl sc) # z) ps z) = fold (\<lambda>(sc, m) z. z(m \<mapsto> dbl sc)) ps (map_of z)"
  by (induction ps arbitrary: z) auto

lemma lview_None_iff: "lview d k = None \<longleftrightarrow> map_of d k = None"
  by (simp add: lview_def)

lemma l_effect: "lview (l_effect c d) = redis_effect dbl256 c (lview d)"
proof (cases c)
  case (ZREM k ms)
  have "map_of (filter (\<lambda>p. fst p \<notin> set ms) (lzset d k)) = map_of (lzset d k) |` (- set ms)"
    using map_of_filter_key [of "\<lambda>i. i \<notin> set ms" "lzset d k"] by (auto simp: restrict_map_def fun_eq_iff)
  then show ?thesis using ZREM map_of_empty_iff [of "filter (\<lambda>p. fst p \<notin> set ms) (lzset d k)"] by (simp add: Let_def)
next
  case (HDEL k f)
  have "map_of (filter (\<lambda>p. fst p \<noteq> f) (lhash d k)) = (map_of (lhash d k))(f := None)"
    using map_of_filter_key [of "\<lambda>i. i \<noteq> f" "lhash d k"] by (auto simp: fun_eq_iff)
  then show ?thesis using HDEL map_of_empty_iff [of "filter (\<lambda>p. fst p \<noteq> f) (lhash d k)"] by (simp add: Let_def)
next
  case (SREM k m)
  have "removeAll m (lset d k) = [] \<longleftrightarrow> set (lset d k) - {m} = {}" by (metis set_empty set_removeAll)
  then show ?thesis using SREM by (simp add: Let_def)
qed (auto simp: map_of_fold_ZADD lview_None_iff)

definition l_next :: "blob rcmd \<Rightarrow> lkeys \<Rightarrow> lkeys" where
  "l_next c d = (if l_typed c d then l_effect c d else d)"

lemma l_next: "lview (l_next c d) = redis_next dbl256 c (lview d)"
  by (simp add: l_next_def redis_next_def l_typed l_effect)

lemma l_run: "lview (fold l_next cs d) = redis_run dbl256 cs (lview d)"
  by (induction cs arbitrary: d) (simp_all add: l_next)

definition dedup :: "('a \<times> 'v) list \<Rightarrow> ('a \<times> 'v) list" where
  "dedup ps = map (\<lambda>k. (k, the (map_of ps k))) (remdups (map fst ps))"

lemma dedup_keys: "distinct (map fst (dedup ps))"
  by (simp add: dedup_def comp_def)

lemma map_of_dedup: "map_of (dedup ps) = map_of ps"
proof
  fix k
  show "map_of (dedup ps) k = map_of ps k"
    using map_of_eq_None_iff [of ps k]
    by (cases "map_of ps k") (simp_all add: dedup_def map_of_map_restrict restrict_map_def)
qed

fun l_reply :: "blob rcmd \<Rightarrow> lkeys \<Rightarrow> blob reply" where
  "l_reply (SETNX k _) d = RInt (if map_of d k = None then 1 else 0)"
| "l_reply (SETPX_XX k _ _) d = (if map_of d k \<noteq> None then RStatus ''OK'' else RNil)"
| "l_reply (GET k) d = blob_reply (lstr d k)"
| "l_reply (DEL k) d = RInt (if map_of d k = None then 0 else 1)"
| "l_reply (MGET ids) d = RArr (map (\<lambda>k. blob_reply (lstr d k)) ids)"
| "l_reply (SMEMBERS k) d = RArr (map RBulk (remdups (lset d k)))"
| "l_reply (ZSCORE k m) d = (case map_of (lzset d k) m of None \<Rightarrow> RNil | Some sc \<Rightarrow> RScore sc)"
| "l_reply (ZRANGEBYSCORE k lo hi) d =
     RArr (map RBulk (map fst (filter (\<lambda>p. dbl256 lo \<le> snd p \<and> snd p \<le> dbl256 hi) (dedup (lzset d k)))))"
| "l_reply (HGETALL k) d = RArr (concat (map (\<lambda>(f, v). [RBulk f, RBulk v]) (dedup (lhash d k))))"
| "l_reply _ d = RStatus ''OK''"

lemma dedup_filter_keys:
  "set (map fst (filter (\<lambda>p. P (snd p)) (dedup ps))) = {m. \<exists>sc. map_of ps m = Some sc \<and> P sc}"
proof -
  have "(m, sc) \<in> set (dedup ps) \<longleftrightarrow> map_of ps m = Some sc" for m sc
    using map_of_eq_Some_iff [OF dedup_keys, of ps m sc] by (simp add: map_of_dedup)
  then show ?thesis by force
qed

lemma dedup_filter_distinct: "distinct (map fst (filter P (dedup ps)))"
  by (rule distinct_map_filter) (rule dedup_keys)

lemma l_reply: "redis_reply dbl256 c (lview d) (l_reply c d)"
proof (cases c)
  case (ZRANGEBYSCORE k lo hi)
  then show ?thesis
    using dedup_filter_keys [of "\<lambda>sc. dbl256 lo \<le> sc \<and> sc \<le> dbl256 hi" "lzset d k"]
      dedup_filter_distinct [of "\<lambda>p. dbl256 lo \<le> snd p \<and> snd p \<le> dbl256 hi" "lzset d k"]
    by (auto intro!: exI [of _ "map fst (filter (\<lambda>p. dbl256 lo \<le> snd p \<and> snd p \<le> dbl256 hi) (dedup (lzset d k)))"])
next
  case (HGETALL k)
  then show ?thesis using dedup_keys map_of_dedup by fastforce
next
  case (SMEMBERS k)
  then show ?thesis by (auto intro!: exI [of _ "remdups (lset d k)"])
qed (simp_all add: lview_None_iff)

section \<open>Reply conversions\<close>

definition conv :: "('b reply \<Rightarrow> rerr + 'a) \<Rightarrow> rerr + 'b reply \<Rightarrow> rerr + 'a" where
  "conv f r = (case r of Inl e \<Rightarrow> Inl e | Inr x \<Rightarrow> f x)"

definition l_elems :: "('b reply \<Rightarrow> 'a option) \<Rightarrow> 'b reply \<Rightarrow> rerr + 'a list" where
  "l_elems f r = (case r of RArr rs \<Rightarrow> (case those (map f rs) of None \<Rightarrow> Inl (RErr 2) | Some xs \<Rightarrow> Inr xs)
     | _ \<Rightarrow> Inl (RErr 2))"

fun l_pairs :: "'b reply list \<Rightarrow> (string \<times> string) list option" where
  "l_pairs [] = Some []"
| "l_pairs (RBulk f # RBulk v # rs) = map_option ((#) (f, v)) (l_pairs rs)"
| "l_pairs _ = None"

lemma l_pairs_concat: "l_pairs (concat (map (\<lambda>(f, v). [RBulk f, RBulk v]) ps)) = Some ps"
  by (induction ps) auto

section \<open>The environment\<close>

text \<open>\<open>rs_script\<close> holds what other clients do during the waits of a polling loop.\<close>

record rstate =
  rs_data :: lkeys
  rs_pend :: "blob rcmd list"
  rs_time :: int
  rs_steps :: nat
  rs_script :: "blob rcmd list list"

definition tick :: "rstate \<Rightarrow> rstate" where
  "tick s = s\<lparr>rs_time := rs_time s + 1000, rs_steps := Suc (rs_steps s)\<rparr>"

definition strings_in :: "lkeys \<Rightarrow> string list" where
  "strings_in d = [allTickets, proposedTicketIDs, backfillLastAckTime, allBackfills] @ map fst d @
     lset d allTickets @ map fst (lzset d proposedTicketIDs) @ map fst (lzset d backfillLastAckTime) @
     map fst (lhash d allBackfills)"

definition fresh :: "lkeys \<Rightarrow> string" where
  "fresh d = replicate (Suc (fold max (map length (strings_in d)) 0)) CHR ''x''"

definition do_exec :: "lkeys \<Rightarrow> blob rcmd list \<Rightarrow> blob reply list \<times> lkeys" where
  "do_exec d cs = fold (\<lambda>c (rs, d). (rs @ [l_reply c d], l_next c d)) cs ([], d)"

fun is_EXEC :: "'b rcmd \<Rightarrow> bool" where
  "is_EXEC EXEC = True"
| "is_EXEC _ = False"

fun is_MULTI :: "'b rcmd \<Rightarrow> bool" where
  "is_MULTI MULTI = True"
| "is_MULTI _ = False"

lemma is_EXEC_iff [simp]: "is_EXEC c \<longleftrightarrow> c = EXEC"
  by (cases c) auto

lemma is_MULTI_iff [simp]: "is_MULTI c \<longleftrightarrow> c = MULTI"
  by (cases c) auto

lemma list_ex_MULTI [simp]: "list_ex is_MULTI cs \<longleftrightarrow> MULTI \<in> set cs"
  by (induction cs) auto

definition ref_Do :: "(nat \<Rightarrow> bool) \<Rightarrow> blob rcmd \<Rightarrow> rstate \<Rightarrow> (rerr + blob reply) \<times> rstate" where
  "ref_Do fault c s =
    (let s' = (tick s)\<lparr>rs_pend := []\<rparr> in
     if fault (rs_steps s) then (Inl (RErr 0), s')
     else if is_EXEC c then
       (let (rs, d) = do_exec (rs_data s) (tl (rs_pend s)) in (Inr (RArr rs), s'\<lparr>rs_data := d\<rparr>))
     else
       (let d = fold l_next (rs_pend s) (rs_data s) in
        if l_typed c d then (Inr (l_reply c d), s'\<lparr>rs_data := l_next c d\<rparr>)
        else (Inl (RErr 1), s'\<lparr>rs_data := d\<rparr>)))"

definition ref_env :: "(nat \<Rightarrow> bool) \<Rightarrow> (rstate, blob) env" where
  "ref_env fault = \<lparr>
     GetContext = (\<lambda>s. if fault (rs_steps s) then (Some (RErr 0), tick s) else (None, (tick s)\<lparr>rs_pend := []\<rparr>)),
     Send = (\<lambda>c s. if fault (rs_steps s) then (Some (RErr 0), tick s) else (None, (tick s)\<lparr>rs_pend := rs_pend s @ [c]\<rparr>)),
     Do = ref_Do fault,
     Close = (\<lambda>s. if fault (rs_steps s) then (Some (RErr 0), (tick s)\<lparr>rs_pend := []\<rparr>)
        else (None, (tick s)\<lparr>rs_pend := [],
           rs_data := (if list_ex is_MULTI (rs_pend s) then rs_data s else fold l_next (rs_pend s) (rs_data s))\<rparr>)),
     redisBytes = conv (\<lambda>r. case r of RNil \<Rightarrow> Inl ErrNil | RBlob b \<Rightarrow> Inr (Some b) | _ \<Rightarrow> Inl (RErr 2)),
     redisInt = conv (\<lambda>r. case r of RInt n \<Rightarrow> Inr n | _ \<Rightarrow> Inl (RErr 2)),
     redisStrings = conv (l_elems (\<lambda>r. case r of RBulk x \<Rightarrow> Some x | _ \<Rightarrow> None)),
     redisByteSlices = conv (l_elems (\<lambda>r. case r of RBlob b \<Rightarrow> Some (Some b) | RNil \<Rightarrow> Some None | _ \<Rightarrow> None)),
     redisFloat64 = conv (\<lambda>r. case r of RNil \<Rightarrow> Inl ErrNil | RScore x \<Rightarrow> Inr x | _ \<Rightarrow> Inl (RErr 2)),
     redisStringMap = conv (\<lambda>r. case r of
         RArr rs \<Rightarrow> (case l_pairs rs of Some ps \<Rightarrow> Inr (map_of ps) | None \<Rightarrow> Inl (RErr 2)) | _ \<Rightarrow> Inl (RErr 2)),
     redisValues = conv (\<lambda>r. case r of RArr rs \<Rightarrow> Inr rs | _ \<Rightarrow> Inl (RErr 2)),
     redisString = (\<lambda>r. case r of RNil \<Rightarrow> Inl ErrNil | RStatus x \<Rightarrow> Inr x | _ \<Rightarrow> Inl (RErr 2)),
     Lock = (\<lambda>_ s. if fault (rs_steps s) then (Some (LockErr 0), tick s) else (None, tick s)),
     Unlock = (\<lambda>_ s. if fault (rs_steps s) then (Some (LockErr 0), tick s) else (None, tick s)),
     MarshalTicket = (\<lambda>t. Some (BTicket t)),
     UnmarshalTicket = (\<lambda>b. case b of BTicket t \<Rightarrow> Some t | _ \<Rightarrow> None),
     MarshalBackfill = (\<lambda>bi. Some (BBackfill bi)),
     UnmarshalBackfill = (\<lambda>b. case b of BBackfill bi \<Rightarrow> Some bi | _ \<Rightarrow> None),
     Sleep = (\<lambda>s. case rs_script s of [] \<Rightarrow> tick s
        | cs # scr \<Rightarrow> (tick s)\<lparr>rs_data := fold l_next cs (rs_data s), rs_script := scr\<rparr>),
     Now = rs_time,
     TimestampNow = (\<lambda>s. \<lparr>Seconds = rs_time s div Second, Nanos = rs_time s mod Second\<rparr>),
     NewID = (\<lambda>s. (fresh (rs_data s), tick s))\<rparr>"

text \<open>An empty server, at a time of the year 2020, and the same server after the first call failed.\<close>

definition ref_init :: rstate where
  "ref_init = \<lparr>rs_data = [], rs_pend = [], rs_time = 1600000000 * Second, rs_steps = 0, rs_script = []\<rparr>"

text \<open>A configuration with a pending-release timeout of one minute.\<close>

definition ref_cfg :: config_view where
  "ref_cfg = \<lparr>IsSet = (\<lambda>_. False), GetString = (\<lambda>_. []), GetInt = (\<lambda>_. 0), GetInt64 = (\<lambda>_. 0),
     GetFloat64 = (\<lambda>_. Fin 0), GetStringSlice = (\<lambda>_. []), GetBool = (\<lambda>_. False), GetDuration = (\<lambda>_. Minute)\<rparr>"

lemma ref_cfg_sel [simp]: "GetDuration ref_cfg k = Minute" "IsSet ref_cfg k = False" "GetInt ref_cfg k = 0"
  by (simp_all add: ref_cfg_def)

lemma do_exec_spec:
  "do_exec d cs = (rs, d') \<Longrightarrow> lview d' = redis_run dbl256 cs (lview d) \<and> exec_replies dbl256 cs (lview d) rs"
proof -
  have "fold (\<lambda>c (rs, d). (rs @ [l_reply c d], l_next c d)) cs (qs, d) = (rs, d') \<Longrightarrow>
    lview d' = redis_run dbl256 cs (lview d) \<and> (\<exists>ps. rs = qs @ ps \<and> exec_replies dbl256 cs (lview d) ps)"
    for qs d rs d'
    by (induction cs arbitrary: qs d) (fastforce simp: l_next [symmetric] intro: l_reply)+
  then show "do_exec d cs = (rs, d') \<Longrightarrow> ?thesis" by (fastforce simp: do_exec_def)
qed

lemma fold_max_ge: "(x :: nat) \<in> set xs \<Longrightarrow> x \<le> fold max xs m"
proof (induction xs arbitrary: m)
  case (Cons y ys)
  have "a \<le> fold max ys a" for a :: nat by (induction ys arbitrary: a) (auto, meson max.boundedE)
  then have "y \<le> fold max ys (max y m)" by (meson max.boundedE)
  with Cons show ?case by auto
qed simp

lemma fresh_unused: "unused (lview d) (fresh d)" "fresh d \<noteq> []"
proof -
  have "fresh d \<notin> set (strings_in d)"
  proof
    assume "fresh d \<in> set (strings_in d)"
    then have "length (fresh d) \<le> fold max (map length (strings_in d)) 0"
      by (intro fold_max_ge) simp
    then show False by (simp add: fresh_def)
  qed
  moreover from this have "fresh d \<notin> reserved"
    unfolding reserved_def strings_in_def set_append by (simp only: list.set) blast
  ultimately show "unused (lview d) (fresh d)"
    unfolding unused_def by (simp add: strings_in_def lview_None_iff map_of_eq_None_iff)
  show "fresh d \<noteq> []" by (simp add: fresh_def)
qed

lemma dbl256_mono: "x \<le> y \<Longrightarrow> dbl256 x \<le> dbl256 y"
  unfolding dbl256_def by (intro mult_right_mono zdiv_mono1) auto

lemma dbl256_near: "\<bar>dbl256 x - x\<bar> \<le> 128"
proof -
  have "dbl256 x = x + 128 - (x + 128) mod 256" by (simp add: dbl256_def minus_mod_eq_div_mult [symmetric])
  moreover have "0 \<le> (x + 128) mod 256" "(x + 128) mod 256 < 256" by simp_all
  ultimately show ?thesis by linarith
qed

lemma ref_env_sel [simp]:
  "GetContext (ref_env f) s = (if f (rs_steps s) then (Some (RErr 0), tick s) else (None, (tick s)\<lparr>rs_pend := []\<rparr>))"
  "Send (ref_env f) c s = (if f (rs_steps s) then (Some (RErr 0), tick s) else (None, (tick s)\<lparr>rs_pend := rs_pend s @ [c]\<rparr>))"
  "Do (ref_env f) = ref_Do f"
  "Close (ref_env f) s = (if f (rs_steps s) then (Some (RErr 0), (tick s)\<lparr>rs_pend := []\<rparr>)
     else (None, (tick s)\<lparr>rs_pend := [],
        rs_data := (if MULTI \<in> set (rs_pend s) then rs_data s else fold l_next (rs_pend s) (rs_data s))\<rparr>))"
  "Lock (ref_env f) k s = (if f (rs_steps s) then (Some (LockErr 0), tick s) else (None, tick s))"
  "Unlock (ref_env f) k s = (if f (rs_steps s) then (Some (LockErr 0), tick s) else (None, tick s))"
  "MarshalTicket (ref_env f) t = Some (BTicket t)" "UnmarshalTicket (ref_env f) (BTicket t) = Some t"
  "MarshalBackfill (ref_env f) bi = Some (BBackfill bi)" "UnmarshalBackfill (ref_env f) (BBackfill bi) = Some bi"
  "Now (ref_env f) = rs_time" "NewID (ref_env f) s = (fresh (rs_data s), tick s)"
  by (simp_all add: ref_env_def)

lemma tick_sel [simp]:
  "rs_data (tick s) = rs_data s" "rs_pend (tick s) = rs_pend s" "rs_time (tick s) = rs_time s + 1000" "rs_steps (tick s) = Suc (rs_steps s)"
  "rs_script (tick s) = rs_script s"
  by (simp_all add: tick_def)

lemma ref_conv:
  "redisBytes (ref_env f) (Inl e) = Inl e" "redisBytes (ref_env f) (Inr RNil) = Inl ErrNil"
  "redisBytes (ref_env f) (Inr (RBlob b)) = Inr (Some b)"
  "redisInt (ref_env f) (Inl e) = Inl e" "redisInt (ref_env f) (Inr (RInt n)) = Inr n"
  "redisStrings (ref_env f) (Inl e) = Inl e" "redisStrings (ref_env f) (Inr (RArr (map RBulk xs))) = Inr xs"
  "redisByteSlices (ref_env f) (Inl e) = Inl e"
  "redisByteSlices (ref_env f) (Inr (RArr (map blob_reply vs))) = Inr vs"
  "redisFloat64 (ref_env f) (Inl e) = Inl e" "redisFloat64 (ref_env f) (Inr RNil) = Inl ErrNil"
  "redisFloat64 (ref_env f) (Inr (RScore x)) = Inr x"
  "redisStringMap (ref_env f) (Inl e) = Inl e"
  "redisStringMap (ref_env f) (Inr (RArr (concat (map (\<lambda>(f, v). [RBulk f, RBulk v]) ps)))) = Inr (map_of ps)"
  "redisValues (ref_env f) (Inl e) = Inl e" "redisValues (ref_env f) (Inr (RArr rs)) = Inr rs"
  "redisString (ref_env f) RNil = Inl ErrNil" "redisString (ref_env f) (RStatus str) = Inr str"
proof -
  have "those (map (case_reply (Some None) (\<lambda>_. None) (\<lambda>_. None) (\<lambda>_. None) (\<lambda>b. Some (Some b)) (\<lambda>_. None) (\<lambda>_. None) \<circ> blob_reply) vs) = Some vs"
    by (induction vs) (auto simp: blob_reply_def split: option.splits)
  then show "redisByteSlices (ref_env f) (Inr (RArr (map blob_reply vs))) = Inr vs"
    by (simp add: ref_env_def conv_def l_elems_def)
  have "those (map (case_reply None (\<lambda>_. None) (\<lambda>_. None) Some (\<lambda>_. None) (\<lambda>_. None) (\<lambda>_. None) \<circ> (RBulk :: _ \<Rightarrow> blob reply)) xs) = Some xs"
    by (induction xs) auto
  then show "redisStrings (ref_env f) (Inr (RArr (map RBulk xs))) = Inr xs"
    by (simp add: ref_env_def conv_def l_elems_def)
qed (simp_all add: ref_env_def conv_def l_pairs_concat)

lemma ref_Do_cases:
  "ref_Do f c s = (Inr r, s') \<Longrightarrow> c \<noteq> EXEC \<Longrightarrow> \<not> f (rs_steps s) \<and> l_typed c (fold l_next (rs_pend s) (rs_data s)) \<and>
     r = l_reply c (fold l_next (rs_pend s) (rs_data s)) \<and> rs_pend s' = [] \<and> rs_data s' = l_next c (fold l_next (rs_pend s) (rs_data s))"
  "ref_Do f c s = (Inl e, s') \<Longrightarrow> rs_pend s = [] \<Longrightarrow> rs_pend s' = [] \<and> rs_data s' = rs_data s"
  "rs_time (snd (ref_Do f c s)) = rs_time s + 1000"
  by (auto simp: ref_Do_def Let_def split: if_splits prod.splits)

interpretation ref: redis_laws "ref_env f" "\<lambda>s. lview (rs_data s)" rs_pend dbl256 for f
proof unfold_locales
  fix c s r s' assume "Do (ref_env f) c s = (Inr r, s')" "c \<noteq> EXEC"
  then show "lview (rs_data s') = redis_next dbl256 c (redis_run dbl256 (rs_pend s) (lview (rs_data s))) \<and>
    redis_reply dbl256 c (redis_run dbl256 (rs_pend s) (lview (rs_data s))) r \<and>
    well_typed c (redis_run dbl256 (rs_pend s) (lview (rs_data s))) \<and> rs_pend s' = []"
    using ref_Do_cases(1) [of f c s r s'] l_reply [of c "fold l_next (rs_pend s) (rs_data s)"]
    by (simp add: l_run [symmetric] l_next l_typed)
next
  fix s r s' cs assume *: "Do (ref_env f) EXEC s = (Inr r, s')" "rs_pend s = MULTI # cs"
  obtain rs d where "do_exec (rs_data s) cs = (rs, d)" by (cases "do_exec (rs_data s) cs")
  with * do_exec_spec [OF this] show "lview (rs_data s') = redis_run dbl256 cs (lview (rs_data s)) \<and> rs_pend s' = [] \<and>
    (\<exists>rs. r = RArr rs \<and> exec_replies dbl256 cs (lview (rs_data s)) rs)"
    by (auto simp: ref_Do_def Let_def split: if_splits)
next
  fix c s e s' assume "Do (ref_env f) c s = (Inl e, s')" "rs_pend s = []"
  then show "rs_pend s' = [] \<and> (lview (rs_data s') = lview (rs_data s) \<or> lview (rs_data s') = redis_next dbl256 c (lview (rs_data s)))"
    using ref_Do_cases(2) [of f c s e s'] by simp
next
  fix c s r s' assume "Do (ref_env f) c s = (r, s')"
  then show "Now (ref_env f) s \<le> Now (ref_env f) s'" using ref_Do_cases(3) [of f c s] by simp
qed (auto simp: ref_conv l_run dbl256_mono dbl256_near fresh_unused split: if_splits)

interpretation ref_ok: redis_backend "ref_env (\<lambda>_. False)" "\<lambda>s. lview (rs_data s)" rs_pend dbl256 rev cfg for cfg
  by unfold_locales (auto simp: ref_Do_def Let_def l_typed l_run split: prod.splits)

lemma ref_init_wf [simp]: "wf_keys (lview (rs_data ref_init))" "lview (rs_data ref_init) = Map.empty"
proof -
  show "lview (rs_data ref_init) = Map.empty" by (rule ext) (simp add: lview_def ref_init_def)
  then show "wf_keys (lview (rs_data ref_init))" by simp
qed

text \<open>Ids used in examples: no index key is a single letter.\<close>

lemma letters_not_reserved [simp]: "[c] \<notin> reserved"
  unfolding reserved_def by (simp add: key_names)

end
