(* ===== verification/Store_Properties.thy ===== *)
theory Store_Properties
  imports Redis_Reference
begin

text \<open>
  The properties of the state store: that the service built by \<open>New\<close> meets the contract of
  \<open>Store_Service\<close>, the life cycle of tickets and backfills, the pending-release window, assignments,
  the clean-up of expired backfills and the behaviour without a connection.
\<close>

section \<open>Facts about the abstract operations\<close>

lemma scored_upd_in:
  assumes "\<And>x y :: int. x \<le> y \<Longrightarrow> dbl x \<le> dbl y" and "lo \<le> t" and "t \<le> hi" and "z i = Some (dbl t)"
  shows "i \<in> scored dbl z lo hi"
  using assms by (auto simp: scored_def)

lemma scored_old:
  assumes near: "\<And>x :: int. \<bar>x\<bar> \<le> 2 ^ 61 \<Longrightarrow> \<bar>dbl x - x\<bar> \<le> 128" and "t + 256 < lo"
    and "\<bar>t\<bar> \<le> 2 ^ 61" and "\<bar>lo\<bar> \<le> 2 ^ 61" and "z i = Some (dbl t)"
  shows "i \<notin> scored dbl z lo hi"
  using near [of t] near [of lo] assms(2-) by (auto simp: scored_def)

lemma as_DeleteCompletely_sel:
  "objs (as_DeleteCompletely dec i a) = (objs a)(i := None)"
  "bindex (as_DeleteCompletely dec i a) = (bindex a)(i := None)"
  "acks (as_DeleteCompletely dec i a) = (if objs a i = None then acks a else (acks a)(i := None))"
  "tindex (as_DeleteCompletely dec i a) = tindex a"
  "pending (as_DeleteCompletely dec i a) =
     pending a |` (- {t. \<exists>b bi. objs a i = Some b \<and> dec b = Some bi \<and> t \<in> set (bi_TicketIds bi)})"
  by (auto simp: as_DeleteCompletely_def as_DeleteBackfill_def as_DeletePending_def as_DeindexBackfill_def
      as_GetBackfill_def Let_def fun_eq_iff restrict_map_def split: option.splits)

lemma fold_DeleteCompletely:
  assumes "distinct ids"
  shows "objs (fold (as_DeleteCompletely dec) ids a) = objs a |` (- set ids) \<and>
    bindex (fold (as_DeleteCompletely dec) ids a) = bindex a |` (- set ids) \<and>
    acks (fold (as_DeleteCompletely dec) ids a) = acks a |` (- {i \<in> set ids. objs a i \<noteq> None}) \<and>
    tindex (fold (as_DeleteCompletely dec) ids a) = tindex a \<and>
    pending (fold (as_DeleteCompletely dec) ids a) =
      pending a |` (- {t. \<exists>i \<in> set ids. \<exists>b bi. objs a i = Some b \<and> dec b = Some bi \<and> t \<in> set (bi_TicketIds bi)})"
  using assms
proof (induction ids arbitrary: a)
  case Nil
  then show ?case by (simp add: restrict_map_def)
next
  case (Cons i ids)
  then have "distinct ids" by simp
  note IH = Cons.IH [OF this, of "as_DeleteCompletely dec i a", unfolded as_DeleteCompletely_sel]
  have "\<And>j. j \<in> set ids \<Longrightarrow> ((objs a)(i := None)) j = objs a j" using Cons.prems by auto
  then show ?case
    using Cons.prems IH by (auto simp: restrict_map_def fun_eq_iff)
qed

lemma those_total: "(\<And>x. x \<in> set xs \<Longrightarrow> f x \<noteq> None) \<Longrightarrow> \<exists>ys. those (map f xs) = Some ys"
  by (induction xs) fastforce+

lemma found_all:
  "(\<And>i b. i \<in> set ids \<Longrightarrow> f i = Some b \<Longrightarrow> dec b \<noteq> None) \<Longrightarrow> \<exists>ts. those (map dec (List.map_filter f ids)) = Some ts"
  by (rule those_total) (force simp: List.map_filter_def)

lemma found_map_ids:
  assumes "those (map dec (List.map_filter f ids)) = Some ts"
    and "\<And>i b t. i \<in> set ids \<Longrightarrow> f i = Some b \<Longrightarrow> dec b = Some t \<Longrightarrow> g t = i"
  shows "map g ts = filter (\<lambda>i. f i \<noteq> None) ids"
  using assms
proof (induction ids arbitrary: ts)
  case (Cons i ids)
  then show ?case by (cases "f i") (auto simp: List.map_filter_simps split: option.splits)
qed (simp add: List.map_filter_simps)

lemma those_zip: "those (map f xs) = Some ys \<Longrightarrow> x \<in> set xs \<Longrightarrow> \<exists>y. (x, y) \<in> set (zip xs ys) \<and> f x = Some y"
  by (induction xs arbitrary: ys) (auto split: option.splits)

lemma store_all_out:
  "i \<notin> fst ` set ps \<Longrightarrow> objs (store_all px ps a) i = objs a i \<and> ttls (store_all px ps a) i = ttls a i"
proof (induction ps arbitrary: a)
  case (Cons p ps)
  obtain j b where p: "p = (j, b)" by (cases p)
  have "store_all px (p # ps) a = store_all px ps (store_all px [p] a)" by (rule store_all_Cons)
  moreover have "objs (store_all px [p] a) i = objs a i" "ttls (store_all px [p] a) i = ttls a i"
    using Cons.prems by (simp_all add: store_all_def p)
  ultimately show ?case using Cons.IH [of "store_all px [p] a"] Cons.prems by simp
qed (simp add: store_all_def)

lemma store_all_in:
  assumes "distinct (map g xs)" and "(x, b) \<in> set (zip xs bs)"
  shows "objs (store_all px (zip (map g xs) bs) a) (g x) = Some b \<and> ttls (store_all px (zip (map g xs) bs) a) (g x) = Some px"
  using assms
proof (induction xs arbitrary: bs a)
  case (Cons y ys)
  then obtain b' bs' where bs: "bs = b' # bs'" by (cases bs) auto
  show ?case
  proof (cases "(x, b) = (y, b')")
    case True
    then have "g x \<notin> fst ` set (zip (map g ys) bs')" using Cons.prems by (auto dest: set_zip_leftD)
    from store_all_out [OF this, of px "store_all px [(g y, b')] a"] True show ?thesis
      by (simp add: bs store_all_Cons [of _ "(g y, b')" "zip (map g ys) bs'"]) (simp add: store_all_def)
  next
    case False
    with Cons.prems bs have "(x, b) \<in> set (zip ys bs')" by auto
    with Cons show ?thesis by (simp add: bs store_all_Cons [of _ "(g y, b')" "zip (map g ys) bs'"])
  qed
qed simp

section \<open>Properties\<close>



text \<open>
  The life cycle of a ticket. A ticket that is created is returned by \<open>GetTicket\<close> as it was, is
  deleted successfully, and is not found afterwards; the values of all other ids are untouched.
\<close>

theorem ticket_life_cycle:
  assumes up: "redis_up E view pend dbl" and wf: "wf_keys (view s)" and i: "t_Id t \<notin> reserved"
    and enc: "MarshalTicket E t \<noteq> None"
    and 1: "rb_CreateTicket E t s = (r1, s1)" and 2: "rb_GetTicket E (t_Id t) s1 = (r2, s2)"
    and 3: "rb_DeleteTicket E (t_Id t) s2 = (r3, s3)" and 4: "rb_GetTicket E (t_Id t) s3 = (r4, s4)"
  shows "r1 = Inr () \<and> r2 = Inr t \<and> r3 = Inr () \<and> r4 = Inl (Status NotFound) \<and>
    (\<forall>j. j \<noteq> t_Id t \<longrightarrow> str_of (view s4) j = str_of (view s) j)"
proof -
  from enc obtain b where b: "MarshalTicket E t = Some b" by auto
  have dec: "UnmarshalTicket E b = Some t" using redis_laws.ticket_codec [OF redis_up.axioms(1) [OF up] b] .
  obtain wf1: "wf_keys (view s1)" and a1: "(r1, astore_of (view s1)) = as_CreateTicket (MarshalTicket E) t (astore_of (view s))"
    by (rule meetsD [OF redis_up.CreateTicket_meets [OF up i] wf 1])
  obtain wf2: "wf_keys (view s2)" and
    a2: "r2 = as_GetTicket (UnmarshalTicket E) (t_Id t) (astore_of (view s1)) \<and> astore_of (view s2) = astore_of (view s1)"
    by (rule meetsD [OF redis_up.GetTicket_meets [OF up i] wf1 2])
  obtain wf3: "wf_keys (view s3)" and a3: "(r3, astore_of (view s3)) = as_DeleteTicket (t_Id t) (astore_of (view s2))"
    by (rule meetsD [OF redis_up.DeleteTicket_meets [OF up i] wf2 3])
  obtain a4: "r4 = as_GetTicket (UnmarshalTicket E) (t_Id t) (astore_of (view s3)) \<and> astore_of (view s4) = astore_of (view s3)"
    by (rule meetsD [OF redis_up.GetTicket_meets [OF up i] wf3 4])
  moreover have "str_of (view s4) = objs (astore_of (view s4))" "str_of (view s) = objs (astore_of (view s))" by simp_all
  ultimately show ?thesis using a1 a2 a3
    by (simp add: b dec as_CreateTicket_def as_GetTicket_def as_DeleteTicket_def del: astore_of_sel)
qed

abbreviation ref_ok_env :: "(rstate, blob) env" where
  "ref_ok_env \<equiv> ref_env (\<lambda>_. False)"

abbreviation ticket_a :: ticket where
  "ticket_a \<equiv> empty_ticket\<lparr>t_Id := ''a''\<rparr>"

theorem ticket_life_cycle_witness:
  "\<exists>r1 s1 r2 s2 r3 s3 r4 s4. rb_CreateTicket ref_ok_env ticket_a ref_init = (r1, s1) \<and>
    rb_GetTicket ref_ok_env ''a'' s1 = (r2, s2) \<and> rb_DeleteTicket ref_ok_env ''a'' s2 = (r3, s3) \<and>
    rb_GetTicket ref_ok_env ''a'' s3 = (r4, s4) \<and> r2 = Inr ticket_a \<and> r4 = Inl (Status NotFound)"
proof -
  obtain r1 s1 where 1: "rb_CreateTicket ref_ok_env ticket_a ref_init = (r1, s1)" by (metis surj_pair)
  obtain r2 s2 where 2: "rb_GetTicket ref_ok_env (t_Id ticket_a) s1 = (r2, s2)" by (metis surj_pair)
  obtain r3 s3 where 3: "rb_DeleteTicket ref_ok_env (t_Id ticket_a) s2 = (r3, s3)" by (metis surj_pair)
  obtain r4 s4 where 4: "rb_GetTicket ref_ok_env (t_Id ticket_a) s3 = (r4, s4)" by (metis surj_pair)
  from ticket_life_cycle [OF ref_ok.redis_up_axioms ref_init_wf(1) _ _ 1 2 3 4] 1 2 3 4 show ?thesis by simp
qed

text \<open>
  C16: The pending-release window. Tickets put in pending release are left out of the set of indexed ids
  for as long as the pending-release timeout lasts, and once it has passed (up to the 256 ns that a
  score may be off) the indexed ones among them are back, with no further action.
\<close>

theorem pending_release_window:
  assumes up: "redis_up E view pend dbl" and wf: "wf_keys (view s)"
    and 1: "rb_AddTicketsToPendingRelease E ids s = (r1, s1)"
    and later: "view s2 = view s1" "Now E s1 \<le> Now E s2" and 2: "rb_GetIndexedIDSet cfg E s2 = (r2, s3)"
    and range: "0 \<le> Now E s - GetDuration cfg ''pendingReleaseTimeout''" "Now E s3 \<le> 2 ^ 61"
      "0 \<le> GetDuration cfg ''pendingReleaseTimeout''"
  shows "r1 = Inr () \<and> (\<exists>S. r2 = Inr S \<and>
    (Now E s3 - GetDuration cfg ''pendingReleaseTimeout'' \<le> Now E s \<longrightarrow> S \<inter> set ids = {}) \<and>
    (Now E s1 + 256 < Now E s2 - GetDuration cfg ''pendingReleaseTimeout'' \<longrightarrow>
       S \<inter> set ids = set_of (view s) allTickets \<inter> set ids))"
proof -
  note laws = redis_up.axioms(1) [OF up]
  let ?ttl = "GetDuration cfg ''pendingReleaseTimeout''"
  obtain now1 now1' where 3: "Now E s \<le> now1" "now1 \<le> now1'" "now1' \<le> Now E s1" "wf_keys (view s1)"
    "r1 = Inr () \<and> astore_of (view s1) = as_AddPending dbl ids now1 (astore_of (view s))"
    by (rule meetsD [OF redis_up.AddTicketsToPendingRelease_meets [OF up] wf 1])
  from 3(4) later have wf2: "wf_keys (view s2)" by simp
  obtain now2 now2' where 4: "Now E s2 \<le> now2" "now2 \<le> now2'" "now2' \<le> Now E s3"
    "astore_of (view s3) = astore_of (view s2) \<and> r2 = Inr (as_GetIndexedIDSet dbl ?ttl now2 (astore_of (view s2))) \<and>
      finite (tindex (astore_of (view s2)))"
    by (rule meetsD [OF redis_up.GetIndexedIDSet_meets [OF up] wf2 2])
  have score: "zset_of (view s2) proposedTicketIDs i = Some (dbl now1)" if "i \<in> set ids" for i
  proof -
    have "pending (astore_of (view s2)) i = Some (dbl now1)"
      using 3(5) that later(1) by (simp add: as_AddPending_def del: astore_of_sel)
    then show ?thesis by simp
  qed
  have "tindex (astore_of (view s2)) = tindex (astore_of (view s))"
    using 3(5) later(1) by (simp add: as_AddPending_def del: astore_of_sel)
  then have index: "set_of (view s2) allTickets = set_of (view s) allTickets" by simp
  have "i \<in> scored dbl (zset_of (view s2) proposedTicketIDs) (now2 - ?ttl) (now2 + Hour)"
    if "i \<in> set ids" "Now E s3 - ?ttl \<le> Now E s" for i
    by (rule scored_upd_in [where t = now1, OF redis_laws.dbl_mono [OF laws]])
      (use 3 4 later that score in auto)
  moreover have "i \<notin> scored dbl (zset_of (view s2) proposedTicketIDs) (now2 - ?ttl) (now2 + Hour)"
    if "i \<in> set ids" "Now E s1 + 256 < Now E s2 - ?ttl" for i
    by (rule scored_old [where t = now1, OF redis_laws.dbl_near [OF laws]])
      (use 3 4 later that range score in auto)
  ultimately show ?thesis
    using 3(5) 4(4) index by (auto simp: as_GetIndexedIDSet_def)
qed

theorem pending_release_window_witness:
  "\<exists>r1 s1 r2 s3. rb_AddTicketsToPendingRelease ref_ok_env [''a''] ref_init = (r1, s1) \<and>
    rb_GetIndexedIDSet ref_cfg ref_ok_env s1 = (r2, s3) \<and> r1 = Inr () \<and>
    (\<exists>S. r2 = Inr S \<and> (rs_time s3 - Minute \<le> rs_time ref_init \<longrightarrow> ''a'' \<notin> S))"
proof -
  obtain r1 s1 where 1: "rb_AddTicketsToPendingRelease ref_ok_env [''a''] ref_init = (r1, s1)" by (metis surj_pair)
  obtain r2 s3 where 2: "rb_GetIndexedIDSet ref_cfg ref_ok_env s1 = (r2, s3)" by (metis surj_pair)
  have "rs_time (snd (rb_GetIndexedIDSet ref_cfg ref_ok_env (snd (rb_AddTicketsToPendingRelease ref_ok_env [''a''] ref_init)))) \<le> 2 ^ 61"
    by code_simp
  with pending_release_window [OF ref_ok.redis_up_axioms ref_init_wf(1) 1 refl order_refl 2] 1 2
  show ?thesis by (simp add: ref_init_def)
qed


definition assign_example :: "assignment_group list" where
  "assign_example = [\<lparr>ag_TicketIds = [''a''], ag_Assignment = Some \<lparr>a_Connection = ''c'', a_Extensions = Map.empty\<rparr>\<rparr>]"


text \<open>
  C35: The life cycle of a backfill. A created backfill is returned with its tickets as stored and cannot
  be created twice; an update that comes within the release timeout replaces it; once deleted it is
  not found.
\<close>

theorem backfill_life_cycle:
  assumes up: "redis_up E view pend dbl" and wf: "wf_keys (view s)" and i: "bf_Id bf \<notin> reserved"
    and new: "str_of (view s) (bf_Id bf) = None" and enc: "\<forall>bi. MarshalBackfill E bi \<noteq> None"
    and 1: "rb_CreateBackfill E bf tids s = (r1, s1)" and 2: "rb_GetBackfill E (bf_Id bf) s1 = (r2, s2)"
    and 3: "rb_CreateBackfill E bf tids' s2 = (r3, s3)"
    and 4: "rb_UpdateBackfill cfg E (bf\<lparr>bf_Generation := g\<rparr>) tids' s3 = (r4, s4)"
    and 5: "rb_GetBackfill E (bf_Id bf) s4 = (r5, s5)" and 6: "rb_DeleteBackfill E (bf_Id bf) s5 = (r6, s6)"
    and 7: "rb_GetBackfill E (bf_Id bf) s6 = (r7, s7)"
    and timely: "Now E s4 + 128 \<le> Now E s + getBackfillReleaseTimeout cfg" "0 \<le> Now E s" "Now E s4 \<le> 2 ^ 61"
  shows "r1 = Inr () \<and> r2 = Inr (Some bf, tids) \<and> r3 = Inl (Status AlreadyExists) \<and> r4 = Inr () \<and>
    r5 = Inr (Some (bf\<lparr>bf_Generation := g\<rparr>), tids') \<and> r6 = Inr () \<and> r7 = Inl (Status NotFound)"
proof -
  note laws = redis_up.axioms(1) [OF up]
  let ?i = "bf_Id bf" and ?bf = "bf\<lparr>bf_Generation := g\<rparr>"
  from enc obtain b b' b'' where b: "MarshalBackfill E \<lparr>bi_Backfill = Some bf, bi_TicketIds = tids\<rparr> = Some b"
    "MarshalBackfill E \<lparr>bi_Backfill = Some bf, bi_TicketIds = tids'\<rparr> = Some b'"
    "MarshalBackfill E \<lparr>bi_Backfill = Some ?bf, bi_TicketIds = tids'\<rparr> = Some b''" by blast
  note dec = redis_laws.backfill_codec [OF laws b(1)] redis_laws.backfill_codec [OF laws b(3)]
  obtain now now' where t1: "Now E s \<le> now" "now \<le> now'" "now' \<le> Now E s1" and wf1: "wf_keys (view s1)" and
    a1: "(r1, astore_of (view s1)) = as_CreateBackfill (MarshalBackfill E) dbl bf tids now (astore_of (view s))"
    by (rule meetsD [OF redis_up.CreateBackfill_meets [OF up i] wf 1])
  obtain wf2: "wf_keys (view s2)" and t2: "Now E s1 \<le> Now E s2" and
    a2: "r2 = as_GetBackfill (UnmarshalBackfill E) ?i (astore_of (view s1)) \<and> astore_of (view s2) = astore_of (view s1)"
    by (rule meetsD [OF redis_up.GetBackfill_meets [OF up i] wf1 2]) simp
  obtain wf3: "wf_keys (view s3)" and t3: "Now E s2 \<le> Now E s3" and
    a3: "\<exists>now. (r3, astore_of (view s3)) = as_CreateBackfill (MarshalBackfill E) dbl bf tids' now (astore_of (view s2))"
    by (rule meetsD [OF redis_up.CreateBackfill_meets [OF up i] wf2 3]) auto
  obtain now4 now4' where wf4: "wf_keys (view s4)" and t4: "Now E s3 \<le> now4" "now4 \<le> now4'" "now4' \<le> Now E s4" and
    a4: "(r4, astore_of (view s4)) = as_UpdateBackfill (MarshalBackfill E) (getBackfillReleaseTimeout cfg) ?bf tids' now4 (astore_of (view s3))"
    by (rule meetsD [OF redis_up.UpdateBackfill_meets [OF up] wf3 4]) (use i in auto)
  obtain wf5: "wf_keys (view s5)" and
    a5: "r5 = as_GetBackfill (UnmarshalBackfill E) ?i (astore_of (view s4)) \<and> astore_of (view s5) = astore_of (view s4)"
    by (rule meetsD [OF redis_up.GetBackfill_meets [OF up i] wf4 5])
  obtain wf6: "wf_keys (view s6)" and a6: "(r6, astore_of (view s6)) = as_DeleteBackfill ?i (astore_of (view s5))"
    by (rule meetsD [OF redis_up.DeleteBackfill_meets [OF up i] wf5 6])
  obtain a7: "r7 = as_GetBackfill (UnmarshalBackfill E) ?i (astore_of (view s6))"
    by (rule meetsD [OF redis_up.GetBackfill_meets [OF up i] wf6 7]) auto
  have "\<not> dbl now < now4 - getBackfillReleaseTimeout cfg"
    using redis_laws.dbl_near [OF laws, of now] t1 t2 t3 t4 timely by auto
  with a1 a2 a3 a4 a5 a6 a7 new b dec show ?thesis
    by (auto simp: as_CreateBackfill_def as_GetBackfill_def as_UpdateBackfill_def as_expired_def as_DeleteBackfill_def
      simp del: astore_of_sel simp: astore_of_sel(1) [of "view s", symmetric])
qed

abbreviation backfill_b :: backfill where
  "backfill_b \<equiv> empty_backfill\<lparr>bf_Id := ''b''\<rparr>"

theorem backfill_life_cycle_witness:
  "\<exists>r1 s1 r2 s2. rb_CreateBackfill ref_ok_env backfill_b [''a''] ref_init = (r1, s1) \<and>
     rb_GetBackfill ref_ok_env ''b'' s1 = (r2, s2) \<and> r1 = Inr () \<and> r2 = Inr (Some backfill_b, [''a''])"
proof -
  obtain r1 s1 where 1: "rb_CreateBackfill ref_ok_env backfill_b [''a''] ref_init = (r1, s1)" by (metis surj_pair)
  obtain r2 s2 where 2: "rb_GetBackfill ref_ok_env (bf_Id backfill_b) s1 = (r2, s2)" by (metis surj_pair)
  obtain r3 s3 where 3: "rb_CreateBackfill ref_ok_env backfill_b [] s2 = (r3, s3)" by (metis surj_pair)
  obtain r4 s4 where 4: "rb_UpdateBackfill ref_cfg ref_ok_env (backfill_b\<lparr>bf_Generation := 1\<rparr>) [] s3 = (r4, s4)" by (metis surj_pair)
  obtain r5 s5 where 5: "rb_GetBackfill ref_ok_env (bf_Id backfill_b) s4 = (r5, s5)" by (metis surj_pair)
  obtain r6 s6 where 6: "rb_DeleteBackfill ref_ok_env (bf_Id backfill_b) s5 = (r6, s6)" by (metis surj_pair)
  obtain r7 s7 where 7: "rb_GetBackfill ref_ok_env (bf_Id backfill_b) s6 = (r7, s7)" by (metis surj_pair)
  have "rs_time (snd (rb_UpdateBackfill ref_cfg ref_ok_env (backfill_b\<lparr>bf_Generation := 1\<rparr>) []
      (snd (rb_CreateBackfill ref_ok_env backfill_b []
        (snd (rb_GetBackfill ref_ok_env ''b'' (snd (rb_CreateBackfill ref_ok_env backfill_b [''a''] ref_init)))))))) + 128
    \<le> rs_time ref_init + getBackfillReleaseTimeout ref_cfg"
    by code_simp
  moreover have "getBackfillReleaseTimeout ref_cfg = 48 * Second" by code_simp
  ultimately show ?thesis
    using backfill_life_cycle [OF ref_ok.redis_up_axioms ref_init_wf(1) _ _ _ 1 2 3 4 5 6 7] 1 2 3 4
    by (simp add: ref_init_def str_of_def lview_def)
qed

text \<open>
  C15: The clean-up of expired backfills. Whatever the order in which the workers take them, every backfill
  that was not acknowledged within the release timeout is gone from the store and from the index and
  its tickets are no longer pending, while a backfill acknowledged later keeps its value, its index
  entry and its acknowledgement.
\<close>

theorem cleanup_removes_expired:
  assumes be: "redis_backend E view pend dbl sched" and wf: "wf_keys (view s)"
    and acks: "dom (zset_of (view s) backfillLastAckTime) \<inter> reserved = {}"
    and 1: "rb_CleanupBackfills sched cfg E s = (r, s')"
    and ack: "zset_of (view s) backfillLastAckTime i = Some sc" "dbl 0 \<le> sc"
  shows "r = Inr () \<and>
    (sc \<le> dbl (Now E s - getBackfillReleaseTimeout cfg) \<longrightarrow>
       str_of (view s') i = None \<and> hash_of (view s') allBackfills i = None \<and>
       (\<forall>b bi t. str_of (view s) i = Some b \<longrightarrow> UnmarshalBackfill E b = Some bi \<longrightarrow> t \<in> set (bi_TicketIds bi) \<longrightarrow>
          zset_of (view s') proposedTicketIDs t = None)) \<and>
    (dbl (Now E s' - getBackfillReleaseTimeout cfg) < sc \<longrightarrow>
       str_of (view s') i = str_of (view s) i \<and> hash_of (view s') allBackfills i = hash_of (view s) allBackfills i \<and>
       zset_of (view s') backfillLastAckTime i = Some sc)"
proof -
  have up: "redis_up E view pend dbl" using be by (rule redis_backend.axioms)
  note mono = redis_laws.dbl_mono [OF redis_up.axioms(1) [OF up]]
  let ?ttl = "getBackfillReleaseTimeout cfg" and ?a = "astore_of (view s)"
  obtain now now' where t: "Now E s \<le> now" "now \<le> now'" "now' \<le> Now E s'" and
    a: "r = Inr () \<and> (\<exists>ids. distinct ids \<and> set ids = scored dbl (acks ?a) 0 (now - ?ttl) \<and>
       astore_of (view s') = fold (as_DeleteCompletely (UnmarshalBackfill E)) ids ?a)"
    by (rule meets_atD [OF redis_up.CleanupBackfills_meets [OF up redis_backend.sched [OF be] wf acks] 1])
  from a obtain ids where ids: "distinct ids" "set ids = scored dbl (acks ?a) 0 (now - ?ttl)"
    "astore_of (view s') = fold (as_DeleteCompletely (UnmarshalBackfill E)) ids ?a" by blast
  note after = fold_DeleteCompletely [OF ids(1), of "UnmarshalBackfill E" ?a, folded ids(3)]
  have "i \<in> set ids" if "sc \<le> dbl (Now E s - ?ttl)"
    using ack that mono [of "Now E s - ?ttl" "now - ?ttl"] t(1) by (auto simp: ids(2) scored_def)
  moreover have "i \<notin> set ids" if "dbl (Now E s' - ?ttl) < sc"
    using ack that mono [of "now - ?ttl" "Now E s' - ?ttl"] t by (auto simp: ids(2) scored_def)
  ultimately show ?thesis
    using a ack after by (auto simp: restrict_map_def)
qed

theorem cleanup_removes_expired_witness:
  "\<exists>s1 r s'. snd (rb_CreateBackfill ref_ok_env backfill_b [''a''] ref_init) = s1 \<and>
     rb_CleanupBackfills rev (ref_cfg\<lparr>GetDuration := \<lambda>_. 0\<rparr>) ref_ok_env s1 = (r, s') \<and>
     str_of (lview (rs_data s1)) ''b'' \<noteq> None \<and> str_of (lview (rs_data s')) ''b'' = None"
proof -
  let ?cfg = "ref_cfg\<lparr>GetDuration := \<lambda>_. 0\<rparr>" and ?s = "snd (rb_CreateBackfill ref_ok_env backfill_b [''a''] ref_init)"
  obtain r s' where 1: "rb_CleanupBackfills rev ?cfg ref_ok_env ?s = (r, s')" by (metis surj_pair)
  have z: "lzset (rs_data ?s) backfillLastAckTime = [(''b'', 1600000000000002048)]" by code_simp
  have o: "lstr (rs_data ?s) ''b'' \<noteq> None" by code_simp
  have t: "rs_time ?s = 1600000000000004000" by code_simp
  have ttl: "getBackfillReleaseTimeout ?cfg = 0" by code_simp
  have wf: "wf_keys (lview (rs_data ?s))"
    by (rule meetsE [OF ref_ok.CreateBackfill_meets [of backfill_b "[''a'']"], of ref_init]) auto
  from cleanup_removes_expired [OF ref_ok.redis_backend_axioms wf _ 1, of "''b''" 1600000000000002048] 1 o
  show ?thesis by (simp add: z t ttl dbl256_def)
qed

text \<open>
  Complete deletion. \<open>DeleteBackfillCompletely\<close> succeeds on a healthy server, and afterwards the backfill
  is in neither the store nor the index and its tickets are not pending. Its acknowledgement is removed
  only if the backfill was still stored: otherwise the entry stays, and the id is found expired again.
\<close>

theorem delete_completely:
  assumes up: "redis_up E view pend dbl" and wf: "wf_keys (view s)" and i: "i \<notin> reserved"
    and 1: "rb_DeleteBackfillCompletely E i s = (r, s')"
  shows "r = Inr () \<and> str_of (view s') i = None \<and> hash_of (view s') allBackfills i = None \<and>
    (\<forall>b bi t. str_of (view s) i = Some b \<longrightarrow> UnmarshalBackfill E b = Some bi \<longrightarrow> t \<in> set (bi_TicketIds bi) \<longrightarrow>
       zset_of (view s') proposedTicketIDs t = None) \<and>
    zset_of (view s') backfillLastAckTime i =
      (if str_of (view s) i = None then zset_of (view s) backfillLastAckTime i else None)"
proof -
  obtain a: "r = Inr () \<and> astore_of (view s') = as_DeleteCompletely (UnmarshalBackfill E) i (astore_of (view s))"
    by (rule meetsD [OF redis_up.DeleteBackfillCompletely_meets [OF up i] wf 1])
  note sel = as_DeleteCompletely_sel [of "UnmarshalBackfill E" i "astore_of (view s)", folded conjunct2 [OF a]]
  from conjunct1 [OF a] sel show ?thesis by (auto simp: restrict_map_def)
qed

theorem delete_completely_witness:
  "\<exists>r s'. rb_DeleteBackfillCompletely ref_ok_env ''b'' ref_init = (r, s') \<and> r = Inr ()"
  using delete_completely [OF ref_ok.redis_up_axioms ref_init_wf(1), of "''b''"] by (metis letters_not_reserved surj_pair)

text \<open>
  An expired backfill is frozen. When its last acknowledgement is older than the release timeout, both
  an update and an acknowledgement are refused as unavailable and change nothing.
\<close>

theorem expired_backfill_refused:
  assumes up: "redis_up E view pend dbl" and wf: "wf_keys (view s)" and i: "bf_Id bf \<notin> reserved"
    and ack: "zset_of (view s) backfillLastAckTime (bf_Id bf) = Some sc" "sc < Now E s - getBackfillReleaseTimeout cfg"
    and 1: "rb_UpdateBackfill cfg E bf tids s = (r1, s1)"
    and 2: "rb_UpdateAcknowledgmentTimestamp cfg E (bf_Id bf) s = (r2, s2)"
  shows "r1 = Inl (Status Unavailable) \<and> astore_of (view s1) = astore_of (view s) \<and>
    r2 = Inl (Status Unavailable) \<and> astore_of (view s2) = astore_of (view s)"
proof -
  let ?ttl = "getBackfillReleaseTimeout cfg"
  obtain now now' where "Now E s \<le> now" "now \<le> now'" and
    "(r1, astore_of (view s1)) = as_UpdateBackfill (MarshalBackfill E) ?ttl bf tids now (astore_of (view s))"
    by (rule meetsD [OF redis_up.UpdateBackfill_meets [OF up i] wf 1])
  moreover obtain t t' where "Now E s \<le> t" "t \<le> t'" and
    "(r2, astore_of (view s2)) = as_Acknowledge dbl ?ttl (bf_Id bf) t t' (astore_of (view s))"
    by (rule meetsD [OF redis_up.UpdateAcknowledgmentTimestamp_meets [OF up] wf 2])
  ultimately show ?thesis
    using ack by (simp add: as_UpdateBackfill_def as_Acknowledge_def as_expired_def)
qed

theorem expired_backfill_refused_witness:
  "\<exists>s s1. s = (snd (rb_CreateBackfill ref_ok_env backfill_b [] ref_init))\<lparr>rs_time := 1700000000 * Second\<rparr> \<and>
     rb_UpdateBackfill ref_cfg ref_ok_env backfill_b [] s = (Inl (Status Unavailable), s1)"
proof -
  let ?s = "(snd (rb_CreateBackfill ref_ok_env backfill_b [] ref_init))\<lparr>rs_time := 1700000000 * Second\<rparr>"
  obtain r1 s1 where 1: "rb_UpdateBackfill ref_cfg ref_ok_env backfill_b [] ?s = (r1, s1)" by (metis surj_pair)
  obtain r2 s2 where 2: "rb_UpdateAcknowledgmentTimestamp ref_cfg ref_ok_env (bf_Id backfill_b) ?s = (r2, s2)" by (metis surj_pair)
  have z: "lzset (rs_data (snd (rb_CreateBackfill ref_ok_env backfill_b [] ref_init))) backfillLastAckTime =
    [(''b'', 1600000000000002048)]" by code_simp
  have ttl: "getBackfillReleaseTimeout ref_cfg = 48 * Second" by code_simp
  have wf: "wf_keys (lview (rs_data ?s))"
    by (rule meetsE [OF ref_ok.CreateBackfill_meets [of backfill_b "[]"], of ref_init]) auto
  from expired_backfill_refused [OF ref_ok.redis_up_axioms wf _ _ _ 1 2, of 1600000000000002048] 1 show ?thesis
    by (simp add: z ttl)
qed

text \<open>
  Without a connection nothing happens. When no connection can be obtained, every operation of the
  store reports \<open>Unavailable\<close> and leaves the keyspace as it is, whatever else may fail.
\<close>

theorem store_unavailable:
  assumes laws: "redis_laws E view pend dbl" and get: "GetContext E s = (Some e, s')"
    and ids: "ids \<noteq> []" "gs \<noteq> []"
  shows "view s' = view s \<and>
    rb_CreateTicket E t s = (Inl (Status Unavailable), s') \<and>
    rb_GetTicket E i s = (Inl (Status Unavailable), s') \<and>
    rb_DeleteTicket E i s = (Inl (Status Unavailable), s') \<and>
    rb_IndexTicket E t s = (Inl (Status Unavailable), s') \<and>
    rb_DeindexTicket E i s = (Inl (Status Unavailable), s') \<and>
    rb_GetIndexedIDSet cfg E s = (Inl (Status Unavailable), s') \<and>
    rb_GetTickets E ids s = (Inl (Status Unavailable), s') \<and>
    rb_UpdateAssignments cfg E gs s = (Inl (Status Unavailable), s') \<and>
    rb_AddTicketsToPendingRelease E ids s = (Inl (Status Unavailable), s') \<and>
    rb_DeleteTicketsFromPendingRelease E ids s = (Inl (Status Unavailable), s') \<and>
    rb_ReleaseAllTickets E s = (Inl (Status Unavailable), s') \<and>
    rb_CreateBackfill E bf ids s = (Inl (Status Unavailable), s') \<and>
    rb_GetBackfill E i s = (Inl (Status Unavailable), s') \<and>
    rb_GetBackfills E ids s = (Inl (Status Unavailable), s') \<and>
    rb_DeleteBackfill E i s = (Inl (Status Unavailable), s') \<and>
    rb_UpdateBackfill cfg E bf ids s = (Inl (Status Unavailable), s') \<and>
    rb_UpdateAcknowledgmentTimestamp cfg E i s = (Inl (Status Unavailable), s') \<and>
    rb_GetExpiredBackfillIDs cfg E s = (Inl (Status Unavailable), s') \<and>
    rb_IndexBackfill E bf s = (Inl (Status Unavailable), s') \<and>
    rb_DeindexBackfill E i s = (Inl (Status Unavailable), s') \<and>
    rb_GetIndexedBackfills cfg E s = (Inl (Status Unavailable), s') \<and>
    rb_CleanupBackfills sched cfg E s = (Inl (Status Unavailable), s')"
  using redis_laws.get_context [OF laws get] get ids
  by (simp_all add: with_conn_def rb_CreateTicket_def rb_GetTicket_def rb_DeleteTicket_def rb_IndexTicket_def
      rb_DeindexTicket_def rb_GetIndexedIDSet_def rb_GetTickets_def rb_UpdateAssignments_def
      rb_AddTicketsToPendingRelease_def rb_DeleteTicketsFromPendingRelease_def rb_ReleaseAllTickets_def
      rb_CreateBackfill_def rb_GetBackfill_def rb_GetBackfills_def rb_DeleteBackfill_def rb_UpdateBackfill_def
      rb_UpdateAcknowledgmentTimestamp_def rb_GetExpiredBackfillIDs_def rb_IndexBackfill_def rb_DeindexBackfill_def
      rb_GetIndexedBackfills_def rb_CleanupBackfills_def)

theorem store_unavailable_witness:
  "rb_CreateTicket (ref_env (\<lambda>n. n = 0)) ticket_a ref_init = (Inl (Status Unavailable), tick ref_init)"
  using store_unavailable [OF ref.redis_laws_axioms, of "\<lambda>n. n = 0" ref_init "RErr 0" "tick ref_init" "[[]]" assign_example ticket_a]
  by (simp add: ref_init_def assign_example_def)

end
