(* ===== verification/Frontend.thy ===== *)
theory Frontend
  imports Store_Properties
begin

text \<open>
  The frontend service (\<open>internal/app/frontend/frontend_service.go\<close>): creation and deletion of tickets,
  the stream of assignments of a ticket, and the backfill calls of game servers. The handlers take the
  store as the record of \<open>Store_Service\<close> and the \<open>xid\<close> generator and clock as functions.
  \<open>proto.Clone\<close> is the identity on values.
\<close>

section \<open>Tickets\<close>

definition doCreateTicket :: "('s, 'c) service \<Rightarrow> ('s \<Rightarrow> string \<times> 's) \<Rightarrow> ('s \<Rightarrow> timestamp) \<Rightarrow> ticket \<Rightarrow> 's \<Rightarrow>
    ticket res \<times> 's" where
  "doCreateTicket S newID tsNow t s =
    (case newID s of (i, s1) \<Rightarrow>
       let ticket = t\<lparr>t_Id := i, t_CreateTime := Some (tsNow s1)\<rparr> in
       (case CreateTicket S ticket s1 of
          (Inl e, s2) \<Rightarrow> (Inl e, s2)
        | (Inr _, s2) \<Rightarrow>
            (case IndexTicket S ticket s2 of
               (Inl e, s3) \<Rightarrow> (Inl e, s3)
             | (Inr _, s3) \<Rightarrow> (Inr ticket, s3))))"

text \<open>The argument is the \<open>ticket\<close> field of the request.\<close>

definition fe_CreateTicket :: "('s, 'c) service \<Rightarrow> ('s \<Rightarrow> string \<times> 's) \<Rightarrow> ('s \<Rightarrow> timestamp) \<Rightarrow> ticket option \<Rightarrow> 's \<Rightarrow>
    ticket res \<times> 's" where
  "fe_CreateTicket S newID tsNow req s =
    (case req of
       None \<Rightarrow> (Inl (Status InvalidArgument), s)
     | Some t \<Rightarrow>
         if t_Assignment t \<noteq> None then (Inl (Status InvalidArgument), s)
         else if t_CreateTime t \<noteq> None then (Inl (Status InvalidArgument), s)
         else doCreateTicket S newID tsNow t s)"

text \<open>
  Deletion deindexes the ticket and starts a goroutine for the rest. The handler returns the ids whose
  lazy deletion it started; \<open>deleteTicketLazy\<close> is the body of that goroutine, which runs at some
  later time and only logs errors.
\<close>

definition doDeleteTicket :: "('s, 'c) service \<Rightarrow> string \<Rightarrow> 's \<Rightarrow> (unit res \<times> string list) \<times> 's" where
  "doDeleteTicket S i s =
    (case DeindexTicket S i s of
       (Inl e, s1) \<Rightarrow> ((Inl e, []), s1)
     | (Inr _, s1) \<Rightarrow> ((Inr (), [i]), s1))"

definition deleteTicketLazy :: "('s, 'c) service \<Rightarrow> string \<Rightarrow> 's \<Rightarrow> 's" where
  "deleteTicketLazy S i s = snd (DeleteTicketsFromPendingRelease S [i] (snd (DeleteTicket S i s)))"

definition fe_DeleteTicket :: "('s, 'c) service \<Rightarrow> string \<Rightarrow> 's \<Rightarrow> (unit res \<times> string list) \<times> 's" where
  "fe_DeleteTicket S i s =
    (case doDeleteTicket S i s of
       ((Inl e, js), s1) \<Rightarrow> ((Inl e, js), s1)
     | ((Inr _, js), s1) \<Rightarrow> ((Inr (), js), s1))"

definition fe_GetTicket :: "('s, 'c) service \<Rightarrow> string \<Rightarrow> 's \<Rightarrow> ticket res \<times> 's" where
  "fe_GetTicket S i s = GetTicket S i s"

section \<open>Watching assignments\<close>

text \<open>
  State of the callback: the last assignment sent, what was sent so far and the number of calls.
  \<open>ctxDone k\<close>: the client's context is done at the \<open>k\<close>-th call. \<open>sendFails n\<close>: the stream rejects the
  message after \<open>n\<close> successful ones.
\<close>

record watch =
  currAssignment :: "assignment option"
  sent :: "assignment option list"
  calls :: nat

definition watch_callback :: "(nat \<Rightarrow> bool) \<Rightarrow> (nat \<Rightarrow> bool) \<Rightarrow> assignment option \<Rightarrow> watch \<Rightarrow> go_error option \<times> watch" where
  "watch_callback ctxDone sendFails a w =
    (let k = calls w; w = w\<lparr>calls := Suc k\<rparr> in
     if ctxDone k then (Some (Status Aborted), w)
     else if (currAssignment w = None \<and> a \<noteq> None) \<or> currAssignment w \<noteq> a then
       (let w = w\<lparr>currAssignment := a\<rparr> in
        if sendFails (length (sent w)) then (Some (Status Aborted), w)
        else (None, w\<lparr>sent := sent w @ [a]\<rparr>))
     else (None, w))"

definition doWatchAssignments :: "nat \<Rightarrow> (nat \<Rightarrow> bool) \<Rightarrow> (nat \<Rightarrow> bool) \<Rightarrow> ('s, watch) service \<Rightarrow> string \<Rightarrow> 's \<Rightarrow>
    (go_error \<times> watch \<times> 's) option" where
  "doWatchAssignments n ctxDone sendFails S i s =
    GetAssignments S n i (watch_callback ctxDone sendFails) \<lparr>currAssignment = None, sent = [], calls = 0\<rparr> s"

section \<open>Backfills\<close>

definition doCreateBackfill :: "('s, 'c) service \<Rightarrow> ('s \<Rightarrow> string \<times> 's) \<Rightarrow> ('s \<Rightarrow> timestamp) \<Rightarrow> backfill \<Rightarrow> 's \<Rightarrow>
    backfill res \<times> 's" where
  "doCreateBackfill S newID tsNow bf s =
    (case newID s of (i, s1) \<Rightarrow>
       let backfill = bf\<lparr>bf_Id := i, bf_CreateTime := Some (tsNow s1), bf_Generation := 1\<rparr> in
       (case CreateBackfill S backfill [] s1 of
          (Inl e, s2) \<Rightarrow> (Inl e, s2)
        | (Inr _, s2) \<Rightarrow>
            (case IndexBackfill S backfill s2 of
               (Inl e, s3) \<Rightarrow> (Inl e, s3)
             | (Inr _, s3) \<Rightarrow> (Inr backfill, s3))))"

text \<open>The request is a pointer, and so is its \<open>backfill\<close> field.\<close>

definition fe_CreateBackfill :: "('s, 'c) service \<Rightarrow> ('s \<Rightarrow> string \<times> 's) \<Rightarrow> ('s \<Rightarrow> timestamp) \<Rightarrow>
    backfill option option \<Rightarrow> 's \<Rightarrow> backfill res \<times> 's" where
  "fe_CreateBackfill S newID tsNow req s =
    (case req of
       None \<Rightarrow> (Inl (Status InvalidArgument), s)
     | Some None \<Rightarrow> (Inl (Status InvalidArgument), s)
     | Some (Some bf) \<Rightarrow>
         if bf_CreateTime bf \<noteq> None then (Inl (Status InvalidArgument), s)
         else doCreateBackfill S newID tsNow bf s)"

text \<open>A handler that holds the mutex of a key; the unlock is deferred and its error only logged.\<close>

definition with_mutex :: "('s, 'c) service \<Rightarrow> string \<Rightarrow> ('s \<Rightarrow> 'a res \<times> 's) \<Rightarrow> 's \<Rightarrow> 'a res \<times> 's" where
  "with_mutex S key body s =
    (case MutexLock S key s of
       (Some e, s1) \<Rightarrow> (Inl e, s1)
     | (None, s1) \<Rightarrow> (case body s1 of (r, s2) \<Rightarrow> (r, snd (MutexUnlock S key s2))))"

text \<open>What an update takes from the request: everything but the id, the create time and the generation.\<close>

definition ub_merge :: "backfill \<Rightarrow> backfill \<Rightarrow> backfill" where
  "ub_merge backfill bfStored =
    bfStored\<lparr>bf_SearchFields := bf_SearchFields backfill, bf_Extensions := bf_Extensions backfill,
      bf_PersistentField := bf_PersistentField backfill, bf_Generation := bf_Generation bfStored + 1\<rparr>"

text \<open>The body of \<open>UpdateBackfill\<close> under the mutex. A stored value without a backfill is a nil dereference.\<close>

definition ub_body :: "('s, 'c) service \<Rightarrow> backfill \<Rightarrow> 's \<Rightarrow> backfill res \<times> 's" where
  "ub_body S backfill s =
    (case GetBackfill S (bf_Id backfill) s of
       (Inl e, s1) \<Rightarrow> (Inl e, s1)
     | (Inr (None, _), s1) \<Rightarrow> (Inl Panic, s1)
     | (Inr (Some bfStored, associatedTickets), s1) \<Rightarrow>
         let bfStored = ub_merge backfill bfStored
         in (case UpdateBackfill S bfStored [] s1 of
               (Inl e, s2) \<Rightarrow> (Inl e, s2)
             | (Inr _, s2) \<Rightarrow>
                 (case DeleteTicketsFromPendingRelease S associatedTickets s2 of
                    (Inl e, s3) \<Rightarrow> (Inl e, s3)
                  | (Inr _, s3) \<Rightarrow>
                      (case IndexBackfill S bfStored s3 of
                         (Inl e, s4) \<Rightarrow> (Inl e, s4)
                       | (Inr _, s4) \<Rightarrow> (Inr bfStored, s4)))))"

definition fe_UpdateBackfill :: "('s, 'c) service \<Rightarrow> backfill option option \<Rightarrow> 's \<Rightarrow> backfill res \<times> 's" where
  "fe_UpdateBackfill S req s =
    (case req of
       None \<Rightarrow> (Inl (Status InvalidArgument), s)
     | Some None \<Rightarrow> (Inl (Status InvalidArgument), s)
     | Some (Some backfill) \<Rightarrow>
         if bf_Id backfill = [] then (Inl (Status InvalidArgument), s)
         else with_mutex S (bf_Id backfill) (ub_body S backfill) s)"

definition fe_DeleteBackfill :: "('s, 'c) service \<Rightarrow> string \<Rightarrow> 's \<Rightarrow> unit res \<times> 's" where
  "fe_DeleteBackfill S bfID s =
    (if bfID = [] then (Inl (Status InvalidArgument), s)
     else (Inr (), snd (DeleteBackfillCompletely S bfID s)))"

text \<open>The body of \<open>AcknowledgeBackfill\<close> under the mutex.\<close>

definition ab_body :: "('s, 'c) service \<Rightarrow> string \<Rightarrow> assignment \<Rightarrow> 's \<Rightarrow> (backfill option \<times> ticket list) res \<times> 's" where
  "ab_body S i a s =
    (case GetBackfill S i s of
       (Inl e, s1) \<Rightarrow> (Inl e, s1)
     | (Inr (bf, associatedTickets), s1) \<Rightarrow>
         (case UpdateAcknowledgmentTimestamp S i s1 of
            (Inl e, s2) \<Rightarrow> (Inl e, s2)
          | (Inr _, s2) \<Rightarrow>
              if associatedTickets = [] then (Inr (bf, []), s2)
              else
                (case UpdateAssignments S [\<lparr>ag_TicketIds = associatedTickets, ag_Assignment = Some a\<rparr>] s2 of
                   (Inl e, s3) \<Rightarrow> (Inl e, s3)
                 | (Inr (_, tickets), s3) \<Rightarrow>
                     let s4 = fold (\<lambda>j s. snd (DeindexTicket S j s)) associatedTickets s3 in
                     (case bf of
                        None \<Rightarrow> (Inl Panic, s4)
                      | Some b \<Rightarrow>
                          (case UpdateBackfill S b [] s4 of
                             (Inl e, s5) \<Rightarrow> (Inl e, s5)
                           | (Inr _, s5) \<Rightarrow> (Inr (bf, tickets), s5))))))"

definition fe_AcknowledgeBackfill :: "('s, 'c) service \<Rightarrow> string \<Rightarrow> assignment option \<Rightarrow> 's \<Rightarrow>
    (backfill option \<times> ticket list) res \<times> 's" where
  "fe_AcknowledgeBackfill S i assign s =
    (if i = [] then (Inl (Status InvalidArgument), s)
     else case assign of
       None \<Rightarrow> (Inl (Status InvalidArgument), s)
     | Some a \<Rightarrow> with_mutex S i (ab_body S i a) s)"

definition fe_GetBackfill :: "('s, 'c) service \<Rightarrow> string \<Rightarrow> 's \<Rightarrow> backfill option res \<times> 's" where
  "fe_GetBackfill S i s =
    (case GetBackfill S i s of (r, s1) \<Rightarrow> (case r of Inl e \<Rightarrow> Inl e | Inr (bf, _) \<Rightarrow> Inr bf, s1))"

section \<open>Handlers over a store that meets its contract\<close>

definition fresh_id :: "'b astore \<Rightarrow> string \<Rightarrow> bool" where
  "fresh_id a i \<longleftrightarrow> i \<noteq> [] \<and> i \<notin> reserved \<and> objs a i = None \<and> i \<notin> tindex a \<and> pending a i = None \<and>
     acks a i = None \<and> bindex a i = None"

locale frontend_env = statestore S good store clock dbl encT decT encB decB pttl bttl px
  for S :: "('s, 'c) service" and good :: "'s \<Rightarrow> bool" and store :: "'s \<Rightarrow> 'b astore" and clock :: "'s \<Rightarrow> int"
    and dbl :: "int \<Rightarrow> int" and encT :: "ticket \<Rightarrow> 'b option" and decT :: "'b \<Rightarrow> ticket option"
    and encB :: "backfill_internal \<Rightarrow> 'b option" and decB :: "'b \<Rightarrow> backfill_internal option"
    and pttl :: int and bttl :: int and px :: int +
  fixes newID :: "'s \<Rightarrow> string \<times> 's" and tsNow :: "'s \<Rightarrow> timestamp"
  assumes new_id: "good s \<Longrightarrow> newID s = (i, s') \<Longrightarrow>
    good s' \<and> store s' = store s \<and> clock s \<le> clock s' \<and> fresh_id (store s) i"
begin

lemma create_ticket_handler:
  assumes "good s" and enc: "\<And>t. encT t \<noteq> None" and run: "doCreateTicket S newID tsNow t s = (r, s')"
  obtains i ts b where "r = Inr (t\<lparr>t_Id := i, t_CreateTime := Some ts\<rparr>)" "fresh_id (store s) i" "good s'"
    "encT (t\<lparr>t_Id := i, t_CreateTime := Some ts\<rparr>) = Some b"
    "store s' = (store s)\<lparr>objs := (objs (store s))(i \<mapsto> b), ttls := (ttls (store s))(i := None),
       tindex := insert i (tindex (store s))\<rparr>"
proof -
  obtain i s1 where 1: "newID s = (i, s1)" by (cases "newID s")
  with new_id [OF assms(1)] have g1: "good s1" "store s1 = store s" "fresh_id (store s) i" by auto
  define t' where "t' = t\<lparr>t_Id := i, t_CreateTime := Some (tsNow s1)\<rparr>"
  have i: "t_Id t' \<notin> reserved" "t_Id t' = i" using g1(3) by (auto simp: t'_def fresh_id_def)
  from enc obtain b where b: "encT t' = Some b" by blast
  obtain r2 s2 where 2: "CreateTicket S t' s1 = (r2, s2)" "good s2" "(r2, store s2) = as_CreateTicket encT t' (store s1)"
    by (rule meetsE [OF create_ticket [OF i(1)] g1(1)])
  obtain r3 s3 where 3: "IndexTicket S t' s2 = (r3, s3)" "good s3"
    "r3 = Inr () \<and> store s3 = (store s2)\<lparr>tindex := insert (t_Id t') (tindex (store s2))\<rparr>"
    by (rule meetsE [OF index_ticket [of t'] 2(2)])
  show thesis
    by (rule that [where i = i and ts = "tsNow s1" and b = b])
      (use run 1 2 3 b g1 i in \<open>auto simp: doCreateTicket_def Let_def as_CreateTicket_def t'_def\<close>)
qed

lemma create_backfill_handler:
  assumes "good s" and enc: "\<And>bi. encB bi \<noteq> None" and run: "doCreateBackfill S newID tsNow bf s = (r, s')"
  obtains i ts b now where
    "r = Inr (bf\<lparr>bf_Id := i, bf_CreateTime := Some ts, bf_Generation := 1\<rparr>)" "fresh_id (store s) i" "good s'"
    "encB \<lparr>bi_Backfill = Some (bf\<lparr>bf_Id := i, bf_CreateTime := Some ts, bf_Generation := 1\<rparr>), bi_TicketIds = []\<rparr> = Some b"
    "clock s \<le> now" "now \<le> clock s'"
    "store s' = (store s)\<lparr>objs := (objs (store s))(i \<mapsto> b), ttls := (ttls (store s))(i := None),
       acks := (acks (store s))(i \<mapsto> dbl now), bindex := (bindex (store s))(i \<mapsto> itoa 1)\<rparr>"
proof -
  obtain i s1 where 1: "newID s = (i, s1)" by (cases "newID s")
  with new_id [OF assms(1)] have g1: "good s1" "store s1 = store s" "clock s \<le> clock s1" "fresh_id (store s) i" by auto
  define bf' where "bf' = bf\<lparr>bf_Id := i, bf_CreateTime := Some (tsNow s1), bf_Generation := 1\<rparr>"
  have i: "bf_Id bf' \<notin> reserved" "bf_Id bf' = i" "objs (store s) i = None" using g1(4) by (auto simp: bf'_def fresh_id_def)
  from enc obtain b where b: "encB \<lparr>bi_Backfill = Some bf', bi_TicketIds = []\<rparr> = Some b" by blast
  obtain r2 s2 now now' where 2: "CreateBackfill S bf' [] s1 = (r2, s2)" "clock s1 \<le> now" "now \<le> now'" "now' \<le> clock s2"
    "good s2" "(r2, store s2) = as_CreateBackfill encB dbl bf' [] now (store s1)"
    by (rule meetsE [OF create_backfill [OF i(1)] g1(1)])
  obtain r3 s3 now2 now2' where 3: "IndexBackfill S bf' s2 = (r3, s3)" "clock s2 \<le> now2" "now2 \<le> now2'" "now2' \<le> clock s3" "good s3"
    "r3 = Inr () \<and> store s3 = as_IndexBackfill bf' (store s2)"
    by (rule meetsE [OF index_backfill [of bf'] 2(5)])
  have "sint (bf_Generation bf') = 1" by (simp add: bf'_def)
  then show thesis
    by (intro that [where i = i and ts = "tsNow s1" and b = b and now = now])
      (use run 1 2 3 b g1 i in \<open>auto simp: doCreateBackfill_def Let_def as_CreateBackfill_def as_IndexBackfill_def bf'_def\<close>)
qed

end

context statestore
begin

lemma with_mutex_ok:
  assumes "good s" and run: "with_mutex S i body s = (r, s')"
  obtains s1 s2 where "good s1" "store s1 = store s" "clock s \<le> clock s1" "body s1 = (r, s2)"
    "good s2 \<longrightarrow> good s' \<and> store s' = store s2 \<and> clock s2 \<le> clock s'"
proof -
  obtain r1 s1 n1 n1' where 1: "MutexLock S i s = (r1, s1)" "good s1" "r1 = None \<and> store s1 = store s"
    "clock s \<le> n1" "n1 \<le> n1'" "n1' \<le> clock s1"
    by (rule meetsE [OF mutex_lock [of i] assms(1)])
  obtain s2 where 2: "body s1 = (r, s2)" "s' = snd (MutexUnlock S i s2)"
    using run 1 by (auto simp: with_mutex_def split: prod.splits)
  have "good s' \<and> store s' = store s2 \<and> clock s2 \<le> clock s'" if "good s2"
    by (rule meetsE [OF mutex_unlock [of i] that]) (use 2 in auto)
  with that 1 2 show thesis by auto
qed

lemma delete_ticket_handler:
  assumes "good s" and i: "i \<notin> reserved" and run: "fe_DeleteTicket S i s = (r, s')" and good2: "good s2"
  shows "r = (Inr (), [i]) \<and> good s' \<and> store s' = (store s)\<lparr>tindex := tindex (store s) - {i}\<rparr> \<and>
    good (deleteTicketLazy S i s2) \<and>
    store (deleteTicketLazy S i s2) = as_DeletePending [i] (snd (as_DeleteTicket i (store s2)))"
proof -
  obtain r1 s1 where 1: "DeindexTicket S i s = (r1, s1)" "good s1" "r1 = Inr () \<and> store s1 = (store s)\<lparr>tindex := tindex (store s) - {i}\<rparr>"
    by (rule meetsE [OF deindex_ticket [of i] assms(1)])
  obtain r3 s3 where 3: "DeleteTicket S i s2 = (r3, s3)" "good s3" "(r3, store s3) = as_DeleteTicket i (store s2)"
    by (rule meetsE [OF delete_ticket [OF i] good2])
  obtain r4 s4 where 4: "DeleteTicketsFromPendingRelease S [i] s3 = (r4, s4)" "good s4" "r4 = Inr () \<and> store s4 = as_DeletePending [i] (store s3)"
    by (rule meetsE [OF delete_pending [of "[i]"] 3(2)])
  from 1 3 4 run show ?thesis
    by (auto simp: fe_DeleteTicket_def doDeleteTicket_def deleteTicketLazy_def) (metis snd_conv)+
qed

lemma update_backfill_handler:
  assumes g: "good s" and i: "bf_Id bf \<notin> reserved" "bf_Id bf \<noteq> []"
    and ids: "\<And>st tids. as_GetBackfill decB (bf_Id bf) (store s) = Inr (Some st, tids) \<Longrightarrow> bf_Id st = bf_Id bf"
    and run: "fe_UpdateBackfill S (Some (Some bf)) s = (r, s')"
  shows "\<exists>now. clock s \<le> now \<and> now \<le> clock s' \<and> good s' \<and>
    (case as_GetBackfill decB (bf_Id bf) (store s) of
       Inl e \<Rightarrow> r = Inl e \<and> store s' = store s
     | Inr (None, _) \<Rightarrow> r = Inl Panic \<and> store s' = store s
     | Inr (Some st, tids) \<Rightarrow>
         (case as_UpdateBackfill encB bttl (ub_merge bf st) [] now (store s) of
            (Inl e, a) \<Rightarrow> r = Inl e \<and> store s' = a
          | (Inr _, a) \<Rightarrow> r = Inr (ub_merge bf st) \<and>
              store s' = as_IndexBackfill (ub_merge bf st) (as_DeletePending tids a)))"
proof -
  from run i have "with_mutex S (bf_Id bf) (ub_body S bf) s = (r, s')" by (simp add: fe_UpdateBackfill_def)
  then obtain s1 s2 where 0: "good s1" "store s1 = store s" "clock s \<le> clock s1" "ub_body S bf s1 = (r, s2)"
    "good s2 \<longrightarrow> good s' \<and> store s' = store s2 \<and> clock s2 \<le> clock s'"
    by (rule with_mutex_ok [OF g])
  obtain r3 s3 n n' where 3: "GetBackfill S (bf_Id bf) s1 = (r3, s3)" "clock s1 \<le> n" "n \<le> n'" "n' \<le> clock s3" "good s3"
    "r3 = as_GetBackfill decB (bf_Id bf) (store s1) \<and> store s3 = store s1"
    by (rule meetsE [OF get_backfill [OF i(1)] 0(1)])
  show ?thesis
  proof (cases "\<exists>st tids. r3 = Inr (Some st, tids)")
    case False
    with 0 3 show ?thesis
      by (intro exI [of _ n]) (auto simp: ub_body_def split: sum.splits option.splits)
  next
    case True
    then obtain st tids where r3: "r3 = Inr (Some st, tids)" by blast
    let ?st = "ub_merge bf st"
    have get: "as_GetBackfill decB (bf_Id bf) (store s) = Inr (Some st, tids)" using 3(6) 0(2) r3 by simp
    have "bf_Id ?st = bf_Id bf" using ids [OF get] by (simp add: ub_merge_def)
    then have st: "bf_Id ?st \<notin> reserved" using i by simp
    obtain r4 s4 m m' where 4: "UpdateBackfill S ?st [] s3 = (r4, s4)" "clock s3 \<le> m" "m \<le> m'" "m' \<le> clock s4" "good s4"
      "(r4, store s4) = as_UpdateBackfill encB bttl ?st [] m (store s3)"
      by (rule meetsE [OF update_backfill [OF st] 3(5)])
    obtain r5 s5 k k' where 5: "DeleteTicketsFromPendingRelease S tids s4 = (r5, s5)" "clock s4 \<le> k" "k \<le> k'" "k' \<le> clock s5" "good s5"
      "r5 = Inr () \<and> store s5 = as_DeletePending tids (store s4)"
      by (rule meetsE [OF delete_pending [of tids] 4(5)])
    obtain r6 s6 j j' where 6: "IndexBackfill S ?st s5 = (r6, s6)" "clock s5 \<le> j" "j \<le> j'" "j' \<le> clock s6" "good s6"
      "r6 = Inr () \<and> store s6 = as_IndexBackfill ?st (store s5)"
      by (rule meetsE [OF index_backfill [of ?st] 5(5)])
    have upd: "as_UpdateBackfill encB bttl ?st [] m (store s) = (r4, store s4)" using 4(6) 3(6) 0(2) by simp
    show ?thesis
    proof (cases r4)
      case (Inl e)
      then have "ub_body S bf s1 = (Inl e, s4)" using 3(1) 4(1) r3 by (simp add: ub_body_def)
      with 0 3 4 Inl show ?thesis by (intro exI [of _ m]) (simp add: get upd)
    next
      case (Inr u)
      then have "ub_body S bf s1 = (Inr ?st, s6)" using 3(1) 4(1) 5(1,6) 6(1,6) r3 by (simp add: ub_body_def)
      with 0 3 4 5 6 Inr show ?thesis by (intro exI [of _ m]) (simp add: get upd)
    qed
  qed
qed

lemma fold_deindex:
  assumes "good s"
  shows "good (fold (\<lambda>j s. snd (DeindexTicket S j s)) js s) \<and> clock s \<le> clock (fold (\<lambda>j s. snd (DeindexTicket S j s)) js s) \<and>
    store (fold (\<lambda>j s. snd (DeindexTicket S j s)) js s) = (store s)\<lparr>tindex := tindex (store s) - set js\<rparr>"
  using assms
proof (induction js arbitrary: s)
  case (Cons j js)
  obtain r s1 where 1: "DeindexTicket S j s = (r, s1)" "clock s \<le> clock s1" "good s1"
    "store s1 = (store s)\<lparr>tindex := tindex (store s) - {j}\<rparr>"
    by (rule meetsE [OF deindex_ticket [of j] Cons.prems]) auto
  have "tindex (store s) - {j} - set js = tindex (store s) - insert j (set js)" by auto
  with Cons.IH [OF 1(3)] 1 show ?case by simp
qed simp

text \<open>
  Acknowledging a live backfill: its tickets get the assignment and leave the index, the backfill keeps
  no tickets and is acknowledged now.
\<close>

lemma acknowledge_handler:
  assumes g: "good s" and i: "i \<notin> reserved" "i \<noteq> []"
    and get: "as_GetBackfill decB i (store s) = Inr (Some st, tids)" and st: "bf_Id st = i"
    and gs: "gs = [\<lparr>ag_TicketIds = tids, ag_Assignment = Some asg\<rparr>]"
    and tids: "tids \<noteq> []" "distinct tids" "\<forall>j \<in> set tids. j \<notin> reserved" "tickets_at decT tids (store s)"
    and dec: "those (map decT (List.map_filter (objs (store s)) tids)) = Some ts"
    and enc: "those (map (encT \<circ> assigned gs) ts) = Some bs" "encB \<lparr>bi_Backfill = Some st, bi_TicketIds = []\<rparr> = Some b"
    and ack: "acks (store s) i = Some sc"
    and run: "fe_AcknowledgeBackfill S i (Some asg) s = (r, s')"
    and timely: "clock s' - bttl \<le> sc" "clock s' + 128 \<le> clock s + bttl" "0 \<le> clock s" "clock s' \<le> 2 ^ 61"
  shows "r = Inr (Some st, map (assigned gs) ts) \<and> good s' \<and> (\<exists>now. clock s \<le> now \<and> now \<le> clock s' \<and>
    store s' = (let a = store_all px (zip (map t_Id ts) bs) (store s) in
      a\<lparr>objs := (objs a)(i \<mapsto> b), ttls := (ttls a)(i := None), acks := (acks (store s))(i \<mapsto> dbl now),
        tindex := tindex (store s) - set tids\<rparr>))"
proof -
  from run i have "with_mutex S i (ab_body S i asg) s = (r, s')" by (simp add: fe_AcknowledgeBackfill_def)
  then obtain s1 s2 where 0: "good s1" "store s1 = store s" "clock s \<le> clock s1" "ab_body S i asg s1 = (r, s2)"
    "good s2 \<longrightarrow> good s' \<and> store s' = store s2 \<and> clock s2 \<le> clock s'"
    by (rule with_mutex_ok [OF g])
  obtain r3 s3 where 3: "GetBackfill S i s1 = (r3, s3)" "clock s1 \<le> clock s3" "good s3"
    "r3 = as_GetBackfill decB i (store s1) \<and> store s3 = store s1"
    by (rule meetsE [OF get_backfill [OF i(1)] 0(1)]) auto
  obtain r4 s4 m m' where 4: "UpdateAcknowledgmentTimestamp S i s3 = (r4, s4)" "clock s3 \<le> m" "m \<le> m'" "m' \<le> clock s4" "good s4"
    "(r4, store s4) = as_Acknowledge dbl bttl i m m' (store s3)"
    by (rule meetsE [OF acknowledge [of i] 3(3)])
  define a4 where "a4 = (store s)\<lparr>acks := (acks (store s))(i \<mapsto> dbl m')\<rparr>"
  have r3: "r3 = Inr (Some st, tids)" "store s3 = store s" using 3(4) 0(2) get by simp_all
  have live: "m \<le> sc + bttl"
  proof (rule ccontr)
    assume "\<not> m \<le> sc + bttl"
    then have "r4 = Inl (Status Unavailable)" using 4(6) r3 ack by (simp add: as_Acknowledge_def as_expired_def)
    then have "s2 = s4" using 0(4) 3(1) 4(1) r3 by (simp add: ab_body_def)
    then show False using 0(5) 4 timely \<open>\<not> m \<le> sc + bttl\<close> by simp
  qed
  then have a4: "r4 = Inr ()" "store s4 = a4"
    using 4(6) r3 ack by (auto simp: as_Acknowledge_def as_expired_def a4_def)
  have ids: "assign_ids gs = tids" "gs \<noteq> []" "list_all (\<lambda>g. ag_Assignment g \<noteq> None) gs" by (simp_all add: gs assign_ids_def)
  define a5 where "a5 = store_all px (zip (map t_Id ts) bs) a4"
  have spec: "as_UpdateAssignments encT decT px gs a4 =
      (Inr (map not_found_failure (filter (\<lambda>i. objs (store s) i = None) tids), map (assigned gs) ts), a5)"
    using tids dec enc(1) ids by (simp add: as_UpdateAssignments_def assign_valid_def a4_def a5_def)
  have at4: "\<forall>j \<in> set (assign_ids gs). j \<notin> reserved" "tickets_at decT (assign_ids gs) (store s4)"
    using tids(3,4) by (simp_all add: ids a4 tickets_at_def a4_def)
  obtain r5 s5 where 5: "UpdateAssignments S gs s4 = (r5, s5)" "clock s4 \<le> clock s5" "good s5"
    "(r5, store s5) = as_UpdateAssignments encT decT px gs a4"
    by (rule meets_atE [OF update_assignments [OF 4(5) at4]]) (use a4 in auto)
  define s6 where "s6 = fold (\<lambda>j s. snd (DeindexTicket S j s)) tids s5"
  note 6 = fold_deindex [OF 5(3), of tids, folded s6_def]
  have st6: "bf_Id st \<notin> reserved" "good s6" using i st 6 by auto
  obtain r7 s7 k k' where 7: "UpdateBackfill S st [] s6 = (r7, s7)" "clock s6 \<le> k" "k \<le> k'" "k' \<le> clock s7" "good s7"
    "(r7, store s7) = as_UpdateBackfill encB bttl st [] k (store s6)"
    by (rule meetsE [OF update_backfill [OF st6(1)] st6(2)])
  have body: "ab_body S i asg s1 = (case r7 of Inl e \<Rightarrow> (Inl e, s7) | Inr _ \<Rightarrow> (Inr (Some st, map (assigned gs) ts), s7))"
    using 3(1) 4(1) 5(1,4) 7(1) a4 r3(1) tids(1)
    by (auto simp: ab_body_def gs [symmetric] spec s6_def [symmetric] Let_def split: sum.splits)
  then have s2: "s2 = s7" using 0(4) by (auto split: sum.splits)
  have a6: "store s6 = a5\<lparr>tindex := tindex (store s) - set tids\<rparr>" "acks (store s6) = (acks (store s))(i \<mapsto> dbl m')"
    using 6 5(4) spec by (auto simp: a5_def a4_def store_all_def)
  have t: "clock s \<le> m'" "m' \<le> clock s'" "k \<le> clock s'" using 0 3 4 5 6 7 s2 by auto
  have "\<not> dbl m' < k - bttl" using score_near [of m'] t timely by auto
  then have "r7 = Inr ()" "store s7 = (store s6)\<lparr>objs := (objs (store s6))(i \<mapsto> b), ttls := (ttls (store s6))(i := None)\<rparr>"
    using 7(6) a6(2) st enc(2) by (auto simp: as_UpdateBackfill_def as_expired_def)
  with 0 7 body s2 t a6(1) show ?thesis
    by (auto simp: a5_def a4_def store_all_def Let_def intro!: exI [of _ m'])
qed

end

sublocale redis_backend \<subseteq> fe: frontend_env "redis_service sched cfg E" "\<lambda>s. wf_keys (view s)"
  "\<lambda>s. astore_of (view s)" "Now E" dbl "MarshalTicket E" "UnmarshalTicket E" "MarshalBackfill E"
  "UnmarshalBackfill E" "GetDuration cfg ''pendingReleaseTimeout''" "getBackfillReleaseTimeout cfg"
  "go_div (getAssignedDeleteTimeout cfg) Millisecond" "NewID E" "TimestampNow E"
proof unfold_locales
  fix s i s' assume wf: "wf_keys (view s)" and id: "NewID E s = (i, s')"
  from new_id [OF id] have "view s' = view s" "Now E s \<le> Now E s'" "i \<noteq> []" "unused (view s) i" by auto
  with wf show "wf_keys (view s') \<and> astore_of (view s') = astore_of (view s) \<and> Now E s \<le> Now E s' \<and>
    fresh_id (astore_of (view s)) i"
    by (simp add: fresh_id_def unused_def str_of_def)
qed

context redis_backend
begin

lemma frontend_contract:
  "S = New sched cfg E \<Longrightarrow> frontend_env S (\<lambda>s. wf_keys (view s)) (\<lambda>s. astore_of (view s)) (Now E) dbl
    (MarshalTicket E) (UnmarshalTicket E) (MarshalBackfill E) (UnmarshalBackfill E)
    (GetDuration cfg ''pendingReleaseTimeout'') (getBackfillReleaseTimeout cfg)
    (go_div (getAssignedDeleteTimeout cfg) Millisecond) (NewID E)"
  unfolding New_eq by (simp only:) unfold_locales

end

section \<open>Properties\<close>

text \<open>The store on the reference server, for the examples.\<close>

definition ref_store :: "(rstate, watch) service" where
  "ref_store = New rev ref_cfg (ref_env (\<lambda>_. False))"

text \<open>
  Creation of tickets through the frontend. A request without a ticket, or whose ticket has an
  assignment or a create time, is refused and changes nothing. Any other ticket is stored under a fresh
  id with a create time and otherwise as given, is indexed, and \<open>GetTicket\<close> returns it.
\<close>

theorem create_ticket_stores:
  fixes S :: "('s, 'c) service"
  assumes be: "redis_backend E view pend dbl sched" and S: "S = New sched cfg E" and wf: "wf_keys (view s)"
    and enc: "\<forall>t. MarshalTicket E t \<noteq> None"
    and run: "fe_CreateTicket S (NewID E) (TimestampNow E) req s = (r, s1)"
  shows "case req of
      None \<Rightarrow> r = Inl (Status InvalidArgument) \<and> s1 = s
    | Some t \<Rightarrow>
        if t_Assignment t \<noteq> None \<or> t_CreateTime t \<noteq> None then r = Inl (Status InvalidArgument) \<and> s1 = s
        else \<exists>i ts. r = Inr (t\<lparr>t_Id := i, t_CreateTime := Some ts\<rparr>) \<and> fresh_id (astore_of (view s)) i \<and>
          wf_keys (view s1) \<and> set_of (view s1) allTickets = insert i (set_of (view s) allTickets) \<and>
          fst (fe_GetTicket S i s1) = Inr (t\<lparr>t_Id := i, t_CreateTime := Some ts\<rparr>)"
proof (cases "\<exists>t. req = Some t \<and> t_Assignment t = None \<and> t_CreateTime t = None")
  case True
  then obtain t where t: "req = Some t" "t_Assignment t = None" "t_CreateTime t = None" by blast
  have up: "redis_up E view pend dbl" using be by (rule redis_backend.axioms)
  have rs: "S = redis_service sched cfg E" by (simp add: S New_eq)
  have do: "doCreateTicket S (NewID E) (TimestampNow E) t s = (r, s1)"
    using run t by (simp add: fe_CreateTicket_def)
  obtain i ts b where *: "r = Inr (t\<lparr>t_Id := i, t_CreateTime := Some ts\<rparr>)" "fresh_id (astore_of (view s)) i"
    "wf_keys (view s1)" "MarshalTicket E (t\<lparr>t_Id := i, t_CreateTime := Some ts\<rparr>) = Some b"
    "astore_of (view s1) = (astore_of (view s))\<lparr>objs := (objs (astore_of (view s)))(i \<mapsto> b),
       ttls := (ttls (astore_of (view s)))(i := None), tindex := insert i (tindex (astore_of (view s)))\<rparr>"
    by (rule frontend_env.create_ticket_handler [OF redis_backend.frontend_contract [OF be S] wf _ do]) (use enc in blast)
  have i: "i \<notin> reserved" using *(2) by (simp add: fresh_id_def)
  have dec: "UnmarshalTicket E b = Some (t\<lparr>t_Id := i, t_CreateTime := Some ts\<rparr>)"
    using redis_laws.ticket_codec [OF redis_up.axioms(1) [OF up] *(4)] .
  have "fst (rb_GetTicket E i s1) = as_GetTicket (UnmarshalTicket E) i (astore_of (view s1))"
    by (rule meetsE [OF redis_up.GetTicket_meets [OF up i] *(3)]) simp
  also have "\<dots> = Inr (t\<lparr>t_Id := i, t_CreateTime := Some ts\<rparr>)" by (simp only: *(5)) (simp add: as_GetTicket_def dec)
  finally have "fst (fe_GetTicket S i s1) = Inr (t\<lparr>t_Id := i, t_CreateTime := Some ts\<rparr>)"
    by (simp add: fe_GetTicket_def rs)
  moreover have "set_of (view s1) allTickets = insert i (set_of (view s) allTickets)"
    using arg_cong [OF *(5), of tindex] by simp
  ultimately show ?thesis using * t by auto
qed (use run in \<open>auto simp: fe_CreateTicket_def split: option.splits if_splits\<close>)

theorem create_ticket_stores_witness:
  "\<exists>i ts s1. fe_CreateTicket ref_store (NewID (ref_env (\<lambda>_. False)))
      (TimestampNow (ref_env (\<lambda>_. False))) (Some empty_ticket) ref_init =
    (Inr (empty_ticket\<lparr>t_Id := i, t_CreateTime := Some ts\<rparr>), s1) \<and> set_of (lview (rs_data s1)) allTickets = {i}"
proof -
  obtain r s1 where 1: "fe_CreateTicket ref_store (NewID (ref_env (\<lambda>_. False)))
      (TimestampNow (ref_env (\<lambda>_. False))) (Some empty_ticket) ref_init = (r, s1)" by (metis surj_pair)
  from create_ticket_stores [OF ref_ok.redis_backend_axioms ref_store_def ref_init_wf(1) _ 1] 1 show ?thesis
    by (auto simp: set_of_def)
qed

text \<open>
  Deletion of tickets. \<open>DeleteTicket\<close> deindexes the ticket at once and starts one lazy deletion. Whenever
  that runs, the ticket is gone from the store and from pending release afterwards, and until it runs
  the ticket can still be read.
\<close>

theorem delete_ticket_lazily:
  fixes S :: "('s, 'c) service"
  assumes be: "redis_backend E view pend dbl sched" and S: "S = New sched cfg E" and wf: "wf_keys (view s)"
    and i: "i \<notin> reserved" and run: "fe_DeleteTicket S i s = (r, s1)" and wf2: "wf_keys (view s2)"
  shows "r = (Inr (), [i]) \<and> set_of (view s1) allTickets = set_of (view s) allTickets - {i} \<and>
    str_of (view s1) i = str_of (view s) i \<and>
    str_of (view (deleteTicketLazy S i s2)) i = None \<and>
    zset_of (view (deleteTicketLazy S i s2)) proposedTicketIDs i = None \<and>
    set_of (view (deleteTicketLazy S i s2)) allTickets = set_of (view s2) allTickets"
proof -
  note h = statestore.delete_ticket_handler [OF redis_backend.backend_contract [OF be S] wf i run wf2]
  let ?l = "deleteTicketLazy S i s2"
  have "set_of (view s1) allTickets = tindex (astore_of (view s1))" "str_of (view s1) = objs (astore_of (view s1))"
    "str_of (view ?l) = objs (astore_of (view ?l))" "zset_of (view ?l) proposedTicketIDs = pending (astore_of (view ?l))"
    "set_of (view ?l) allTickets = tindex (astore_of (view ?l))" by simp_all
  with h show ?thesis
    by (simp add: as_DeleteTicket_def as_DeletePending_def del: astore_of_sel) (simp add: restrict_map_def)
qed

theorem delete_ticket_lazily_witness:
  "\<exists>s1. fe_DeleteTicket ref_store ''a'' ref_init = ((Inr (), [''a'']), s1) \<and>
     str_of (lview (rs_data (deleteTicketLazy ref_store ''a'' s1))) ''a'' = None"
proof -
  obtain r s1 where 1: "fe_DeleteTicket ref_store ''a'' ref_init = (r, s1)" by (metis surj_pair)
  have "wf_keys (lview (rs_data s1))"
    using statestore.delete_ticket_handler [OF ref_ok.backend_contract [OF ref_store_def]
      ref_init_wf(1) letters_not_reserved 1 ref_init_wf(1)] by simp
  with delete_ticket_lazily [OF ref_ok.redis_backend_axioms ref_store_def ref_init_wf(1) letters_not_reserved 1] 1
  show ?thesis by auto
qed



text \<open>
  C10: Acknowledgement by a game server. For a live backfill with associated tickets, every ticket that still
  exists is stored with the given assignment and returned, all associated tickets leave the index, the
  backfill is stored without tickets, and it is acknowledged at a time during the call.
\<close>

theorem acknowledge_assigns:
  fixes S :: "('s, 'c) service"
  assumes be: "redis_backend E view pend dbl sched" and S: "S = New sched cfg E" and wf: "wf_keys (view s)"
    and i: "i \<notin> reserved" "i \<noteq> []" "i \<notin> set tids"
    and enc: "\<forall>t. MarshalTicket E t \<noteq> None" "\<forall>bi. MarshalBackfill E bi \<noteq> None"
    and stored: "str_of (view s) i = Some b" "UnmarshalBackfill E b = Some \<lparr>bi_Backfill = Some st, bi_TicketIds = tids\<rparr>" "bf_Id st = i"
    and tids: "tids \<noteq> []" "distinct tids" "\<forall>j \<in> set tids. j \<notin> reserved \<and>
        (\<forall>c. str_of (view s) j = Some c \<longrightarrow> (\<exists>t. UnmarshalTicket E c = Some t \<and> t_Id t = j))"
    and ack: "zset_of (view s) backfillLastAckTime i = Some sc"
    and run: "fe_AcknowledgeBackfill S i (Some asg) s = (r, s1)"
    and timely: "Now E s1 - getBackfillReleaseTimeout cfg \<le> sc" "Now E s1 + 128 \<le> Now E s + getBackfillReleaseTimeout cfg"
      "0 \<le> Now E s" "Now E s1 \<le> 2 ^ 61"
  shows "\<exists>ts now. r = Inr (Some st, map (\<lambda>t. t\<lparr>t_Assignment := Some asg\<rparr>) ts) \<and>
    map t_Id ts = filter (\<lambda>j. str_of (view s) j \<noteq> None) tids \<and>
    (\<forall>t \<in> set ts. Option.bind (str_of (view s1) (t_Id t)) (UnmarshalTicket E) = Some (t\<lparr>t_Assignment := Some asg\<rparr>)) \<and>
    set_of (view s1) allTickets = set_of (view s) allTickets - set tids \<and>
    Option.bind (str_of (view s1) i) (UnmarshalBackfill E) = Some \<lparr>bi_Backfill = Some st, bi_TicketIds = []\<rparr> \<and>
    zset_of (view s1) backfillLastAckTime i = Some (dbl now) \<and> Now E s \<le> now \<and> now \<le> Now E s1"
proof -
  note laws = redis_up.axioms(1) [OF redis_backend.axioms(1) [OF be]]
  let ?a = "astore_of (view s)" and ?gs = "[\<lparr>ag_TicketIds = tids, ag_Assignment = Some asg\<rparr>]"
  have get: "as_GetBackfill (UnmarshalBackfill E) i ?a = Inr (Some st, tids)" using stored by (simp add: as_GetBackfill_def)
  have at: "tickets_at (UnmarshalTicket E) tids ?a" using tids(3) by (fastforce simp: tickets_at_def)
  have "\<exists>ts. those (map (UnmarshalTicket E) (List.map_filter (objs ?a) tids)) = Some ts"
    using tids(3) by (intro found_all) fastforce
  then obtain ts where ts: "those (map (UnmarshalTicket E) (List.map_filter (objs ?a) tids)) = Some ts" ..
  obtain bs where bs: "those (map (MarshalTicket E \<circ> assigned ?gs) ts) = Some bs"
    using those_total [of ts "MarshalTicket E \<circ> assigned ?gs"] enc(1) by auto
  obtain b' where b': "MarshalBackfill E \<lparr>bi_Backfill = Some st, bi_TicketIds = []\<rparr> = Some b'" using enc(2) by blast
  have "map t_Id ts = filter (\<lambda>j. objs ?a j \<noteq> None) tids"
    by (rule found_map_ids [OF ts]) (use at in \<open>auto simp: tickets_at_def\<close>)
  then have ids: "map t_Id ts = filter (\<lambda>j. str_of (view s) j \<noteq> None) tids" by simp
  then have dist: "distinct (map t_Id ts)" using tids(2) by simp
  have "set (map t_Id ts) \<subseteq> set tids" by (simp only: ids) auto
  then have sub: "\<And>t. t \<in> set ts \<Longrightarrow> t_Id t \<in> set tids" by auto
  have asg: "assigned ?gs t = t\<lparr>t_Assignment := Some asg\<rparr>" if "t \<in> set ts" for t
    using sub [OF that] by (simp add: assigned_def assign_map_def assign_pairs_def map_of_map_restrict)
  note h = statestore.acknowledge_handler [OF redis_backend.backend_contract [OF be S] wf i(1,2) get stored(3) refl
      tids(1,2) _ at ts bs b' _ run timely]
  let ?px = "go_div (getAssignedDeleteTimeout cfg) Millisecond"
  define a where "a = store_all ?px (zip (map t_Id ts) bs) ?a"
  obtain now where r: "r = Inr (Some st, map (assigned ?gs) ts)" and t: "Now E s \<le> now" "now \<le> Now E s1" and
    s1: "astore_of (view s1) = a\<lparr>objs := (objs a)(i \<mapsto> b'), ttls := (ttls a)(i := None), acks := (acks ?a)(i \<mapsto> dbl now),
        tindex := tindex ?a - set tids\<rparr>"
    using h tids(3) ack by (auto simp: a_def Let_def)
  have objs: "str_of (view s1) = (objs a)(i \<mapsto> b')" using arg_cong [OF s1, of objs] by simp
  have "Option.bind (str_of (view s1) (t_Id t)) (UnmarshalTicket E) = Some (t\<lparr>t_Assignment := Some asg\<rparr>)" if t_in: "t \<in> set ts" for t
  proof -
    obtain c where c: "(t, c) \<in> set (zip ts bs)" "MarshalTicket E (assigned ?gs t) = Some c" using those_zip [OF bs t_in] by auto
    have "objs a (t_Id t) = Some c" using store_all_in [OF dist c(1)] by (simp add: a_def)
    moreover have "t_Id t \<noteq> i" using sub [OF t_in] i(3) by auto
    ultimately show ?thesis using redis_laws.ticket_codec [OF laws c(2)] asg [OF t_in] by (simp add: objs)
  qed
  moreover have "map (assigned ?gs) ts = map (\<lambda>t. t\<lparr>t_Assignment := Some asg\<rparr>) ts" using asg by simp
  moreover have "Option.bind (str_of (view s1) i) (UnmarshalBackfill E) = Some \<lparr>bi_Backfill = Some st, bi_TicketIds = []\<rparr>"
    using redis_laws.backfill_codec [OF laws b'] by (simp add: objs)
  moreover have "set_of (view s1) allTickets = set_of (view s) allTickets - set tids"
    "zset_of (view s1) backfillLastAckTime i = Some (dbl now)"
    using arg_cong [OF s1, of tindex] arg_cong [OF s1, of acks] by simp_all
  ultimately show ?thesis using r ids t by (intro exI [of _ ts] exI [of _ now]) auto
qed

theorem acknowledge_assigns_witness:
  "\<exists>s r s1. s = snd (rb_CreateTicket (ref_env (\<lambda>_. False)) (empty_ticket\<lparr>t_Id := ''a''\<rparr>)
        (snd (rb_CreateBackfill (ref_env (\<lambda>_. False)) (empty_backfill\<lparr>bf_Id := ''b''\<rparr>) [''a''] ref_init))) \<and>
     fe_AcknowledgeBackfill ref_store ''b'' (Some \<lparr>a_Connection = ''c'', a_Extensions = Map.empty\<rparr>) s = (r, s1) \<and>
     (\<exists>ts. r = Inr (Some (empty_backfill\<lparr>bf_Id := ''b''\<rparr>), ts) \<and> map t_Id ts = [''a''])"
proof -
  let ?bf = "empty_backfill\<lparr>bf_Id := ''b''\<rparr>" and ?E = "ref_env (\<lambda>_. False)" and ?t = "empty_ticket\<lparr>t_Id := ''a''\<rparr>"
  let ?asg = "\<lparr>a_Connection = ''c'', a_Extensions = Map.empty\<rparr>"
  let ?u = "snd (rb_CreateBackfill ?E ?bf [''a''] ref_init)" and ?bi = "\<lparr>bi_Backfill = Some (empty_backfill\<lparr>bf_Id := ''b''\<rparr>), bi_TicketIds = [''a'']\<rparr>"
  let ?s = "snd (rb_CreateTicket ?E ?t ?u)"
  obtain r s1 where 1: "fe_AcknowledgeBackfill ref_store ''b'' (Some ?asg) ?s = (r, s1)" by (metis surj_pair)
  obtain now where wf0: "wf_keys (lview (rs_data ?u))" and
    a0: "astore_of (lview (rs_data ?u)) = snd (as_CreateBackfill (MarshalBackfill ?E) dbl256 ?bf [''a''] now (astore_of (lview (rs_data ref_init))))"
    by (rule meetsE [OF ref_ok.CreateBackfill_meets [of ?bf "[''a'']"], of ref_init]) (auto simp: prod_eq_iff)
  have wf: "wf_keys (lview (rs_data ?s))" and
    a: "astore_of (lview (rs_data ?s)) = snd (as_CreateTicket (MarshalTicket ?E) ?t (astore_of (lview (rs_data ?u))))"
    by (rule meetsE [OF ref_ok.CreateTicket_meets [of ?t] wf0], auto simp: prod_eq_iff)+
  have o: "str_of (lview (rs_data ?s)) ''b'' = Some (BBackfill ?bi)" "str_of (lview (rs_data ?s)) ''a'' = Some (BTicket ?t)"
    using fun_cong [OF arg_cong [OF a, of objs]] fun_cong [OF arg_cong [OF a0, of objs]]
    by (simp_all add: as_CreateBackfill_def as_CreateTicket_def str_of_def [of Map.empty] del: lview_access)
  have z: "zset_of (lview (rs_data ?s)) backfillLastAckTime ''b'' = Some 1600000000000002048"
    unfolding lview_access by code_simp
  have t: "rs_time (snd (fe_AcknowledgeBackfill ref_store ''b'' (Some ?asg) ?s)) \<le> 1600000040 * Second" by code_simp
  have t0: "rs_time ?s \<ge> 1600000000 * Second" by code_simp
  have ttl: "getBackfillReleaseTimeout ref_cfg = 48 * Second" by code_simp
  have enc: "\<forall>t. MarshalTicket ?E t \<noteq> None" "\<forall>bi. MarshalBackfill ?E bi \<noteq> None"
    "UnmarshalBackfill ?E (BBackfill ?bi) = Some ?bi" by simp_all
  have i: "''b'' \<notin> reserved" "''b'' \<noteq> []" "''b'' \<notin> set [''a'']" "bf_Id ?bf = ''b''" "[''a''] \<noteq> []" "distinct [''a'']" by simp_all
  have at: "\<forall>j \<in> set [''a'']. j \<notin> reserved \<and> (\<forall>c. str_of (lview (rs_data ?s)) j = Some c \<longrightarrow>
      (\<exists>t. UnmarshalTicket ?E c = Some t \<and> t_Id t = j))" using o(2) by (simp del: lview_access)
  have timely: "Now ?E s1 - getBackfillReleaseTimeout ref_cfg \<le> 1600000000000002048"
    "Now ?E s1 + 128 \<le> Now ?E ?s + getBackfillReleaseTimeout ref_cfg" "0 \<le> Now ?E ?s" "Now ?E s1 \<le> 2 ^ 61"
    using t t0 ttl 1 by simp_all
  obtain ts where ts: "r = Inr (Some ?bf, map (\<lambda>t. t\<lparr>t_Assignment := Some ?asg\<rparr>) ts)"
    "map t_Id ts = filter (\<lambda>j. str_of (lview (rs_data ?s)) j \<noteq> None) [''a'']"
    using acknowledge_assigns [OF ref_ok.redis_backend_axioms ref_store_def wf i(1-3) enc(1,2) o(1) enc(3) i(4-6) at z 1 timely]
    by (elim exE conjE) (rule that)
  moreover from ts(2) have "map t_Id ts = [''a'']" using o(2) by (simp del: lview_access)
  ultimately show ?thesis using 1 by (auto simp: comp_def)
qed

text \<open>The assignments a watch reads, until the first failed read, and the changes among them.\<close>

fun observed :: "nat \<Rightarrow> ('s, 'b) env \<Rightarrow> string \<Rightarrow> 's \<Rightarrow> assignment option list \<times> go_error option" where
  "observed 0 E i s = ([], None)"
| "observed (Suc n) E i s =
     (case rb_GetTicket E i s of
        (Inl e, _) \<Rightarrow> ([], Some e)
      | (Inr t, s') \<Rightarrow> (case observed n E i (Sleep E s') of (os, e) \<Rightarrow> (t_Assignment t # os, e)))"

fun changes :: "assignment option \<Rightarrow> assignment option list \<Rightarrow> assignment option list" where
  "changes cur [] = []"
| "changes cur (a # as) = (if a = cur then changes cur as else a # changes a as)"

lemma ga_loop_watch:
  "map_option (\<lambda>(e, w', _). (e, sent w')) (ga_loop n E i (watch_callback (\<lambda>_. False) (\<lambda>_. False)) w s) =
    map_option (\<lambda>e. (e, sent w @ changes (currAssignment w) (fst (observed n E i s)))) (snd (observed n E i s))"
proof (induction n arbitrary: w s)
  case (Suc n)
  obtain r s' where r: "rb_GetTicket E i s = (r, s')" by (cases "rb_GetTicket E i s")
  show ?case
  proof (cases r)
    case (Inl e)
    with r show ?thesis by simp
  next
    case (Inr t)
    obtain os e where os: "observed n E i (Sleep E s') = (os, e)" by (cases "observed n E i (Sleep E s')")
    show ?thesis
      using r Inr os Suc.IH [of _ "Sleep E s'"]
      by (cases "currAssignment w = t_Assignment t") (auto simp: watch_callback_def Let_def)
  qed
qed simp

text \<open>
  The assignment stream. While neither the client's context nor the stream fails, a watch sends
  exactly the changes of the assignment it observes, in order and without repetition; it keeps polling
  as long as the ticket can be read and ends with the error of the first failed read.
\<close>

theorem watch_sends_changes:
  fixes S :: "('s, watch) service"
  assumes "S = New sched cfg E" and conn: "GetContext E s = (None, s1)"
  shows "map_option (\<lambda>(e, w, _). (e, sent w)) (doWatchAssignments n (\<lambda>_. False) (\<lambda>_. False) S i s) =
    map_option (\<lambda>e. (e, changes None (fst (observed n E i s1)))) (snd (observed n E i s1))"
  using ga_loop_watch [of n E i "\<lparr>currAssignment = None, sent = [], calls = 0\<rparr>" s1] assms
  by (auto simp: doWatchAssignments_def New_eq rb_GetAssignments_def split: option.splits)

theorem watch_sends_changes_witness:
  "map_option (\<lambda>(e, w, _). (e, sent w)) (doWatchAssignments 1 (\<lambda>_. False) (\<lambda>_. False) ref_store ''a'' ref_init) =
    Some (Status NotFound, [])"
proof -
  let ?E = "ref_env (\<lambda>_. False)" and ?s = "(tick ref_init)\<lparr>rs_pend := []\<rparr>"
  have "fst (rb_GetTicket ?E ''a'' ?s) = as_GetTicket (UnmarshalTicket ?E) ''a'' (astore_of (lview (rs_data ?s)))"
    by (rule meetsE [OF ref_ok.GetTicket_meets [of "''a''"], of ?s]) auto
  then have "observed 1 ?E ''a'' ?s = ([], Some (Status NotFound))"
    by (cases "rb_GetTicket ?E ''a'' ?s") (simp add: as_GetTicket_def str_of_def del: lview_access)
  then show ?thesis
    using watch_sends_changes [OF ref_store_def, of ref_init ?s 1 "''a''"] by simp
qed

end
