(* ===== verification/Backend.thy ===== *)
theory Backend
  imports Frontend
begin

text \<open>
  The backend service (\<open>internal/app/backend/backend_service.go\<close>): fetching of matches, which runs a match
  function and exchanges its proposals with the synchronizer while handling the backfills of the
  accepted matches, and the release and assignment of tickets. The goroutines of \<open>FetchMatches\<close> are
  step functions on a shared state, and a run is any sequence of their events.
\<close>

section \<open>Release and assignment of tickets\<close>

definition doReleaseTickets :: "('s, 'c) service \<Rightarrow> string list \<Rightarrow> 's \<Rightarrow> unit res \<times> 's" where
  "doReleaseTickets S ticketIds s =
    (case DeleteTicketsFromPendingRelease S ticketIds s of
       (Inl e, s') \<Rightarrow> (Inl (Wrapped e), s')
     | (Inr _, s') \<Rightarrow> (Inr (), s'))"

definition be_ReleaseTickets :: "('s, 'c) service \<Rightarrow> string list \<Rightarrow> 's \<Rightarrow> unit res \<times> 's" where
  "be_ReleaseTickets S ids s =
    (case doReleaseTickets S ids s of (Inl e, s') \<Rightarrow> (Inl e, s') | (Inr _, s') \<Rightarrow> (Inr (), s'))"

definition be_ReleaseAllTickets :: "('s, 'c) service \<Rightarrow> 's \<Rightarrow> unit res \<times> 's" where
  "be_ReleaseAllTickets S s =
    (case ReleaseAllTickets S s of (Inl e, s') \<Rightarrow> (Inl e, s') | (Inr _, s') \<Rightarrow> (Inr (), s'))"

definition doAssignTickets :: "('s, 'c) service \<Rightarrow> assignment_group list \<Rightarrow> 's \<Rightarrow> assign_response res \<times> 's" where
  "doAssignTickets S groups s =
    (case UpdateAssignments S groups s of
       (Inl e, s1) \<Rightarrow> (Inl e, s1)
     | (Inr (resp, tickets), s1) \<Rightarrow>
         let ids = fold (\<lambda>ag ids. ids @ ag_TicketIds ag) groups [];
             s2 = fold (\<lambda>i s. snd (DeindexTicket S i s)) ids s1;
             s3 = snd (DeleteTicketsFromPendingRelease S ids s2)
         in (Inr resp, s3))"

definition be_AssignTickets :: "('s, 'c) service \<Rightarrow> assignment_group list \<Rightarrow> 's \<Rightarrow> assign_response res \<times> 's" where
  "be_AssignTickets S groups s =
    (case doAssignTickets S groups s of (Inl e, s') \<Rightarrow> (Inl e, s') | (Inr resp, s') \<Rightarrow> (Inr resp, s'))"

section \<open>Backfills of accepted matches\<close>

text \<open>
  The match's backfill is a pointer: a new backfill gets its id, create time and generation written into
  it, so the function also returns the backfill as the caller sees it afterwards.
\<close>

definition cub_create :: "('s, 'c) service \<Rightarrow> ('s \<Rightarrow> string \<times> 's) \<Rightarrow> ('s \<Rightarrow> timestamp) \<Rightarrow> backfill \<Rightarrow> string list \<Rightarrow>
    's \<Rightarrow> (unit res \<times> backfill) \<times> 's" where
  "cub_create S newID tsNow backfill ticketIds s =
    (case newID s of (i, s1) \<Rightarrow>
       let backfill = backfill\<lparr>bf_Id := i, bf_CreateTime := Some (tsNow s1), bf_Generation := 1\<rparr> in
       (case CreateBackfill S backfill ticketIds s1 of
          (Inl e, s2) \<Rightarrow> ((Inl e, backfill), s2)
        | (Inr _, s2) \<Rightarrow> (case IndexBackfill S backfill s2 of (r, s3) \<Rightarrow> ((r, backfill), s3))))"

definition cub_merge :: "backfill \<Rightarrow> backfill \<Rightarrow> backfill" where
  "cub_merge backfill b =
    b\<lparr>bf_SearchFields := bf_SearchFields backfill, bf_Extensions := bf_Extensions backfill,
      bf_Generation := bf_Generation b + 1\<rparr>"

definition cub_update :: "('s, 'c) service \<Rightarrow> backfill \<Rightarrow> string list \<Rightarrow> 's \<Rightarrow> unit res \<times> 's" where
  "cub_update S backfill ticketIds s =
    (case GetBackfill S (bf_Id backfill) s of
       (Inl e, s1) \<Rightarrow> (Inl e, s1)
     | (Inr (None, _), s1) \<Rightarrow> (Inl Panic, s1)
     | (Inr (Some b, ids), s1) \<Rightarrow>
         if bf_Generation b \<noteq> bf_Generation backfill then (Inl ErrBackfillGenerationMismatch, s1)
         else
           let b = cub_merge backfill b in
           (case UpdateBackfill S b (ids @ ticketIds) s1 of
              (Inl e, s2) \<Rightarrow> (Inl e, s2)
            | (Inr _, s2) \<Rightarrow> IndexBackfill S b s2))"

definition createOrUpdateBackfill :: "('s, 'c) service \<Rightarrow> ('s \<Rightarrow> string \<times> 's) \<Rightarrow> ('s \<Rightarrow> timestamp) \<Rightarrow> backfill \<Rightarrow>
    string list \<Rightarrow> 's \<Rightarrow> (unit res \<times> backfill) \<times> 's" where
  "createOrUpdateBackfill S newID tsNow backfill ticketIds s =
    (if bf_Id backfill = [] then cub_create S newID tsNow backfill ticketIds s
     else case with_mutex S (bf_Id backfill) (cub_update S backfill ticketIds) s of (r, s') \<Rightarrow> ((r, backfill), s'))"

section \<open>Calling the match function\<close>

text \<open>
  What the gRPC stream of the match function delivers: a proposal that is passed on, one that arrives
  when the context is already done, the end of the stream, or an error (and whether the context is
  done by then). The result is the function's error, if any, and the proposals passed on; \<open>None\<close> means
  that the stream has not ended.
\<close>

datatype grpc_event = GRecv match | GRecvDone match | GEOF | GErr bool

fun grpc_loop :: "grpc_event list \<Rightarrow> match list \<Rightarrow> (go_error option \<times> match list) option" where
  "grpc_loop [] ps = None"
| "grpc_loop (GRecv p # evs) ps = grpc_loop evs (ps @ [p])"
| "grpc_loop (GRecvDone p # evs) ps = Some (Some (CtxErr 0), ps)"
| "grpc_loop (GEOF # evs) ps = Some (None, ps)"
| "grpc_loop (GErr ctxDone # evs) ps = Some (Some (if ctxDone then CtxErr 0 else Wrapped (StreamErr 0)), ps)"

definition callGrpcMmf :: "bool \<Rightarrow> bool option \<Rightarrow> grpc_event list \<Rightarrow> (go_error option \<times> match list) option" where
  "callGrpcMmf connFails runErr evs =
    (if connFails then Some (Some (Status InvalidArgument), [])
     else case runErr of
       Some ctxDone \<Rightarrow> Some (Some (if ctxDone then CtxErr 0 else Wrapped (StreamErr 0)), [])
     | None \<Rightarrow> grpc_loop evs [])"

text \<open>The HTTP stream: an item with an error field, one whose result does not parse, or a proposal.\<close>

datatype http_event = HItemErr | HBadResult | HProposal match | HProposalDone match | HEOF | HDecodeErr

fun http_loop :: "http_event list \<Rightarrow> match list \<Rightarrow> (go_error option \<times> match list) option" where
  "http_loop [] ps = None"
| "http_loop (HEOF # evs) ps = Some (None, ps)"
| "http_loop (HDecodeErr # evs) ps = Some (Some (Status Unavailable), ps)"
| "http_loop (HItemErr # evs) ps = Some (Some (Status Unavailable), ps)"
| "http_loop (HBadResult # evs) ps = Some (Some (Status Unavailable), ps)"
| "http_loop (HProposal p # evs) ps = http_loop evs (ps @ [p])"
| "http_loop (HProposalDone p # evs) ps = Some (Some (CtxErr 0), ps)"

datatype http_setup = ConnFails | MarshalFails | RequestFails | DoFails | HttpOk

fun callHTTPMmf :: "http_setup \<Rightarrow> http_event list \<Rightarrow> (go_error option \<times> match list) option" where
  "callHTTPMmf ConnFails evs = Some (Some (Status InvalidArgument), [])"
| "callHTTPMmf MarshalFails evs = Some (Some (Status FailedPrecondition), [])"
| "callHTTPMmf RequestFails evs = Some (Some (Status FailedPrecondition), [])"
| "callHTTPMmf DoFails evs = Some (Some (Status Internal), [])"
| "callHTTPMmf HttpOk evs = http_loop evs []"

datatype function_type = GRPC bool "bool option" "grpc_event list" | REST http_setup "http_event list" | OtherType

fun callMmf :: "function_type \<Rightarrow> (go_error option \<times> match list) option" where
  "callMmf (GRPC connFails runErr evs) = callGrpcMmf connFails runErr evs"
| "callMmf (REST setup evs) = callHTTPMmf setup evs"
| "callMmf OtherType = Some (Some (Status InvalidArgument), [])"

section \<open>Exchange with the synchronizer\<close>

text \<open>
  The state shared by the goroutines of a \<open>FetchMatches\<close> call: the map of proposals by match id, what was
  sent to the synchronizer and to the caller, whether the match function was started or cancelled,
  and the results of the two goroutines once they returned.
\<close>

record 's fetch =
  f_m :: "string \<rightharpoonup> match"
  f_sent :: "match list"
  f_out :: "match list"
  f_started :: bool
  f_cancelled :: bool
  f_send :: "unit res option"
  f_recv :: "unit res option"
  f_store :: 's

datatype fetch_event =
    Proposal match
  | ProposalsClosed
  | CtxDone
  | SyncResp bool bool string
  | SyncEOF
  | SyncErr

text \<open>\<open>failSend n\<close>: the stream to the synchronizer rejects the message after \<open>n\<close> messages, and so on.\<close>

record stream_faults =
  failSend :: "nat \<Rightarrow> bool"
  failClose :: bool
  failOut :: "nat \<Rightarrow> bool"

definition synchronizeSend :: "stream_faults \<Rightarrow> fetch_event \<Rightarrow> 's fetch \<Rightarrow> 's fetch" where
  "synchronizeSend flt ev f =
    (if f_send f \<noteq> None then f
     else case ev of
       Proposal p \<Rightarrow>
         if f_m f (m_MatchId p) \<noteq> None then f\<lparr>f_send := Some (Inl FmtErr)\<rparr>
         else
           let f = f\<lparr>f_m := (f_m f)(m_MatchId p \<mapsto> p)\<rparr> in
           if failSend flt (length (f_sent f)) then f\<lparr>f_send := Some (Inl (Wrapped (StreamErr 0)))\<rparr>
           else f\<lparr>f_sent := f_sent f @ [p]\<rparr>
     | ProposalsClosed \<Rightarrow> f\<lparr>f_send := Some (if failClose flt then Inl (Wrapped (StreamErr 0)) else Inr ())\<rparr>
     | CtxDone \<Rightarrow> f\<lparr>f_send := Some (if failClose flt then Inl (Wrapped (StreamErr 0)) else Inr ())\<rparr>
     | _ \<Rightarrow> f)"

text \<open>Delivery of an accepted match, after its backfill was handled.\<close>

definition deliver :: "stream_faults \<Rightarrow> match \<Rightarrow> 's fetch \<Rightarrow> 's fetch" where
  "deliver flt p f =
    (if failOut flt (length (f_out f)) then f\<lparr>f_recv := Some (Inl (Wrapped (StreamErr 0)))\<rparr>
     else f\<lparr>f_out := f_out f @ [p]\<rparr>)"

definition handle_match :: "stream_faults \<Rightarrow> ('s, 'c) service \<Rightarrow> ('s \<Rightarrow> string \<times> 's) \<Rightarrow> ('s \<Rightarrow> timestamp) \<Rightarrow> match \<Rightarrow>
    's fetch \<Rightarrow> 's fetch" where
  "handle_match flt S newID tsNow p f =
    (case m_Backfill p of
       None \<Rightarrow> deliver flt p f
     | Some backfill \<Rightarrow>
         let ticketIds = map t_Id (m_Tickets p) in
         (case createOrUpdateBackfill S newID tsNow backfill ticketIds (f_store f) of
            ((r, backfill'), s') \<Rightarrow>
              let p' = p\<lparr>m_Backfill := Some backfill'\<rparr>;
                  f = f\<lparr>f_m := (f_m f)(m_MatchId p \<mapsto> p'), f_store := s'\<rparr>
              in (case r of
                    Inr _ \<Rightarrow> deliver flt p' f
                  | Inl e \<Rightarrow>
                      if e = ErrBackfillGenerationMismatch \<or> status_code e = Some NotFound
                      then f\<lparr>f_store := snd (doReleaseTickets S ticketIds s')\<rparr>
                      else f\<lparr>f_recv := Some (Inl (Wrapped e))\<rparr>)))"

definition synchronizeRecv :: "stream_faults \<Rightarrow> ('s, 'c) service \<Rightarrow> ('s \<Rightarrow> string \<times> 's) \<Rightarrow> ('s \<Rightarrow> timestamp) \<Rightarrow>
    fetch_event \<Rightarrow> 's fetch \<Rightarrow> 's fetch" where
  "synchronizeRecv flt S newID tsNow ev f =
    (if f_recv f \<noteq> None then f
     else case ev of
       SyncEOF \<Rightarrow> f\<lparr>f_recv := Some (Inr ())\<rparr>
     | SyncErr \<Rightarrow> f\<lparr>f_recv := Some (Inl (Wrapped (StreamErr 0)))\<rparr>
     | SyncResp startMmfs cancelMmfs mid \<Rightarrow>
         let f = f\<lparr>f_started := f_started f \<or> startMmfs, f_cancelled := f_cancelled f \<or> cancelMmfs\<rparr> in
         (case f_m f mid of
            None \<Rightarrow> f
          | Some p \<Rightarrow> handle_match flt S newID tsNow p f)
     | _ \<Rightarrow> f)"

definition fetch_step :: "stream_faults \<Rightarrow> ('s, 'c) service \<Rightarrow> ('s \<Rightarrow> string \<times> 's) \<Rightarrow> ('s \<Rightarrow> timestamp) \<Rightarrow>
    fetch_event \<Rightarrow> 's fetch \<Rightarrow> 's fetch" where
  "fetch_step flt S newID tsNow ev f = synchronizeRecv flt S newID tsNow ev (synchronizeSend flt ev f)"

definition fetch_init :: "'s \<Rightarrow> 's fetch" where
  "fetch_init s = \<lparr>f_m = Map.empty, f_sent = [], f_out = [], f_started = False, f_cancelled = False,
     f_send = None, f_recv = None, f_store = s\<rparr>"

text \<open>
  The whole call: the request is checked, the synchronizer is contacted, the goroutines run through the
  events, and the error of the match function is that of \<open>callMmf\<close>, or that it was never started.
  \<open>None\<close> as the result means that a goroutine is still running.
\<close>

definition FetchMatches :: "stream_faults \<Rightarrow> ('s, 'c) service \<Rightarrow> ('s \<Rightarrow> string \<times> 's) \<Rightarrow> ('s \<Rightarrow> timestamp) \<Rightarrow>
    function_type option \<Rightarrow> match_profile option \<Rightarrow> go_error option \<Rightarrow> fetch_event list \<Rightarrow> 's \<Rightarrow>
    unit res option \<times> 's fetch" where
  "FetchMatches flt S newID tsNow config profile syncErr evs s =
    (case config of
       None \<Rightarrow> (Some (Inl (Status InvalidArgument)), fetch_init s)
     | Some fn \<Rightarrow>
         if profile = None then (Some (Inl (Status InvalidArgument)), fetch_init s)
         else case syncErr of
           Some e \<Rightarrow> (Some (Inl e), fetch_init s)
         | None \<Rightarrow>
             let f = fold (fetch_step flt S newID tsNow) evs (fetch_init s);
                 mmf = (if f_started f then callMmf fn else Some (Some FmtErr, []))
             in case (f_send f, f_recv f, mmf) of
                  (Some rs, Some rr, Some (mmfErr, _)) \<Rightarrow>
                    (Some (if isl rs \<or> isl rr \<or> mmfErr \<noteq> None then Inl FmtErr else Inr ()), f)
                | _ \<Rightarrow> (None, f))"

section \<open>Invariants of the exchange\<close>

text \<open>What the steps may do to a match that was proposed: fill in its backfill.\<close>

definition strip :: "match \<Rightarrow> match" where
  "strip p = p\<lparr>m_Backfill := None\<rparr>"

lemma strip_backfill [simp]: "strip (p\<lparr>m_Backfill := b\<rparr>) = strip p"
  by (simp add: strip_def)

definition proposals_of :: "fetch_event list \<Rightarrow> match list" where
  "proposals_of evs = List.map_filter (\<lambda>ev. case ev of Proposal p \<Rightarrow> Some p | _ \<Rightarrow> None) evs"

definition confirmed :: "fetch_event list \<Rightarrow> string set" where
  "confirmed evs = {mid. \<exists>st ca. SyncResp st ca mid \<in> set evs}"

definition fetch_inv :: "fetch_event list \<Rightarrow> 's fetch \<Rightarrow> bool" where
  "fetch_inv evs f \<longleftrightarrow>
    (\<forall>k p. f_m f k = Some p \<longrightarrow> m_MatchId p = k \<and> strip p \<in> strip ` set (proposals_of evs)) \<and>
    distinct (map m_MatchId (f_sent f)) \<and> m_MatchId ` set (f_sent f) \<subseteq> dom (f_m f) \<and>
    (\<exists>n. f_sent f = take n (proposals_of evs) \<and> (f_send f = None \<longrightarrow> n = length (proposals_of evs))) \<and>
    (\<forall>p \<in> set (f_out f). m_MatchId p \<in> confirmed evs \<and> strip p \<in> strip ` set (proposals_of evs))"

lemma proposals_of_snoc: "proposals_of (evs @ [ev]) = proposals_of evs @ (case ev of Proposal p \<Rightarrow> [p] | _ \<Rightarrow> [])"
  by (auto simp: proposals_of_def List.map_filter_def split: fetch_event.splits)

lemma confirmed_snoc: "confirmed (evs @ [ev]) = confirmed evs \<union> (case ev of SyncResp st ca mid \<Rightarrow> {mid} | _ \<Rightarrow> {})"
  by (auto simp: confirmed_def split: fetch_event.splits)

lemma fetch_invI:
  assumes "f_m f = M" "f_sent f = xs" "f_out f = ys" "f_send f = r"
    and "\<forall>k p. M k = Some p \<longrightarrow> m_MatchId p = k \<and> strip p \<in> strip ` set (proposals_of evs)"
    and "distinct (map m_MatchId xs)" and "m_MatchId ` set xs \<subseteq> dom M"
    and "\<exists>n. xs = take n (proposals_of evs) \<and> (r = None \<longrightarrow> n = length (proposals_of evs))"
    and "\<forall>p \<in> set ys. m_MatchId p \<in> confirmed evs \<and> strip p \<in> strip ` set (proposals_of evs)"
  shows "fetch_inv evs f"
  unfolding fetch_inv_def assms(1-4) using assms(5-) by (intro conjI)

lemma events_mono:
  "strip p \<in> strip ` set (proposals_of evs) \<Longrightarrow> strip p \<in> strip ` set (proposals_of (evs @ [ev]))"
  "k \<in> confirmed evs \<Longrightarrow> k \<in> confirmed (evs @ [ev])"
  by (auto simp: proposals_of_snoc confirmed_snoc)

text \<open>The sender only adds a proposal under a new id.\<close>

lemma synchronizeSend_inv:
  assumes "fetch_inv evs f"
  shows "fetch_inv (evs @ [ev]) (synchronizeSend flt ev f)"
proof -
  from assms have I1: "\<And>k p. f_m f k = Some p \<Longrightarrow> m_MatchId p = k \<and> strip p \<in> strip ` set (proposals_of evs)"
    and I2: "distinct (map m_MatchId (f_sent f))" "m_MatchId ` set (f_sent f) \<subseteq> dom (f_m f)"
    and I3: "\<exists>n. f_sent f = take n (proposals_of evs) \<and> (f_send f = None \<longrightarrow> n = length (proposals_of evs))"
    and I4: "\<And>p. p \<in> set (f_out f) \<Longrightarrow> m_MatchId p \<in> confirmed evs \<and> strip p \<in> strip ` set (proposals_of evs)"
    unfolding fetch_inv_def by auto
  have weak: "fetch_inv (evs @ [ev]) f'" if "f_m f' = f_m f" "f_sent f' = f_sent f" "f_out f' = f_out f"
    "f_send f' \<noteq> None \<or> (f_send f' = f_send f \<and> (case ev of Proposal p \<Rightarrow> False | _ \<Rightarrow> True))" for f' :: "'a fetch"
  proof -
    from I3 obtain n where n: "f_sent f = take n (proposals_of evs)" "f_send f = None \<longrightarrow> n = length (proposals_of evs)"
      by (elim exE conjE)
    have "\<exists>n. f_sent f' = take n (proposals_of (evs @ [ev])) \<and> (f_send f' = None \<longrightarrow> n = length (proposals_of (evs @ [ev])))"
    proof (cases "f_send f' = None")
      case True
      with that n show ?thesis by (auto simp: proposals_of_snoc split: fetch_event.splits)
    next
      case False
      with that n show ?thesis
        by (intro exI [of _ "min n (length (proposals_of evs))"]) (auto simp: proposals_of_snoc min_def)
    qed
    moreover have "\<forall>k p. f_m f' k = Some p \<longrightarrow> m_MatchId p = k \<and> strip p \<in> strip ` set (proposals_of (evs @ [ev]))"
      using I1 events_mono(1) by (simp add: that(1))
    moreover have "\<forall>p \<in> set (f_out f'). m_MatchId p \<in> confirmed (evs @ [ev]) \<and> strip p \<in> strip ` set (proposals_of (evs @ [ev]))"
      using I4 events_mono by (simp add: that(3))
    ultimately show ?thesis using I2 unfolding fetch_inv_def by (simp add: that(1,2))
  qed
  show ?thesis
  proof (cases "\<exists>p. ev = Proposal p \<and> f_send f = None \<and> f_m f (m_MatchId p) = None")
    case False
    then show ?thesis
      by (intro weak) (auto simp: synchronizeSend_def split: fetch_event.splits)
  next
    case True
    then obtain p where p: "ev = Proposal p" "f_send f = None" "f_m f (m_MatchId p) = None" by blast
    from I3 p(2) have sent: "f_sent f = proposals_of evs" by auto
    let ?f = "f\<lparr>f_m := (f_m f)(m_MatchId p \<mapsto> p)\<rparr>"
    have base: "(\<forall>k q. f_m ?f k = Some q \<longrightarrow> m_MatchId q = k \<and> strip q \<in> strip ` set (proposals_of (evs @ [ev])))"
      "distinct (map m_MatchId (f_sent f))" "m_MatchId ` set (f_sent f) \<subseteq> dom (f_m ?f)" "m_MatchId p \<notin> m_MatchId ` set (f_sent f)"
      "(\<forall>q \<in> set (f_out f). m_MatchId q \<in> confirmed (evs @ [ev]) \<and> strip q \<in> strip ` set (proposals_of (evs @ [ev])))"
      using I1 I2 I4 p events_mono by (auto simp: proposals_of_snoc confirmed_snoc)
    show ?thesis
    proof (cases "failSend flt (length (f_sent f))")
      case True
      then have "synchronizeSend flt ev f = ?f\<lparr>f_send := Some (Inl (Wrapped (StreamErr 0)))\<rparr>"
        using p by (simp add: synchronizeSend_def)
      moreover have "f_sent f = take (length (proposals_of evs)) (proposals_of (evs @ [ev]))"
        by (simp add: sent proposals_of_snoc)
      ultimately show ?thesis unfolding fetch_inv_def using base(1-3,5)
        by (simp del: fun_upd_apply) (rule exI, rule refl)
    next
      case False
      then have eq: "synchronizeSend flt ev f = ?f\<lparr>f_sent := f_sent f @ [p]\<rparr>"
        using p by (simp add: synchronizeSend_def)
      have ex: "\<exists>n. f_sent f @ [p] = take n (proposals_of (evs @ [ev])) \<and> (f_send f = None \<longrightarrow> n = length (proposals_of (evs @ [ev])))"
        by (rule exI [of _ "length (proposals_of (evs @ [ev]))"]) (simp add: sent proposals_of_snoc p(1))
      have d: "distinct (map m_MatchId (f_sent f @ [p]))" "m_MatchId ` set (f_sent f @ [p]) \<subseteq> dom (f_m ?f)"
        using base(2-4) by auto
      show ?thesis
        by (rule fetch_invI [OF _ _ _ _ base(1) d ex base(5)]) (simp_all add: eq)
    qed
  qed
qed

text \<open>The receiver only fills in the backfill of a match it knows, and delivers that match.\<close>

lemma handle_match_frame:
  obtains p' where "m_MatchId p' = m_MatchId p" "strip p' = strip p"
    "f_sent (handle_match flt S newID tsNow p f) = f_sent f" "f_send (handle_match flt S newID tsNow p f) = f_send f"
    "f_m (handle_match flt S newID tsNow p f) \<in> {f_m f, (f_m f)(m_MatchId p \<mapsto> p')}"
    "f_out (handle_match flt S newID tsNow p f) \<in> {f_out f, f_out f @ [p']}"
proof (cases "m_Backfill p")
  case None
  show thesis by (rule that [of p]) (simp_all add: handle_match_def deliver_def None)
next
  case (Some b)
  obtain r b' s' where c: "createOrUpdateBackfill S newID tsNow b (map t_Id (m_Tickets p)) (f_store f) = ((r, b'), s')"
    by (metis surj_pair)
  show thesis
    by (rule that [of "p\<lparr>m_Backfill := Some b'\<rparr>"])
      (simp_all add: handle_match_def Some c deliver_def Let_def split: sum.splits)
qed

lemma handle_match_inv:
  assumes "fetch_inv evs f" and "f_m f mid = Some p" and "mid \<in> confirmed evs"
  shows "fetch_inv evs (handle_match flt S newID tsNow p f)"
proof -
  let ?f = "handle_match flt S newID tsNow p f"
  obtain p' where fr: "m_MatchId p' = m_MatchId p" "strip p' = strip p" "f_sent ?f = f_sent f" "f_send ?f = f_send f"
    "f_m ?f \<in> {f_m f, (f_m f)(m_MatchId p \<mapsto> p')}" "f_out ?f \<in> {f_out f, f_out f @ [p']}"
    by (rule handle_match_frame)
  from assms(1,2) have p: "m_MatchId p = mid" "strip p \<in> strip ` set (proposals_of evs)"
    unfolding fetch_inv_def by blast+
  have m: "f_m ?f k = Some q \<longrightarrow> m_MatchId q = k \<and> strip q \<in> strip ` set (proposals_of evs)" for k q
    using fr(5) fr(1,2) p assms(1) unfolding fetch_inv_def by (auto split: if_splits)
  have out: "m_MatchId q \<in> confirmed evs \<and> strip q \<in> strip ` set (proposals_of evs)" if "q \<in> set (f_out ?f)" for q
    using fr(6) fr(1,2) p assms(1,3) that unfolding fetch_inv_def by auto
  have "dom (f_m ?f) = dom (f_m f)" using fr(5) p assms(2) by (auto split: if_splits)
  with m out fr(3,4) assms(1) show ?thesis unfolding fetch_inv_def by simp
qed

lemma synchronizeRecv_inv:
  assumes "fetch_inv evs f" and "ev \<in> set evs"
  shows "fetch_inv evs (synchronizeRecv flt S newID tsNow ev f)"
proof (cases "\<exists>st ca mid. ev = SyncResp st ca mid \<and> f_recv f = None")
  case True
  then obtain st ca mid where ev: "ev = SyncResp st ca mid" "f_recv f = None" by blast
  let ?f = "f\<lparr>f_started := f_started f \<or> st, f_cancelled := f_cancelled f \<or> ca\<rparr>"
  have inv: "fetch_inv evs ?f" using assms(1) by (simp add: fetch_inv_def)
  have "mid \<in> confirmed evs" using assms(2) ev by (auto simp: confirmed_def)
  then show ?thesis
    using inv ev by (auto simp: synchronizeRecv_def Let_def intro: handle_match_inv split: option.splits)
qed (use assms(1) in \<open>auto simp: synchronizeRecv_def fetch_inv_def split: fetch_event.splits\<close>)

lemma fetch_run_inv: "fetch_inv evs (fold (fetch_step flt S newID tsNow) evs (fetch_init s))"
proof (induction evs rule: rev_induct)
  case Nil
  show ?case by (simp add: fetch_inv_def fetch_init_def proposals_of_def List.map_filter_simps)
next
  case (snoc ev evs)
  have "fetch_inv (evs @ [ev]) (fetch_step flt S newID tsNow ev (fold (fetch_step flt S newID tsNow) evs (fetch_init s)))"
    unfolding fetch_step_def by (rule synchronizeRecv_inv, rule synchronizeSend_inv)
      (use snoc in \<open>simp_all add: fetch_step_def [abs_def]\<close>)
  then show ?case by simp
qed

section \<open>Handlers over a store that meets its contract\<close>

context statestore
begin

lemma cub_update_handler:
  assumes g: "good s" and i: "bf_Id bf \<notin> reserved"
    and ids: "\<And>st old. as_GetBackfill decB (bf_Id bf) (store s) = Inr (Some st, old) \<Longrightarrow> bf_Id st = bf_Id bf"
    and run: "with_mutex S (bf_Id bf) (cub_update S bf tids) s = (r, s')"
  shows "\<exists>now. clock s \<le> now \<and> now \<le> clock s' \<and> good s' \<and>
    (case as_GetBackfill decB (bf_Id bf) (store s) of
       Inl e \<Rightarrow> r = Inl e \<and> store s' = store s
     | Inr (None, _) \<Rightarrow> r = Inl Panic \<and> store s' = store s
     | Inr (Some st, old) \<Rightarrow>
         if bf_Generation st \<noteq> bf_Generation bf then r = Inl ErrBackfillGenerationMismatch \<and> store s' = store s
         else (case as_UpdateBackfill encB bttl (cub_merge bf st) (old @ tids) now (store s) of
            (Inl e, a) \<Rightarrow> r = Inl e \<and> store s' = a
          | (Inr _, a) \<Rightarrow> r = Inr () \<and> store s' = as_IndexBackfill (cub_merge bf st) a))"
proof -
  from run obtain s1 s2 where 0: "good s1" "store s1 = store s" "clock s \<le> clock s1" "cub_update S bf tids s1 = (r, s2)"
    "good s2 \<longrightarrow> good s' \<and> store s' = store s2 \<and> clock s2 \<le> clock s'"
    by (rule with_mutex_ok [OF g])
  obtain r3 s3 n n' where 3: "GetBackfill S (bf_Id bf) s1 = (r3, s3)" "clock s1 \<le> n" "n \<le> n'" "n' \<le> clock s3" "good s3"
    "r3 = as_GetBackfill decB (bf_Id bf) (store s1) \<and> store s3 = store s1"
    by (rule meetsE [OF get_backfill [OF i] 0(1)])
  show ?thesis
  proof (cases "\<exists>st old. r3 = Inr (Some st, old) \<and> bf_Generation st = bf_Generation bf")
    case False
    with 0 3 show ?thesis
      by (intro exI [of _ n]) (auto simp: cub_update_def split: sum.splits option.splits)
  next
    case True
    then obtain st old where r3: "r3 = Inr (Some st, old)" and gen: "bf_Generation st = bf_Generation bf" by blast
    let ?st = "cub_merge bf st"
    have get: "as_GetBackfill decB (bf_Id bf) (store s) = Inr (Some st, old)" using 3(6) 0(2) r3 by simp
    have "bf_Id ?st = bf_Id bf" using ids [OF get] by (simp add: cub_merge_def)
    then have st: "bf_Id ?st \<notin> reserved" using i by simp
    obtain r4 s4 m m' where 4: "UpdateBackfill S ?st (old @ tids) s3 = (r4, s4)" "clock s3 \<le> m" "m \<le> m'" "m' \<le> clock s4" "good s4"
      "(r4, store s4) = as_UpdateBackfill encB bttl ?st (old @ tids) m (store s3)"
      by (rule meetsE [OF update_backfill [OF st] 3(5)])
    obtain r6 s6 j j' where 6: "IndexBackfill S ?st s4 = (r6, s6)" "clock s4 \<le> j" "j \<le> j'" "j' \<le> clock s6" "good s6"
      "r6 = Inr () \<and> store s6 = as_IndexBackfill ?st (store s4)"
      by (rule meetsE [OF index_backfill [of ?st] 4(5)])
    have upd: "as_UpdateBackfill encB bttl ?st (old @ tids) m (store s) = (r4, store s4)" using 4(6) 3(6) 0(2) by simp
    show ?thesis
    proof (cases r4)
      case (Inl e)
      then have "cub_update S bf tids s1 = (Inl e, s4)" using 3(1) 4(1) r3 gen by (simp add: cub_update_def)
      with 0 3 4 Inl gen show ?thesis by (intro exI [of _ m]) (auto simp: get upd)
    next
      case (Inr u)
      then have "cub_update S bf tids s1 = (Inr (), s6)" using 3(1) 4(1) 6(1,6) r3 gen by (simp add: cub_update_def)
      with 0 3 4 6 Inr gen show ?thesis by (intro exI [of _ m]) (auto simp: get upd)
    qed
  qed
qed

lemma assign_handler:
  assumes g: "good s" and ids: "\<forall>i \<in> set (assign_ids gs). i \<notin> reserved" "tickets_at decT (assign_ids gs) (store s)"
    and run: "be_AssignTickets S gs s = (r, s')"
  shows "good s' \<and> (case as_UpdateAssignments encT decT px gs (store s) of
      (Inl e, a) \<Rightarrow> r = Inl e \<and> store s' = a
    | (Inr (fs, ts), a) \<Rightarrow> r = Inr fs \<and>
        store s' = as_DeletePending (assign_ids gs) (a\<lparr>tindex := tindex a - set (assign_ids gs)\<rparr>))"
proof -
  have fold: "fold (\<lambda>ag ids. ids @ ag_TicketIds ag) gs xs = xs @ assign_ids gs" for xs
    by (induction gs arbitrary: xs) (auto simp: assign_ids_def)
  obtain r1 s1 where 1: "UpdateAssignments S gs s = (r1, s1)" "good s1"
    "(r1, store s1) = as_UpdateAssignments encT decT px gs (store s)"
    by (rule meets_atE [OF update_assignments [OF g ids]])
  define s2 where "s2 = fold (\<lambda>i s. snd (DeindexTicket S i s)) (assign_ids gs) s1"
  note 2 = fold_deindex [OF 1(2), of "assign_ids gs", folded s2_def]
  obtain r3 s3 where 3: "DeleteTicketsFromPendingRelease S (assign_ids gs) s2 = (r3, s3)" "good s3"
    "r3 = Inr () \<and> store s3 = as_DeletePending (assign_ids gs) (store s2)"
    by (rule meetsE [OF delete_pending [of "assign_ids gs"]]) (use 2 in blast)
  show ?thesis
  proof (cases r1)
    case (Inl e)
    with 1 run show ?thesis by (auto simp: be_AssignTickets_def doAssignTickets_def split: prod.splits)
  next
    case (Inr v)
    then obtain fs ts where v: "r1 = Inr (fs, ts)" by (cases v) auto
    have "be_AssignTickets S gs s = (Inr fs, s3)"
      using 1(1) 3(1) v by (simp add: be_AssignTickets_def doAssignTickets_def fold s2_def Let_def)
    with run 1(3) [symmetric] 2 3 v show ?thesis by simp
  qed
qed

end

section \<open>Properties\<close>

text \<open>
  C18: Proposals reach the synchronizer once. In every run of a fetch, whatever the interleaving of proposals,
  responses and failures, the proposals sent to the synchronizer are an initial part of those the match
  function made and their match ids are distinct.
\<close>

theorem fetch_sends_distinct:
  "distinct (map m_MatchId (f_sent (fold (fetch_step flt S newID tsNow) evs (fetch_init s)))) \<and>
   (\<exists>n. f_sent (fold (fetch_step flt S newID tsNow) evs (fetch_init s)) = take n (proposals_of evs))"
  using fetch_run_inv [of evs flt S newID tsNow s] unfolding fetch_inv_def by auto


text \<open>
  A repeated match id ends the fetch. When the match function proposes a match id for the second time
  while the sender runs, the proposal is not sent and the sender returns an error.
\<close>

theorem fetch_rejects_repeated:
  assumes "f_send f = None" and "f_m f (m_MatchId p) \<noteq> None"
  shows "f_send (fetch_step flt S newID tsNow (Proposal p) f) = Some (Inl FmtErr) \<and>
    f_sent (fetch_step flt S newID tsNow (Proposal p) f) = f_sent f \<and>
    f_m (fetch_step flt S newID tsNow (Proposal p) f) = f_m f"
  using assms by (simp add: fetch_step_def synchronizeSend_def synchronizeRecv_def)

theorem fetch_rejects_repeated_witness:
  "f_send (fetch_step \<lparr>failSend = \<lambda>_. False, failClose = False, failOut = \<lambda>_. False\<rparr> ref_store (NewID (ref_env (\<lambda>_. False)))
     (TimestampNow (ref_env (\<lambda>_. False))) (Proposal empty_match) ((fetch_init ref_init)\<lparr>f_m := [[] \<mapsto> empty_match]\<rparr>)) =
   Some (Inl FmtErr)"
  by (rule fetch_rejects_repeated [THEN conjunct1]) (simp_all add: fetch_init_def)

text \<open>
  C9: Optimistic concurrency on backfills. When an accepted match names an existing backfill of another
  generation than the stored one, the match is not delivered, the fetch goes on, the stored backfill is
  unchanged, and the match's tickets are released. When the generation agrees, the match's tickets are
  appended to the backfill's, its generation is incremented and indexed, and the match is delivered.
\<close>

theorem match_backfill_generation:
  fixes S :: "('s, 'c) service"
  assumes be: "redis_backend E view pend dbl sched" and S: "S = New sched cfg E" and wf: "wf_keys (view (f_store f))"
    and bf: "m_Backfill p = Some bf" "bf_Id bf \<notin> reserved" "bf_Id bf \<noteq> []" and enc: "\<forall>bi. MarshalBackfill E bi \<noteq> None"
    and stored: "str_of (view (f_store f)) (bf_Id bf) = Some b"
      "UnmarshalBackfill E b = Some \<lparr>bi_Backfill = Some st, bi_TicketIds = old\<rparr>" "bf_Id st = bf_Id bf"
    and ack: "zset_of (view (f_store f)) backfillLastAckTime (bf_Id bf) = Some sc"
    and out: "failOut flt (length (f_out f)) = False"
    and run: "handle_match flt S (NewID E) (TimestampNow E) p f = f'"
    and live: "Now E (f_store f') - getBackfillReleaseTimeout cfg \<le> sc"
  shows "if bf_Generation st \<noteq> bf_Generation bf
    then f_out f' = f_out f \<and> f_recv f' = f_recv f \<and> str_of (view (f_store f')) = str_of (view (f_store f)) \<and>
      (\<forall>t \<in> set (m_Tickets p). zset_of (view (f_store f')) proposedTicketIDs (t_Id t) = None)
    else f_out f' = f_out f @ [p] \<and> f_recv f' = f_recv f \<and>
      Option.bind (str_of (view (f_store f')) (bf_Id bf)) (UnmarshalBackfill E) =
        Some \<lparr>bi_Backfill = Some (cub_merge bf st), bi_TicketIds = old @ map t_Id (m_Tickets p)\<rparr> \<and>
      hash_of (view (f_store f')) allBackfills (bf_Id bf) = Some (itoa (sint (bf_Generation st + 1)))"
proof -
  note contract = redis_backend.backend_contract [OF be S]
  note laws = redis_up.axioms(1) [OF redis_backend.axioms(1) [OF be]]
  let ?tids = "map t_Id (m_Tickets p)" and ?s = "f_store f" and ?st = "cub_merge bf st"
  let ?a = "astore_of (view ?s)"
  obtain r s1 where c: "with_mutex S (bf_Id bf) (cub_update S bf ?tids) ?s = (r, s1)" by (metis surj_pair)
  have get: "as_GetBackfill (UnmarshalBackfill E) (bf_Id bf) ?a = Inr (Some st, old)" using stored by (simp add: as_GetBackfill_def)
  have same: "p\<lparr>m_Backfill := Some bf\<rparr> = p" using bf(1) by simp
  obtain now where h: "now \<le> Now E s1" "wf_keys (view s1)"
    "if bf_Generation st \<noteq> bf_Generation bf then r = Inl ErrBackfillGenerationMismatch \<and> astore_of (view s1) = ?a
     else (case as_UpdateBackfill (MarshalBackfill E) (getBackfillReleaseTimeout cfg) ?st (old @ ?tids) now ?a of
            (Inl e, a) \<Rightarrow> r = Inl e \<and> astore_of (view s1) = a
          | (Inr _, a) \<Rightarrow> r = Inr () \<and> astore_of (view s1) = as_IndexBackfill ?st a)"
    using statestore.cub_update_handler [OF contract wf bf(2) _ c] get stored(3) by auto
  have cub: "createOrUpdateBackfill S (NewID E) (TimestampNow E) bf ?tids ?s = ((r, bf), s1)"
    using bf(3) c by (simp add: createOrUpdateBackfill_def)
  show ?thesis
  proof (cases "bf_Generation st = bf_Generation bf")
    case False
    obtain r2 s2 where 2: "DeleteTicketsFromPendingRelease S ?tids s1 = (r2, s2)"
      "astore_of (view s2) = as_DeletePending ?tids (astore_of (view s1))"
      by (rule meetsE [OF statestore.delete_pending [OF contract, of ?tids] h(2)]) auto
    have "snd (doReleaseTickets S ?tids s1) = s2" using 2(1) by (simp add: doReleaseTickets_def split: sum.splits)
    then have "f' = f\<lparr>f_m := (f_m f)(m_MatchId p \<mapsto> p), f_store := s2\<rparr>"
      using run [symmetric] bf(1) cub h(3) False same by (simp add: handle_match_def Let_def)
    moreover have "str_of (view s2) = str_of (view ?s)" "\<forall>t \<in> set ?tids. zset_of (view s2) proposedTicketIDs t = None"
      using arg_cong [OF 2(2), of objs] arg_cong [OF 2(2), of pending] h(3) False by (simp_all add: as_DeletePending_def)
    ultimately show ?thesis using False by simp
  next
    case True
    obtain b' where b': "MarshalBackfill E \<lparr>bi_Backfill = Some ?st, bi_TicketIds = old @ ?tids\<rparr> = Some b'" using enc by blast
    have id: "bf_Id ?st = bf_Id bf" using stored(3) by (simp add: cub_merge_def)
    have f_store: "f_store f' = s1"
    proof (cases r)
      case (Inl e)
      have "e \<noteq> ErrBackfillGenerationMismatch \<and> status_code e \<noteq> Some NotFound"
        using h(3) True Inl ack b' id
        by (auto simp: as_UpdateBackfill_def as_expired_def split: prod.splits sum.splits bool.splits)
      then show ?thesis using run [symmetric] bf(1) cub Inl same by (simp add: handle_match_def Let_def)
    qed (use run [symmetric] bf(1) cub same in \<open>simp add: handle_match_def Let_def deliver_def\<close>)
    have "as_UpdateBackfill (MarshalBackfill E) (getBackfillReleaseTimeout cfg) ?st (old @ ?tids) now ?a =
      (Inr (), ?a\<lparr>objs := (objs ?a)(bf_Id bf \<mapsto> b'), ttls := (ttls ?a)(bf_Id bf := None)\<rparr>)"
      using ack live h(1) b' by (simp add: as_UpdateBackfill_def as_expired_def id f_store)
    with h(3) True have r: "r = Inr ()" and a1: "astore_of (view s1) = as_IndexBackfill ?st
        (?a\<lparr>objs := (objs ?a)(bf_Id bf \<mapsto> b'), ttls := (ttls ?a)(bf_Id bf := None)\<rparr>)" by auto
    have f': "f' = f\<lparr>f_m := (f_m f)(m_MatchId p \<mapsto> p), f_store := s1, f_out := f_out f @ [p]\<rparr>"
      using run [symmetric] bf(1) cub r out same by (simp add: handle_match_def Let_def deliver_def)
    have "str_of (view s1) (bf_Id bf) = Some b'" "hash_of (view s1) allBackfills (bf_Id bf) = Some (itoa (sint (bf_Generation ?st)))"
      using arg_cong [OF a1, of objs] arg_cong [OF a1, of bindex] by (simp_all add: as_IndexBackfill_def id)
    then show ?thesis
      using True f' redis_laws.backfill_codec [OF laws b'] by (simp add: cub_merge_def)
  qed
qed

theorem match_backfill_generation_witness:
  "\<exists>s f. s = snd (rb_CreateBackfill (ref_env (\<lambda>_. False)) (empty_backfill\<lparr>bf_Id := ''b''\<rparr>) [''a''] ref_init) \<and>
     f = handle_match \<lparr>failSend = \<lambda>_. False, failClose = False, failOut = \<lambda>_. False\<rparr> ref_store (NewID (ref_env (\<lambda>_. False)))
       (TimestampNow (ref_env (\<lambda>_. False))) (empty_match\<lparr>m_Backfill := Some (empty_backfill\<lparr>bf_Id := ''b'', bf_Generation := 7\<rparr>)\<rparr>)
       (fetch_init s) \<and> f_out f = [] \<and> f_recv f = None"
proof -
  let ?bf = "empty_backfill\<lparr>bf_Id := ''b''\<rparr>" and ?E = "ref_env (\<lambda>_. False)"
  let ?s = "snd (rb_CreateBackfill ?E ?bf [''a''] ref_init)" and ?bi = "\<lparr>bi_Backfill = Some (empty_backfill\<lparr>bf_Id := ''b''\<rparr>), bi_TicketIds = [''a'']\<rparr>"
  let ?flt = "\<lparr>failSend = \<lambda>_. False, failClose = False, failOut = \<lambda>_. False\<rparr>" and ?p = "empty_match\<lparr>m_Backfill := Some (empty_backfill\<lparr>bf_Id := ''b'', bf_Generation := 7\<rparr>)\<rparr>"
  let ?f = "handle_match ?flt ref_store (NewID ?E) (TimestampNow ?E) ?p (fetch_init ?s)"
  obtain now where wf: "wf_keys (lview (rs_data ?s))" and
    a: "astore_of (lview (rs_data ?s)) = snd (as_CreateBackfill (MarshalBackfill ?E) dbl256 ?bf [''a''] now (astore_of (lview (rs_data ref_init))))"
    by (rule meetsE [OF ref_ok.CreateBackfill_meets [of ?bf "[''a'']"], of ref_init]) (auto simp: prod_eq_iff)
  have o: "str_of (lview (rs_data ?s)) ''b'' = Some (BBackfill ?bi)"
    using fun_cong [OF arg_cong [OF a, of objs], of "''b''"] by (simp add: as_CreateBackfill_def str_of_def [of Map.empty] del: lview_access)
  have z: "zset_of (lview (rs_data ?s)) backfillLastAckTime ''b'' = Some 1600000000000002048"
    unfolding lview_access by code_simp
  have t: "rs_time (f_store ?f) - getBackfillReleaseTimeout ref_cfg \<le> 1600000000000002048" by code_simp
  have "if bf_Generation ?bf \<noteq> bf_Generation (empty_backfill\<lparr>bf_Id := ''b'', bf_Generation := 7\<rparr>)
    then f_out ?f = f_out (fetch_init ?s) \<and> f_recv ?f = f_recv (fetch_init ?s) \<and> str_of (lview (rs_data (f_store ?f))) = str_of (lview (rs_data (f_store (fetch_init ?s)))) \<and>
      (\<forall>t \<in> set (m_Tickets ?p). zset_of (lview (rs_data (f_store ?f))) proposedTicketIDs (t_Id t) = None)
    else f_out ?f = f_out (fetch_init ?s) @ [?p] \<and> f_recv ?f = f_recv (fetch_init ?s) \<and>
      Option.bind (str_of (lview (rs_data (f_store ?f))) (bf_Id (empty_backfill\<lparr>bf_Id := ''b'', bf_Generation := 7\<rparr>))) (UnmarshalBackfill ?E) =
        Some \<lparr>bi_Backfill = Some (cub_merge (empty_backfill\<lparr>bf_Id := ''b'', bf_Generation := 7\<rparr>) ?bf), bi_TicketIds = [''a''] @ map t_Id (m_Tickets ?p)\<rparr> \<and>
      hash_of (lview (rs_data (f_store ?f))) allBackfills (bf_Id (empty_backfill\<lparr>bf_Id := ''b'', bf_Generation := 7\<rparr>)) = Some (itoa (sint (bf_Generation ?bf + 1)))"
    by (rule match_backfill_generation [OF ref_ok.redis_backend_axioms ref_store_def, where b = "BBackfill ?bi" and sc = 1600000000000002048 and flt = ?flt])
      (use wf o z t in \<open>simp_all add: fetch_init_def del: lview_access\<close>)
  then show ?thesis by (intro exI [of _ ?s] exI [of _ ?f]) (simp add: fetch_init_def)
qed

text \<open>
  C20: Assignment through the backend. On success the response lists exactly the missing tickets, and all
  tickets of the request, assigned or missing, are out of the index and out of pending release; a refused
  request changes nothing.
\<close>

theorem assign_tickets_correct:
  fixes S :: "('s, 'c) service"
  assumes be: "redis_backend E view pend dbl sched" and S: "S = New sched cfg E" and wf: "wf_keys (view s)"
    and gs: "gs \<noteq> []" and ids: "\<forall>i \<in> set (assign_ids gs). i \<notin> reserved"
      "tickets_at (UnmarshalTicket E) (assign_ids gs) (astore_of (view s))"
    and codec: "\<forall>t. MarshalTicket E t \<noteq> None" "\<forall>i \<in> set (assign_ids gs). \<forall>b. str_of (view s) i = Some b \<longrightarrow> UnmarshalTicket E b \<noteq> None"
    and run: "be_AssignTickets S gs s = (r, s')"
  shows "if assign_valid gs
    then r = Inr (map not_found_failure (filter (\<lambda>i. str_of (view s) i = None) (assign_ids gs))) \<and>
      set_of (view s') allTickets = set_of (view s) allTickets - set (assign_ids gs) \<and>
      (\<forall>i \<in> set (assign_ids gs). zset_of (view s') proposedTicketIDs i = None)
    else r = Inl (Status InvalidArgument) \<and> astore_of (view s') = astore_of (view s)"
proof -
  let ?a = "astore_of (view s)" and ?ids = "assign_ids gs"
  note h = statestore.assign_handler [OF redis_backend.backend_contract [OF be S] wf ids run]
  show ?thesis
  proof (cases "assign_valid gs")
    case False
    with h gs show ?thesis by (simp add: as_UpdateAssignments_def)
  next
    case True
    obtain ts where ts: "those (map (UnmarshalTicket E) (List.map_filter (str_of (view s)) ?ids)) = Some ts"
      using found_all [of ?ids "str_of (view s)" "UnmarshalTicket E"] codec(2) by blast
    obtain bs where bs: "those (map (MarshalTicket E \<circ> assigned gs) ts) = Some bs"
      using those_total [of ts "MarshalTicket E \<circ> assigned gs"] codec(1) by auto
    let ?a1 = "store_all (go_div (getAssignedDeleteTimeout cfg) Millisecond) (zip (map t_Id ts) bs) ?a"
    have r: "r = Inr (map not_found_failure (filter (\<lambda>i. str_of (view s) i = None) ?ids))" and
      a: "astore_of (view s') = as_DeletePending ?ids (?a1\<lparr>tindex := tindex ?a1 - set ?ids\<rparr>)"
      using h True gs ts bs by (simp_all add: as_UpdateAssignments_def)
    from arg_cong [OF a, of tindex] arg_cong [OF a, of pending] True r show ?thesis
      by (simp add: as_DeletePending_def store_all_def)
  qed
qed

theorem assign_tickets_correct_witness:
  "\<exists>s'. be_AssignTickets ref_store assign_example ref_init = (Inr [not_found_failure ''a''], s')"
proof -
  obtain r s' where 1: "be_AssignTickets ref_store assign_example ref_init = (r, s')" by (metis surj_pair)
  have "assign_valid assign_example" "assign_example \<noteq> []" "assign_ids assign_example = [''a'']"
    by (simp_all add: assign_example_def assign_valid_def assign_ids_def)
  with assign_tickets_correct [OF ref_ok.redis_backend_axioms ref_store_def ref_init_wf(1) _ _ _ _ _ 1] 1 show ?thesis
    by (auto simp: tickets_at_def str_of_def)
qed

end
