(* ===== verification/Pool_Filter.thy ===== *)
theory Pool_Filter
  imports Messages
begin

text \<open>
  Pool filters (\<open>internal/filter/filter.go\<close>): validation of a pool's criteria and the membership
  test that the query service applies to every cached ticket and backfill. The conversion
  \<open>ptypes.Timestamp\<close> comes from the protobuf library; it is the parameter \<open>ts_time\<close>, which
  yields the time of a valid timestamp and \<open>None\<close> for its error.
\<close>

section \<open>Model\<close>

record pool_filter =
  DoubleRangeFilters :: "double_range_filter list"
  StringEqualsFilters :: "string_equals_filter list"
  TagPresentFilters :: "tag_present_filter list"
  CreatedBefore :: gtime
  CreatedAfter :: gtime

text \<open>The interface \<open>filteredEntity\<close>, as the getters the filter calls on a ticket or a backfill.\<close>

record entity =
  e_SearchFields :: "search_fields option"
  e_CreateTime :: "timestamp option"

definition ticket_entity :: "ticket \<Rightarrow> entity" where
  "ticket_entity t = \<lparr>e_SearchFields = t_SearchFields t, e_CreateTime = t_CreateTime t\<rparr>"

definition backfill_entity :: "backfill \<Rightarrow> entity" where
  "backfill_entity b = \<lparr>e_SearchFields = bf_SearchFields b, e_CreateTime = bf_CreateTime b\<rparr>"

definition NewPoolFilter :: "(timestamp option \<Rightarrow> gtime option) \<Rightarrow> pool \<Rightarrow> pool_filter res" where
  "NewPoolFilter ts_time p =
    (let cb = (if p_CreatedBefore p \<noteq> None then ts_time (p_CreatedBefore p) else Some 0);
         ca = (if p_CreatedAfter p \<noteq> None then ts_time (p_CreatedAfter p) else Some 0)
     in case cb of
          None \<Rightarrow> Inl (Status InvalidArgument)
        | Some b \<Rightarrow>
          (case ca of
             None \<Rightarrow> Inl (Status InvalidArgument)
           | Some a \<Rightarrow> Inr \<lparr>DoubleRangeFilters = p_DoubleRangeFilters p,
                           StringEqualsFilters = p_StringEqualsFilters p,
                           TagPresentFilters = p_TagPresentFilters p,
                           CreatedBefore = b, CreatedAfter = a\<rparr>))"

text \<open>The three loops of \<open>In\<close>, each returning false at the first criterion that fails.\<close>

fun double_loop :: "(string \<rightharpoonup> f64) \<Rightarrow> double_range_filter list \<Rightarrow> bool" where
  "double_loop args [] = True"
| "double_loop args (f # fs) =
    (case args (drf_DoubleArg f) of
       None \<Rightarrow> False
     | Some v \<Rightarrow>
        (case drf_Exclude f of
           ExNone \<Rightarrow> if \<not> (f64_le (drf_Min f) v \<and> f64_le v (drf_Max f)) then False else double_loop args fs
         | ExMin \<Rightarrow> if \<not> (f64_less (drf_Min f) v \<and> f64_le v (drf_Max f)) then False else double_loop args fs
         | ExMax \<Rightarrow> if \<not> (f64_le (drf_Min f) v \<and> f64_less v (drf_Max f)) then False else double_loop args fs
         | ExBoth \<Rightarrow> if \<not> (f64_less (drf_Min f) v \<and> f64_less v (drf_Max f)) then False else double_loop args fs
         | ExUnknown _ \<Rightarrow> double_loop args fs))"

fun string_loop :: "(string \<rightharpoonup> string) \<Rightarrow> string_equals_filter list \<Rightarrow> bool" where
  "string_loop args [] = True"
| "string_loop args (f # fs) =
    (case args (sef_StringArg f) of
       None \<Rightarrow> False
     | Some v \<Rightarrow> if sef_Value f \<noteq> v then False else string_loop args fs)"

fun tag_found :: "string \<Rightarrow> string list \<Rightarrow> bool" where
  "tag_found tag [] = False"
| "tag_found tag (v # vs) = (if v = tag then True else tag_found tag vs)"

fun tag_loop :: "string list \<Rightarrow> tag_present_filter list \<Rightarrow> bool" where
  "tag_loop tags [] = True"
| "tag_loop tags (f # fs) = (if tag_found (tpf_Tag f) tags then tag_loop tags fs else False)"

text \<open>The creation-time window; an entity whose own timestamp does not convert is not filtered.\<close>

definition created_check :: "(timestamp option \<Rightarrow> gtime option) \<Rightarrow> pool_filter \<Rightarrow> entity \<Rightarrow> bool" where
  "created_check ts_time pf e =
    (if CreatedAfter pf \<noteq> 0 \<or> CreatedBefore pf \<noteq> 0 then
       (case ts_time (e_CreateTime e) of
          Some ct \<Rightarrow>
            (if CreatedAfter pf \<noteq> 0 \<and> \<not> ct > CreatedAfter pf then False
             else if CreatedBefore pf \<noteq> 0 \<and> \<not> ct < CreatedBefore pf then False else True)
        | None \<Rightarrow> True)
     else True)"

definition In :: "(timestamp option \<Rightarrow> gtime option) \<Rightarrow> pool_filter \<Rightarrow> entity \<Rightarrow> bool" where
  "In ts_time pf e =
    (let s = (case e_SearchFields e of None \<Rightarrow> emptySearchFields | Some s \<Rightarrow> s)
     in if \<not> created_check ts_time pf e then False
        else if \<not> double_loop (DoubleArgs s) (DoubleRangeFilters pf) then False
        else if \<not> string_loop (StringArgs s) (StringEqualsFilters pf) then False
        else if \<not> tag_loop (Tags s) (TagPresentFilters pf) then False
        else True)"

section \<open>What membership means\<close>

text \<open>
  The declarative reading: a range criterion is an interval whose ends are open or closed, a string
  criterion an equality, a tag criterion a membership.
\<close>

definition range_spec :: "double_range_filter \<Rightarrow> f64 \<Rightarrow> bool" where
  "range_spec f v \<longleftrightarrow>
    (case drf_Exclude f of
       ExUnknown _ \<Rightarrow> True
     | ex \<Rightarrow> (if ex = ExMin \<or> ex = ExBoth then f64_less (drf_Min f) v else f64_le (drf_Min f) v)
          \<and> (if ex = ExMax \<or> ex = ExBoth then f64_less v (drf_Max f) else f64_le v (drf_Max f)))"

definition in_search :: "pool_filter \<Rightarrow> search_fields \<Rightarrow> bool" where
  "in_search pf s \<longleftrightarrow>
     (\<forall>f \<in> set (DoubleRangeFilters pf). \<exists>v. DoubleArgs s (drf_DoubleArg f) = Some v \<and> range_spec f v) \<and>
     (\<forall>f \<in> set (StringEqualsFilters pf). StringArgs s (sef_StringArg f) = Some (sef_Value f)) \<and>
     (\<forall>f \<in> set (TagPresentFilters pf). tpf_Tag f \<in> set (Tags s))"

definition in_window :: "pool_filter \<Rightarrow> gtime \<Rightarrow> bool" where
  "in_window pf ct \<longleftrightarrow>
     (CreatedAfter pf = 0 \<or> CreatedAfter pf < ct) \<and> (CreatedBefore pf = 0 \<or> ct < CreatedBefore pf)"

lemma double_loop_Cons:
  "double_loop args (f # fs) \<longleftrightarrow>
     (\<exists>v. args (drf_DoubleArg f) = Some v \<and> range_spec f v) \<and> double_loop args fs"
  by (cases "args (drf_DoubleArg f)"; cases "drf_Exclude f") (auto simp: range_spec_def)

lemma double_loop_iff:
  "double_loop args fs \<longleftrightarrow> (\<forall>f \<in> set fs. \<exists>v. args (drf_DoubleArg f) = Some v \<and> range_spec f v)"
  by (induction fs) (simp_all add: double_loop_Cons del: double_loop.simps(2))

lemma string_loop_iff:
  "string_loop args fs \<longleftrightarrow> (\<forall>f \<in> set fs. args (sef_StringArg f) = Some (sef_Value f))"
  by (induction fs) (auto split: option.splits)

lemma tag_found_iff [simp]: "tag_found tag tags \<longleftrightarrow> tag \<in> set tags"
  by (induction tags) auto

lemma tag_loop_iff: "tag_loop tags fs \<longleftrightarrow> (\<forall>f \<in> set fs. tpf_Tag f \<in> set tags)"
  by (induction fs) auto

lemmas loop_iffs = double_loop_iff string_loop_iff tag_loop_iff

lemma created_check_iff:
  "created_check ts_time pf e \<longleftrightarrow>
     (case ts_time (e_CreateTime e) of None \<Rightarrow> True | Some ct \<Rightarrow> in_window pf ct)"
  by (auto simp: created_check_def in_window_def split: option.splits)

lemma In_iff_search:
  "In ts_time pf e \<longleftrightarrow> created_check ts_time pf e
     \<and> in_search pf (case e_SearchFields e of None \<Rightarrow> emptySearchFields | Some s \<Rightarrow> s)"
  by (simp add: In_def in_search_def loop_iffs Let_def)

lemma range_spec_NaN:
  "drf_Exclude f \<in> {ExNone, ExMin, ExMax, ExBoth} \<Longrightarrow>
   v = NaN \<or> drf_Min f = NaN \<or> drf_Max f = NaN \<Longrightarrow> \<not> range_spec f v"
  by (auto simp: range_spec_def)

lemma double_loop_NaN:
  assumes "f \<in> set fs" and "args (drf_DoubleArg f) = Some v"
    and "drf_Exclude f \<in> {ExNone, ExMin, ExMax, ExBoth}"
    and "v = NaN \<or> drf_Min f = NaN \<or> drf_Max f = NaN"
  shows "\<not> double_loop args fs"
  using assms range_spec_NaN [of f v] by (force simp: double_loop_iff)

section \<open>Properties\<close>

text \<open>
  C32: The membership test decides exactly the declared criteria. An entity is in a pool filter iff
  its creation time (when it converts) lies strictly inside the configured window and its search
  fields (empty ones if absent) satisfy every range, string and tag criterion.
\<close>

theorem In_correct:
  "In ts_time pf e \<longleftrightarrow>
     (case ts_time (e_CreateTime e) of None \<Rightarrow> True | Some ct \<Rightarrow> in_window pf ct) \<and>
     in_search pf (case e_SearchFields e of None \<Rightarrow> emptySearchFields | Some s \<Rightarrow> s)"
  by (simp only: In_iff_search created_check_iff)

text \<open>
  NaN never passes a range criterion. If a criterion with a declared exclusion mode has a NaN
  bound, or the entity's argument is NaN, the entity is outside the filter, whatever else holds.
\<close>

theorem In_NaN:
  assumes "f \<in> set (DoubleRangeFilters pf)" and "drf_Exclude f \<in> {ExNone, ExMin, ExMax, ExBoth}"
    and "e_SearchFields e = Some s" and "DoubleArgs s (drf_DoubleArg f) = Some v"
    and "v = NaN \<or> drf_Min f = NaN \<or> drf_Max f = NaN"
  shows "\<not> In ts_time pf e"
  using assms double_loop_NaN [of f "DoubleRangeFilters pf" "DoubleArgs s" v]
  by (simp add: In_def Let_def)

definition nan_filter :: double_range_filter where
  "nan_filter = \<lparr>drf_DoubleArg = ''mmr'', drf_Max = NaN, drf_Min = Fin 0, drf_Exclude = ExNone\<rparr>"

theorem In_NaN_witness:
  "\<not> In (\<lambda>_. None) \<lparr>DoubleRangeFilters = [nan_filter], StringEqualsFilters = [],
       TagPresentFilters = [], CreatedBefore = 0, CreatedAfter = 0\<rparr>
     \<lparr>e_SearchFields = Some (emptySearchFields\<lparr>DoubleArgs := [''mmr'' \<mapsto> Fin 5]\<rparr>), e_CreateTime = None\<rparr>"
  by (rule In_NaN [where f = nan_filter and v = "Fin 5"
        and s = "emptySearchFields\<lparr>DoubleArgs := [''mmr'' \<mapsto> Fin 5]\<rparr>"])
     (simp_all add: nan_filter_def)

text \<open>
  A pool whose timestamps do not convert is refused as an invalid argument, and a pool that is
  accepted yields a filter with exactly the pool's criteria, where a missing bound is the zero time.
\<close>

theorem NewPoolFilter_cases:
  "NewPoolFilter ts_time p =
    (if (p_CreatedBefore p \<noteq> None \<and> ts_time (p_CreatedBefore p) = None) \<or>
        (p_CreatedAfter p \<noteq> None \<and> ts_time (p_CreatedAfter p) = None)
     then Inl (Status InvalidArgument)
     else Inr \<lparr>DoubleRangeFilters = p_DoubleRangeFilters p,
               StringEqualsFilters = p_StringEqualsFilters p,
               TagPresentFilters = p_TagPresentFilters p,
               CreatedBefore = (if p_CreatedBefore p = None then 0 else the (ts_time (p_CreatedBefore p))),
               CreatedAfter = (if p_CreatedAfter p = None then 0 else the (ts_time (p_CreatedAfter p)))\<rparr>)"
  by (auto simp: NewPoolFilter_def Let_def split: option.splits)

end
