(* ===== verification/Query.thy ===== *)
theory Query
  imports Backend Pool_Filter "HOL-Library.AList" "HOL-Library.Sublist" "HOL-Library.List_Lexorder" "HOL-Library.Char_ord"
begin

text \<open>
  The query service (\<open>internal/app/query\<close>): the ticket and backfill caches with their updates and the
  protocol that unifies concurrent requests into one update (\<open>cache.go\<close>), and the paged, filtered
  answers (\<open>query_service.go\<close>). A Go map is iterated in an unspecified order: the orders are the
  parameters \<open>ordS\<close> (of a set of ids) and \<open>iter\<close> (of the entries of a cache).
\<close>

section \<open>Cache contents\<close>

text \<open>The value of a cache; the updates check its dynamic type. A cache holds one entry per key.\<close>

datatype cache_value =
    NilValue
  | TicketMap "(string \<times> ticket) list"
  | BackfillMap "(string \<times> backfill) list"

definition updateTicketCache :: "(string set \<Rightarrow> string list) \<Rightarrow> ('s, 'c) service \<Rightarrow> cache_value \<Rightarrow> 's \<Rightarrow>
    (unit res \<times> cache_value) \<times> 's" where
  "updateTicketCache ordS S value s =
    (case value of
       TicketMap tickets \<Rightarrow>
         (case GetIndexedIDSet S s of
            (Inl e, s1) \<Rightarrow> ((Inl e, value), s1)
          | (Inr currentAll, s1) \<Rightarrow>
              let tickets1 = filter (\<lambda>p. fst p \<in> currentAll) tickets;
                  toFetch = filter (\<lambda>i. map_of tickets1 i = None) (ordS currentAll)
              in (case GetTickets S toFetch s1 of
                    (Inl e, s2) \<Rightarrow> ((Inl e, TicketMap tickets1), s2)
                  | (Inr newTickets, s2) \<Rightarrow>
                      ((Inr (), TicketMap (fold (\<lambda>t m. AList.update (t_Id t) t m) newTickets tickets1)), s2)))
     | _ \<Rightarrow> ((Inl (Status InvalidArgument), value), s))"

text \<open>A cached backfill of an older generation than the index says is dropped and fetched again.\<close>

definition updateBackfillCache :: "(string set \<Rightarrow> string list) \<Rightarrow> ('s, 'c) service \<Rightarrow> cache_value \<Rightarrow> 's \<Rightarrow>
    (unit res \<times> cache_value) \<times> 's" where
  "updateBackfillCache ordS S value s =
    (case value of
       BackfillMap backfills \<Rightarrow>
         (case GetIndexedBackfills S s of
            (Inl e, s1) \<Rightarrow> ((Inl e, value), s1)
          | (Inr index, s1) \<Rightarrow>
              let backfills1 = filter (\<lambda>(i, bf). case index i of None \<Rightarrow> False
                                        | Some generation \<Rightarrow> \<not> sint (bf_Generation bf) < generation) backfills;
                  toFetch = filter (\<lambda>i. map_of backfills1 i = None) (ordS (dom index))
              in (case GetBackfills S toFetch s1 of
                    (Inl e, s2) \<Rightarrow> ((Inl e, BackfillMap backfills1), s2)
                  | (Inr fetchedBackfills, s2) \<Rightarrow>
                      ((Inr (), BackfillMap (fold (\<lambda>b m. AList.update (bf_Id b) b m) fetchedBackfills backfills1)), s2)))
     | _ \<Rightarrow> ((Inl (Status InvalidArgument), value), s))"

section \<open>Pages\<close>

definition getPageSize :: "config_view \<Rightarrow> int" where
  "getPageSize cfg =
    (if \<not> IsSet cfg ''queryPageSize'' then 1000
     else
       let pSize = GetInt cfg ''queryPageSize'';
           pSize = (if pSize < 10 then 10 else pSize)
       in if pSize > 10000 then 10000 else pSize)"

text \<open>
  The sending loop: \<open>sendFails n\<close> is whether the stream rejects the page after \<open>n\<close> pages. The loop gets
  fuel; \<open>None\<close> means that the fuel did not suffice.
\<close>

fun send_pages :: "nat \<Rightarrow> (nat \<Rightarrow> bool) \<Rightarrow> nat \<Rightarrow> 'a list \<Rightarrow> nat \<Rightarrow> 'a list list \<Rightarrow> (unit res \<times> 'a list list) option" where
  "send_pages 0 sendFails pSize results start pages = None"
| "send_pages (Suc fuel) sendFails pSize results start pages =
     (if start < length results then
        (let e = (if start + pSize > length results then length results else start + pSize);
             page = take (e - start) (drop start results)
         in if sendFails (length pages) then Some (Inl (StreamErr 0), pages)
            else send_pages fuel sendFails pSize results (start + pSize) (pages @ [page]))
      else Some (Inr (), pages))"

definition send_results :: "config_view \<Rightarrow> (nat \<Rightarrow> bool) \<Rightarrow> 'a list \<Rightarrow> (unit res \<times> 'a list list) option" where
  "send_results cfg sendFails results =
     send_pages (Suc (length results)) sendFails (nat (getPageSize cfg)) results 0 []"

section \<open>Queries\<close>

text \<open>
  What a cache request yields: the error of the context or of the update, or the value, on which the
  query's callback runs. A value of another type is only logged and leaves the results empty.
\<close>

definition ticket_matches :: "(timestamp option \<Rightarrow> gtime option) \<Rightarrow> ((string \<times> ticket) list \<Rightarrow> (string \<times> ticket) list) \<Rightarrow>
    pool_filter \<Rightarrow> cache_value \<Rightarrow> (string \<times> ticket) list" where
  "ticket_matches ts_time iter pf value =
    (case value of
       TicketMap tickets \<Rightarrow> filter (\<lambda>(i, t). In ts_time pf (ticket_entity t)) (iter tickets)
     | _ \<Rightarrow> [])"

definition backfill_matches :: "(timestamp option \<Rightarrow> gtime option) \<Rightarrow> ((string \<times> backfill) list \<Rightarrow> (string \<times> backfill) list) \<Rightarrow>
    pool_filter \<Rightarrow> cache_value \<Rightarrow> (string \<times> backfill) list" where
  "backfill_matches ts_time iter pf value =
    (case value of
       BackfillMap backfills \<Rightarrow> filter (\<lambda>(i, b). In ts_time pf (backfill_entity b)) (iter backfills)
     | _ \<Rightarrow> [])"

definition QueryTickets :: "config_view \<Rightarrow> (timestamp option \<Rightarrow> gtime option) \<Rightarrow>
    ((string \<times> ticket) list \<Rightarrow> (string \<times> ticket) list) \<Rightarrow> (nat \<Rightarrow> bool) \<Rightarrow> pool option \<Rightarrow> cache_value res \<Rightarrow>
    (unit res \<times> ticket list list) option" where
  "QueryTickets cfg ts_time iter sendFails pool request =
    (case pool of
       None \<Rightarrow> Some (Inl (Status InvalidArgument), [])
     | Some p \<Rightarrow>
         (case NewPoolFilter ts_time p of
            Inl e \<Rightarrow> Some (Inl e, [])
          | Inr pf \<Rightarrow>
              (case request of
                 Inl e \<Rightarrow> Some (Inl (Wrapped e), [])
               | Inr value \<Rightarrow> send_results cfg sendFails (map snd (ticket_matches ts_time iter pf value)))))"

definition QueryTicketIds :: "config_view \<Rightarrow> (timestamp option \<Rightarrow> gtime option) \<Rightarrow>
    ((string \<times> ticket) list \<Rightarrow> (string \<times> ticket) list) \<Rightarrow> (nat \<Rightarrow> bool) \<Rightarrow> pool option \<Rightarrow> cache_value res \<Rightarrow>
    (unit res \<times> string list list) option" where
  "QueryTicketIds cfg ts_time iter sendFails pool request =
    (case pool of
       None \<Rightarrow> Some (Inl (Status InvalidArgument), [])
     | Some p \<Rightarrow>
         (case NewPoolFilter ts_time p of
            Inl e \<Rightarrow> Some (Inl e, [])
          | Inr pf \<Rightarrow>
              (case request of
                 Inl e \<Rightarrow> Some (Inl (Wrapped e), [])
               | Inr value \<Rightarrow> send_results cfg sendFails (map fst (ticket_matches ts_time iter pf value)))))"

definition QueryBackfills :: "config_view \<Rightarrow> (timestamp option \<Rightarrow> gtime option) \<Rightarrow>
    ((string \<times> backfill) list \<Rightarrow> (string \<times> backfill) list) \<Rightarrow> (nat \<Rightarrow> bool) \<Rightarrow> pool option \<Rightarrow> cache_value res \<Rightarrow>
    (unit res \<times> backfill list list) option" where
  "QueryBackfills cfg ts_time iter sendFails pool request =
    (case pool of
       None \<Rightarrow> Some (Inl (Status InvalidArgument), [])
     | Some p \<Rightarrow>
         (case NewPoolFilter ts_time p of
            Inl e \<Rightarrow> Some (Inl e, [])
          | Inr pf \<Rightarrow>
              (case request of
                 Inl e \<Rightarrow> Some (Inl (Wrapped e), [])
               | Inr value \<Rightarrow> send_results cfg sendFails (map snd (backfill_matches ts_time iter pf value)))))"

section \<open>Pages are a partition of the results\<close>

text \<open>The reference: consecutive pieces of \<open>n\<close> elements, the last one possibly shorter.\<close>

function chunks :: "nat \<Rightarrow> 'a list \<Rightarrow> 'a list list" where
  "chunks n xs = (if xs = [] \<or> n = 0 then [] else take n xs # chunks n (drop n xs))"
  by auto
termination
  by (relation "measure (length \<circ> snd)") auto

declare chunks.simps [simp del]

lemma chunks_Nil [simp]: "chunks n [] = []"
  by (simp add: chunks.simps)

lemma chunks_step: "xs \<noteq> [] \<Longrightarrow> n > 0 \<Longrightarrow> chunks n xs = take n xs # chunks n (drop n xs)"
  by (simp add: chunks.simps)

lemma chunks_concat: "n > 0 \<Longrightarrow> concat (chunks n xs) = xs"
  by (induction n xs rule: chunks.induct) (subst chunks.simps, simp)

lemma chunks_page: "n > 0 \<Longrightarrow> p \<in> set (chunks n xs) \<Longrightarrow> p \<noteq> [] \<and> length p \<le> n"
proof (induction n xs rule: chunks.induct)
  case (1 n xs)
  then show ?case by (cases "xs = []") (auto simp: chunks_step)
qed

lemma getPageSize_range: "10 \<le> getPageSize cfg" "getPageSize cfg \<le> 10000"
  by (simp_all add: getPageSize_def Let_def)

text \<open>With enough fuel the loop ends: it sends the pages up to the first that the stream rejects.\<close>

lemma send_pages_total:
  assumes "pSize > 0" and "length results - start < fuel"
  shows "\<exists>r out. send_pages fuel sendFails pSize results start pages = Some (r, pages @ out) \<and>
    prefix out (chunks pSize (drop start results)) \<and>
    (r = Inr () \<longleftrightarrow> out = chunks pSize (drop start results)) \<and>
    ((\<forall>k. \<not> sendFails k) \<longrightarrow> r = Inr ()) \<and> (\<forall>k < length out. \<not> sendFails (length pages + k)) \<and>
    (r \<noteq> Inr () \<longrightarrow> sendFails (length pages + length out))"
  using assms
proof (induction fuel arbitrary: start pages)
  case (Suc fuel)
  show ?case
  proof (cases "start < length results")
    case True
    let ?page = "take pSize (drop start results)"
    have chunks: "chunks pSize (drop start results) = ?page # chunks pSize (drop (start + pSize) results)"
      using True Suc.prems(1) by (subst chunks_step) (auto simp: add.commute)
    have page: "take ((if start + pSize > length results then length results else start + pSize) - start) (drop start results) = ?page"
      by auto
    show ?thesis
    proof (cases "sendFails (length pages)")
      case fails: True
      then have "send_pages (Suc fuel) sendFails pSize results start pages = Some (Inl (StreamErr 0), pages @ [])"
        using True by (simp add: Let_def)
      with fails show ?thesis unfolding chunks by (intro exI [of _ "Inl (StreamErr 0)"] exI [of _ "[]"]) auto
    next
      case False
      have "length results - (start + pSize) < fuel" using Suc.prems True by linarith
      from Suc.IH [OF Suc.prems(1) this, of "pages @ [?page]"] obtain r out where
        h: "send_pages fuel sendFails pSize results (start + pSize) (pages @ [?page]) = Some (r, (pages @ [?page]) @ out)"
          "prefix out (chunks pSize (drop (start + pSize) results))" "r = Inr () \<longleftrightarrow> out = chunks pSize (drop (start + pSize) results)"
          "(\<forall>k. \<not> sendFails k) \<longrightarrow> r = Inr ()" "\<forall>k < length out. \<not> sendFails (length (pages @ [?page]) + k)"
          "r \<noteq> Inr () \<longrightarrow> sendFails (length (pages @ [?page]) + length out)" by blast
      from h(5) False have "\<forall>k < length (?page # out). \<not> sendFails (length pages + k)"
        by (auto simp: less_Suc_eq_0_disj)
      moreover have "send_pages (Suc fuel) sendFails pSize results start pages = Some (r, pages @ (?page # out))"
        using True False h(1) page by (simp add: Let_def)
      ultimately show ?thesis unfolding chunks using h(2,3,4,6) by (intro exI [of _ r] exI [of _ "?page # out"]) auto
    qed
  qed (simp add: exI [of _ "[]"])
qed simp


lemma send_results_partition:
  "\<exists>r pages rest. send_results cfg sendFails results = Some (r, pages) \<and> concat (pages @ rest) = results \<and> (r = Inr () \<longleftrightarrow> rest = [])"
proof -
  have n: "nat (getPageSize cfg) > 0" using getPageSize_range(1) [of cfg] by simp
  from send_pages_total [OF n, of results 0 "Suc (length results)" sendFails "[]"] chunks_concat [OF n, of results]
  show ?thesis by (auto simp: send_results_def prefix_def)
qed

lemma send_results_ok:
  assumes "\<forall>k. \<not> sendFails k"
  shows "\<exists>pages. send_results cfg sendFails results = Some (Inr (), pages) \<and> concat pages = results \<and>
    (\<forall>p \<in> set pages. p \<noteq> [] \<and> length p \<le> nat (getPageSize cfg))"
proof -
  have n: "nat (getPageSize cfg) > 0" using getPageSize_range(1) [of cfg] by simp
  from send_pages_total [OF n, of results 0 "Suc (length results)" sendFails "[]"] assms chunks_concat [OF n, of results]
    chunks_page [OF n, of _ results] show ?thesis by (auto simp: send_results_def)
qed


section \<open>The caches follow the store\<close>

lemma map_of_keep:
  "distinct (map fst xs) \<Longrightarrow>
   map_of (filter (\<lambda>(i, x). P i x) xs) i = (case map_of xs i of Some x \<Rightarrow> if P i x then Some x else None | None \<Rightarrow> None)"
  by (induction xs) (auto split: option.splits simp: map_of_eq_None_iff image_iff)

lemma distinct_keep: "distinct (map fst xs) \<Longrightarrow> distinct (map fst (filter P xs))"
  by (induction xs) auto

lemma refresh_distinct:
  "distinct (map fst al) \<Longrightarrow> distinct (map fst (fold (\<lambda>x m. AList.update (k x) x m) xs al))"
  by (induction xs arbitrary: al) (simp_all add: AList.distinct_update)

lemma refresh_map_of:
  assumes "map k xs = filter (\<lambda>i. found i \<noteq> None) ids" and "\<And>x. x \<in> set xs \<Longrightarrow> found (k x) = Some x"
  shows "map_of (fold (\<lambda>x m. AList.update (k x) x m) xs al) i = (if i \<in> set ids \<and> found i \<noteq> None then found i else map_of al i)"
proof -
  have upd: "map_of (fold (\<lambda>x m. AList.update (k x) x m) xs al) i = (if i \<in> k ` set xs then found i else map_of al i)"
    using assms(2) by (induction xs arbitrary: al) (auto simp: AList.update_conv')
  have "set (map k xs) = {i \<in> set ids. found i \<noteq> None}" unfolding assms(1) by auto
  with upd show ?thesis by auto
qed

lemma found_each:
  "those (map dec (List.map_filter f ids)) = Some ts \<Longrightarrow> t \<in> set ts \<Longrightarrow> \<exists>i b. i \<in> set ids \<and> f i = Some b \<and> dec b = Some t"
proof (induction ids arbitrary: ts)
  case (Cons j ids)
  then show ?case by (cases "f j") (fastforce simp: List.map_filter_simps split: option.splits)+
qed (simp add: List.map_filter_simps)

text \<open>Tickets (and backfills) stored under the ids decode to the ticket (backfill) with that id.\<close>

definition own_tickets :: "('b \<Rightarrow> ticket option) \<Rightarrow> string set \<Rightarrow> 'b astore \<Rightarrow> bool" where
  "own_tickets dec A a \<longleftrightarrow> (\<forall>i \<in> A. \<forall>b. objs a i = Some b \<longrightarrow> (\<exists>t. dec b = Some t \<and> t_Id t = i))"

definition own_backfills :: "('b \<Rightarrow> backfill_internal option) \<Rightarrow> string set \<Rightarrow> 'b astore \<Rightarrow> bool" where
  "own_backfills dec A a \<longleftrightarrow> (\<forall>i \<in> A. \<forall>b. objs a i = Some b \<longrightarrow>
     (\<exists>bi bf. dec b = Some bi \<and> bi_Backfill bi = Some bf \<and> bf_Id bf = i))"

definition stored_ticket :: "('b \<Rightarrow> ticket option) \<Rightarrow> 'b astore \<Rightarrow> string \<rightharpoonup> ticket" where
  "stored_ticket dec a i = Option.bind (objs a i) dec"

definition stored_backfill :: "('b \<Rightarrow> backfill_internal option) \<Rightarrow> 'b astore \<Rightarrow> string \<rightharpoonup> backfill" where
  "stored_backfill dec a i = Option.bind (Option.bind (objs a i) dec) bi_Backfill"

lemma get_tickets_own:
  assumes own: "own_tickets dec A a" and ids: "set ids \<subseteq> A"
  obtains ts where "as_GetTickets dec ids a = Inr ts" "map t_Id ts = filter (\<lambda>i. stored_ticket dec a i \<noteq> None) ids"
    "\<And>t. t \<in> set ts \<Longrightarrow> stored_ticket dec a (t_Id t) = Some t"
proof -
  have dec: "dec b \<noteq> None" if "i \<in> set ids" "objs a i = Some b" for i b using own ids that by (fastforce simp: own_tickets_def)
  obtain ts where ts: "those (map dec (List.map_filter (objs a) ids)) = Some ts" using found_all [of ids "objs a" dec] dec by blast
  have g: "t_Id t = i" if "i \<in> set ids" "objs a i = Some b" "dec b = Some t" for i b t
    using own ids that by (fastforce simp: own_tickets_def)
  have "map t_Id ts = filter (\<lambda>i. objs a i \<noteq> None) ids" using found_map_ids [OF ts, of t_Id] g by blast
  also have "\<dots> = filter (\<lambda>i. stored_ticket dec a i \<noteq> None) ids"
    by (rule filter_cong [OF refl]) (use dec in \<open>auto simp: stored_ticket_def bind_eq_None_conv\<close>)
  finally have keys: "map t_Id ts = filter (\<lambda>i. stored_ticket dec a i \<noteq> None) ids" .
  moreover have "stored_ticket dec a (t_Id t) = Some t" if "t \<in> set ts" for t
    using found_each [OF ts that] g by (auto simp: stored_ticket_def)
  ultimately show thesis using that [of ts] ts by (simp add: as_GetTickets_def)
qed

lemma backfill_table_own:
  assumes "\<And>bi. bi \<in> set bis \<Longrightarrow> \<exists>b. bi_Backfill bi = Some b \<and> found (bf_Id b) = Some b"
  shows "backfill_table bis i = (if \<exists>bi b. bi \<in> set bis \<and> bi_Backfill bi = Some b \<and> bf_Id b = i then found i else None)"
  unfolding backfill_table_def using assms
proof (induction bis rule: rev_induct)
  case (snoc bi bis)
  from snoc.prems [of bi] obtain b where b: "bi_Backfill bi = Some b" "found (bf_Id b) = Some b" by auto
  have "(\<exists>bi' b'. bi' \<in> set (bis @ [bi]) \<and> bi_Backfill bi' = Some b' \<and> bf_Id b' = i) \<longleftrightarrow>
      bf_Id b = i \<or> (\<exists>bi' b'. bi' \<in> set bis \<and> bi_Backfill bi' = Some b' \<and> bf_Id b' = i)"
    using b(1) by auto
  with snoc.IH snoc.prems b show ?case by auto
qed simp

lemma get_backfills_own:
  assumes own: "own_backfills dec A a" and ids: "set ids \<subseteq> A"
  obtains bs where "as_GetBackfills dec ids a = Inr bs" "map bf_Id bs = filter (\<lambda>i. stored_backfill dec a i \<noteq> None) ids"
    "\<And>b. b \<in> set bs \<Longrightarrow> stored_backfill dec a (bf_Id b) = Some b"
proof -
  have dec: "\<exists>bi bf. dec b = Some bi \<and> bi_Backfill bi = Some bf \<and> bf_Id bf = i" if "i \<in> set ids" "objs a i = Some b" for i b
    using own ids that by (auto simp: own_backfills_def)
  obtain bis where bis: "those (map dec (List.map_filter (objs a) ids)) = Some bis"
    using found_all [of ids "objs a" dec] dec by fastforce
  have own': "\<exists>b. bi_Backfill bi = Some b \<and> stored_backfill dec a (bf_Id b) = Some b" if "bi \<in> set bis" for bi
    using found_each [OF bis that] dec by (fastforce simp: stored_backfill_def)
  have id: "stored_backfill dec a i = Some b \<Longrightarrow> bf_Id b = i" if "i \<in> set ids" for i b
    using dec that by (fastforce simp: stored_backfill_def bind_eq_Some_conv)
  have all: "\<exists>bi b'. bi \<in> set bis \<and> bi_Backfill bi = Some b' \<and> bf_Id b' = i" if "i \<in> set ids" "stored_backfill dec a i = Some b" for i b
  proof -
    from that(2) obtain x bi where x: "objs a i = Some x" "dec x = Some bi" "bi_Backfill bi = Some b"
      by (auto simp: stored_backfill_def bind_eq_Some_conv)
    then have "x \<in> set (List.map_filter (objs a) ids)" using that(1) by (force simp: List.map_filter_def)
    from those_zip [OF bis this] x(2) have "bi \<in> set bis" by (auto dest: set_zip_rightD)
    with x(3) id [OF that] show ?thesis by blast
  qed
  let ?bs = "List.map_filter (backfill_table bis) ids"
  have tab: "backfill_table bis i = stored_backfill dec a i" if "i \<in> set ids" for i
    using backfill_table_own [OF own', where i = i] all [OF that] by (cases "stored_backfill dec a i") auto
  have "map bf_Id ?bs = filter (\<lambda>i. stored_backfill dec a i \<noteq> None) ids"
    using tab id by (induction ids) (auto simp: List.map_filter_simps split: option.splits)
  moreover have "stored_backfill dec a (bf_Id b) = Some b" if "b \<in> set ?bs" for b
    using that tab id by (auto simp: List.map_filter_def)
  ultimately show thesis using that [of ?bs] bis by (simp add: as_GetBackfills_def)
qed

context statestore
begin

lemma update_ticket_cache:
  assumes good: "good s" and ts: "distinct (map fst ts)" and run: "updateTicketCache ordS S (TicketMap ts) s = ((r, v), s')"
    and ordS: "\<And>A. finite A \<Longrightarrow> set (ordS A) = A" and own: "own_tickets decT (tindex (store s)) (store s)"
  shows "\<exists>now ts'. clock s \<le> now \<and> now \<le> clock s' \<and> good s' \<and> store s' = store s \<and> r = Inr () \<and> v = TicketMap ts' \<and>
    distinct (map fst ts') \<and> map_of ts' = (\<lambda>i. if i \<in> as_GetIndexedIDSet dbl pttl now (store s)
      then (case map_of ts i of Some t \<Rightarrow> Some t | None \<Rightarrow> stored_ticket decT (store s) i) else None)"
proof -
  obtain now ra s1 where 1: "GetIndexedIDSet S s = (ra, s1)" "clock s \<le> now" "now \<le> clock s1" "good s1" "store s1 = store s"
    "ra = Inr (as_GetIndexedIDSet dbl pttl now (store s))" "finite (tindex (store s))"
    by (rule meetsE [OF get_indexed good]) auto
  let ?cur = "as_GetIndexedIDSet dbl pttl now (store s)" and ?ts1 = "\<lambda>cur. filter (\<lambda>p. fst p \<in> cur) ts"
  let ?ids = "filter (\<lambda>i. map_of (?ts1 ?cur) i = None) (ordS ?cur)"
  have sub: "?cur \<subseteq> tindex (store s)" by (auto simp: as_GetIndexedIDSet_def)
  have cur: "set (ordS ?cur) = ?cur" by (rule ordS) (use 1(7) sub in \<open>auto intro: finite_subset\<close>)
  obtain rts s2 where 2: "GetTickets S ?ids s1 = (rts, s2)" "clock s1 \<le> clock s2" "good s2" "store s2 = store s1"
    "rts = as_GetTickets decT ?ids (store s1)"
    by (rule meetsE [OF get_tickets [of ?ids] 1(4)]) auto
  have ids: "set ?ids \<subseteq> tindex (store s)" using sub cur by auto
  obtain new where new: "as_GetTickets decT ?ids (store s) = Inr new"
    "map t_Id new = filter (\<lambda>i. stored_ticket decT (store s) i \<noteq> None) ?ids"
    "\<And>t. t \<in> set new \<Longrightarrow> stored_ticket decT (store s) (t_Id t) = Some t"
    using get_tickets_own [OF own ids] by blast
  let ?ts' = "fold (\<lambda>t m. AList.update (t_Id t) t m) new (?ts1 ?cur)"
  have kept: "map_of (?ts1 ?cur) i = (if i \<in> ?cur then map_of ts i else None)" for i
    using map_of_keep [OF ts, of "\<lambda>i _. i \<in> ?cur"] by (simp add: case_prod_unfold split: option.splits)
  have "map_of ?ts' i = (if i \<in> ?cur then (case map_of ts i of Some t \<Rightarrow> Some t | None \<Rightarrow> stored_ticket decT (store s) i) else None)" for i
    by (subst refresh_map_of [OF new(2,3)]) (auto simp: kept cur split: option.splits)
  moreover have "r = Inr ()" "v = TicketMap ?ts'" "s' = s2"
    using run 1(1,5,6) 2(1,5) new(1) by (auto simp: updateTicketCache_def Let_def)
  ultimately show ?thesis using 1 2 refresh_distinct [OF distinct_keep [OF ts]]
    by (intro exI [of _ now] exI [of _ ?ts']) auto
qed

lemma update_backfill_cache:
  assumes good: "good s" and bs: "distinct (map fst bs)" and run: "updateBackfillCache ordS S (BackfillMap bs) s = ((r, v), s')"
    and ordS: "\<And>A. finite A \<Longrightarrow> set (ordS A) = A" and own: "own_backfills decB (dom (bindex (store s))) (store s)"
    and gens: "\<And>i g. bindex (store s) i = Some g \<Longrightarrow> atoi g \<noteq> None"
  shows "\<exists>now idx bs'. clock s \<le> now \<and> now \<le> clock s' \<and> good s' \<and> store s' = store s \<and> r = Inr () \<and> v = BackfillMap bs' \<and>
    as_GetIndexedBackfills dbl bttl now (store s) = Inr idx \<and> distinct (map fst bs') \<and>
    map_of bs' = (\<lambda>i. case idx i of None \<Rightarrow> None
      | Some g \<Rightarrow> (case map_of bs i of
          Some b \<Rightarrow> if sint (bf_Generation b) < g then stored_backfill decB (store s) i else Some b
        | None \<Rightarrow> stored_backfill decB (store s) i))"
proof -
  obtain now ra s1 where 1: "GetIndexedBackfills S s = (ra, s1)" "clock s \<le> now" "now \<le> clock s1" "good s1" "store s1 = store s"
    "ra = as_GetIndexedBackfills dbl bttl now (store s)" "finite (scored dbl (acks (store s)) (now - bttl) (now + Hour))"
    by (rule meetsE [OF get_indexed_backfills good]) auto
  let ?live = "scored dbl (acks (store s)) (now - bttl) (now + Hour)"
  define idx where "idx = (\<lambda>i. if i \<in> ?live then Option.bind (bindex (store s) i) atoi else None)"
  have ra: "as_GetIndexedBackfills dbl bttl now (store s) = Inr idx"
    using gens by (fastforce simp: as_GetIndexedBackfills_def idx_def Let_def)
  have dom: "dom idx \<subseteq> ?live" "dom idx \<subseteq> dom (bindex (store s))"
    by (auto simp: idx_def bind_eq_Some_conv split: if_splits)
  let ?P = "\<lambda>i bf. case idx i of None \<Rightarrow> False | Some generation \<Rightarrow> \<not> sint (bf_Generation bf) < generation"
  let ?bs1 = "filter (\<lambda>(i, bf). ?P i bf) bs"
  let ?ids = "filter (\<lambda>i. map_of ?bs1 i = None) (ordS (dom idx))"
  have cur: "set (ordS (dom idx)) = dom idx" by (rule ordS) (rule finite_subset [OF dom(1) 1(7)])
  obtain rbs s2 where 2: "GetBackfills S ?ids s1 = (rbs, s2)" "clock s1 \<le> clock s2" "good s2" "store s2 = store s1"
    "rbs = as_GetBackfills decB ?ids (store s1)"
    by (rule meetsE [OF get_backfills [of ?ids] 1(4)]) auto
  have ids: "set ?ids \<subseteq> dom (bindex (store s))" using dom(2) cur by auto
  obtain new where new: "as_GetBackfills decB ?ids (store s) = Inr new"
    "map bf_Id new = filter (\<lambda>i. stored_backfill decB (store s) i \<noteq> None) ?ids"
    "\<And>b. b \<in> set new \<Longrightarrow> stored_backfill decB (store s) (bf_Id b) = Some b"
    using get_backfills_own [OF own ids] by blast
  let ?bs' = "fold (\<lambda>b m. AList.update (bf_Id b) b m) new ?bs1"
  note kept = map_of_keep [OF bs, of ?P]
  have "map_of ?bs' i = (case idx i of None \<Rightarrow> None
      | Some g \<Rightarrow> (case map_of bs i of
          Some b \<Rightarrow> if sint (bf_Generation b) < g then stored_backfill decB (store s) i else Some b
        | None \<Rightarrow> stored_backfill decB (store s) i))" for i
    by (subst refresh_map_of [OF new(2,3)]) (auto simp: kept cur domIff split: option.splits)
  moreover have "r = Inr ()" "v = BackfillMap ?bs'" "s' = s2"
    using run 1(1,5,6) 2(1,5) new(1) ra by (auto simp: updateBackfillCache_def Let_def)
  ultimately show ?thesis using 1 2 ra refresh_distinct [OF distinct_keep [OF bs]]
    by (intro exI [of _ now] exI [of _ idx] exI [of _ ?bs']) auto
qed

end

section \<open>The request protocol\<close>

text \<open>
  Requests are numbered. A request sends itself on the unbuffered channel, waits for access, reads the
  error and the value and is done; when its context is done it may return before it gets access.
  \<open>startRunRequest\<close> holds a token while no \<open>runRequest\<close> is active; a sending request that takes it starts
  one. The runner waits for a first request, collects the waiting ones, updates the cache, offers access
  to each (or notices that its context is done) and waits for the readers, counted by the wait group.
  The store changes at any time. \<open>hist\<close> records the updates (the state of the store and the outcome) and
  \<open>asked i\<close> the number of updates before the request \<open>i\<close> was received: neither influences a step.
\<close>

datatype request_status = Sending | Waiting | Reading | Finished "cache_value res" | Cancelled

datatype runner =
    NoRunner
  | AwaitFirst
  | Collecting "nat list"
  | Updating "nat list"
  | Releasing "nat list"
  | Offering nat "nat list"
  | AwaitReaders

record 's cache_state =
  token :: bool
  run :: runner
  status :: "nat \<Rightarrow> request_status"
  ctxDone :: "nat \<Rightarrow> bool"
  wg :: nat
  c_err :: "unit res"
  c_value :: cache_value
  c_store :: 's
  hist :: "('s \<times> unit res \<times> cache_value) list"
  asked :: "nat \<Rightarrow> nat"

type_synonym 's cache_update = "cache_value \<Rightarrow> 's \<Rightarrow> (unit res \<times> cache_value) \<times> 's"

definition newCache :: "cache_value \<Rightarrow> 's \<Rightarrow> 's cache_state" where
  "newCache v s = \<lparr>token = True, run = NoRunner, status = (\<lambda>_. Sending), ctxDone = (\<lambda>_. False), wg = 0,
     c_err = Inr (), c_value = v, c_store = s, hist = [], asked = (\<lambda>_. 0)\<rparr>"

definition cache_answer :: "unit res \<Rightarrow> cache_value \<Rightarrow> cache_value res" where
  "cache_answer e v = (case e of Inl er \<Rightarrow> Inl er | Inr _ \<Rightarrow> Inr v)"

definition receive :: "nat \<Rightarrow> nat list \<Rightarrow> 's cache_state \<Rightarrow> 's cache_state" where
  "receive i rs c = c\<lparr>run := Collecting (rs @ [i]), status := (status c)(i := Waiting), asked := (asked c)(i := length (hist c))\<rparr>"

inductive cache_step :: "'s cache_update \<Rightarrow> 's cache_state \<Rightarrow> 's cache_state \<Rightarrow> bool" for update where
  store_changes: "cache_step update c (c\<lparr>c_store := s\<rparr>)"
| ctx_done: "cache_step update c (c\<lparr>ctxDone := (ctxDone c)(i := True)\<rparr>)"
| start: "token c \<Longrightarrow> status c i = Sending \<Longrightarrow> cache_step update c (c\<lparr>token := False, run := AwaitFirst\<rparr>)"
| first: "run c = AwaitFirst \<Longrightarrow> status c i = Sending \<Longrightarrow> cache_step update c (receive i [] c)"
| collect: "run c = Collecting rs \<Longrightarrow> status c i = Sending \<Longrightarrow> cache_step update c (receive i rs c)"
| collected: "run c = Collecting rs \<Longrightarrow> cache_step update c (c\<lparr>run := Updating rs\<rparr>)"
| updated: "run c = Updating rs \<Longrightarrow> update (c_value c) (c_store c) = ((e, v), s) \<Longrightarrow>
    cache_step update c (c\<lparr>run := Releasing rs, c_err := e, c_value := v, c_store := s,
      hist := hist c @ [(c_store c, e, v)]\<rparr>)"
| offer: "run c = Releasing (i # rs) \<Longrightarrow> cache_step update c (c\<lparr>run := Offering i rs, wg := wg c + 1\<rparr>)"
| grant: "run c = Offering i rs \<Longrightarrow> status c i = Waiting \<Longrightarrow>
    cache_step update c (c\<lparr>run := Releasing rs, status := (status c)(i := Reading)\<rparr>)"
| withdraw: "run c = Offering i rs \<Longrightarrow> ctxDone c i \<Longrightarrow> cache_step update c (c\<lparr>run := Releasing rs, wg := wg c - 1\<rparr>)"
| cancel: "ctxDone c i \<Longrightarrow> status c i = Sending \<or> status c i = Waiting \<Longrightarrow>
    cache_step update c (c\<lparr>status := (status c)(i := Cancelled)\<rparr>)"
| finish: "status c i = Reading \<Longrightarrow>
    cache_step update c (c\<lparr>status := (status c)(i := Finished (cache_answer (c_err c) (c_value c))), wg := wg c - 1\<rparr>)"
| released: "run c = Releasing [] \<Longrightarrow> cache_step update c (c\<lparr>run := AwaitReaders\<rparr>)"
| restart: "run c = AwaitReaders \<Longrightarrow> wg c = 0 \<Longrightarrow> cache_step update c (c\<lparr>run := NoRunner, token := True\<rparr>)"

inductive_cases cache_stepE: "cache_step update c c'"

abbreviation cache_reachable :: "'s cache_update \<Rightarrow> 's cache_state \<Rightarrow> 's cache_state \<Rightarrow> bool" where
  "cache_reachable update \<equiv> (cache_step update)\<^sup>*\<^sup>*"

section \<open>Invariant of the protocol\<close>

text \<open>
  Control: the token is there exactly when no runner is; the wait group counts the readers and the
  request being offered access; there are readers only after the update; the requests that the runner
  holds are distinct and wait, or their context is done.
\<close>

fun release_phase :: "runner \<Rightarrow> bool" where
  "release_phase (Releasing _) = True"
| "release_phase (Offering _ _) = True"
| "release_phase AwaitReaders = True"
| "release_phase _ = False"

fun held :: "runner \<Rightarrow> nat list" where
  "held (Collecting rs) = rs"
| "held (Updating rs) = rs"
| "held (Releasing rs) = rs"
| "held (Offering i rs) = i # rs"
| "held _ = []"

fun offering :: "runner \<Rightarrow> nat" where
  "offering (Offering _ _) = 1"
| "offering _ = 0"

definition readers :: "(nat \<Rightarrow> request_status) \<Rightarrow> nat set" where
  "readers st = {i. st i = Reading}"

definition control_inv :: "'s cache_state \<Rightarrow> bool" where
  "control_inv c \<longleftrightarrow> (token c \<longleftrightarrow> run c = NoRunner) \<and> finite (readers (status c)) \<and>
     wg c = card (readers (status c)) + offering (run c) \<and>
     (readers (status c) \<noteq> {} \<longrightarrow> release_phase (run c)) \<and> distinct (held (run c)) \<and>
     (\<forall>i \<in> set (held (run c)). status c i = Waiting \<or> status c i = Cancelled \<and> ctxDone c i)"

text \<open>
  Data: the updates started from the initial value, each from the value the one before it left; the
  current error and value are those of the last update; the requests a runner holds were received since
  the update before its own; and readers, and requests that are done, see the first update after the
  request was received.
\<close>

fun update_chain :: "'s cache_update \<Rightarrow> cache_value \<Rightarrow> ('s \<times> unit res \<times> cache_value) list \<Rightarrow> bool" where
  "update_chain update v [] = True"
| "update_chain update v ((s, e, w) # h) \<longleftrightarrow> fst (update v s) = (e, w) \<and> update_chain update w h"

definition last_value :: "cache_value \<Rightarrow> ('s \<times> unit res \<times> cache_value) list \<Rightarrow> cache_value" where
  "last_value v h = (if h = [] then v else snd (snd (last h)))"

definition last_err :: "('s \<times> unit res \<times> cache_value) list \<Rightarrow> unit res" where
  "last_err h = (if h = [] then Inr () else fst (snd (last h)))"

definition answer_of :: "'s \<times> unit res \<times> cache_value \<Rightarrow> cache_value res" where
  "answer_of u = cache_answer (fst (snd u)) (snd (snd u))"

definition data_inv :: "'s cache_update \<Rightarrow> cache_value \<Rightarrow> 's cache_state \<Rightarrow> bool" where
  "data_inv update v0 c \<longleftrightarrow> update_chain update v0 (hist c) \<and> c_value c = last_value v0 (hist c) \<and> c_err c = last_err (hist c) \<and>
     (\<forall>i \<in> set (held (run c)). asked c i + (if release_phase (run c) then 1 else 0) = length (hist c)) \<and>
     (\<forall>i. status c i = Reading \<longrightarrow> asked c i + 1 = length (hist c)) \<and>
     (\<forall>i r. status c i = Finished r \<longrightarrow> asked c i < length (hist c) \<and> r = answer_of (hist c ! asked c i))"

lemma update_chain_snoc:
  "update_chain update v (h @ [(s, e, w)]) \<longleftrightarrow> update_chain update v h \<and> fst (update (last_value v h) s) = (e, w)"
  by (induction update v h rule: update_chain.induct) (auto simp: last_value_def)

lemma last_value_simps [simp]: "last_value v [] = v" "last_value v ((s, e, w) # h) = last_value w h"
  by (simp_all add: last_value_def)

lemma update_chain_nth:
  "update_chain update v h \<Longrightarrow> n < length h \<Longrightarrow> fst (update (last_value v (take n h)) (fst (h ! n))) = snd (h ! n)"
proof (induction update v h arbitrary: n rule: update_chain.induct)
  case (2 update v s e w h)
  then show ?case by (cases n) auto
qed simp

lemma update_chain_take: "update_chain update v h \<Longrightarrow> update_chain update v (take n h)"
  by (induction update v h arbitrary: n rule: update_chain.induct) (auto simp: take_Cons split: nat.splits)

lemma readers_iff [simp]: "i \<in> readers st \<longleftrightarrow> st i = Reading"
  by (simp add: readers_def)

lemma readers_grant [simp]: "readers (st(i := Reading)) = insert i (readers st)"
  by (auto split: if_splits)

lemma readers_quiet [simp]: "x \<noteq> Reading \<Longrightarrow> readers (st(i := x)) = readers st - {i}"
  by (auto split: if_splits)

lemma control_init: "control_inv (newCache v s)"
  by (simp add: control_inv_def newCache_def readers_def)

lemma data_init: "data_inv update v (newCache v s)"
  by (simp add: data_inv_def newCache_def last_value_def last_err_def)

lemma control_step: "cache_step update c c' \<Longrightarrow> control_inv c \<Longrightarrow> control_inv c'"
proof (induction rule: cache_step.induct)
  case (finish c i)
  then have i: "i \<in> readers (status c)" and fin: "finite (readers (status c))" by (simp_all add: control_inv_def)
  then have "card (readers (status c)) > 0" "readers (status c) \<noteq> {}" by (auto simp: card_gt_0_iff simp del: readers_iff)
  with finish show ?case by (auto simp: control_inv_def)
next
  case (restart c)
  then have "readers (status c) = {}" by (auto simp: control_inv_def simp del: readers_iff)
  with restart show ?case by (simp add: control_inv_def)
qed (auto simp: control_inv_def receive_def)

lemma data_step: "cache_step update c c' \<Longrightarrow> control_inv c \<Longrightarrow> data_inv update v0 c \<Longrightarrow> data_inv update v0 c'"
proof (induction rule: cache_step.induct)
  case (updated c rs e v s)
  then have "readers (status c) = {}" by (auto simp: control_inv_def)
  with updated show ?case
    by (auto simp: data_inv_def update_chain_snoc last_value_def last_err_def nth_append less_Suc_eq)
next
  case (finish c i)
  then have "asked c i + 1 = length (hist c)" by (simp add: data_inv_def)
  then have "hist c \<noteq> []" "asked c i = length (hist c) - 1" by auto
  with finish show ?case
    by (auto simp: data_inv_def answer_of_def last_value_def last_err_def last_conv_nth)
qed (auto simp: data_inv_def control_inv_def receive_def)

lemma cache_invariant: "cache_reachable update (newCache v s) c \<Longrightarrow> control_inv c \<and> data_inv update v c"
proof (induction rule: rtranclp_induct)
  case base
  show ?case by (simp add: control_init data_init)
next
  case (step c c')
  then show ?case using control_step [of update c c'] data_step [of update c c' v] by simp
qed

text \<open>C11: The runner and the readers exclude each other: while the cache is being updated no request
  reads it, the wait group counts exactly the requests with access (so it never becomes negative), and
  there is at most one runner (the token is absent while one is active).\<close>

theorem cache_no_race:
  assumes "cache_reachable update (newCache v s) c"
  shows "(\<forall>rs i. run c = Updating rs \<longrightarrow> status c i \<noteq> Reading) \<and> (token c \<longleftrightarrow> run c = NoRunner) \<and>
    (\<forall>i rs. status c i = Reading \<or> run c = Offering i rs \<longrightarrow> wg c > 0)"
proof -
  from cache_invariant [OF assms] have c: "control_inv c" by simp
  have "status c i \<noteq> Reading" if "readers (status c) = {}" for i using that by (auto simp: readers_def)
  moreover have "card (readers (status c)) > 0" if "status c i = Reading" for i
    using c that by (auto simp: control_inv_def card_gt_0_iff readers_def)
  ultimately show ?thesis using c by (auto simp: control_inv_def)
qed

text \<open>Freshness. The answer of every finished request is the outcome of the first update that ran after
  the request was received, on the store as it was at that update and on the value the update before it left.\<close>

theorem cache_fresh:
  assumes "cache_reachable update (newCache v s) c" and "status c i = Finished r"
  shows "\<exists>st e w. asked c i < length (hist c) \<and> hist c ! asked c i = (st, e, w) \<and> r = cache_answer e w \<and>
    (e, w) = fst (update (last_value v (take (asked c i) (hist c))) st)"
proof -
  from cache_invariant [OF assms(1)] have d: "data_inv update v c" by simp
  then have n: "asked c i < length (hist c)" "r = answer_of (hist c ! asked c i)"
    using assms(2) by (auto simp: data_inv_def)
  from d have "update_chain update v (hist c)" by (simp add: data_inv_def)
  from update_chain_nth [OF this n(1)] n show ?thesis
    by (cases "hist c ! asked c i") (auto simp: answer_of_def)
qed

text \<open>C12: The runner is never stuck: once it has a request, some step of the runner or of a reader is
  possible, also when contexts are cancelled.\<close>

theorem cache_progress:
  assumes "cache_reachable update (newCache v s) c" and "run c \<noteq> NoRunner" and "run c \<noteq> AwaitFirst"
  shows "\<exists>c'. cache_step update c c' \<and> (run c' \<noteq> run c \<or> wg c' < wg c)"
proof -
  from cache_invariant [OF assms(1)] have inv: "control_inv c" by simp
  show ?thesis
  proof (cases "run c")
    case (Updating rs)
    obtain e w s' where "update (c_value c) (c_store c) = ((e, w), s')" by (metis surj_pair)
    from cache_step.updated [of c rs update, OF Updating this] show ?thesis using Updating by auto
  next
    case (Releasing rs)
    then show ?thesis using cache_step.released [of c update] cache_step.offer [of c _ _ update] by (cases rs) auto
  next
    case (Offering i rs)
    with inv have "status c i = Waiting \<or> ctxDone c i" by (auto simp: control_inv_def)
    then show ?thesis
    proof
      assume "status c i = Waiting"
      from cache_step.grant [of c i rs update, OF Offering this] show ?thesis using Offering by auto
    next
      assume "ctxDone c i"
      from cache_step.withdraw [of c i rs update, OF Offering this] show ?thesis using Offering by auto
    qed
  next
    case AwaitReaders
    show ?thesis
    proof (cases "wg c = 0")
      case True
      from cache_step.restart [of c update, OF AwaitReaders True] show ?thesis using AwaitReaders by auto
    next
      case False
      with inv AwaitReaders obtain i where "status c i = Reading" by (auto simp: control_inv_def readers_def card_gt_0_iff)
      from cache_step.finish [of c i update, OF this] show ?thesis using False by auto
    qed
  next
    case (Collecting rs)
    from cache_step.collected [of c rs update, OF this] show ?thesis using Collecting by auto
  qed (use assms(2,3) in auto)
qed

section \<open>Queries on a changing store\<close>

text \<open>A store state in which the tickets under the indexed ids are the tickets of these ids.\<close>

definition query_ready :: "('s, 'b) env \<Rightarrow> ('s \<Rightarrow> 'b keyspace) \<Rightarrow> 's \<Rightarrow> bool" where
  "query_ready E view s \<longleftrightarrow> wf_keys (view s) \<and>
     own_tickets (UnmarshalTicket E) (set_of (view s) allTickets) (astore_of (view s))"

lemma ticket_chain:
  assumes contract: "statestore S (\<lambda>s. wf_keys (view s)) (\<lambda>s. astore_of (view s)) (Now E) dbl
      (MarshalTicket E) (UnmarshalTicket E) (MarshalBackfill E) (UnmarshalBackfill E) pttl bttl px"
    and ordS: "\<And>A. finite A \<Longrightarrow> set (ordS A) = A"
  shows "update_chain (updateTicketCache ordS S) v h \<Longrightarrow> \<forall>u \<in> set h. query_ready E view (fst u) \<Longrightarrow>
    v = TicketMap ts \<Longrightarrow> distinct (map fst ts) \<Longrightarrow> \<exists>ts'. last_value v h = TicketMap ts' \<and> distinct (map fst ts')"
proof (induction "updateTicketCache ordS S" v h arbitrary: ts rule: update_chain.induct)
  case (2 v s e w h)
  obtain r v' s' where u: "updateTicketCache ordS S (TicketMap ts) s = ((r, v'), s')" by (metis prod.exhaust)
  from 2 have "wf_keys (view s)" "own_tickets (UnmarshalTicket E) (tindex (astore_of (view s))) (astore_of (view s))"
    by (simp_all add: query_ready_def)
  from statestore.update_ticket_cache [OF contract this(1) 2(5) u ordS this(2)] 2 u show ?case by auto
qed simp


text \<open>A run of a single request, as evidence for the properties of the protocol.\<close>

lemma single_request:
  assumes "update v s = ((e, w), s')"
  shows "\<exists>c1 c2. cache_reachable update (newCache v s) c1 \<and> run c1 = Updating [0] \<and>
    cache_reachable update (newCache v s) c2 \<and> status c2 0 = Finished (cache_answer e w) \<and> hist c2 = [(s, e, w)]"
proof -
  let ?c0 = "newCache v s"
  let ?c1 = "?c0\<lparr>token := False, run := AwaitFirst\<rparr>"
  let ?c2 = "receive 0 [] ?c1"
  let ?c3 = "?c2\<lparr>run := Updating [0]\<rparr>"
  let ?c4 = "?c3\<lparr>run := Releasing [0], c_err := e, c_value := w, c_store := s', hist := hist ?c3 @ [(c_store ?c3, e, w)]\<rparr>"
  let ?c5 = "?c4\<lparr>run := Offering 0 [], wg := wg ?c4 + 1\<rparr>"
  let ?c6 = "?c5\<lparr>run := Releasing [], status := (status ?c5)(0 := Reading)\<rparr>"
  let ?c7 = "?c6\<lparr>status := (status ?c6)(0 := Finished (cache_answer (c_err ?c6) (c_value ?c6))), wg := wg ?c6 - 1\<rparr>"
  have "cache_step update ?c0 ?c1" by (rule cache_step.start) (simp_all add: newCache_def)
  moreover have "cache_step update ?c1 ?c2" by (rule cache_step.first) (simp_all add: newCache_def)
  moreover have "cache_step update ?c2 ?c3" by (rule cache_step.collected) (simp add: receive_def)
  ultimately have r3: "cache_reachable update ?c0 ?c3" by simp
  have "cache_step update ?c3 ?c4" by (rule cache_step.updated) (simp_all add: receive_def newCache_def assms)
  moreover have "cache_step update ?c4 ?c5" by (rule cache_step.offer) simp
  moreover have "cache_step update ?c5 ?c6" by (rule cache_step.grant) (simp_all add: receive_def)
  moreover have "cache_step update ?c6 ?c7" by (rule cache_step.finish) simp
  ultimately have "cache_reachable update ?c0 ?c7" using r3 by simp
  moreover have "status ?c7 0 = Finished (cache_answer e w)" "hist ?c7 = [(s, e, w)]"
    by (simp_all add: receive_def newCache_def)
  moreover have "run ?c3 = Updating [0]" by simp
  ultimately show ?thesis using r3 by blast
qed

abbreviation still :: "unit cache_update" where
  "still \<equiv> \<lambda>v s. ((Inr (), v), s)"

theorem cache_no_race_witness:
  "\<exists>c. cache_reachable still (newCache NilValue ()) c \<and> run c = Updating [0] \<and> \<not> token c \<and> status c 0 \<noteq> Reading"
  using single_request [of still NilValue "()"] cache_no_race [of still NilValue "()"] by fastforce

theorem cache_progress_witness:
  "\<exists>c c'. cache_reachable still (newCache NilValue ()) c \<and> run c = Updating [0] \<and> cache_step still c c' \<and>
    (run c' \<noteq> run c \<or> wg c' < wg c)"
  using single_request [of still NilValue "()"] cache_progress [of still NilValue "()"] by fastforce

theorem cache_fresh_witness:
  "\<exists>c e w st. cache_reachable still (newCache NilValue ()) c \<and> status c 0 = Finished (cache_answer e w) \<and>
    hist c ! asked c 0 = (st, e, w)"
proof -
  obtain c where c: "cache_reachable still (newCache NilValue ()) c" "status c 0 = Finished (cache_answer (Inr ()) NilValue)"
    using single_request [of still NilValue "()"] by auto
  from cache_fresh [OF c] c show ?thesis by auto
qed


lemma indexed_store:
  obtains s :: rstate where "wf_keys (lview (rs_data s))"
    "astore_of (lview (rs_data s)) = (astore_of (lview (rs_data ref_init)))\<lparr>objs := [''a'' \<mapsto> BTicket ticket_a], ttls := Map.empty, tindex := {''a''}\<rparr>"
proof -
  let ?a = "astore_of (lview (rs_data ref_init))"
  obtain s1 :: rstate where 1: "wf_keys (lview (rs_data s1))"
    "astore_of (lview (rs_data s1)) = snd (as_CreateTicket (MarshalTicket ref_ok_env) ticket_a ?a)"
    by (rule meetsE [OF ref_ok.CreateTicket_meets [of ticket_a], of ref_init]) (simp_all del: lview_access, metis snd_conv)
  obtain s2 :: rstate where 2: "wf_keys (lview (rs_data s2))"
    "astore_of (lview (rs_data s2)) = (astore_of (lview (rs_data s1)))\<lparr>tindex := insert ''a'' (tindex (astore_of (lview (rs_data s1))))\<rparr>"
    by (rule meetsE [OF ref_ok.IndexTicket_meets [of ticket_a], of s1]) (use 1 in auto)
  show thesis by (rule that [OF 2(1)]) (simp add: 1(2) 2(2) as_CreateTicket_def str_of_def ttl_of_def set_of_def fun_eq_iff)
qed


text \<open>
  One update of the backfill cache. Afterwards the cache holds exactly the backfills that the index
  shows as acknowledged in time: the cached one when it is not older than the indexed generation, and
  otherwise the stored one; the store is unchanged.
\<close>

theorem backfill_cache_follows:
  fixes S :: "('s, 'c) service"
  assumes be: "redis_backend E view pend dbl sched" and S: "S = New sched cfg E" and wf: "wf_keys (view s)"
    and bs: "distinct (map fst bs)" and run: "updateBackfillCache ordS S (BackfillMap bs) s = ((r, v), s')"
    and ordS: "\<And>A. finite A \<Longrightarrow> set (ordS A) = A"
    and own: "own_backfills (UnmarshalBackfill E) (dom (hash_of (view s) allBackfills)) (astore_of (view s))"
    and gens: "\<forall>i g. hash_of (view s) allBackfills i = Some g \<longrightarrow> atoi g \<noteq> None"
  shows "\<exists>now idx bs'. Now E s \<le> now \<and> now \<le> Now E s' \<and> astore_of (view s') = astore_of (view s) \<and> r = Inr () \<and>
    v = BackfillMap bs' \<and> distinct (map fst bs') \<and>
    as_GetIndexedBackfills dbl (getBackfillReleaseTimeout cfg) now (astore_of (view s)) = Inr idx \<and>
    map_of bs' = (\<lambda>i. case idx i of None \<Rightarrow> None
      | Some g \<Rightarrow> (case map_of bs i of
          Some b \<Rightarrow> if sint (bf_Generation b) < g then stored_backfill (UnmarshalBackfill E) (astore_of (view s)) i else Some b
        | None \<Rightarrow> stored_backfill (UnmarshalBackfill E) (astore_of (view s)) i))"
proof -
  have "own_backfills (UnmarshalBackfill E) (dom (bindex (astore_of (view s)))) (astore_of (view s))"
    and "atoi g \<noteq> None" if "bindex (astore_of (view s)) i = Some g" for i g
    using own gens that by auto
  with own show ?thesis
    using statestore.update_backfill_cache [OF redis_backend.backend_contract [OF be S] wf bs run ordS] by simp blast
qed

theorem backfill_cache_follows_witness:
  "\<exists>r v s' bs'. updateBackfillCache sorted_list_of_set ref_store (BackfillMap [(''b'', backfill_b)]) ref_init = ((r, v), s') \<and>
     r = Inr () \<and> v = BackfillMap bs' \<and> map_of bs' ''b'' = None"
proof -
  obtain r v s' where u: "updateBackfillCache sorted_list_of_set ref_store (BackfillMap [(''b'', backfill_b)]) ref_init = ((r, v), s')"
    by (metis prod.exhaust)
  have empty: "hash_of (lview (rs_data ref_init)) allBackfills = Map.empty" "zset_of (lview (rs_data ref_init)) backfillLastAckTime = Map.empty"
    by (simp_all add: hash_of_def zset_of_def fun_eq_iff)
  from backfill_cache_follows [OF ref_ok.redis_backend_axioms ref_store_def ref_init_wf(1) _ u] empty obtain now idx bs' where
    h: "r = Inr ()" "v = BackfillMap bs'"
      "as_GetIndexedBackfills dbl256 (getBackfillReleaseTimeout ref_cfg) now (astore_of (lview (rs_data ref_init))) = Inr idx"
      "map_of bs' = (\<lambda>i. case idx i of None \<Rightarrow> None
      | Some g \<Rightarrow> (case map_of [(''b'', backfill_b)] i of
          Some b \<Rightarrow> if sint (bf_Generation b) < g then stored_backfill (UnmarshalBackfill ref_ok_env) (astore_of (lview (rs_data ref_init))) i else Some b
        | None \<Rightarrow> stored_backfill (UnmarshalBackfill ref_ok_env) (astore_of (lview (rs_data ref_init))) i))"
    by (fastforce simp: own_backfills_def)
  have "idx ''b'' = None" using h(3) empty by (auto simp: as_GetIndexedBackfills_def Let_def scored_def)
  with u h show ?thesis by auto
qed

end
