(* ===== verification/Match_Function.thy ===== *)
theory Match_Function
  imports Query
begin

text \<open>
  Match functions: the helpers that query the pools of a profile (\<open>pkg/matchfunction/matchfunction.go\<close>) and
  two match functions written with them (\<open>examples/functions/golang/soloduel/mmf/matchfunction.go\<close> and
  \<open>examples/functions/golang/backfill/mmf/matchfunction.go\<close>). The client's stream is the sequence of what
  \<open>Recv\<close> returns; a match function's own stream fails at the sends that \<open>sendFails\<close> tells. The formatted
  wall clock is an argument.
\<close>

section \<open>Querying pools\<close>

datatype 'a page_event = Page "'a list" | PagesEnd | PageErr go_error

text \<open>The receive loop: \<open>None\<close> while the stream has not ended.\<close>

fun recv_pages :: "'a page_event list \<Rightarrow> 'a list \<Rightarrow> 'a list res option" where
  "recv_pages [] acc = None"
| "recv_pages (PagesEnd # evs) acc = Some (Inr acc)"
| "recv_pages (PageErr e # evs) acc = Some (Inl (Wrapped e))"
| "recv_pages (Page p # evs) acc = recv_pages evs (acc @ p)"

definition QueryPool :: "(pool \<Rightarrow> ticket page_event list res) \<Rightarrow> pool \<Rightarrow> ticket list res option" where
  "QueryPool client p = (case client p of Inl e \<Rightarrow> Some (Inl (Wrapped e)) | Inr evs \<Rightarrow> recv_pages evs [])"

definition QueryBackfillPool :: "(pool \<Rightarrow> backfill page_event list res) \<Rightarrow> pool \<Rightarrow> backfill list res option" where
  "QueryBackfillPool client p = (case client p of Inl e \<Rightarrow> Some (Inl (Wrapped e)) | Inr evs \<Rightarrow> recv_pages evs [])"

text \<open>
  \<open>QueryPools\<close> and \<open>QueryBackfillPools\<close>: a goroutine per pool sends its result once; the loop takes as many
  results as there are pools, in the order in which they come, unless the context ends.
\<close>

datatype pools_event = PoolDone nat | PoolsCtxDone go_error

fun gather :: "(pool \<Rightarrow> 'a list res option) \<Rightarrow> pool list \<Rightarrow> nat \<Rightarrow> pools_event list \<Rightarrow> (string \<rightharpoonup> 'a list) \<Rightarrow>
    (string \<rightharpoonup> 'a list) res option" where
  "gather query pools 0 evs poolMap = Some (Inr poolMap)"
| "gather query pools (Suc n) [] poolMap = None"
| "gather query pools (Suc n) (PoolsCtxDone e # evs) poolMap = Some (Inl (Wrapped e))"
| "gather query pools (Suc n) (PoolDone k # evs) poolMap =
    (if k < length pools then
       case query (pools ! k) of
         None \<Rightarrow> None
       | Some (Inl e) \<Rightarrow> Some (Inl e)
       | Some (Inr r) \<Rightarrow> gather query pools n evs (poolMap(p_Name (pools ! k) \<mapsto> r))
     else None)"

definition QueryPools :: "(pool \<Rightarrow> ticket page_event list res) \<Rightarrow> pool list \<Rightarrow> pools_event list \<Rightarrow>
    (string \<rightharpoonup> ticket list) res option" where
  "QueryPools client pools evs = gather (QueryPool client) pools (length pools) evs Map.empty"

definition QueryBackfillPools :: "(pool \<Rightarrow> backfill page_event list res) \<Rightarrow> pool list \<Rightarrow> pools_event list \<Rightarrow>
    (string \<rightharpoonup> backfill list) res option" where
  "QueryBackfillPools client pools evs = gather (QueryBackfillPool client) pools (length pools) evs Map.empty"

text \<open>The sending loop of a match function: the proposals that the stream took, and the result.\<close>

fun send_proposals :: "(nat \<Rightarrow> bool) \<Rightarrow> match list \<Rightarrow> match list \<Rightarrow> unit res \<times> match list" where
  "send_proposals sendFails [] out = (Inr (), out)"
| "send_proposals sendFails (p # ps) out =
    (if sendFails (length out) then (Inl (StreamErr 0), out) else send_proposals sendFails ps (out @ [p]))"

definition match_id :: "string \<Rightarrow> string \<Rightarrow> nat \<Rightarrow> string" where
  "match_id name t num = ''profile-'' @ name @ ''-time-'' @ t @ ''-num-'' @ itoa (int num)"

section \<open>One against one\<close>

abbreviation solo_matchName :: string where
  "solo_matchName \<equiv> ''a-simple-1v1-matchfunction''"

fun solo_loop :: "string \<Rightarrow> ticket list \<Rightarrow> ticket list \<Rightarrow> nat \<Rightarrow> match list \<Rightarrow> match list" where
  "solo_loop t [] thisMatch matchNum matches = matches"
| "solo_loop t (ticket # tickets) thisMatch matchNum matches =
    (let thisMatch = thisMatch @ [ticket] in
     if length thisMatch \<ge> 2 then
       solo_loop t tickets [] (matchNum + 1)
         (matches @ [empty_match\<lparr>m_MatchId := match_id solo_matchName t matchNum, m_MatchProfile := solo_matchName,
            m_MatchFunction := solo_matchName, m_Tickets := thisMatch\<rparr>])
     else solo_loop t tickets thisMatch matchNum matches)"

text \<open>\<open>makeMatches\<close>: \<open>pools\<close> lists the entries of the pool map in the order of its iteration, \<open>iter\<close> that of the tickets.\<close>

definition solo_tickets :: "(string \<times> ticket list) list \<Rightarrow> string \<rightharpoonup> ticket" where
  "solo_tickets pools = fold (\<lambda>ticket m. m(t_Id ticket \<mapsto> ticket)) (concat (map snd pools)) Map.empty"

definition solo_makeMatches :: "(string set \<Rightarrow> string list) \<Rightarrow> string \<Rightarrow> (string \<times> ticket list) list \<Rightarrow> match list res" where
  "solo_makeMatches iter t pools =
    (let tickets = solo_tickets pools
     in Inr (solo_loop t (map (the \<circ> tickets) (iter (dom tickets))) [] 0 []))"

text \<open>\<open>Run\<close>: \<open>entries\<close> enumerates a map.\<close>

definition solo_Run :: "(pool \<Rightarrow> ticket page_event list res) \<Rightarrow> ((string \<rightharpoonup> ticket list) \<Rightarrow> (string \<times> ticket list) list) \<Rightarrow>
    (string set \<Rightarrow> string list) \<Rightarrow> string \<Rightarrow> (nat \<Rightarrow> bool) \<Rightarrow> match_profile \<Rightarrow> pools_event list \<Rightarrow>
    (unit res \<times> match list) option" where
  "solo_Run client entries iter t sendFails profile evs =
    (case QueryPools client (mp_Pools profile) evs of
       None \<Rightarrow> None
     | Some (Inl e) \<Rightarrow> Some (Inl e, [])
     | Some (Inr poolTickets) \<Rightarrow>
         (case solo_makeMatches iter t (entries poolTickets) of
            Inl e \<Rightarrow> Some (Inl e, [])
          | Inr proposals \<Rightarrow> Some (send_proposals sendFails proposals [])))"

section \<open>Matches with backfills\<close>

abbreviation playersPerMatch :: nat where
  "playersPerMatch \<equiv> 2"

abbreviation openSlotsKey :: string where
  "openSlotsKey \<equiv> ''open-slots''"

text \<open>
  What the function takes from outside: \<open>MarshalAny\<close> and \<open>UnmarshalAny\<close> of an \<open>Int32Value\<close>, the difference of
  two doubles divided by two, the timestamp of now, and the formatted time of the call that makes match
  number \<open>n\<close>.
\<close>

record mmf_env =
  MarshalInt32 :: "int \<Rightarrow> any_msg res"
  UnmarshalInt32 :: "any_msg \<Rightarrow> int res"
  half_difference :: "f64 \<Rightarrow> f64 \<Rightarrow> f64"
  TimestampNow :: timestamp
  formatted_now :: "nat \<Rightarrow> string"

definition getOpenSlots :: "mmf_env \<Rightarrow> backfill option \<Rightarrow> int res" where
  "getOpenSlots env b =
    (case b of
       None \<Rightarrow> Inl FmtErr
     | Some b \<Rightarrow>
         (case bf_Extensions b openSlotsKey of
            Some a \<Rightarrow> (case UnmarshalInt32 env a of Inl e \<Rightarrow> Inl e | Inr v \<Rightarrow> Inr v)
          | None \<Rightarrow> Inr (int playersPerMatch)))"

definition setOpenSlots :: "mmf_env \<Rightarrow> backfill \<Rightarrow> int \<Rightarrow> backfill res" where
  "setOpenSlots env b val =
    (case MarshalInt32 env val of
       Inl e \<Rightarrow> Inl e
     | Inr a \<Rightarrow> Inr (b\<lparr>bf_Extensions := (bf_Extensions b)(openSlotsKey \<mapsto> a)\<rparr>))"

definition newMatch :: "mmf_env \<Rightarrow> nat \<Rightarrow> string \<Rightarrow> ticket list \<Rightarrow> backfill option \<Rightarrow> match" where
  "newMatch env num profile tickets b =
    empty_match\<lparr>m_MatchId := match_id profile (formatted_now env num) num, m_MatchProfile := profile,
      m_MatchFunction := ''backfill-matchfunction'', m_Tickets := tickets, m_Backfill := b\<rparr>"

definition newSearchFields :: "mmf_env \<Rightarrow> pool \<Rightarrow> search_fields" where
  "newSearchFields env p = \<lparr>
     DoubleArgs = fold (\<lambda>f m. m(drf_DoubleArg f \<mapsto> half_difference env (drf_Max f) (drf_Min f))) (p_DoubleRangeFilters p) Map.empty,
     StringArgs = fold (\<lambda>f m. m(sef_StringArg f \<mapsto> sef_Value f)) (p_StringEqualsFilters p) Map.empty,
     Tags = replicate (length (p_TagPresentFilters p)) [] @ map tpf_Tag (p_TagPresentFilters p)\<rparr>"

definition newBackfill :: "mmf_env \<Rightarrow> search_fields \<Rightarrow> nat \<Rightarrow> backfill res" where
  "newBackfill env searchFields openSlots =
    setOpenSlots env (empty_backfill\<lparr>bf_SearchFields := Some searchFields, bf_Generation := 0,
      bf_CreateTime := Some (TimestampNow env)\<rparr>) (int openSlots)"

text \<open>The inner loop of \<open>handleBackfills\<close>, which fills the open slots while there are tickets.\<close>

fun fill_slots :: "int \<Rightarrow> ticket list \<Rightarrow> ticket list \<Rightarrow> int \<times> ticket list \<times> ticket list" where
  "fill_slots openSlots matchTickets [] = (openSlots, matchTickets, [])"
| "fill_slots openSlots matchTickets (t # tickets) =
    (if openSlots > 0 then fill_slots (openSlots - 1) (matchTickets @ [t]) tickets else (openSlots, matchTickets, t # tickets))"

fun handleBackfills :: "mmf_env \<Rightarrow> string \<Rightarrow> ticket list \<Rightarrow> backfill list \<Rightarrow> nat \<Rightarrow> match list \<Rightarrow> match list res \<times> ticket list" where
  "handleBackfills env profile tickets [] matchId matches = (Inr matches, tickets)"
| "handleBackfills env profile tickets (b # bs) matchId matches =
    (case getOpenSlots env (Some b) of
       Inl e \<Rightarrow> (Inl e, tickets)
     | Inr openSlots \<Rightarrow>
         (case fill_slots openSlots [] tickets of (openSlots, matchTickets, tickets) \<Rightarrow>
            if matchTickets \<noteq> [] then
              (case setOpenSlots env b openSlots of
                 Inl e \<Rightarrow> (Inl e, tickets)
               | Inr b \<Rightarrow> handleBackfills env profile tickets bs (matchId + 1)
                   (matches @ [newMatch env (matchId + 1) profile matchTickets (Some b)]))
            else handleBackfills env profile tickets bs matchId matches))"

text \<open>The loop of \<open>makeFullMatches\<close> with its counter.\<close>

function full_loop :: "mmf_env \<Rightarrow> string \<Rightarrow> nat \<Rightarrow> ticket list \<Rightarrow> nat \<Rightarrow> match list \<Rightarrow> match list \<times> ticket list" where
  "full_loop env profile ticketNum tickets matchId matches =
    (if ticketNum < playersPerMatch \<and> length tickets \<ge> playersPerMatch then
       let ticketNum = ticketNum + 1 in
       if ticketNum = playersPerMatch then
         full_loop env profile 0 (drop playersPerMatch tickets) (matchId + 1)
           (matches @ [newMatch env (matchId + 1) profile (take playersPerMatch tickets) None])
       else full_loop env profile ticketNum tickets matchId matches
     else (matches, tickets))"
  by pat_completeness auto
termination
  by (relation "measures [\<lambda>(env, profile, n, ts, i, ms). length ts, \<lambda>(env, profile, n, ts, i, ms). playersPerMatch - n]") auto

declare full_loop.simps [simp del]

definition makeFullMatches :: "mmf_env \<Rightarrow> string \<Rightarrow> ticket list \<Rightarrow> nat \<Rightarrow> match list \<times> ticket list" where
  "makeFullMatches env profile tickets lastMatchId = full_loop env profile 0 tickets lastMatchId []"

definition makeMatchWithBackfill :: "mmf_env \<Rightarrow> string \<Rightarrow> pool \<Rightarrow> ticket list \<Rightarrow> nat \<Rightarrow> match res" where
  "makeMatchWithBackfill env profile p tickets lastMatchId =
    (if length tickets = 0 then Inl FmtErr
     else if length tickets \<ge> playersPerMatch then Inl FmtErr
     else
       case newBackfill env (newSearchFields env p) (playersPerMatch - length tickets) of
         Inl e \<Rightarrow> Inl e
       | Inr b \<Rightarrow> Inr ((newMatch env (lastMatchId + 1) profile tickets (Some b))\<lparr>m_AllocateGameserver := True\<rparr>))"

definition bfm_makeMatches :: "mmf_env \<Rightarrow> string \<Rightarrow> pool \<Rightarrow> ticket list \<Rightarrow> backfill list \<Rightarrow> match list res" where
  "bfm_makeMatches env profile p tickets backfills =
    (case handleBackfills env profile tickets backfills 0 [] of
       (Inl e, _) \<Rightarrow> Inl e
     | (Inr matches, remainingTickets) \<Rightarrow>
         (case makeFullMatches env profile remainingTickets (length matches) of (newMatches, remainingTickets) \<Rightarrow>
            let matches = matches @ newMatches in
            if length remainingTickets > 0 then
              (case makeMatchWithBackfill env profile p remainingTickets (length matches) of
                 Inl e \<Rightarrow> Inl e
               | Inr m \<Rightarrow> Inr (matches @ [m]))
            else Inr matches))"

text \<open>\<open>Run\<close>: the pools one after the other, then the sends.\<close>

fun bfm_pools :: "(pool \<Rightarrow> ticket page_event list res) \<Rightarrow> (pool \<Rightarrow> backfill page_event list res) \<Rightarrow> mmf_env \<Rightarrow> string \<Rightarrow>
    pool list \<Rightarrow> match list \<Rightarrow> match list res option" where
  "bfm_pools client bclient env profile [] proposals = Some (Inr proposals)"
| "bfm_pools client bclient env profile (p # ps) proposals =
    (case QueryPool client p of
       None \<Rightarrow> None
     | Some (Inl e) \<Rightarrow> Some (Inl e)
     | Some (Inr tickets) \<Rightarrow>
         (case QueryBackfillPool bclient p of
            None \<Rightarrow> None
          | Some (Inl e) \<Rightarrow> Some (Inl e)
          | Some (Inr backfills) \<Rightarrow>
              (case bfm_makeMatches env profile p tickets backfills of
                 Inl e \<Rightarrow> Some (Inl e)
               | Inr matches \<Rightarrow> bfm_pools client bclient env profile ps (proposals @ matches))))"

definition bfm_Run :: "(pool \<Rightarrow> ticket page_event list res) \<Rightarrow> (pool \<Rightarrow> backfill page_event list res) \<Rightarrow> mmf_env \<Rightarrow>
    (nat \<Rightarrow> bool) \<Rightarrow> match_profile \<Rightarrow> (unit res \<times> match list) option" where
  "bfm_Run client bclient env sendFails profile =
    (case bfm_pools client bclient env (mp_Name profile) (mp_Pools profile) [] of
       None \<Rightarrow> None
     | Some (Inl e) \<Rightarrow> Some (Inl e, [])
     | Some (Inr proposals) \<Rightarrow> Some (send_proposals sendFails proposals []))"

section \<open>Queries: pages are put together again\<close>

text \<open>What the client of a query receives: the pages that were sent, then the end or the handler's error.\<close>

definition stream_of :: "unit res \<times> 'a list list \<Rightarrow> 'a page_event list" where
  "stream_of rp = map Page (snd rp) @ [case fst rp of Inr _ \<Rightarrow> PagesEnd | Inl e \<Rightarrow> PageErr e]"

lemma recv_pages_append: "recv_pages (map Page ps @ evs) acc = recv_pages evs (acc @ concat ps)"
  by (induction ps arbitrary: acc) simp_all

lemma recv_stream_of:
  "recv_pages (stream_of rp) [] = Some (case fst rp of Inr _ \<Rightarrow> Inr (concat (snd rp)) | Inl e \<Rightarrow> Inl (Wrapped e))"
  by (simp add: stream_of_def recv_pages_append split: sum.splits)

text \<open>
  C34: Query service and match function together. What \<open>QueryPool\<close> makes of the stream of a ticket query is
  exactly the list of tickets that the query service selected, in its order, or an error; it is never a
  part of the list, and there is no error if no send failed.
\<close>

theorem query_pool_roundtrip:
  assumes pf: "NewPoolFilter ts_time p = Inr pf"
  shows "\<exists>rp. QueryTickets cfg ts_time iter sendFails (Some p) (Inr value) = Some rp \<and>
    QueryPool (\<lambda>_. Inr (stream_of rp)) p =
      Some (case fst rp of Inr _ \<Rightarrow> Inr (map snd (ticket_matches ts_time iter pf value)) | Inl e \<Rightarrow> Inl (Wrapped e)) \<and>
    ((\<forall>k. \<not> sendFails k) \<longrightarrow> fst rp = Inr ())"
proof -
  let ?ts = "map snd (ticket_matches ts_time iter pf value)"
  obtain r pages rest where rp: "send_results cfg sendFails ?ts = Some (r, pages)" "concat (pages @ rest) = ?ts"
    "r = Inr () \<longleftrightarrow> rest = []" using send_results_partition [of cfg sendFails ?ts] by blast
  have q: "QueryTickets cfg ts_time iter sendFails (Some p) (Inr value) = Some (r, pages)"
    using rp(1) pf by (simp add: QueryTickets_def)
  have "r = Inr ()" if "\<forall>k. \<not> sendFails k" using send_results_ok [OF that, of cfg ?ts] rp(1) by auto
  with q rp show ?thesis
    by (intro exI [of _ "(r, pages)"]) (auto simp: QueryPool_def recv_stream_of split: sum.splits)
qed

lemma gather_all:
  assumes "\<And>k. k \<in> set order \<Longrightarrow> k < length pools \<and> query (pools ! k) = Some (Inr (ts (pools ! k)))"
  shows "gather query pools (length order) (map PoolDone order) m =
    Some (Inr (fold (\<lambda>k m. m(p_Name (pools ! k) \<mapsto> ts (pools ! k))) order m))"
  using assms by (induction order arbitrary: m) simp_all

lemma fold_upd_pairs: "fold (\<lambda>k m. m(f k \<mapsto> g k)) ks Map.empty = map_of (map (\<lambda>k. (f k, g k)) (rev ks))"
  by (induction ks rule: rev_induct) (simp_all del: fun_upd_apply)

text \<open>
  The result of \<open>QueryPools\<close> does not depend on the order in which the goroutines answer: it has the
  tickets of each pool under its name.
\<close>

theorem query_pools_any_order:
  assumes names: "distinct (map p_Name pools)" and order: "mset order = mset [0..<length pools]"
    and ok: "\<And>p. p \<in> set pools \<Longrightarrow> QueryPool client p = Some (Inr (ts p))"
  shows "QueryPools client pools (map PoolDone order) = Some (Inr (map_of (map (\<lambda>p. (p_Name p, ts p)) pools)))"
proof -
  let ?f = "\<lambda>k. (p_Name (pools ! k), ts (pools ! k))"
  have "length order = length [0..<length pools]" by (rule mset_eq_length [OF order])
  moreover have "set order = set [0..<length pools]" by (rule mset_eq_setD [OF order])
  ultimately have set: "set order = {..<length pools}" "length order = length pools" by (simp_all add: lessThan_atLeast0)
  have "k < length pools \<and> QueryPool client (pools ! k) = Some (Inr (ts (pools ! k)))" if "k \<in> set order" for k
  proof -
    have "k < length pools" using that unfolding set(1) by simp
    with ok [OF nth_mem [OF this]] show ?thesis by blast
  qed
  from gather_all [of order pools "QueryPool client" ts, OF this, of Map.empty]
  have "QueryPools client pools (map PoolDone order) = Some (Inr (map_of (map ?f (rev order))))"
    unfolding QueryPools_def fold_upd_pairs set(2) [symmetric] .
  moreover have "map_of (map ?f (rev order)) = map_of (map ?f [0..<length pools])"
  proof -
    have inj: "inj_on (\<lambda>k. p_Name (pools ! k)) {..<length pools}"
      using names by (auto simp: inj_on_def distinct_conv_nth)
    have "distinct order" using mset_eq_imp_distinct_iff [OF order] by simp
    with inj set(1) have "distinct (map fst (map ?f (rev order)))" by (simp add: distinct_map comp_def)
    moreover have "distinct (map fst (map ?f [0..<length pools]))" using inj by (simp add: distinct_map comp_def lessThan_atLeast0)
    ultimately show ?thesis using set(1) by (subst map_of_inject_set) (simp_all add: lessThan_atLeast0)
  qed
  moreover have "map ?f [0..<length pools] = map (\<lambda>p. (p_Name p, ts p)) pools" by (rule nth_equalityI) simp_all
  ultimately show ?thesis by simp
qed

section \<open>One against one: pairs\<close>

lemma digits_inj: "nat_digits m = nat_digits n \<Longrightarrow> m = n"
  by (metis digits_nat_nat_digits)

lemma match_id_num: "match_id name t n = match_id name t n' \<longleftrightarrow> n = n'"
  by (auto simp: match_id_def itoa_def dest: digits_inj)

lemma solo_loop_result:
  assumes "length this < 2"
  shows "\<exists>new rest. solo_loop t ts this n ms = ms @ new \<and> concat (map m_Tickets new) @ rest = this @ ts \<and> length rest < 2 \<and>
    list_all (\<lambda>m. length (m_Tickets m) = 2) new \<and> map m_MatchId new = map (\<lambda>k. match_id solo_matchName t (n + k)) [0..<length new]"
  using assms
proof (induction ts arbitrary: "this" n ms)
  case Nil
  then show ?case by (intro exI [of _ "[]"] exI [of _ "this"]) simp
next
  case (Cons x ts)
  show ?case
  proof (cases "length this = 1")
    case True
    let ?m = "empty_match\<lparr>m_MatchId := match_id solo_matchName t n, m_MatchProfile := solo_matchName,
      m_MatchFunction := solo_matchName, m_Tickets := this @ [x]\<rparr>"
    from Cons.IH [of "[]" "n + 1" "ms @ [?m]"] obtain new rest where h:
      "solo_loop t ts [] (n + 1) (ms @ [?m]) = (ms @ [?m]) @ new" "concat (map m_Tickets new) @ rest = ts" "length rest < 2"
      "list_all (\<lambda>m. length (m_Tickets m) = 2) new" "map m_MatchId new = map (\<lambda>k. match_id solo_matchName t (n + 1 + k)) [0..<length new]"
      by auto
    then show ?thesis using True by (intro exI [of _ "?m # new"] exI [of _ rest]) (simp add: Let_def map_upt_Suc del: upt_Suc)
  next
    case False
    with Cons.prems have "this = []" by (cases "this") auto
    with Cons.IH [of "[x]" n ms] show ?thesis by simp
  qed
qed

lemma distinct_match_ids: "distinct (map (\<lambda>k. match_id name t (n + k)) [0..<l])"
  by (simp add: distinct_map inj_on_def match_id_num)

lemma solo_tickets_dom:
  "solo_tickets pools i = Some t \<Longrightarrow> t_Id t = i \<and> t \<in> set (concat (map snd pools))"
proof -
  have "solo_tickets pools = map_of (map (\<lambda>t. (t_Id t, t)) (rev (concat (map snd pools))))"
    unfolding solo_tickets_def by (rule fold_upd_pairs)
  then show "solo_tickets pools i = Some t \<Longrightarrow> t_Id t = i \<and> t \<in> set (concat (map snd pools))"
    by (auto dest!: map_of_SomeD)
qed

text \<open>
  The matches of the one-against-one function are pairs of tickets of the pools, no ticket is used
  twice, at most one ticket is left over, and the match ids are distinct.
\<close>

theorem solo_matches:
  assumes iter: "\<And>A. finite A \<Longrightarrow> set (iter A) = A \<and> distinct (iter A)"
  shows "\<exists>ms. solo_makeMatches iter t pools = Inr ms \<and> distinct (map t_Id (concat (map m_Tickets ms))) \<and>
    set (concat (map m_Tickets ms)) \<subseteq> set (concat (map snd pools)) \<and> list_all (\<lambda>m. length (m_Tickets m) = 2) ms \<and>
    card (dom (solo_tickets pools)) \<le> length (concat (map m_Tickets ms)) + 1 \<and> distinct (map m_MatchId ms)"
proof -
  let ?m = "solo_tickets pools" and ?ts = "map (the \<circ> solo_tickets pools) (iter (dom (solo_tickets pools)))"
  have "dom ?m \<subseteq> t_Id ` set (concat (map snd pools))" using solo_tickets_dom by fastforce
  then have fin: "finite (dom ?m)" by (rule finite_subset) simp
  note it = iter [OF fin]
  have ids: "map t_Id ?ts = iter (dom ?m)"
    unfolding map_map by (rule map_idI) (use it solo_tickets_dom in auto)
  have sub: "set ?ts \<subseteq> set (concat (map snd pools))" using it solo_tickets_dom by fastforce
  from solo_loop_result [of "[]" t ?ts 0 "[]"] obtain ms rest where h: "solo_loop t ?ts [] 0 [] = ms"
    "concat (map m_Tickets ms) @ rest = ?ts" "length rest < 2" "list_all (\<lambda>m. length (m_Tickets m) = 2) ms"
    "map m_MatchId ms = map (\<lambda>k. match_id solo_matchName t (0 + k)) [0..<length ms]" by auto
  have "distinct (map t_Id (concat (map m_Tickets ms) @ rest))" unfolding h(2) ids using it by blast
  then have d: "distinct (map t_Id (concat (map m_Tickets ms)))" by simp
  have "card (dom ?m) = length ?ts" using distinct_card [of "iter (dom ?m)"] it by simp
  also have "\<dots> = length (concat (map m_Tickets ms)) + length rest" unfolding h(2) [symmetric] by simp
  finally have "card (dom ?m) \<le> length (concat (map m_Tickets ms)) + 1" using h(3) by simp
  moreover have "set (concat (map m_Tickets ms)) \<subseteq> set (concat (map snd pools))"
    using sub unfolding h(2) [symmetric] by auto
  moreover have "distinct (map m_MatchId ms)" unfolding h(5) by (rule distinct_match_ids)
  ultimately show ?thesis using h(1,4) d by (auto simp: solo_makeMatches_def Let_def)
qed

section \<open>Matches with backfills: every ticket is used\<close>

lemma fill_slots_result:
  "fill_slots n mt ts = (n', mt', ts') \<Longrightarrow> \<exists>new. mt' = mt @ new \<and> ts = new @ ts' \<and> n' = n - int (length new) \<and> (new \<noteq> [] \<longrightarrow> 0 \<le> n')"
proof (induction n mt ts rule: fill_slots.induct)
  case (2 n mt t ts)
  show ?case
  proof (cases "0 < n")
    case True
    with 2 obtain new where h: "mt' = (mt @ [t]) @ new" "ts = new @ ts'" "n' = n - 1 - int (length new)" "new \<noteq> [] \<longrightarrow> 0 \<le> n'" by auto
    then show ?thesis using True by (intro exI [of _ "t # new"]) auto
  qed (use 2 in auto)
qed auto

text \<open>What a group of new matches does: it uses tickets from the front, and numbers its matches on.\<close>

definition uses :: "mmf_env \<Rightarrow> string \<Rightarrow> nat \<Rightarrow> match list \<Rightarrow> ticket list \<Rightarrow> ticket list \<Rightarrow> bool" where
  "uses env profile n new ts rest \<longleftrightarrow> concat (map m_Tickets new) @ rest = ts \<and> list_all (\<lambda>m. m_Tickets m \<noteq> []) new \<and>
     map m_MatchId new = map (\<lambda>k. match_id profile (formatted_now env (n + k + 1)) (n + k + 1)) [0..<length new]"

lemma uses_Nil: "uses env profile n [] ts ts"
  by (simp add: uses_def)

lemma uses_Cons:
  assumes "uses env profile (Suc n) new ts rest" and "m_MatchId m = match_id profile (formatted_now env (Suc n)) (Suc n)" and "m_Tickets m \<noteq> []"
  shows "uses env profile n (m # new) (m_Tickets m @ ts) rest"
  using assms by (simp add: uses_def map_upt_Suc del: upt_Suc)

lemma uses_append:
  assumes "uses env profile n new ts ts'" and "uses env profile (n + length new) new' ts' rest"
  shows "uses env profile n (new @ new') ts rest"
  using assms
proof (induction new arbitrary: n ts)
  case (Cons m new)
  have u: "uses env profile (Suc n) new (concat (map m_Tickets new) @ ts') ts'" "m_Tickets m \<noteq> []"
    "m_MatchId m = match_id profile (formatted_now env (Suc n)) (Suc n)" "ts = m_Tickets m @ concat (map m_Tickets new) @ ts'"
    using Cons.prems(1) by (auto simp: uses_def map_upt_Suc simp del: upt_Suc)
  from Cons.IH [OF u(1)] Cons.prems(2) have "uses env profile (Suc n) (new @ new') (concat (map m_Tickets new) @ ts') rest" by simp
  from uses_Cons [OF this u(3,2)] show ?case unfolding u(4) by simp
qed (simp add: uses_def)

lemma newMatch_sel [simp]:
  "m_MatchId (newMatch env n profile ts b) = match_id profile (formatted_now env n) n" "m_Tickets (newMatch env n profile ts b) = ts"
  "m_Backfill (newMatch env n profile ts b) = b"
  by (simp_all add: newMatch_def)

lemma handleBackfills_uses:
  "handleBackfills env profile ts bs n ms = (Inr ms', rest) \<Longrightarrow> \<exists>new. ms' = ms @ new \<and> uses env profile n new ts rest"
proof (induction env profile ts bs n ms rule: handleBackfills.induct)
  case (2 env profile tickets b bs n ms)
  obtain v where v: "getOpenSlots env (Some b) = Inr v" using "2.prems" by (auto split: sum.splits)
  obtain v' mt ts' where f: "fill_slots v [] tickets = (v', mt, ts')" by (metis prod_cases3)
  from fill_slots_result [OF f] have t: "tickets = mt @ ts'" by auto
  show ?case
  proof (cases "mt = []")
    case True
    with "2.IH"(2) [OF v f [symmetric]] "2.prems" v f t show ?thesis by simp
  next
    case False
    then obtain b' where b': "setOpenSlots env b v' = Inr b'" using "2.prems" v f by (auto split: sum.splits)
    let ?m = "newMatch env (n + 1) profile mt (Some b')"
    from "2.IH"(1) [OF v f [symmetric] refl False b'] "2.prems" v f b' False
    obtain new where "ms' = (ms @ [?m]) @ new" "uses env profile (n + 1) new ts' rest" by auto
    with False show ?thesis using uses_Cons [of env profile n new ts' rest ?m] t by (intro exI [of _ "?m # new"]) simp
  qed
qed (auto simp: uses_Nil)

lemma full_loop_uses:
  "full_loop env profile k ts n ms = (ms', rest) \<Longrightarrow> k < playersPerMatch \<Longrightarrow>
   \<exists>new. ms' = ms @ new \<and> uses env profile n new ts rest \<and> length rest < playersPerMatch \<and>
     list_all (\<lambda>m. length (m_Tickets m) = playersPerMatch \<and> m_Backfill m = None) new"
proof (induction env profile k ts n ms arbitrary: ms' rest rule: full_loop.induct)
  case (1 env profile k ts n ms)
  show ?case
  proof (cases "length ts \<ge> playersPerMatch")
    case False
    then show ?thesis using "1.prems" by (simp add: full_loop.simps [of env profile k]) (auto intro!: exI [of _ "[]"] simp: uses_Nil)
  next
    case True
    show ?thesis
    proof (cases "k + 1 = playersPerMatch")
      case k: True
      let ?m = "newMatch env (n + 1) profile (take playersPerMatch ts) None"
      have "full_loop env profile 0 (drop playersPerMatch ts) (n + 1) (ms @ [?m]) = (ms', rest)"
        using "1.prems" True k by (simp add: full_loop.simps [of env profile k])
      from "1.IH"(1) [OF _ refl k this] True "1.prems" obtain new where h: "ms' = (ms @ [?m]) @ new"
        "uses env profile (n + 1) new (drop playersPerMatch ts) rest" "length rest < playersPerMatch"
        "list_all (\<lambda>m. length (m_Tickets m) = playersPerMatch \<and> m_Backfill m = None) new" by auto
      have "m_Tickets ?m \<noteq> []" "m_Tickets ?m @ drop playersPerMatch ts = ts" using True by auto
      then have "uses env profile n (?m # new) ts rest" using uses_Cons [of env profile n new "drop playersPerMatch ts" rest ?m] h(2)
        by simp
      with h True show ?thesis by (intro exI [of _ "?m # new"]) simp
    next
      case k: False
      have "full_loop env profile (k + 1) ts n ms = (ms', rest)"
        using "1.prems" True k by (simp add: full_loop.simps [of env profile k])
      from "1.IH"(2) [OF _ refl k this] True k "1.prems" show ?thesis by simp
    qed
  qed
qed

lemma setOpenSlots_sel: "setOpenSlots env b v = Inr b' \<Longrightarrow> bf_Id b' = bf_Id b \<and> bf_SearchFields b' = bf_SearchFields b"
  by (auto simp: setOpenSlots_def split: sum.splits)

lemma makeMatches_uses:
  assumes "bfm_makeMatches env profile p ts bs = Inr ms"
  shows "uses env profile 0 ms ts []"
proof -
  obtain hs rest where h: "handleBackfills env profile ts bs 0 [] = (Inr hs, rest)"
    using assms by (auto simp: bfm_makeMatches_def split: prod.splits sum.splits)
  obtain fs rest' where f: "makeFullMatches env profile rest (length hs) = (fs, rest')" by (metis surj_pair)
  have 1: "uses env profile 0 hs ts rest" using handleBackfills_uses [OF h] by auto
  have 2: "uses env profile (0 + length hs) fs rest rest'" "length rest' < 2"
    using full_loop_uses [of env profile 0 rest "length hs" "[]" fs rest'] f by (auto simp: makeFullMatches_def)
  note u = uses_append [OF 1 2(1)]
  show ?thesis
  proof (cases "rest' = []")
    case True
    with u assms h f show ?thesis by (simp add: bfm_makeMatches_def)
  next
    case False
    with assms h f obtain m where m: "makeMatchWithBackfill env profile p rest' (length (hs @ fs)) = Inr m" "ms = (hs @ fs) @ [m]"
      by (auto simp: bfm_makeMatches_def split: sum.splits)
    then have "m_Tickets m = rest'" "m_MatchId m = match_id profile (formatted_now env (Suc (length (hs @ fs)))) (Suc (length (hs @ fs)))"
      by (auto simp: makeMatchWithBackfill_def split: if_splits sum.splits)
    then have "uses env profile (0 + length (hs @ fs)) [m] rest' []"
      using uses_Cons [OF uses_Nil, of m profile env "length (hs @ fs)" "[]"] False by simp
    from uses_append [OF u this] show ?thesis by (simp add: m(2))
  qed
qed

text \<open>
  The match function with backfills uses every ticket exactly once: the tickets of its matches, in
  order, are the tickets it was given; no match is empty; and, as the formatted time has a fixed length,
  the ids of the matches for one pool are distinct.
\<close>

theorem backfill_function_uses_all:
  assumes ms: "bfm_makeMatches env profile p ts bs = Inr ms" and now: "\<And>n. length (formatted_now env n) = 22"
  shows "concat (map m_Tickets ms) = ts \<and> list_all (\<lambda>m. m_Tickets m \<noteq> []) ms \<and> distinct (map m_MatchId ms)"
proof -
  note u = makeMatches_uses [OF ms, unfolded uses_def]
  have "n = n'" if "match_id profile (formatted_now env n) n = match_id profile (formatted_now env n') n'" for n n'
  proof -
    have "formatted_now env n @ ''-num-'' @ itoa (int n) = formatted_now env n' @ ''-num-'' @ itoa (int n')"
      using that by (simp add: match_id_def)
    then have "itoa (int n) = itoa (int n')" using now [of n] now [of n'] by (simp add: append_eq_append_conv)
    then show ?thesis by (auto simp: itoa_def dest: digits_inj)
  qed
  then have "distinct (map (\<lambda>k. match_id profile (formatted_now env (0 + k + 1)) (0 + k + 1)) [0..<length ms])"
    by (auto simp: distinct_map inj_on_def)
  with u show ?thesis by simp
qed

text \<open>
  The numbering starts again with every pool: the first matches of two pools have the same id if the
  formatted time is the same, and the backend refuses such proposals.
\<close>

theorem pools_repeat_ids:
  assumes "bfm_makeMatches env profile p ts bs = Inr (m # ms)" and "bfm_makeMatches env profile p' ts' bs' = Inr (m' # ms')"
  shows "m_MatchId m = m_MatchId m'"
  using makeMatches_uses [OF assms(1)] makeMatches_uses [OF assms(2)] by (simp add: uses_def map_upt_Suc del: upt_Suc)

section \<open>Open slots\<close>

definition fills :: "mmf_env \<Rightarrow> backfill list \<Rightarrow> match \<Rightarrow> bool" where
  "fills env bs m \<longleftrightarrow> (\<exists>b \<in> set bs. \<exists>b' v. m_Backfill m = Some b' \<and> bf_Id b' = bf_Id b \<and> bf_Generation b' = bf_Generation b \<and>
     getOpenSlots env (Some b) = Inr v \<and> int (length (m_Tickets m)) \<le> v \<and>
     getOpenSlots env (Some b') = Inr (v - int (length (m_Tickets m))))"

lemma setOpenSlots_get:
  assumes "\<And>v a. MarshalInt32 env v = Inr a \<Longrightarrow> UnmarshalInt32 env a = Inr v" and "setOpenSlots env b v = Inr b'"
  shows "getOpenSlots env (Some b') = Inr v" and "bf_Id b' = bf_Id b" and "bf_Generation b' = bf_Generation b"
  using assms by (auto simp: setOpenSlots_def getOpenSlots_def split: sum.splits)

lemma fills_mono: "fills env bs m \<Longrightarrow> fills env (b # bs) m"
  by (auto simp: fills_def)

lemma handleBackfills_fills:
  assumes round: "\<And>v a. MarshalInt32 env v = Inr a \<Longrightarrow> UnmarshalInt32 env a = Inr v"
  shows "handleBackfills env profile ts bs n ms = (Inr ms', rest) \<Longrightarrow> list_all (fills env bs) (drop (length ms) ms')"
proof (induction bs arbitrary: ts n ms)
  case (Cons b bs)
  obtain v where v: "getOpenSlots env (Some b) = Inr v" using Cons.prems by (auto split: sum.splits)
  obtain v' mt ts' where f: "fill_slots v [] ts = (v', mt, ts')" by (metis prod_cases3)
  from fill_slots_result [OF f] have t: "v' = v - int (length mt)" "mt \<noteq> [] \<longrightarrow> 0 \<le> v'" by auto
  show ?case
  proof (cases "mt = []")
    case True
    with Cons.IH [of ts' n ms] Cons.prems v f have "list_all (fills env bs) (drop (length ms) ms')" by simp
    then show ?thesis by (rule list.pred_mono_strong) (rule fills_mono)
  next
    case False
    then obtain b' where b': "setOpenSlots env b v' = Inr b'" using Cons.prems v f by (auto split: sum.splits)
    let ?m = "newMatch env (n + 1) profile mt (Some b')"
    have h: "handleBackfills env profile ts' bs (n + 1) (ms @ [?m]) = (Inr ms', rest)" using Cons.prems v f b' False by simp
    from handleBackfills_uses [OF h] obtain new where ms': "ms' = (ms @ [?m]) @ new" by blast
    from Cons.IH [OF h] have "list_all (fills env bs) new" by (simp add: ms')
    then have "list_all (fills env (b # bs)) new" by (rule list.pred_mono_strong) (rule fills_mono)
    moreover have "fills env (b # bs) ?m" using setOpenSlots_get [OF round b'] v t False by (auto simp: fills_def)
    ultimately show ?thesis by (simp add: ms')
  qed
qed simp

text \<open>
  Backfills are never overfilled. A match that the function makes from an existing backfill keeps the
  backfill's id and generation, has at most as many tickets as the backfill has open slots, and lowers
  the open slots by just this number.
\<close>

theorem backfill_slots_bounds:
  assumes "\<And>v a. MarshalInt32 env v = Inr a \<Longrightarrow> UnmarshalInt32 env a = Inr v"
    and "handleBackfills env profile ts bs n [] = (Inr ms, rest)"
  shows "list_all (\<lambda>m. \<exists>b \<in> set bs. \<exists>b' v. m_Backfill m = Some b' \<and> bf_Id b' = bf_Id b \<and> bf_Generation b' = bf_Generation b \<and>
     getOpenSlots env (Some b) = Inr v \<and> int (length (m_Tickets m)) \<le> v \<and>
     getOpenSlots env (Some b') = Inr (v - int (length (m_Tickets m)))) ms"
  using handleBackfills_fills [OF assms] by (simp add: fills_def [abs_def])

section \<open>Search fields of a new backfill\<close>

text \<open>
  A new backfill need not belong to the pool it was made for: half the width of a range is not in the
  range in general, here for the range from 10 to 12.
\<close>

definition range_pool :: pool where
  "range_pool = empty_pool\<lparr>p_DoubleRangeFilters := [\<lparr>drf_DoubleArg = ''skill'', drf_Max = Fin 12, drf_Min = Fin 10, drf_Exclude = ExNone\<rparr>]\<rparr>"

theorem new_backfill_outside:
  assumes "half_difference env (Fin 12) (Fin 10) = Fin 1"
    and "NewPoolFilter ts_time range_pool = Inr pf" and "newBackfill env (newSearchFields env range_pool) n = Inr b"
  shows "\<not> In ts_time pf (backfill_entity b)"
proof -
  have sf: "bf_SearchFields b = Some (newSearchFields env range_pool)"
    using assms(3) setOpenSlots_sel by (fastforce simp: newBackfill_def)
  have "DoubleArgs (newSearchFields env range_pool) ''skill'' = Some (Fin 1)"
    using assms(1) by (simp add: newSearchFields_def range_pool_def)
  then show ?thesis using assms(2) sf
    by (auto simp: NewPoolFilter_def range_pool_def empty_pool_def In_def backfill_entity_def split: option.splits if_splits)
qed

section \<open>Witnesses\<close>

definition sample_env :: mmf_env where
  "sample_env = \<lparr>
     MarshalInt32 = (\<lambda>v. if int64_range v then Inr \<lparr>TypeUrl = ''Int32Value'', AnyValue = itoa v\<rparr> else Inl FmtErr),
     UnmarshalInt32 = (\<lambda>a. case atoi (AnyValue a) of Some v \<Rightarrow> Inr v | None \<Rightarrow> Inl FmtErr),
     half_difference = (\<lambda>x y. case (x, y) of (Fin a, Fin b) \<Rightarrow> Fin ((a - b) / 2) | _ \<Rightarrow> NaN),
     TimestampNow = \<lparr>Seconds = 0, Nanos = 0\<rparr>, formatted_now = (\<lambda>_. ''2006-01-02T15:04:05.00'')\<rparr>"

lemma sample_round: "MarshalInt32 sample_env v = Inr a \<Longrightarrow> UnmarshalInt32 sample_env a = Inr v"
  by (auto simp: sample_env_def split: if_splits)

lemma sample_set: "int64_range v \<Longrightarrow> \<exists>b'. setOpenSlots sample_env b v = Inr b'"
  by (simp add: setOpenSlots_def sample_env_def)

abbreviation sample_tickets :: "ticket list" where
  "sample_tickets \<equiv> map (\<lambda>i. empty_ticket\<lparr>t_Id := i\<rparr>) [''1'', ''2'', ''3'']"

lemma sample_handle:
  "\<exists>b'. handleBackfills sample_env ''p'' sample_tickets [empty_backfill\<lparr>bf_Id := ''b''\<rparr>] 0 [] =
     (Inr [newMatch sample_env 1 ''p'' (take 2 sample_tickets) (Some b')], drop 2 sample_tickets)"
proof -
  let ?b = "empty_backfill\<lparr>bf_Id := ''b''\<rparr>"
  obtain b' where b': "setOpenSlots sample_env ?b 0 = Inr b'" using sample_set [of 0] by (auto simp: int64_range_def)
  have "getOpenSlots sample_env (Some ?b) = Inr 2" by (simp add: getOpenSlots_def empty_backfill_def)
  with b' show ?thesis by (intro exI [of _ b']) simp
qed

lemma sample_make: "\<exists>ms. bfm_makeMatches sample_env ''p'' empty_pool sample_tickets [empty_backfill\<lparr>bf_Id := ''b''\<rparr>] = Inr ms"
proof -
  obtain b' where h: "handleBackfills sample_env ''p'' sample_tickets [empty_backfill\<lparr>bf_Id := ''b''\<rparr>] 0 [] =
     (Inr [newMatch sample_env 1 ''p'' (take 2 sample_tickets) (Some b')], drop 2 sample_tickets)" using sample_handle by blast
  obtain b'' where "newBackfill sample_env (newSearchFields sample_env empty_pool) 1 = Inr b''"
    using sample_set [of 1] by (auto simp: newBackfill_def int64_range_def)
  with h show ?thesis by (simp add: bfm_makeMatches_def makeFullMatches_def full_loop.simps makeMatchWithBackfill_def)
qed

theorem backfill_function_uses_all_witness:
  "\<exists>ms. bfm_makeMatches sample_env ''p'' empty_pool sample_tickets [empty_backfill\<lparr>bf_Id := ''b''\<rparr>] = Inr ms \<and>
     concat (map m_Tickets ms) = sample_tickets \<and> distinct (map m_MatchId ms)"
proof -
  obtain ms where ms: "bfm_makeMatches sample_env ''p'' empty_pool sample_tickets [empty_backfill\<lparr>bf_Id := ''b''\<rparr>] = Inr ms"
    using sample_make by blast
  have "length (formatted_now sample_env n) = 22" for n by (simp add: sample_env_def)
  from backfill_function_uses_all [OF ms this] ms show ?thesis by blast
qed

theorem backfill_slots_bounds_witness:
  "\<exists>(m :: match) b'. m_Backfill m = Some b' \<and> length (m_Tickets m) = 2 \<and> getOpenSlots sample_env (Some b') = Inr 0"
proof -
  obtain b' where h: "handleBackfills sample_env ''p'' sample_tickets [empty_backfill\<lparr>bf_Id := ''b''\<rparr>] 0 [] =
     (Inr [newMatch sample_env 1 ''p'' (take 2 sample_tickets) (Some b')], drop 2 sample_tickets)" using sample_handle by blast
  have "getOpenSlots sample_env (Some (empty_backfill\<lparr>bf_Id := ''b''\<rparr>)) = Inr 2" by (simp add: getOpenSlots_def empty_backfill_def)
  moreover note backfill_slots_bounds [of sample_env "''p''" sample_tickets "[empty_backfill\<lparr>bf_Id := ''b''\<rparr>]" 0, OF sample_round h]
  ultimately have "getOpenSlots sample_env (Some b') = Inr 0" by simp
  then show ?thesis by (intro exI [of _ "newMatch sample_env 1 ''p'' (take 2 sample_tickets) (Some b')"] exI [of _ b'] conjI) simp_all
qed

theorem query_pool_roundtrip_witness:
  "\<exists>rp. QueryTickets ref_cfg (\<lambda>_. None) rev (\<lambda>_. False) (Some empty_pool) (Inr (TicketMap [(''a'', ticket_a)])) = Some rp \<and>
     QueryPool (\<lambda>_. Inr (stream_of rp)) empty_pool = Some (Inr [ticket_a])"
proof -
  let ?pf = "\<lparr>DoubleRangeFilters = [], StringEqualsFilters = [], TagPresentFilters = [], CreatedBefore = 0, CreatedAfter = 0\<rparr>"
  have pf: "NewPoolFilter (\<lambda>_. None) empty_pool = Inr ?pf" by (simp add: NewPoolFilter_def empty_pool_def)
  have "In (\<lambda>_. None) ?pf (ticket_entity ticket_a)" by code_simp
  then have "map snd (ticket_matches (\<lambda>_. None) rev ?pf (TicketMap [(''a'', ticket_a)])) = [ticket_a]"
    by (simp add: ticket_matches_def)
  with query_pool_roundtrip [OF pf, of ref_cfg rev "\<lambda>_. False" "TicketMap [(''a'', ticket_a)]"] show ?thesis by auto
qed

end
