(* ===== verification/Default_Evaluator.thy ===== *)
theory Default_Evaluator
  imports Messages "HOL-Library.Sublist"
begin

text \<open>
  The default evaluator (\<open>internal/app/evaluator/defaulteval/evaluator.go\<close>): proposals are sorted
  by score and accepted greedily, skipping every proposal that shares a ticket or a backfill with an
  accepted one. Two things come from outside the repository and are parameters: \<open>sort.Sort\<close>,
  which promises a permutation sorted by \<open>Less\<close> and nothing about ties, and
  \<open>ptypes.UnmarshalAny\<close>, which decodes the score of a match (\<open>None\<close> is its error).
\<close>

section \<open>Sorting\<close>

text \<open>The contract of \<open>sort.Sort\<close>: ordering is promised only for a strict weak order.\<close>

definition strict_weak :: "('a \<Rightarrow> 'a \<Rightarrow> bool) \<Rightarrow> 'a set \<Rightarrow> bool" where
  "strict_weak lt A \<longleftrightarrow>
     (\<forall>x\<in>A. \<not> lt x x) \<and>
     (\<forall>x\<in>A. \<forall>y\<in>A. \<forall>z\<in>A. lt x y \<longrightarrow> lt y z \<longrightarrow> lt x z) \<and>
     (\<forall>x\<in>A. \<forall>y\<in>A. \<forall>z\<in>A. \<not> lt x y \<longrightarrow> \<not> lt y z \<longrightarrow> \<not> lt x z)"

locale go_sort =
  fixes srt :: "('a \<Rightarrow> 'a \<Rightarrow> bool) \<Rightarrow> 'a list \<Rightarrow> 'a list"
  assumes srt_perm: "mset (srt lt xs) = mset xs"
    and srt_sorted: "strict_weak lt (set xs) \<Longrightarrow> sorted_wrt (\<lambda>x y. \<not> lt y x) (srt lt xs)"
begin

lemma set_srt [simp]: "set (srt lt xs) = set xs"
  using srt_perm [of lt xs] by (rule mset_eq_setD)

lemma length_srt [simp]: "length (srt lt xs) = length xs"
  using srt_perm [of lt xs] by (rule mset_eq_length)

end

text \<open>
  Insertion from the left, each element moved back while it is less than its predecessor: what the
  library does on short slices.
\<close>

fun insort_less :: "('a \<Rightarrow> 'a \<Rightarrow> bool) \<Rightarrow> 'a \<Rightarrow> 'a list \<Rightarrow> 'a list" where
  "insort_less lt x [] = [x]"
| "insort_less lt x (y # ys) = (if lt x y then x # y # ys else y # insort_less lt x ys)"

definition insertion_sort :: "('a \<Rightarrow> 'a \<Rightarrow> bool) \<Rightarrow> 'a list \<Rightarrow> 'a list" where
  "insertion_sort lt xs = fold (insort_less lt) xs []"

lemma mset_insort_less [simp]: "mset (insort_less lt x ys) = add_mset x (mset ys)"
  by (induction ys) auto

lemma set_insort_less [simp]: "set (insort_less lt x ys) = insert x (set ys)"
  by (induction ys) auto

lemma strict_weak_subset: "strict_weak lt A \<Longrightarrow> B \<subseteq> A \<Longrightarrow> strict_weak lt B"
  unfolding strict_weak_def by blast

lemma sorted_insort_less:
  assumes "strict_weak lt (insert x (set ys))" and "sorted_wrt (\<lambda>x y. \<not> lt y x) ys"
  shows "sorted_wrt (\<lambda>x y. \<not> lt y x) (insort_less lt x ys)"
  using assms
proof (induction ys)
  case Nil
  then show ?case by simp
next
  case (Cons y ys)
  note weak = Cons.prems(1)
  show ?case
  proof (cases "lt x y")
    case True
    have "\<not> lt z x" if "z \<in> set ys" for z
    proof
      assume "lt z x"
      with True weak that have "lt z y" unfolding strict_weak_def by (meson insertCI list.set_intros)
      with Cons.prems(2) that show False by auto
    qed
    moreover from True weak have "\<not> lt y x"
      unfolding strict_weak_def by (meson insertCI list.set_intros(1))
    ultimately show ?thesis using True Cons.prems(2) by simp
  next
    case False
    from weak have "strict_weak lt (insert x (set ys))"
      by (rule strict_weak_subset) auto
    with Cons have "sorted_wrt (\<lambda>x y. \<not> lt y x) (insort_less lt x ys)" by simp
    with False Cons.prems(2) show ?thesis by auto
  qed
qed

lemma fold_insort_less:
  assumes "strict_weak lt (set xs \<union> set ys)" and "sorted_wrt (\<lambda>x y. \<not> lt y x) ys"
  shows "sorted_wrt (\<lambda>x y. \<not> lt y x) (fold (insort_less lt) xs ys)"
  using assms
proof (induction xs arbitrary: ys)
  case Nil
  then show ?case by simp
next
  case (Cons x xs)
  from Cons.prems(1) have "strict_weak lt (insert x (set ys))"
    by (rule strict_weak_subset) auto
  with Cons.prems(2) have "sorted_wrt (\<lambda>x y. \<not> lt y x) (insort_less lt x ys)"
    by (intro sorted_insort_less)
  with Cons show ?case by simp
qed

lemma mset_fold_insort_less: "mset (fold (insort_less lt) xs ys) = mset xs + mset ys"
  by (induction xs arbitrary: ys) auto

interpretation insertion: go_sort insertion_sort
  by unfold_locales
    (simp_all add: insertion_sort_def mset_fold_insort_less fold_insort_less)

section \<open>Model\<close>

record match_inp =
  mi_match :: match
  mi_score :: f64

record colliding_match =
  cm_id :: string
  cm_score :: f64

record decollider =
  resultIDs :: "string list"
  ticketsUsed :: "string \<rightharpoonup> colliding_match"
  backfillsUsed :: "string \<rightharpoonup> colliding_match"

text \<open>\<open>byScore.Less\<close>: a higher score comes first.\<close>

definition byScore_Less :: "match_inp \<Rightarrow> match_inp \<Rightarrow> bool" where
  "byScore_Less a b = f64_less (mi_score b) (mi_score a)"

text \<open>
  The receive loop of \<open>evaluate\<close>: a match without evaluation input scores minus infinity, one whose
  input does not decode is rejected.
\<close>

fun collect :: "(any_msg \<Rightarrow> f64 option) \<Rightarrow> match list \<Rightarrow> match_inp list" where
  "collect unmarshal [] = []"
| "collect unmarshal (m # ms) =
    (case m_Extensions m ''evaluation_input'' of
       Some a \<Rightarrow>
         (case unmarshal a of
            None \<Rightarrow> collect unmarshal ms
          | Some score \<Rightarrow> \<lparr>mi_match = m, mi_score = score\<rparr> # collect unmarshal ms)
     | None \<Rightarrow> \<lparr>mi_match = m, mi_score = NegInf\<rparr> # collect unmarshal ms)"

text \<open>\<open>maybeAdd\<close>: the guard on the backfill, the loop over the tickets, then the recording.\<close>

fun ticket_taken :: "(string \<rightharpoonup> colliding_match) \<Rightarrow> ticket list \<Rightarrow> bool" where
  "ticket_taken used [] = False"
| "ticket_taken used (t # ts) = (if used (t_Id t) \<noteq> None then True else ticket_taken used ts)"

definition maybeAdd :: "match_inp \<Rightarrow> decollider \<Rightarrow> decollider" where
  "maybeAdd m d =
    (let mt = mi_match m;
         cm = \<lparr>cm_id = m_MatchId mt, cm_score = mi_score m\<rparr>
     in if (case m_Backfill mt of
              Some b \<Rightarrow> bf_Id b \<noteq> [] \<and> backfillsUsed d (bf_Id b) \<noteq> None
            | None \<Rightarrow> False) then d
        else if ticket_taken (ticketsUsed d) (m_Tickets mt) then d
        else d\<lparr>backfillsUsed :=
                (case m_Backfill mt of
                   Some b \<Rightarrow> if bf_Id b \<noteq> [] then (backfillsUsed d)(bf_Id b \<mapsto> cm) else backfillsUsed d
                 | None \<Rightarrow> backfillsUsed d),
              ticketsUsed := fold (\<lambda>t u. u(t_Id t \<mapsto> cm)) (m_Tickets mt) (ticketsUsed d),
              resultIDs := resultIDs d @ [m_MatchId mt]\<rparr>)"

definition new_decollider :: decollider where
  "new_decollider = \<lparr>resultIDs = [], ticketsUsed = Map.empty, backfillsUsed = Map.empty\<rparr>"

definition evaluate ::
  "((match_inp \<Rightarrow> match_inp \<Rightarrow> bool) \<Rightarrow> match_inp list \<Rightarrow> match_inp list) \<Rightarrow>
   (any_msg \<Rightarrow> f64 option) \<Rightarrow> match list \<Rightarrow> string list" where
  "evaluate srt unmarshal ms =
     resultIDs (fold maybeAdd (srt byScore_Less (collect unmarshal ms)) new_decollider)"

section \<open>Reference definition\<close>

text \<open>
  When two proposals exclude each other, and the acceptance they imply: walk the sorted proposals and
  keep one if it collides with none kept before.
\<close>

definition ticket_ids :: "match \<Rightarrow> string set" where
  "ticket_ids m = t_Id ` set (m_Tickets m)"

definition backfill_key :: "match \<Rightarrow> string option" where
  "backfill_key m = (case m_Backfill m of None \<Rightarrow> None | Some b \<Rightarrow> if bf_Id b = [] then None else Some (bf_Id b))"

definition collides :: "match \<Rightarrow> match \<Rightarrow> bool" where
  "collides m m' \<longleftrightarrow> ticket_ids m \<inter> ticket_ids m' \<noteq> {} \<or>
     (backfill_key m \<noteq> None \<and> backfill_key m = backfill_key m')"

fun greedy :: "match_inp list \<Rightarrow> match_inp list \<Rightarrow> match_inp list" where
  "greedy acc [] = acc"
| "greedy acc (m # ms) =
    (if list_ex (\<lambda>a. collides (mi_match a) (mi_match m)) acc then greedy acc ms else greedy (acc @ [m]) ms)"

definition accepted ::
  "((match_inp \<Rightarrow> match_inp \<Rightarrow> bool) \<Rightarrow> match_inp list \<Rightarrow> match_inp list) \<Rightarrow>
   (any_msg \<Rightarrow> f64 option) \<Rightarrow> match list \<Rightarrow> match_inp list" where
  "accepted srt unmarshal ms = greedy [] (srt byScore_Less (collect unmarshal ms))"

lemma collides_sym: "collides m m' \<longleftrightarrow> collides m' m"
  by (auto simp: collides_def)

lemma ticket_taken_iff: "ticket_taken used ts \<longleftrightarrow> (\<exists>t \<in> set ts. used (t_Id t) \<noteq> None)"
  by (induction ts) auto

text \<open>The decollider's tables hold exactly what the accepted matches use.\<close>

definition represents :: "decollider \<Rightarrow> match_inp list \<Rightarrow> bool" where
  "represents d acc \<longleftrightarrow>
     resultIDs d = map (m_MatchId \<circ> mi_match) acc \<and>
     dom (ticketsUsed d) = (\<Union>a \<in> set acc. ticket_ids (mi_match a)) \<and>
     dom (backfillsUsed d) = {k. \<exists>a \<in> set acc. backfill_key (mi_match a) = Some k}"

lemma represents_new: "represents new_decollider []"
  by (simp add: represents_def new_decollider_def)

lemma maybeAdd_reject:
  assumes rep: "represents d acc" and ex: "list_ex (\<lambda>a. collides (mi_match a) (mi_match m)) acc"
  shows "maybeAdd m d = d"
proof -
  from ex obtain a where a: "a \<in> set acc" "collides (mi_match a) (mi_match m)"
    by (auto simp: list_ex_iff)
  show ?thesis
  proof (cases "backfill_key (mi_match a) \<noteq> None \<and> backfill_key (mi_match a) = backfill_key (mi_match m)")
    case True
    then obtain b where b: "m_Backfill (mi_match m) = Some b" "bf_Id b \<noteq> []"
      and "backfill_key (mi_match a) = Some (bf_Id b)"
      by (auto simp: backfill_key_def split: option.splits if_splits)
    with a rep have "bf_Id b \<in> dom (backfillsUsed d)"
      by (auto simp: represents_def)
    with b show ?thesis by (auto simp: maybeAdd_def Let_def)
  next
    case False
    with a have "ticket_ids (mi_match a) \<inter> ticket_ids (mi_match m) \<noteq> {}"
      by (auto simp: collides_def)
    then obtain t where "t \<in> set (m_Tickets (mi_match m))" "t_Id t \<in> ticket_ids (mi_match a)"
      by (auto simp: ticket_ids_def [of "mi_match m"])
    moreover from this(2) a rep have "t_Id t \<in> dom (ticketsUsed d)"
      by (auto simp: represents_def)
    ultimately have "ticket_taken (ticketsUsed d) (m_Tickets (mi_match m))"
      by (auto simp: ticket_taken_iff)
    then show ?thesis by (simp add: maybeAdd_def Let_def)
  qed
qed

lemma maybeAdd_accept:
  assumes rep: "represents d acc" and ex: "\<not> list_ex (\<lambda>a. collides (mi_match a) (mi_match m)) acc"
  shows "represents (maybeAdd m d) (acc @ [m])"
proof -
  let ?mt = "mi_match m"
  have free: "\<not> (case m_Backfill ?mt of Some b \<Rightarrow> bf_Id b \<noteq> [] \<and> backfillsUsed d (bf_Id b) \<noteq> None
                 | None \<Rightarrow> False)"
  proof (cases "backfill_key ?mt")
    case None
    then show ?thesis by (auto simp: backfill_key_def split: option.splits if_splits)
  next
    case (Some k)
    with ex have "k \<notin> dom (backfillsUsed d)"
      using rep by (auto simp: represents_def list_ex_iff collides_def)
    with Some show ?thesis
      by (auto simp: backfill_key_def split: option.splits if_splits)
  qed
  moreover have "\<not> ticket_taken (ticketsUsed d) (m_Tickets ?mt)"
  proof
    assume "ticket_taken (ticketsUsed d) (m_Tickets ?mt)"
    then obtain t where t: "t \<in> set (m_Tickets ?mt)" "t_Id t \<in> dom (ticketsUsed d)"
      by (auto simp: ticket_taken_iff)
    with rep obtain a where "a \<in> set acc" "t_Id t \<in> ticket_ids (mi_match a)"
      by (auto simp: represents_def)
    with t ex show False by (auto simp: list_ex_iff collides_def ticket_ids_def)
  qed
  ultimately show ?thesis using rep
    by (auto simp: maybeAdd_def Let_def represents_def dom_fold_upd ticket_ids_def backfill_key_def
        split: option.splits if_splits)
qed

lemma fold_maybeAdd:
  "represents d acc \<Longrightarrow> represents (fold maybeAdd ms d) (greedy acc ms)"
proof (induction ms arbitrary: d acc)
  case Nil
  then show ?case by simp
next
  case (Cons m ms)
  show ?case
  proof (cases "list_ex (\<lambda>a. collides (mi_match a) (mi_match m)) acc")
    case True
    with Cons maybeAdd_reject [OF Cons.prems True] show ?thesis by simp
  next
    case False
    with Cons maybeAdd_accept [OF Cons.prems False] show ?thesis by simp
  qed
qed

lemma evaluate_greedy: "evaluate srt unmarshal ms = map (m_MatchId \<circ> mi_match) (accepted srt unmarshal ms)"
  using fold_maybeAdd [OF represents_new, of "srt byScore_Less (collect unmarshal ms)"]
  by (simp add: evaluate_def accepted_def represents_def)

lemma greedy_disjoint:
  "sorted_wrt (\<lambda>a b. \<not> collides (mi_match a) (mi_match b)) acc \<Longrightarrow>
   sorted_wrt (\<lambda>a b. \<not> collides (mi_match a) (mi_match b)) (greedy acc ms)"
  by (induction ms arbitrary: acc) (auto simp: sorted_wrt_append list_ex_iff)

lemma greedy_prefix: "\<exists>ys. greedy acc ms = acc @ ys \<and> subseq ys ms"
proof (induction ms arbitrary: acc)
  case Nil
  then show ?case by simp
next
  case (Cons m ms)
  show ?case
  proof (cases "list_ex (\<lambda>a. collides (mi_match a) (mi_match m)) acc")
    case True
    with Cons [of acc] show ?thesis by (auto intro: subseq_Cons')
  next
    case False
    from Cons [of "acc @ [m]"] obtain ys where "greedy (acc @ [m]) ms = (acc @ [m]) @ ys" "subseq ys ms"
      by blast
    with False show ?thesis by (intro exI [of _ "m # ys"]) auto
  qed
qed

lemma set_greedy: "set acc \<subseteq> set (greedy acc ms)" "set (greedy acc ms) \<subseteq> set acc \<union> set ms"
  using greedy_prefix [of acc ms] by (auto dest: list_emb_set)

lemma greedy_dominated:
  assumes "sorted_wrt R ms" and "\<forall>a \<in> set acc. \<forall>m \<in> set ms. R a m" and "m \<in> set ms"
  shows "m \<in> set (greedy acc ms) \<or> (\<exists>a \<in> set (greedy acc ms). collides (mi_match a) (mi_match m) \<and> R a m)"
  using assms
proof (induction ms arbitrary: acc)
  case Nil
  then show ?case by simp
next
  case (Cons x xs)
  show ?case
  proof (cases "list_ex (\<lambda>a. collides (mi_match a) (mi_match x)) acc")
    case True
    show ?thesis
    proof (cases "m = x")
      case True
      with \<open>list_ex _ acc\<close> obtain a where "a \<in> set acc" "collides (mi_match a) (mi_match m)"
        by (auto simp: list_ex_iff)
      with Cons.prems set_greedy(1) [of acc "x # xs"] show ?thesis by blast
    next
      case False
      with Cons \<open>list_ex _ acc\<close> show ?thesis by simp
    qed
  next
    case False
    show ?thesis
    proof (cases "m = x")
      case True
      with False set_greedy(1) [of "acc @ [x]" xs] show ?thesis by auto
    next
      case mx: False
      have "\<forall>a \<in> set (acc @ [x]). \<forall>m \<in> set xs. R a m"
        using Cons.prems by auto
      with Cons.IH [of "acc @ [x]"] Cons.prems mx False show ?thesis by simp
    qed
  qed
qed

lemma strict_weak_byScore:
  assumes "\<forall>p \<in> A. mi_score p \<noteq> NaN"
  shows "strict_weak byScore_Less A"
proof -
  have "\<not> byScore_Less x z" if "y \<in> A" "\<not> byScore_Less x y" "\<not> byScore_Less y z" for x y z
    using that assms f64_not_less_trans by (auto simp: byScore_Less_def)
  moreover have "byScore_Less x z" if "byScore_Less x y" "byScore_Less y z" for x y z
    using that f64_less_trans by (auto simp: byScore_Less_def)
  moreover have "\<not> byScore_Less x x" for x
    by (simp add: byScore_Less_def)
  ultimately show ?thesis unfolding strict_weak_def by blast
qed

section \<open>Properties\<close>

text \<open>
  C6: The decollider with its two tables accepts exactly what the pairwise reference accepts, in the
  same order: the tables never reject a compatible match and never admit a colliding one.
\<close>

theorem evaluate_eq_greedy:
  "evaluate srt unmarshal ms =
     map (m_MatchId \<circ> mi_match) (greedy [] (srt byScore_Less (collect unmarshal ms)))"
  by (simp add: evaluate_greedy accepted_def)

text \<open>
  No two accepted matches share a ticket or a (non-empty) backfill id, and every accepted match
  is one of the proposals, whatever order the sort produces.
\<close>

theorem evaluate_disjoint:
  assumes "go_sort srt"
  shows "\<exists>acc. evaluate srt unmarshal ms = map (m_MatchId \<circ> mi_match) acc \<and>
           set acc \<subseteq> set (collect unmarshal ms) \<and>
           sorted_wrt (\<lambda>a b. \<not> collides (mi_match a) (mi_match b)) acc"
proof (intro exI conjI)
  show "evaluate srt unmarshal ms = map (m_MatchId \<circ> mi_match) (accepted srt unmarshal ms)"
    by (rule evaluate_greedy)
  show "set (accepted srt unmarshal ms) \<subseteq> set (collect unmarshal ms)"
    using set_greedy(2) [of "[]" "srt byScore_Less (collect unmarshal ms)"] go_sort.set_srt [OF assms]
    by (simp add: accepted_def)
  show "sorted_wrt (\<lambda>a b. \<not> collides (mi_match a) (mi_match b)) (accepted srt unmarshal ms)"
    by (simp add: accepted_def greedy_disjoint)
qed

text \<open>
  A proposal is rejected only for a better one. When no score is NaN, every decoded proposal is
  accepted or collides with an accepted match whose score is at least its own.
\<close>

theorem evaluate_dominated:
  assumes "go_sort srt" and "\<forall>p \<in> set (collect unmarshal ms). mi_score p \<noteq> NaN"
    and "p \<in> set (collect unmarshal ms)"
  shows "p \<in> set (accepted srt unmarshal ms) \<or>
    (\<exists>q \<in> set (accepted srt unmarshal ms). collides (mi_match q) (mi_match p) \<and> f64_le (mi_score p) (mi_score q))"
proof -
  let ?ms = "srt byScore_Less (collect unmarshal ms)"
  have "sorted_wrt (\<lambda>x y. \<not> byScore_Less y x) ?ms"
    by (rule go_sort.srt_sorted [OF assms(1)]) (rule strict_weak_byScore [OF assms(2)])
  moreover have "p \<in> set ?ms"
    using assms(3) go_sort.set_srt [OF assms(1)] by simp
  ultimately have "p \<in> set (greedy [] ?ms) \<or>
      (\<exists>a \<in> set (greedy [] ?ms). collides (mi_match a) (mi_match p) \<and> \<not> byScore_Less p a)"
    by (intro greedy_dominated) auto
  moreover have "f64_le (mi_score p) (mi_score a)"
    if "a \<in> set (greedy [] ?ms)" "\<not> byScore_Less p a" for a
  proof -
    from that(1) have "a \<in> set (collect unmarshal ms)"
      using set_greedy(2) [of "[]" ?ms] go_sort.set_srt [OF assms(1)] by auto
    with assms that(2) show ?thesis by (simp add: byScore_Less_def f64_le_iff)
  qed
  ultimately show ?thesis by (auto simp: accepted_def)
qed

text \<open>Two matches compete for ticket \<open>t1\<close>; a third is independent.\<close>

definition sample_matches :: "match list" where
  "sample_matches =
    [empty_match\<lparr>m_MatchId := ''low'', m_Tickets := [empty_ticket\<lparr>t_Id := ''t1''\<rparr>],
        m_Extensions := [''evaluation_input'' \<mapsto> \<lparr>TypeUrl = ''c'', AnyValue = ''1''\<rparr>]\<rparr>,
     empty_match\<lparr>m_MatchId := ''high'', m_Tickets := [empty_ticket\<lparr>t_Id := ''t1''\<rparr>, empty_ticket\<lparr>t_Id := ''t2''\<rparr>],
        m_Extensions := [''evaluation_input'' \<mapsto> \<lparr>TypeUrl = ''c'', AnyValue = ''9''\<rparr>]\<rparr>,
     empty_match\<lparr>m_MatchId := ''none'', m_Tickets := [empty_ticket\<lparr>t_Id := ''t3''\<rparr>]\<rparr>]"

definition sample_unmarshal :: "any_msg \<Rightarrow> f64 option" where
  "sample_unmarshal a = (if AnyValue a = ''1'' then Some (Fin 1) else Some (Fin 9))"

lemmas sample_defs = sample_matches_def sample_unmarshal_def byScore_Less_def insertion_sort_def
  collides_def ticket_ids_def backfill_key_def

lemma sample_evaluate:
  "evaluate insertion_sort sample_unmarshal sample_matches = [''high'', ''none'']"
  by (simp add: evaluate_greedy accepted_def sample_defs)

theorem evaluate_disjoint_witness:
  "\<exists>acc. [''high'', ''none''] = map (m_MatchId \<circ> mi_match) acc \<and>
     set acc \<subseteq> set (collect sample_unmarshal sample_matches) \<and>
     sorted_wrt (\<lambda>a b. \<not> collides (mi_match a) (mi_match b)) acc"
  using evaluate_disjoint [OF insertion.go_sort_axioms, of sample_unmarshal sample_matches]
  by (simp only: sample_evaluate)

theorem evaluate_dominated_witness:
  "\<exists>q \<in> set (accepted insertion_sort sample_unmarshal sample_matches).
     collides (mi_match q) (sample_matches ! 0) \<and> f64_le (Fin 1) (mi_score q)"
proof -
  let ?p = "\<lparr>mi_match = sample_matches ! 0, mi_score = Fin 1\<rparr>"
  have "?p \<notin> set (accepted insertion_sort sample_unmarshal sample_matches)"
    by (simp add: accepted_def sample_defs)
  moreover have "?p \<in> set (collect sample_unmarshal sample_matches)"
    by (simp add: sample_defs)
  moreover have "\<forall>p \<in> set (collect sample_unmarshal sample_matches). mi_score p \<noteq> NaN"
    by (simp add: sample_defs)
  ultimately show ?thesis
    using evaluate_dominated [OF insertion.go_sort_axioms, of sample_unmarshal sample_matches ?p] by auto
qed

end
