(* ===== verification/Scale_Scenarios.thy ===== *)
theory Scale_Scenarios
  imports Match_Function Default_Evaluator
begin

text \<open>
  The game scenarios of the scale test (\<open>examples/scale/scenarios\<close>): each has profiles, a source of
  tickets, a match function and an evaluator of its own. Here are the scenarios \<open>firstmatch\<close>,
  \<open>battleroyal\<close> and \<open>backfill\<close> and the wrapper that serves the active one; \<open>teamshooter\<close> has its own
  theory. From outside come the random numbers (\<open>intn k n\<close> is the \<open>k\<close>-th draw, from \<open>[0, n)\<close>), the
  formatted time and the packing of an \<open>Int32Value\<close> (\<open>mmf_env\<close>), and the order in which a map is
  iterated (a list of its entries).
\<close>

section \<open>Streams of an evaluator\<close>

text \<open>
  What \<open>stream.Recv\<close> returns: a request, whose match may be missing, the end of the stream, or an error.
\<close>

datatype scale_event = EvalReq "match option" | EvalEOF | EvalErr go_error

text \<open>The sending loop: the ids that the stream took, and the result.\<close>

fun send_ids :: "(nat \<Rightarrow> bool) \<Rightarrow> string list \<Rightarrow> string list \<Rightarrow> unit res \<times> string list" where
  "send_ids sendFails [] out = (Inr (), out)"
| "send_ids sendFails (i # ids) out =
    (if sendFails (length out) then (Inl (Wrapped (StreamErr 0)), out) else send_ids sendFails ids (out @ [i]))"

text \<open>The loop that looks for a used ticket, and the one that marks the tickets of a match as used.\<close>

fun any_used :: "string set \<Rightarrow> ticket list \<Rightarrow> bool" where
  "any_used used [] = False"
| "any_used used (t # ts) = (if t_Id t \<in> used then True else any_used used ts)"

fun mark_used :: "string set \<Rightarrow> ticket list \<Rightarrow> string set" where
  "mark_used used [] = used"
| "mark_used used (t # ts) = mark_used (insert (t_Id t) used) ts"

definition scenario_match_id :: "string \<Rightarrow> string \<Rightarrow> nat \<Rightarrow> string" where
  "scenario_match_id name t num = ''profile-'' @ name @ ''-time-'' @ t @ ''-'' @ itoa (int num)"

abbreviation poolName :: string where
  "poolName \<equiv> ''all''"

text \<open>Reading a map of slices: a missing key is an empty slice.\<close>

definition pool_entry :: "(string \<rightharpoonup> 'a list) \<Rightarrow> string \<Rightarrow> 'a list" where
  "pool_entry m name = (case m name of None \<Rightarrow> [] | Some ts \<Rightarrow> ts)"

text \<open>The profile with one pool and no criterion, which two scenarios use.\<close>

definition entirePool :: match_profile where
  "entirePool = \<lparr>mp_Name = ''entirePool'', mp_Pools = [empty_pool\<lparr>p_Name := poolName\<rparr>], mp_Extensions = Map.empty\<rparr>"

section \<open>First match\<close>

definition fm_Profiles :: "match_profile list" where
  "fm_Profiles = [entirePool]"

definition fm_Ticket :: ticket where
  "fm_Ticket = empty_ticket"

definition fm_Backfill :: "backfill option" where
  "fm_Backfill = None"

function fm_loop :: "mmf_env \<Rightarrow> string \<Rightarrow> ticket list \<Rightarrow> nat \<Rightarrow> match list \<Rightarrow> match list" where
  "fm_loop env profile tickets i matches =
    (if i + 1 < length tickets then
       fm_loop env profile tickets (i + 2)
         (matches @ [empty_match\<lparr>m_MatchId := scenario_match_id profile (formatted_now env (length matches)) (length matches),
            m_Tickets := [tickets ! i, tickets ! (i + 1)], m_MatchProfile := profile,
            m_MatchFunction := ''rangeExpandingMatchFunction''\<rparr>])
     else matches)"
  by pat_completeness auto
termination
  by (relation "measure (\<lambda>(env, profile, ts, i, ms). length ts - i)") auto

declare fm_loop.simps [simp del]

definition fm_MatchFunction :: "mmf_env \<Rightarrow> match_profile \<Rightarrow> (string \<rightharpoonup> backfill list) \<Rightarrow> (string \<rightharpoonup> ticket list) \<Rightarrow> match list res" where
  "fm_MatchFunction env p poolBackfills poolTickets = Inr (fm_loop env (mp_Name p) (pool_entry poolTickets poolName) 0 [])"

text \<open>\<open>fifoEvaluate\<close>: the receiving loop; a request without a match is dereferenced.\<close>

fun fifo_recv :: "string set \<Rightarrow> string list \<Rightarrow> scale_event list \<Rightarrow> string list res option" where
  "fifo_recv used matchIDs [] = None"
| "fifo_recv used matchIDs (EvalEOF # evs) = Some (Inr matchIDs)"
| "fifo_recv used matchIDs (EvalErr e # evs) = Some (Inl (Wrapped e))"
| "fifo_recv used matchIDs (EvalReq None # evs) = Some (Inl Panic)"
| "fifo_recv used matchIDs (EvalReq (Some m) # evs) =
    (if any_used used (m_Tickets m) then fifo_recv used matchIDs evs
     else fifo_recv (mark_used used (m_Tickets m)) (matchIDs @ [m_MatchId m]) evs)"

definition fm_Evaluate :: "(nat \<Rightarrow> bool) \<Rightarrow> scale_event list \<Rightarrow> (unit res \<times> string list) option" where
  "fm_Evaluate sendFails evs =
    (case fifo_recv {} [] evs of
       None \<Rightarrow> None
     | Some (Inl e) \<Rightarrow> Some (Inl e, [])
     | Some (Inr matchIDs) \<Rightarrow> Some (send_ids sendFails matchIDs []))"

section \<open>Battle royal\<close>

abbreviation regionArg :: string where
  "regionArg \<equiv> ''region''"

definition battleRoyalRegionName :: "int \<Rightarrow> string" where
  "battleRoyalRegionName i = ''region_'' @ itoa i"

text \<open>\<open>Scenario\<close>: the number of regions.\<close>

definition br_Scenario :: int where
  "br_Scenario = 20"

definition br_profile :: "int \<Rightarrow> match_profile" where
  "br_profile i = \<lparr>mp_Name = battleRoyalRegionName i,
     mp_Pools = [empty_pool\<lparr>p_Name := poolName,
       p_StringEqualsFilters := [\<lparr>sef_StringArg = regionArg, sef_Value = battleRoyalRegionName i\<rparr>]\<rparr>],
     mp_Extensions = Map.empty\<rparr>"

definition br_Profiles :: "int \<Rightarrow> match_profile list" where
  "br_Profiles regions = map br_profile [0..regions - 1]"

text \<open>\<open>rand.Intn\<close> panics if its argument is not positive.\<close>

definition br_Ticket :: "(nat \<Rightarrow> int \<Rightarrow> int) \<Rightarrow> int \<Rightarrow> ticket res" where
  "br_Ticket intn regions =
    (if regions \<le> 0 then Inl Panic
     else let a = intn 0 regions + 1 in
       if a \<le> 0 then Inl Panic
       else let r = intn 1 a in
         Inr (empty_ticket\<lparr>t_SearchFields := Some (emptySearchFields\<lparr>StringArgs := [regionArg \<mapsto> battleRoyalRegionName r]\<rparr>)\<rparr>))"

definition br_Backfill :: "backfill option" where
  "br_Backfill = None"

abbreviation playersInMatch :: nat where
  "playersInMatch \<equiv> 100"

function br_loop :: "mmf_env \<Rightarrow> string \<Rightarrow> ticket list \<Rightarrow> nat \<Rightarrow> match list \<Rightarrow> match list" where
  "br_loop env profile tickets i matches =
    (if i + playersInMatch \<le> length tickets then
       br_loop env profile tickets (i + playersInMatch)
         (matches @ [empty_match\<lparr>m_MatchId := scenario_match_id profile (formatted_now env (length matches)) (length matches),
            m_Tickets := take playersInMatch (drop i tickets), m_MatchProfile := profile, m_MatchFunction := ''battleRoyal''\<rparr>])
     else matches)"
  by pat_completeness auto
termination
  by (relation "measure (\<lambda>(env, profile, ts, i, ms). length ts - i)") auto

declare br_loop.simps [simp del]

definition br_MatchFunction :: "mmf_env \<Rightarrow> match_profile \<Rightarrow> (string \<rightharpoonup> backfill list) \<Rightarrow> (string \<rightharpoonup> ticket list) \<Rightarrow> match list res" where
  "br_MatchFunction env p poolBackfills poolTickets = Inr (br_loop env (mp_Name p) (pool_entry poolTickets poolName) 0 [])"

text \<open>The evaluator is the same text as that of the first scenario.\<close>

definition br_Evaluate :: "(nat \<Rightarrow> bool) \<Rightarrow> scale_event list \<Rightarrow> (unit res \<times> string list) option" where
  "br_Evaluate sendFails evs =
    (case fifo_recv {} [] evs of
       None \<Rightarrow> None
     | Some (Inl e) \<Rightarrow> Some (Inl e, [])
     | Some (Inr matchIDs) \<Rightarrow> Some (send_ids sendFails matchIDs []))"

section \<open>Backfill\<close>

definition bfs_Profiles :: "match_profile list" where
  "bfs_Profiles = [entirePool]"

definition bfs_Ticket :: ticket where
  "bfs_Ticket = empty_ticket"

definition bfs_Backfill :: "backfill option" where
  "bfs_Backfill = Some empty_backfill"

text \<open>\<open>getOpenSlots\<close> and \<open>setOpenSlots\<close>: an error of the packing is a panic; the value is stored as an \<open>int32\<close>.\<close>

definition int32 :: "int \<Rightarrow> int" where
  "int32 v = sint (word_of_int v :: 32 word)"

definition bfs_getOpenSlots :: "mmf_env \<Rightarrow> backfill \<Rightarrow> int \<Rightarrow> int res" where
  "bfs_getOpenSlots env b defaultVal =
    (case bf_Extensions b openSlotsKey of
       None \<Rightarrow> Inr defaultVal
     | Some a \<Rightarrow> (case UnmarshalInt32 env a of Inl e \<Rightarrow> Inl Panic | Inr v \<Rightarrow> Inr v))"

definition bfs_setOpenSlots :: "mmf_env \<Rightarrow> backfill \<Rightarrow> int \<Rightarrow> backfill res" where
  "bfs_setOpenSlots env b val =
    (case MarshalInt32 env (int32 val) of
       Inl e \<Rightarrow> Inl Panic
     | Inr a \<Rightarrow> Inr (b\<lparr>bf_Extensions := (bf_Extensions b)(openSlotsKey \<mapsto> a)\<rparr>))"

definition bfs_match :: "mmf_env \<Rightarrow> string \<Rightarrow> nat \<Rightarrow> ticket list \<Rightarrow> backfill \<Rightarrow> match" where
  "bfs_match env profile num tickets b =
    empty_match\<lparr>m_MatchId := scenario_match_id profile (formatted_now env num) num, m_Tickets := tickets,
      m_MatchProfile := profile, m_MatchFunction := ''backfill'', m_Backfill := Some b\<rparr>"

text \<open>\<open>statefullMMF\<close>: the loop over the backfills of a pool, then the loop that makes new ones.\<close>

fun smf_backfills :: "mmf_env \<Rightarrow> string \<Rightarrow> int \<Rightarrow> backfill list \<Rightarrow> ticket list \<Rightarrow> match list \<Rightarrow> (match list \<times> ticket list) res" where
  "smf_backfills env profile ticketsPerMatch [] tickets matches = Inr (matches, tickets)"
| "smf_backfills env profile ticketsPerMatch (b # bs) tickets matches =
    (let l = int (length tickets) in
     if l = 0 then Inr (matches, tickets)
     else case bfs_getOpenSlots env b ticketsPerMatch of
       Inl e \<Rightarrow> Inl e
     | Inr openSlots \<Rightarrow>
         if openSlots \<le> 0 then smf_backfills env profile ticketsPerMatch bs tickets matches
         else let l = (if l > openSlots then openSlots else l) in
           case bfs_setOpenSlots env b (openSlots - l) of
             Inl e \<Rightarrow> Inl e
           | Inr b \<Rightarrow> smf_backfills env profile ticketsPerMatch bs (drop (nat l) tickets)
               (matches @ [bfs_match env profile (length matches) (take (nat l) tickets) b]))"

text \<open>The second loop ends only if every round takes a ticket; \<open>None\<close> is a loop without end.\<close>

partial_function (option) smf_new ::
  "mmf_env \<Rightarrow> string \<Rightarrow> int \<Rightarrow> int \<Rightarrow> ticket list \<Rightarrow> match list \<Rightarrow> match list res option" where
  "smf_new env profile ticketsPerMatch maxTicketsPerNotFullMatch tickets matches =
    (let l = int (length tickets) in
     if l = 0 then Some (Inr matches)
     else let l = (if l > maxTicketsPerNotFullMatch then maxTicketsPerNotFullMatch else l) in
       case bfs_setOpenSlots env empty_backfill (ticketsPerMatch - l) of
         Inl e \<Rightarrow> Some (Inl e)
       | Inr b \<Rightarrow>
           if l < 0 then Some (Inl Panic)
           else smf_new env profile ticketsPerMatch maxTicketsPerNotFullMatch (drop (nat l) tickets)
             (matches @ [(bfs_match env profile (length matches) (take (nat l) tickets) b)\<lparr>m_AllocateGameserver := True\<rparr>]))"

text \<open>The loop over the pools: \<open>entries\<close> lists the map of backfills in the order of its iteration.\<close>

fun smf_pools :: "mmf_env \<Rightarrow> string \<Rightarrow> (string \<rightharpoonup> ticket list) \<Rightarrow> int \<Rightarrow> int \<Rightarrow> (string \<times> backfill list) list \<Rightarrow> match list \<Rightarrow>
    match list res option" where
  "smf_pools env profile poolTickets ticketsPerMatch maxTicketsPerNotFullMatch [] matches = Some (Inr matches)"
| "smf_pools env profile poolTickets ticketsPerMatch maxTicketsPerNotFullMatch ((pool, backfills) # entries) matches =
    (case poolTickets pool of
       None \<Rightarrow> smf_pools env profile poolTickets ticketsPerMatch maxTicketsPerNotFullMatch entries matches
     | Some tickets \<Rightarrow>
         if length tickets = 0 then
           smf_pools env profile poolTickets ticketsPerMatch maxTicketsPerNotFullMatch entries matches
         else
           case smf_backfills env profile ticketsPerMatch backfills tickets matches of
             Inl e \<Rightarrow> Some (Inl e)
           | Inr (matches, tickets) \<Rightarrow>
               (case smf_new env profile ticketsPerMatch maxTicketsPerNotFullMatch tickets matches of
                  None \<Rightarrow> None
                | Some (Inl e) \<Rightarrow> Some (Inl e)
                | Some (Inr matches) \<Rightarrow>
                    smf_pools env profile poolTickets ticketsPerMatch maxTicketsPerNotFullMatch entries matches))"

definition statefullMMF :: "mmf_env \<Rightarrow> match_profile \<Rightarrow> (string \<times> backfill list) list \<Rightarrow> (string \<rightharpoonup> ticket list) \<Rightarrow> int \<Rightarrow> int \<Rightarrow>
    match list res option" where
  "statefullMMF env p poolBackfills poolTickets ticketsPerMatch maxTicketsPerNotFullMatch =
    smf_pools env (mp_Name p) poolTickets ticketsPerMatch maxTicketsPerNotFullMatch poolBackfills []"

text \<open>\<open>statelessMMF\<close>, which fills the backfills it is given and leaves them as they are.\<close>

fun slm_backfills :: "mmf_env \<Rightarrow> string \<Rightarrow> int \<Rightarrow> backfill list \<Rightarrow> ticket list \<Rightarrow> match list \<Rightarrow> match list" where
  "slm_backfills env profile ticketsPerMatch [] tickets matches = matches"
| "slm_backfills env profile ticketsPerMatch (b # bs) tickets matches =
    (let l = int (length tickets) in
     if l = 0 then matches
     else let l = (if l > ticketsPerMatch \<and> ticketsPerMatch > 0 then ticketsPerMatch else l) in
       slm_backfills env profile ticketsPerMatch bs (drop (nat l) tickets)
         (matches @ [bfs_match env profile (length matches) (take (nat l) tickets) b]))"

fun slm_pools :: "mmf_env \<Rightarrow> string \<Rightarrow> (string \<rightharpoonup> ticket list) \<Rightarrow> int \<Rightarrow> (string \<times> backfill list) list \<Rightarrow> match list \<Rightarrow> match list" where
  "slm_pools env profile poolTickets ticketsPerMatch [] matches = matches"
| "slm_pools env profile poolTickets ticketsPerMatch ((pool, backfills) # entries) matches =
    (case poolTickets pool of
       None \<Rightarrow> slm_pools env profile poolTickets ticketsPerMatch entries matches
     | Some tickets \<Rightarrow>
         if length tickets = 0 then slm_pools env profile poolTickets ticketsPerMatch entries matches
         else slm_pools env profile poolTickets ticketsPerMatch entries
           (slm_backfills env profile ticketsPerMatch backfills tickets matches))"

definition statelessMMF :: "mmf_env \<Rightarrow> match_profile \<Rightarrow> (string \<times> backfill list) list \<Rightarrow> (string \<rightharpoonup> ticket list) \<Rightarrow> int \<Rightarrow>
    match list res" where
  "statelessMMF env p poolBackfills poolTickets ticketsPerMatch =
    Inr (slm_pools env (mp_Name p) poolTickets ticketsPerMatch poolBackfills [])"

text \<open>The scenario's values: its two sizes and the condition under which the driver deletes a backfill.\<close>

record backfill_scenario =
  TicketsPerMatch :: int
  MaxTicketsPerNotFullMatch :: int
  BackfillDeleteCond :: "backfill \<Rightarrow> bool res"

definition bfs_Scenario :: "mmf_env \<Rightarrow> backfill_scenario" where
  "bfs_Scenario env = \<lparr>TicketsPerMatch = 4, MaxTicketsPerNotFullMatch = 3,
     BackfillDeleteCond = (\<lambda>b. case bfs_getOpenSlots env b 4 of Inl e \<Rightarrow> Inl e | Inr openSlots \<Rightarrow> Inr (openSlots \<le> 0))\<rparr>"

definition bfs_MatchFunction :: "mmf_env \<Rightarrow> backfill_scenario \<Rightarrow> match_profile \<Rightarrow> (string \<times> backfill list) list \<Rightarrow>
    (string \<rightharpoonup> ticket list) \<Rightarrow> match list res option" where
  "bfs_MatchFunction env s p poolBackfills poolTickets =
    statefullMMF env p poolBackfills poolTickets (TicketsPerMatch s) (MaxTicketsPerNotFullMatch s)"

text \<open>
  The evaluator has a table of backfills too, which it reads and never writes; the backfill of a match
  is dereferenced without a check.
\<close>

fun bfs_recv :: "string set \<Rightarrow> string set \<Rightarrow> string list \<Rightarrow> scale_event list \<Rightarrow> string list res option" where
  "bfs_recv tickets backfills matchIds [] = None"
| "bfs_recv tickets backfills matchIds (EvalEOF # evs) = Some (Inr matchIds)"
| "bfs_recv tickets backfills matchIds (EvalErr e # evs) = Some (Inl (Wrapped e))"
| "bfs_recv tickets backfills matchIds (EvalReq None # evs) = Some (Inl Panic)"
| "bfs_recv tickets backfills matchIds (EvalReq (Some m) # evs) =
    (case m_Backfill m of
       None \<Rightarrow> Some (Inl Panic)
     | Some b \<Rightarrow>
         if bf_Id b \<in> backfills then bfs_recv tickets backfills matchIds evs
         else if any_used tickets (m_Tickets m) then bfs_recv tickets backfills matchIds evs
         else bfs_recv (mark_used tickets (m_Tickets m)) backfills (matchIds @ [m_MatchId m]) evs)"

definition bfs_Evaluate :: "(nat \<Rightarrow> bool) \<Rightarrow> scale_event list \<Rightarrow> (unit res \<times> string list) option" where
  "bfs_Evaluate sendFails evs =
    (case bfs_recv {} {} [] evs of
       None \<Rightarrow> None
     | Some (Inl e) \<Rightarrow> Some (Inl e, [])
     | Some (Inr matchIds) \<Rightarrow> Some (send_ids sendFails matchIds []))"

section \<open>The active scenario\<close>

text \<open>
  \<open>queryPoolsWrapper\<close>: tickets and backfills of all pools, the match function, the sends. The two lists of
  events are the orders in which the goroutines of the two queries answer.
\<close>

definition queryPoolsWrapper ::
  "(pool \<Rightarrow> ticket page_event list res) \<Rightarrow> (pool \<Rightarrow> backfill page_event list res) \<Rightarrow>
   (match_profile \<Rightarrow> (string \<rightharpoonup> backfill list) \<Rightarrow> (string \<rightharpoonup> ticket list) \<Rightarrow> match list res option) \<Rightarrow>
   (nat \<Rightarrow> bool) \<Rightarrow> match_profile \<Rightarrow> pools_event list \<Rightarrow> pools_event list \<Rightarrow> (unit res \<times> match list) option" where
  "queryPoolsWrapper client bclient mmf sendFails profile evs bevs =
    (case QueryPools client (mp_Pools profile) evs of
       None \<Rightarrow> None
     | Some (Inl e) \<Rightarrow> Some (Inl e, [])
     | Some (Inr poolTickets) \<Rightarrow>
         (case QueryBackfillPools bclient (mp_Pools profile) bevs of
            None \<Rightarrow> None
          | Some (Inl e) \<Rightarrow> Some (Inl e, [])
          | Some (Inr poolBackfills) \<Rightarrow>
              (case mmf profile poolBackfills poolTickets of
                 None \<Rightarrow> None
               | Some (Inl e) \<Rightarrow> Some (Inl e, [])
               | Some (Inr proposals) \<Rightarrow> Some (send_proposals sendFails proposals []))))"

record scenario =
  FrontendTicketCreatedQPS :: int
  FrontendTotalTicketsToCreate :: int
  FrontendTotalBackfillsToCreate :: int
  FrontendCreatesBackfillsOnStart :: bool
  FrontendDeletesTickets :: bool
  BackendAssignsTickets :: bool
  BackendAcknowledgesBackfills :: bool
  BackendDeletesBackfills :: bool
  sc_Ticket :: ticket
  sc_Backfill :: "backfill option"
  sc_BackfillDeleteCond :: "backfill \<Rightarrow> bool res"
  sc_Profiles :: "match_profile list"
  MMF :: "(pool \<Rightarrow> ticket page_event list res) \<Rightarrow> (pool \<Rightarrow> backfill page_event list res) \<Rightarrow>
    ((string \<rightharpoonup> backfill list) \<Rightarrow> (string \<times> backfill list) list) \<Rightarrow> (nat \<Rightarrow> bool) \<Rightarrow> match_profile \<Rightarrow>
    pools_event list \<Rightarrow> pools_event list \<Rightarrow> (unit res \<times> match list) option"
  sc_Evaluator :: "(nat \<Rightarrow> bool) \<Rightarrow> scale_event list \<Rightarrow> (unit res \<times> string list) option"

definition ActiveScenario :: "mmf_env \<Rightarrow> scenario" where
  "ActiveScenario env =
    (let s = bfs_Scenario env in
     \<lparr>FrontendTicketCreatedQPS = 100, FrontendTotalTicketsToCreate = -1, FrontendTotalBackfillsToCreate = 1000,
      FrontendCreatesBackfillsOnStart = True, FrontendDeletesTickets = True,
      BackendAssignsTickets = False, BackendAcknowledgesBackfills = True, BackendDeletesBackfills = True,
      sc_Ticket = bfs_Ticket, sc_Backfill = bfs_Backfill, sc_BackfillDeleteCond = BackfillDeleteCond s,
      sc_Profiles = bfs_Profiles,
      MMF = (\<lambda>client bclient entries. queryPoolsWrapper client bclient
        (\<lambda>p poolBackfills poolTickets. bfs_MatchFunction env s p (entries poolBackfills) poolTickets)),
      sc_Evaluator = bfs_Evaluate\<rparr>)"

section \<open>Evaluators that let no ticket into two matches\<close>

text \<open>
  What every evaluator of the scenarios promises for the proposals that it receives: it accepts some of
  them, no two with a common ticket, and rejects only what collides with an accepted one.
\<close>

locale exclusive_evaluator =
  fixes ids :: "'a \<Rightarrow> string set" and accept :: "'a list \<Rightarrow> 'a list"
  assumes accept_set: "set (accept ms) \<subseteq> set ms"
    and accept_disjoint: "sorted_wrt (\<lambda>a b. ids a \<inter> ids b = {}) (accept ms)"
    and accept_maximal: "m \<in> set ms \<Longrightarrow> m \<in> set (accept ms) \<or> (\<exists>a \<in> set (accept ms). ids a \<inter> ids m \<noteq> {})"
begin

lemma accept_nonempty: "accept ms = [] \<longleftrightarrow> ms = []"
  using accept_set [of ms] accept_maximal [of "hd ms" ms] by (cases ms) auto

lemma accept_card:
  assumes "\<And>m. m \<in> set ms \<Longrightarrow> card (ids m) = n" and "\<And>m. m \<in> set ms \<Longrightarrow> finite (ids m)"
  shows "length (accept ms) * n = card (\<Union> (ids ` set (accept ms)))"
proof -
  have "length as * n = card (\<Union> (ids ` set as))"
    if "set as \<subseteq> set ms" "sorted_wrt (\<lambda>a b. ids a \<inter> ids b = {}) as" for as
    using that
  proof (induction as)
    case (Cons a as)
    then have "ids a \<inter> \<Union> (ids ` set as) = {}" "finite (\<Union> (ids ` set as))" using assms(2) by auto
    with Cons assms show ?case by (simp add: card_Un_disjoint)
  qed simp
  from this [OF accept_set accept_disjoint] show ?thesis .
qed

text \<open>No more tickets are used than there are: a bound on the number of accepted matches.\<close>

lemma accept_bound:
  assumes "\<And>m. m \<in> set ms \<Longrightarrow> card (ids m) = n" and "\<And>m. m \<in> set ms \<Longrightarrow> ids m \<subseteq> T" and "finite T"
  shows "length (accept ms) * n \<le> card T"
proof -
  have "finite (ids m)" if "m \<in> set ms" for m using assms(2) [OF that] assms(3) by (rule finite_subset)
  from accept_card [OF assms(1) this] have "length (accept ms) * n = card (\<Union> (ids ` set (accept ms)))" by blast
  also have "\<dots> \<le> card T" using assms(2,3) accept_set [of ms] by (intro card_mono UN_least) auto
  finally show ?thesis .
qed

end

text \<open>The reference: walk the proposals and keep one if it has no ticket of one kept before.\<close>

fun first_come :: "('a \<Rightarrow> string set) \<Rightarrow> 'a list \<Rightarrow> 'a list \<Rightarrow> 'a list" where
  "first_come ids acc [] = acc"
| "first_come ids acc (m # ms) =
    (if list_ex (\<lambda>a. ids a \<inter> ids m \<noteq> {}) acc then first_come ids acc ms else first_come ids (acc @ [m]) ms)"

lemma first_come_set: "set acc \<subseteq> set (first_come ids acc ms)" "set (first_come ids acc ms) \<subseteq> set acc \<union> set ms"
proof (induction ms arbitrary: acc)
  case (Cons m ms)
  { case 1 show ?case using Cons.IH(1) [of acc] Cons.IH(1) [of "acc @ [m]"] by auto }
  { case 2 show ?case using Cons.IH(2) [of acc] Cons.IH(2) [of "acc @ [m]"] by auto }
qed simp_all

lemma first_come_disjoint:
  "sorted_wrt (\<lambda>a b. ids a \<inter> ids b = {}) acc \<Longrightarrow> sorted_wrt (\<lambda>a b. ids a \<inter> ids b = {}) (first_come ids acc ms)"
  by (induction ms arbitrary: acc) (auto simp: sorted_wrt_append list_ex_iff)

lemma first_come_maximal:
  "m \<in> set ms \<Longrightarrow> m \<in> set (first_come ids acc ms) \<or> (\<exists>a \<in> set (first_come ids acc ms). ids a \<inter> ids m \<noteq> {})"
proof (induction ms arbitrary: acc)
  case (Cons x ms)
  show ?case
  proof (cases "m = x")
    case True
    have "\<exists>a \<in> set (first_come ids acc ms). ids a \<inter> ids x \<noteq> {}" if "list_ex (\<lambda>a. ids a \<inter> ids x \<noteq> {}) acc"
      using that first_come_set(1) [of acc ids ms] unfolding list_ex_iff by blast
    moreover have "x \<in> set (first_come ids (acc @ [x]) ms)" using first_come_set(1) [of "acc @ [x]" ids ms] by simp
    ultimately show ?thesis by (simp add: True)
  next
    case False
    with Cons show ?thesis by simp
  qed
qed simp

interpretation fifo: exclusive_evaluator ids "first_come ids []" for ids
proof
  show "set (first_come ids [] ms) \<subseteq> set ms" for ms using first_come_set(2) [of ids "[]" ms] by simp
  show "sorted_wrt (\<lambda>a b. ids a \<inter> ids b = {}) (first_come ids [] ms)" for ms by (rule first_come_disjoint) simp
qed (rule first_come_maximal)

text \<open>Sorting first, by any order, keeps the promise.\<close>

sublocale go_sort < sorting: exclusive_evaluator ids "\<lambda>ms. first_come ids [] (srt lt ms)" for ids lt
proof
  show "set (first_come ids [] (srt lt ms)) \<subseteq> set ms" for ms using fifo.accept_set [of ids "srt lt ms"] by simp
  show "sorted_wrt (\<lambda>a b. ids a \<inter> ids b = {}) (first_come ids [] (srt lt ms))" for ms by (rule fifo.accept_disjoint)
  show "m \<in> set ms \<Longrightarrow> m \<in> set (first_come ids [] (srt lt ms)) \<or> (\<exists>a \<in> set (first_come ids [] (srt lt ms)). ids a \<inter> ids m \<noteq> {})"
    for m ms using fifo.accept_maximal [of m "srt lt ms" ids] by simp
qed

context go_sort
begin

lemma srt_accept:
  shows "set (first_come ids [] (srt lt ms)) \<subseteq> set ms" and "first_come ids [] (srt lt ms) = [] \<longleftrightarrow> ms = []"
    and "(\<And>m. m \<in> set ms \<Longrightarrow> card (ids m) = n) \<Longrightarrow> (\<And>m. m \<in> set ms \<Longrightarrow> ids m \<subseteq> T) \<Longrightarrow> finite T \<Longrightarrow>
      length (first_come ids [] (srt lt ms)) * n \<le> card T"
  by (rule sorting.accept_set, rule sorting.accept_nonempty, rule sorting.accept_bound)

end

lemma any_used_iff: "any_used used ts \<longleftrightarrow> used \<inter> t_Id ` set ts \<noteq> {}"
  by (induction ts) auto

lemma mark_used_eq [simp]: "mark_used used ts = used \<union> t_Id ` set ts"
  by (induction ts arbitrary: used) auto

lemma send_ids_ok: "(\<And>k. \<not> sendFails k) \<Longrightarrow> send_ids sendFails ids out = (Inr (), out @ ids)"
  by (induction ids arbitrary: out) simp_all

abbreviation requests :: "match list \<Rightarrow> scale_event list" where
  "requests ms \<equiv> map (\<lambda>m. EvalReq (Some m)) ms @ [EvalEOF]"

text \<open>The table of used tickets holds exactly those of the kept proposals.\<close>

lemma used_iff:
  "used = \<Union> (ticket_ids ` set acc) \<Longrightarrow> any_used used (m_Tickets m) \<longleftrightarrow> list_ex (\<lambda>a. ticket_ids a \<inter> ticket_ids m \<noteq> {}) acc"
  by (auto simp: any_used_iff list_ex_iff ticket_ids_def)

lemma fifo_recv_first_come:
  "used = \<Union> (ticket_ids ` set acc) \<Longrightarrow> fifo_recv used (map m_MatchId acc) (requests ms) =
     Some (Inr (map m_MatchId (first_come ticket_ids acc ms)))"
proof (induction ms arbitrary: used acc)
  case (Cons m ms)
  have "fifo_recv (mark_used used (m_Tickets m)) (map m_MatchId (acc @ [m])) (requests ms) =
      Some (Inr (map m_MatchId (first_come ticket_ids (acc @ [m]) ms)))" by (rule Cons.IH) (auto simp: Cons.prems ticket_ids_def)
  with Cons.IH [OF Cons.prems] show ?case by (simp add: used_iff [OF Cons.prems])
qed simp

lemma bfs_recv_first_come:
  "list_all (\<lambda>m. m_Backfill m \<noteq> None) ms \<Longrightarrow> used = \<Union> (ticket_ids ` set acc) \<Longrightarrow>
   bfs_recv used {} (map m_MatchId acc) (requests ms) = Some (Inr (map m_MatchId (first_come ticket_ids acc ms)))"
proof (induction ms arbitrary: used acc)
  case (Cons m ms)
  have "bfs_recv (mark_used used (m_Tickets m)) {} (map m_MatchId (acc @ [m])) (requests ms) =
      Some (Inr (map m_MatchId (first_come ticket_ids (acc @ [m]) ms)))"
    using Cons.prems by (intro Cons.IH) (auto simp: ticket_ids_def)
  with Cons.IH [OF _ Cons.prems(2)] Cons.prems show ?case by (auto simp: used_iff split: option.splits)
qed simp

text \<open>
  The evaluators of the scenarios \<open>firstmatch\<close>, \<open>battleroyal\<close> and \<open>backfill\<close> accept first come, first
  served: for every stream of matches (each with a backfill, for the last) that comes to its end, they send
  the ids of exactly the matches that the reference keeps, in order; no two of these share a ticket, and
  every other match shares one with them.
\<close>

theorem scenario_evaluators_first_come:
  assumes "\<And>k. \<not> sendFails k"
  shows "let acc = first_come ticket_ids [] ms in
    fm_Evaluate sendFails (requests ms) = Some (Inr (), map m_MatchId acc) \<and>
    br_Evaluate sendFails (requests ms) = Some (Inr (), map m_MatchId acc) \<and>
    (list_all (\<lambda>m. m_Backfill m \<noteq> None) ms \<longrightarrow> bfs_Evaluate sendFails (requests ms) = Some (Inr (), map m_MatchId acc)) \<and>
    sorted_wrt (\<lambda>a b. ticket_ids a \<inter> ticket_ids b = {}) acc \<and> set acc \<subseteq> set ms \<and>
    (\<forall>m \<in> set ms. m \<in> set acc \<or> (\<exists>a \<in> set acc. ticket_ids a \<inter> ticket_ids m \<noteq> {}))"
  using fifo_recv_first_come [of "{}" "[]" ms] bfs_recv_first_come [of ms "{}" "[]"] fifo.accept_set [of ticket_ids ms]
    fifo.accept_disjoint [of ticket_ids ms] fifo.accept_maximal [of _ ms ticket_ids]
  by (simp add: Let_def fm_Evaluate_def br_Evaluate_def bfs_Evaluate_def send_ids_ok assms)

text \<open>
  The table of used backfills stays empty, so the evaluator of the scenario \<open>backfill\<close> accepts two matches
  that fill the same backfill; and a match without a backfill makes it panic.
\<close>

theorem backfill_evaluator_shares:
  assumes "m_Backfill m = Some b" and "m_Backfill m' = Some b" and "ticket_ids m \<inter> ticket_ids m' = {}"
  shows "bfs_Evaluate (\<lambda>_. False) (requests [m, m']) = Some (Inr (), [m_MatchId m, m_MatchId m'])"
    and "m_Backfill n = None \<Longrightarrow> bfs_Evaluate sendFails (EvalReq (Some n) # evs) = Some (Inl Panic, [])"
  using assms bfs_recv_first_come [of "[m, m']" "{}" "[]"] by (simp_all add: bfs_Evaluate_def)

section \<open>Match functions that cut the tickets into groups\<close>

text \<open>The first \<open>k\<close> groups of \<open>n\<close> tickets.\<close>

definition groups :: "nat \<Rightarrow> 'a list \<Rightarrow> nat \<Rightarrow> 'a list list" where
  "groups n ts k = map (\<lambda>j. take n (drop (n * j) ts)) [0..<k]"

lemma groups_Suc: "groups n ts (Suc k) = groups n ts k @ [take n (drop (n * k) ts)]"
  by (simp add: groups_def)

lemma concat_groups: "n * k \<le> length ts \<Longrightarrow> concat (groups n ts k) = take (n * k) ts"
proof (induction k)
  case (Suc k)
  then have "concat (groups n ts (Suc k)) = take (n * k) ts @ take n (drop (n * k) ts)" by (simp add: groups_Suc)
  also have "\<dots> = take (n * Suc k) ts" by (simp only: mult_Suc_right add.commute [of n] take_add)
  finally show ?case .
qed (simp add: groups_def)

lemma length_groups: "n * k \<le> length ts \<Longrightarrow> list_all (\<lambda>g. length g = n) (groups n ts k)"
proof -
  assume le: "n * k \<le> length ts"
  have "n \<le> length ts - n * j" if "j < k" for j
  proof -
    have "n * j + n \<le> n * k" using that by (metis Suc_leI mult_Suc_right mult_le_mono2 add.commute)
    with le show ?thesis by simp
  qed
  then show ?thesis by (auto simp: groups_def list_all_iff)
qed

text \<open>
  What a match function of this kind makes of the tickets: the groups, in order, with matches numbered
  from zero.
\<close>

definition makes_groups :: "mmf_env \<Rightarrow> string \<Rightarrow> nat \<Rightarrow> ticket list \<Rightarrow> nat \<Rightarrow> match list \<Rightarrow> bool" where
  "makes_groups env profile n ts k ms \<longleftrightarrow> map m_Tickets ms = groups n ts k \<and>
     map m_MatchId ms = map (\<lambda>j. scenario_match_id profile (formatted_now env j) j) [0..<k]"

lemma makes_groups_snoc:
  assumes "makes_groups env profile n ts k ms" and "m_Tickets m = take n (drop (n * k) ts)"
    and "m_MatchId m = scenario_match_id profile (formatted_now env (length ms)) (length ms)"
  shows "makes_groups env profile n ts (Suc k) (ms @ [m])"
proof -
  have "length ms = k" using assms(1) unfolding makes_groups_def by (metis length_map length_upt minus_nat.diff_0)
  with assms show ?thesis by (simp add: makes_groups_def groups_Suc)
qed

lemma take2_drop: "Suc i < length ts \<Longrightarrow> take 2 (drop i ts) = [ts ! i, ts ! Suc i]"
  by (simp add: numeral_2_eq_2 take_Suc_conv_app_nth)

lemma fm_loop_groups:
  "makes_groups env profile 2 ts k ms \<Longrightarrow> i = 2 * k \<Longrightarrow> i \<le> length ts \<Longrightarrow>
   makes_groups env profile 2 ts (length ts div 2) (fm_loop env profile ts i ms)"
proof (induction env profile ts i ms arbitrary: k rule: fm_loop.induct)
  case (1 env profile ts i ms)
  show ?case
  proof (cases "i + 1 < length ts")
    case True
    show ?thesis unfolding fm_loop.simps [of env profile ts i] if_P [OF True]
    proof (rule "1.IH" [OF True, of "Suc k"])
      show "makes_groups env profile 2 ts (Suc k) (ms @ [empty_match
          \<lparr>m_MatchId := scenario_match_id profile (formatted_now env (length ms)) (length ms), m_Tickets := [ts ! i, ts ! (i + 1)],
           m_MatchProfile := profile, m_MatchFunction := ''rangeExpandingMatchFunction''\<rparr>])"
        using "1.prems" True by (intro makes_groups_snoc) (simp_all add: take2_drop)
    qed (use True "1.prems" in simp_all)
  next
    case False
    with "1.prems"(2,3) have "k = length ts div 2" by simp
    with "1.prems"(1) False show ?thesis by (simp add: fm_loop.simps [of env profile ts i])
  qed
qed

lemma br_loop_groups:
  "makes_groups env profile 100 ts k ms \<Longrightarrow> i = 100 * k \<Longrightarrow> i \<le> length ts \<Longrightarrow>
   makes_groups env profile 100 ts (length ts div 100) (br_loop env profile ts i ms)"
proof (induction env profile ts i ms arbitrary: k rule: br_loop.induct)
  case (1 env profile ts i ms)
  show ?case
  proof (cases "i + 100 \<le> length ts")
    case True
    show ?thesis unfolding br_loop.simps [of env profile ts i] if_P [OF True]
    proof (rule "1.IH" [OF True, of "Suc k"])
      show "makes_groups env profile 100 ts (Suc k) (ms @ [empty_match
          \<lparr>m_MatchId := scenario_match_id profile (formatted_now env (length ms)) (length ms), m_Tickets := take 100 (drop i ts),
           m_MatchProfile := profile, m_MatchFunction := ''battleRoyal''\<rparr>])"
        using "1.prems" by (intro makes_groups_snoc) simp_all
    qed (use True "1.prems" in simp_all)
  next
    case False
    with "1.prems"(2,3) have "k = length ts div 100" by simp
    with "1.prems"(1) False show ?thesis by (simp add: br_loop.simps [of env profile ts i])
  qed
qed

lemma makes_groups_0: "makes_groups env profile n ts 0 []"
  by (simp add: makes_groups_def groups_def)

text \<open>The formatted time has a fixed length, so that the ids of a call are distinct.\<close>

lemma scenario_ids_distinct:
  assumes "\<And>n. length (formatted_now env n) = 22"
  shows "distinct (map (\<lambda>j. scenario_match_id profile (formatted_now env j) j) [0..<k])"
proof -
  have "j = j'" if "scenario_match_id profile (formatted_now env j) j = scenario_match_id profile (formatted_now env j') j'" for j j'
  proof -
    have "formatted_now env j @ ''-'' @ itoa (int j) = formatted_now env j' @ ''-'' @ itoa (int j')"
      using that by (simp add: scenario_match_id_def)
    then have "itoa (int j) = itoa (int j')" using assms [of j] assms [of j'] by (simp add: append_eq_append_conv)
    then show ?thesis by (auto simp: itoa_def dest: digits_inj)
  qed
  then show ?thesis by (auto simp: distinct_map inj_on_def)
qed

lemma makes_groups_partition:
  assumes "makes_groups env profile n ts (length ts div n) ms" and "\<And>n. length (formatted_now env n) = 22"
  shows "concat (map m_Tickets ms) = take (n * (length ts div n)) ts \<and> list_all (\<lambda>m. length (m_Tickets m) = n) ms \<and>
    distinct (map m_MatchId ms)"
proof -
  have le: "n * (length ts div n) \<le> length ts" by simp
  note h = assms(1) [unfolded makes_groups_def]
  have "list_all (\<lambda>g. length g = n) (map m_Tickets ms)" using length_groups [OF le] h by simp
  then have "list_all (\<lambda>m. length (m_Tickets m) = n) ms" by (simp add: list.pred_map comp_def)
  moreover have "concat (map m_Tickets ms) = take (n * (length ts div n)) ts" using concat_groups [OF le] h by simp
  moreover have "distinct (map m_MatchId ms)" using scenario_ids_distinct [OF assms(2)] h by simp
  ultimately show ?thesis by blast
qed

text \<open>
  The match functions of \<open>firstmatch\<close> and \<open>battleroyal\<close> cut the tickets of the pool into groups of two and
  of a hundred: the tickets of the matches, in order, are the longest prefix of the pool whose length is
  divisible, every match has the full number of players, and the match ids are distinct.
\<close>

theorem scenario_matches_partition:
  assumes "\<And>n. length (formatted_now env n) = 22" and "ts = pool_entry poolTickets poolName"
  shows "\<exists>ms ms'. fm_MatchFunction env p poolBackfills poolTickets = Inr ms \<and> br_MatchFunction env p poolBackfills poolTickets = Inr ms' \<and>
    concat (map m_Tickets ms) = take (2 * (length ts div 2)) ts \<and> list_all (\<lambda>m. length (m_Tickets m) = 2) ms \<and>
    concat (map m_Tickets ms') = take (100 * (length ts div 100)) ts \<and> list_all (\<lambda>m. length (m_Tickets m) = 100) ms' \<and>
    distinct (map m_MatchId ms) \<and> distinct (map m_MatchId ms')"
  using makes_groups_partition [OF fm_loop_groups [OF makes_groups_0] assms(1)]
    makes_groups_partition [OF br_loop_groups [OF makes_groups_0] assms(1)] assms(2)
  by (simp add: fm_MatchFunction_def br_MatchFunction_def)

section \<open>Tickets and profiles of a battle royal\<close>

text \<open>Whether a ticket is in a pool of a profile, by the filter that the query service uses.\<close>

definition in_profile :: "(timestamp option \<Rightarrow> gtime option) \<Rightarrow> match_profile \<Rightarrow> ticket \<Rightarrow> bool" where
  "in_profile ts_time profile t =
    list_ex (\<lambda>p. case NewPoolFilter ts_time p of Inl _ \<Rightarrow> False | Inr pf \<Rightarrow> In ts_time pf (ticket_entity t)) (mp_Pools profile)"

lemma itoa_inj: "0 \<le> i \<Longrightarrow> 0 \<le> j \<Longrightarrow> itoa i = itoa j \<Longrightarrow> i = j"
  by (auto simp: itoa_def dest: digits_inj)

lemma region_name_inj: "0 \<le> i \<Longrightarrow> 0 \<le> j \<Longrightarrow> battleRoyalRegionName i = battleRoyalRegionName j \<longleftrightarrow> i = j"
  by (auto simp: battleRoyalRegionName_def dest: itoa_inj)

lemma br_in_profile:
  "in_profile ts_time (br_profile i) (empty_ticket\<lparr>t_SearchFields := Some (emptySearchFields\<lparr>StringArgs := [regionArg \<mapsto> v]\<rparr>)\<rparr>) \<longleftrightarrow>
     battleRoyalRegionName i = v"
  by (simp add: in_profile_def br_profile_def NewPoolFilter_def empty_pool_def In_def created_check_def ticket_entity_def)

text \<open>
  Every ticket that the battle royal scenario draws is in the pool of exactly one of its profiles: the
  profiles partition the players by region, and none is left out.
\<close>

theorem br_ticket_one_profile:
  assumes draw: "\<And>k n. 0 < n \<Longrightarrow> 0 \<le> intn k n \<and> intn k n < n" and "0 < regions"
  shows "\<exists>t. br_Ticket intn regions = Inr t \<and> (\<exists>!p. p \<in> set (br_Profiles regions) \<and> in_profile ts_time p t)"
proof -
  define r where "r = intn 1 (intn 0 regions + 1)"
  have a: "0 < intn 0 regions + 1" "intn 0 regions < regions" using draw [OF assms(2), of 0] by auto
  with draw [OF a(1), of 1] have r: "0 \<le> r" "r < regions" by (auto simp: r_def)
  let ?t = "empty_ticket\<lparr>t_SearchFields := Some (emptySearchFields\<lparr>StringArgs := [regionArg \<mapsto> battleRoyalRegionName r]\<rparr>)\<rparr>"
  have t: "br_Ticket intn regions = Inr ?t" using a assms(2) by (simp add: br_Ticket_def r_def)
  have "p \<in> set (br_Profiles regions) \<and> in_profile ts_time p ?t \<longleftrightarrow> p = br_profile r" for p
    using r by (auto simp: br_Profiles_def br_in_profile region_name_inj)
  with t show ?thesis by auto
qed

section \<open>Backfills that are filled over several calls\<close>

text \<open>What the scenario relies on: an \<open>Int32Value\<close> can be packed, and unpacks to itself.\<close>

definition packs_int32 :: "mmf_env \<Rightarrow> bool" where
  "packs_int32 env \<longleftrightarrow> (\<forall>v. - (2 ^ 31) \<le> v \<and> v < 2 ^ 31 \<longrightarrow> (\<exists>a. MarshalInt32 env v = Inr a \<and> UnmarshalInt32 env a = Inr v))"

lemma int32_range: "- (2 ^ 31) \<le> int32 v" "int32 v < 2 ^ 31"
  using sint_range_size [of "word_of_int v :: 32 word"] by (simp_all add: int32_def word_size)

lemma int32_id: "- (2 ^ 31) \<le> v \<Longrightarrow> v < 2 ^ 31 \<Longrightarrow> int32 v = v"
  by (simp add: int32_def sint_sbintrunc' signed_take_bit_int_eq_self)

lemma bfs_set_get:
  assumes "packs_int32 env"
  shows "\<exists>b'. bfs_setOpenSlots env b v = Inr b' \<and> bf_Id b' = bf_Id b \<and> bfs_getOpenSlots env b' d = Inr (int32 v)"
proof -
  obtain a where "MarshalInt32 env (int32 v) = Inr a" "UnmarshalInt32 env a = Inr (int32 v)"
    using assms int32_range [of v] unfolding packs_int32_def by blast
  then show ?thesis by (simp add: bfs_setOpenSlots_def bfs_getOpenSlots_def)
qed

text \<open>
  A match of an existing backfill takes at most its open slots and lowers them by the number of tickets;
  a match of a new one leaves the remaining places open and asks for a game server.
\<close>

definition bfs_fills :: "mmf_env \<Rightarrow> int \<Rightarrow> backfill list \<Rightarrow> match \<Rightarrow> bool" where
  "bfs_fills env tpm bs m \<longleftrightarrow> (\<exists>b \<in> set bs. \<exists>b' v. m_Backfill m = Some b' \<and> bf_Id b' = bf_Id b \<and>
     bfs_getOpenSlots env b tpm = Inr v \<and> int (length (m_Tickets m)) \<le> v \<and>
     bfs_getOpenSlots env b' tpm = Inr (v - int (length (m_Tickets m))) \<and> \<not> m_AllocateGameserver m)"

definition bfs_opens :: "mmf_env \<Rightarrow> int \<Rightarrow> int \<Rightarrow> match \<Rightarrow> bool" where
  "bfs_opens env tpm mx m \<longleftrightarrow> (\<exists>b'. m_Backfill m = Some b' \<and> bf_Id b' = [] \<and> int (length (m_Tickets m)) \<le> mx \<and>
     bfs_getOpenSlots env b' tpm = Inr (tpm - int (length (m_Tickets m))) \<and> m_AllocateGameserver m)"

text \<open>The matches use up the tickets from the front, none is empty, and they are numbered on.\<close>

definition consumes :: "mmf_env \<Rightarrow> string \<Rightarrow> nat \<Rightarrow> match list \<Rightarrow> ticket list \<Rightarrow> ticket list \<Rightarrow> bool" where
  "consumes env profile n new ts rest \<longleftrightarrow> concat (map m_Tickets new) @ rest = ts \<and> list_all (\<lambda>m. m_Tickets m \<noteq> []) new \<and>
     map m_MatchId new = map (\<lambda>k. scenario_match_id profile (formatted_now env (n + k)) (n + k)) [0..<length new]"

lemma consumes_Nil: "consumes env profile n [] ts ts"
  by (simp add: consumes_def)

lemma consumes_Cons:
  "consumes env profile (n + 1) new ts' rest \<Longrightarrow> m_Tickets m @ ts' = ts \<Longrightarrow> m_Tickets m \<noteq> [] \<Longrightarrow>
   m_MatchId m = scenario_match_id profile (formatted_now env n) n \<Longrightarrow> consumes env profile n (m # new) ts rest"
  by (simp add: consumes_def map_upt_Suc del: upt_Suc)

lemma consumes_append:
  assumes "consumes env profile n xs ts mid" and "consumes env profile (n + length xs) ys mid rest"
  shows "consumes env profile n (xs @ ys) ts rest"
  using assms
proof (induction xs arbitrary: n ts)
  case (Cons x xs)
  from Cons.prems(1) have x: "m_MatchId x = scenario_match_id profile (formatted_now env n) n" "m_Tickets x \<noteq> []"
    "m_Tickets x @ (concat (map m_Tickets xs) @ mid) = ts"
    and xs: "consumes env profile (n + 1) xs (concat (map m_Tickets xs) @ mid) mid"
    by (auto simp: consumes_def map_upt_Suc simp del: upt_Suc)
  have "consumes env profile (n + 1) (xs @ ys) (concat (map m_Tickets xs) @ mid) rest"
    by (rule Cons.IH [OF xs]) (use Cons.prems(2) in simp)
  from consumes_Cons [OF this x(3,2,1)] show ?case by simp
qed (simp add: consumes_def)

lemma bfs_match_sel [simp]:
  "m_Tickets (bfs_match env profile n ts b) = ts" "m_Backfill (bfs_match env profile n ts b) = Some b"
  "m_MatchId (bfs_match env profile n ts b) = scenario_match_id profile (formatted_now env n) n"
  "\<not> m_AllocateGameserver (bfs_match env profile n ts b)"
  by (simp_all add: bfs_match_def empty_match_def)

definition slots_known :: "mmf_env \<Rightarrow> int \<Rightarrow> backfill \<Rightarrow> bool" where
  "slots_known env tpm b \<longleftrightarrow> (\<exists>v. bfs_getOpenSlots env b tpm = Inr v \<and> v < 2 ^ 31)"

lemma bfs_fills_mono: "bfs_fills env tpm bs m \<Longrightarrow> set bs \<subseteq> set bs' \<Longrightarrow> bfs_fills env tpm bs' m"
  unfolding bfs_fills_def by blast

lemma smf_backfills_result:
  assumes packs: "packs_int32 env"
  shows "list_all (slots_known env tpm) bs \<Longrightarrow> \<exists>new rest. smf_backfills env profile tpm bs ts ms = Inr (ms @ new, rest) \<and>
    consumes env profile (length ms) new ts rest \<and> list_all (bfs_fills env tpm bs) new"
proof (induction bs arbitrary: ts ms)
  case (Cons b bs)
  obtain v where v: "bfs_getOpenSlots env b tpm = Inr v" "v < 2 ^ 31" using Cons.prems by (auto simp: slots_known_def)
  have known: "list_all (slots_known env tpm) bs" using Cons.prems by simp
  consider "ts = []" | "ts \<noteq> []" "v \<le> 0" | "ts \<noteq> []" "0 < v" by linarith
  then show ?case
  proof cases
    case 1
    then show ?thesis using consumes_Nil [of env profile "length ms" "[]"] by auto
  next
    case 2
    from Cons.IH [OF known, of ts ms] obtain new rest where h: "smf_backfills env profile tpm bs ts ms = Inr (ms @ new, rest)"
      "consumes env profile (length ms) new ts rest" "list_all (bfs_fills env tpm bs) new" by blast
    then have "list_all (bfs_fills env tpm (b # bs)) new" by (auto simp: list_all_iff intro: bfs_fills_mono [of _ _ bs])
    with 2 v h show ?thesis by auto
  next
    case 3
    define l where "l = (if int (length ts) > v then v else int (length ts))"
    have l: "0 < l" "l \<le> v" "nat l \<le> length ts" using 3 by (auto simp: l_def)
    obtain b' where b': "bfs_setOpenSlots env b (v - l) = Inr b'" "bf_Id b' = bf_Id b" "bfs_getOpenSlots env b' tpm = Inr (v - l)"
      using bfs_set_get [OF packs, of b "v - l" tpm] int32_id [of "v - l"] l v(2) by auto
    let ?m = "bfs_match env profile (length ms) (take (nat l) ts) b'"
    from Cons.IH [OF known, of "drop (nat l) ts" "ms @ [?m]"] obtain new rest where
      h: "smf_backfills env profile tpm bs (drop (nat l) ts) (ms @ [?m]) = Inr ((ms @ [?m]) @ new, rest)"
        "consumes env profile (length ms + 1) new (drop (nat l) ts) rest" "list_all (bfs_fills env tpm bs) new" by auto
    have "smf_backfills env profile tpm (b # bs) ts ms = Inr (ms @ ?m # new, rest)"
      using 3 v(1) b'(1) h(1) by (simp add: Let_def flip: l_def)
    moreover have "consumes env profile (length ms) (?m # new) ts rest"
      using l 3 by (intro consumes_Cons [OF h(2)]) simp_all
    moreover have "bfs_fills env tpm (b # bs) ?m" using v(1) b'(2,3) l by (auto simp: bfs_fills_def)
    ultimately show ?thesis using h(3) by (intro exI [of _ "?m # new"] exI [of _ rest]) (auto simp: list_all_iff intro: bfs_fills_mono [of _ _ bs])
  qed
qed (use consumes_Nil in auto)

lemma smf_new_result:
  assumes packs: "packs_int32 env" and mx: "0 < mx" "mx \<le> tpm" "tpm < 2 ^ 31"
  shows "\<exists>new. smf_new env profile tpm mx ts ms = Some (Inr (ms @ new)) \<and>
    consumes env profile (length ms) new ts [] \<and> list_all (bfs_opens env tpm mx) new"
proof (induction ts arbitrary: ms rule: length_induct)
  case (1 ts)
  show ?case
  proof (cases "ts = []")
    case True
    then show ?thesis using consumes_Nil [of env profile "length ms" "[]"] by (simp add: smf_new.simps)
  next
    case False
    define l where "l = (if int (length ts) > mx then mx else int (length ts))"
    have l: "0 < l" "l \<le> mx" "nat l \<le> length ts" using False mx by (auto simp: l_def)
    obtain b' where b': "bfs_setOpenSlots env empty_backfill (tpm - l) = Inr b'" "bf_Id b' = []" "bfs_getOpenSlots env b' tpm = Inr (tpm - l)"
      using bfs_set_get [OF packs, of empty_backfill "tpm - l" tpm] int32_id [of "tpm - l"] l mx by auto
    let ?m = "(bfs_match env profile (length ms) (take (nat l) ts) b')\<lparr>m_AllocateGameserver := True\<rparr>"
    have "length (drop (nat l) ts) < length ts" using l False by simp
    with 1 obtain new where h: "smf_new env profile tpm mx (drop (nat l) ts) (ms @ [?m]) = Some (Inr ((ms @ [?m]) @ new))"
      "consumes env profile (length ms + 1) new (drop (nat l) ts) []" "list_all (bfs_opens env tpm mx) new"
      by (metis length_append_singleton Suc_eq_plus1)
    have "smf_new env profile tpm mx ts ms = Some (Inr (ms @ ?m # new))"
      using False b'(1) h(1) l(1) by (subst smf_new.simps) (simp add: Let_def flip: l_def)
    moreover have "consumes env profile (length ms) (?m # new) ts []"
      using l False by (intro consumes_Cons [OF h(2)]) simp_all
    moreover have "bfs_opens env tpm mx ?m" using b'(2,3) l by (simp add: bfs_opens_def)
    ultimately show ?thesis using h(3) by (intro exI [of _ "?m # new"]) simp
  qed
qed

lemma smf_pools_result:
  assumes packs: "packs_int32 env" and mx: "0 < mx" "mx \<le> tpm" "tpm < 2 ^ 31"
  shows "list_all (\<lambda>e. list_all (slots_known env tpm) (snd e)) entries \<Longrightarrow>
    \<exists>new. smf_pools env profile poolTickets tpm mx entries ms = Some (Inr (ms @ new)) \<and>
      consumes env profile (length ms) new (concat (map (\<lambda>e. pool_entry poolTickets (fst e)) entries)) [] \<and>
      list_all (\<lambda>m. bfs_fills env tpm (concat (map snd entries)) m \<or> bfs_opens env tpm mx m) new"
proof (induction entries arbitrary: ms)
  case (Cons e entries)
  obtain pool bs where e: "e = (pool, bs)" by fastforce
  have known: "list_all (slots_known env tpm) bs" "list_all (\<lambda>e. list_all (slots_known env tpm) (snd e)) entries"
    using Cons.prems by (simp_all add: e)
  let ?ts = "pool_entry poolTickets pool" and ?rest = "concat (map (\<lambda>e. pool_entry poolTickets (fst e)) entries)"
  have weaken: "list_all (\<lambda>m. bfs_fills env tpm (concat (map snd (e # entries))) m \<or> bfs_opens env tpm mx m) new"
    if "list_all (\<lambda>m. bfs_fills env tpm (concat (map snd entries)) m \<or> bfs_opens env tpm mx m) new" for new
    using that by (auto simp: list_all_iff intro: bfs_fills_mono [of _ _ "concat (map snd entries)"])
  show ?case
  proof (cases "?ts = []")
    case True
    with Cons.IH [OF known(2), of ms] weaken show ?thesis by (auto simp: e pool_entry_def split: option.splits)
  next
    case False
    then obtain ts where ts: "poolTickets pool = Some ts" "ts \<noteq> []" "?ts = ts" by (auto simp: pool_entry_def split: option.splits)
    obtain xs mid where x: "smf_backfills env profile tpm bs ts ms = Inr (ms @ xs, mid)" "consumes env profile (length ms) xs ts mid"
      "list_all (bfs_fills env tpm bs) xs" using smf_backfills_result [OF packs known(1)] by blast
    obtain ys where y: "smf_new env profile tpm mx mid (ms @ xs) = Some (Inr ((ms @ xs) @ ys))"
      "consumes env profile (length (ms @ xs)) ys mid []" "list_all (bfs_opens env tpm mx) ys"
      using smf_new_result [OF packs mx] by blast
    obtain zs where z: "smf_pools env profile poolTickets tpm mx entries (ms @ xs @ ys) = Some (Inr ((ms @ xs @ ys) @ zs))"
      "consumes env profile (length (ms @ xs @ ys)) zs ?rest []"
      "list_all (\<lambda>m. bfs_fills env tpm (concat (map snd entries)) m \<or> bfs_opens env tpm mx m) zs" using Cons.IH [OF known(2)] by blast
    have "consumes env profile (length ms) (xs @ ys) ts []" using x(2) y(2) by (intro consumes_append) simp_all
    then have "consumes env profile (length ms) (xs @ ys) (ts @ ?rest) ?rest" by (simp add: consumes_def)
    from consumes_append [OF this, of zs] z(2) have "consumes env profile (length ms) ((xs @ ys) @ zs) (ts @ ?rest) []" by (simp add: add.assoc)
    moreover have "list_all (\<lambda>m. bfs_fills env tpm (concat (map snd (e # entries))) m \<or> bfs_opens env tpm mx m) (xs @ ys)"
      using x(3) y(3) by (auto simp: list_all_iff e intro: bfs_fills_mono [of _ _ bs])
    ultimately show ?thesis using ts x(1) y(1) z(1) weaken [OF z(3)] by (intro exI [of _ "(xs @ ys) @ zs"]) (simp add: e)
  qed
qed (use consumes_Nil [of env profile _ "[]"] in auto)


text \<open>With no ticket allowed on a new backfill, the function does not return as long as there are tickets.\<close>

lemma smf_new_zero: "smf_new env profile tpm mx ts ms = Some r \<Longrightarrow> mx = 0 \<longrightarrow> packs_int32 env \<longrightarrow> ts = []"
proof (erule smf_new.raw_induct [rotated], intro impI)
  fix f env profile tpm mx and ts :: "ticket list" and ms r
  assume IH: "\<And>env profile tpm mx (ts :: ticket list) ms r.
      f env profile tpm mx ts ms = Some r \<Longrightarrow> mx = (0 :: int) \<longrightarrow> packs_int32 env \<longrightarrow> ts = []"
    and body: "(let l = int (length ts) in
     if l = 0 then Some (Inr ms)
     else let l = (if l > mx then mx else l) in
       case bfs_setOpenSlots env empty_backfill (tpm - l) of
         Inl e \<Rightarrow> Some (Inl e)
       | Inr b \<Rightarrow>
           if l < 0 then Some (Inl Panic)
           else f env profile tpm mx (drop (nat l) ts)
             (ms @ [(bfs_match env profile (length ms) (take (nat l) ts) b)\<lparr>m_AllocateGameserver := True\<rparr>])) = Some r"
    and mx: "mx = 0" and packs: "packs_int32 env"
  obtain b' where b': "bfs_setOpenSlots env empty_backfill tpm = Inr b'" using bfs_set_get [OF packs, of empty_backfill tpm] by blast
  show "ts = []"
  proof (rule ccontr)
    assume "ts \<noteq> []"
    with body mx b' have "f env profile tpm mx ts (ms @ [(bfs_match env profile (length ms) [] b')\<lparr>m_AllocateGameserver := True\<rparr>]) = Some r"
      by (simp add: Let_def)
    from IH [OF this] mx packs \<open>ts \<noteq> []\<close> show False by blast
  qed
qed

theorem smf_new_diverges: "packs_int32 env \<Longrightarrow> ts \<noteq> [] \<Longrightarrow> smf_new env profile tpm 0 ts ms = None"
  using smf_new_zero [of env profile tpm 0 ts ms] by fastforce

text \<open>The stateless match function makes at most one match of a backfill and leaves the backfill as it is.\<close>

lemma slm_backfills_result:
  "\<exists>new. slm_backfills env profile tpm bs ts ms = ms @ new \<and> subseq (map m_Backfill new) (map Some bs) \<and>
     prefix (concat (map m_Tickets new)) ts"
proof (induction bs arbitrary: ts ms)
  case (Cons b bs)
  define l where "l = (if int (length ts) > tpm \<and> tpm > 0 then tpm else int (length ts))"
  show ?case
  proof (cases "ts = []")
    case False
    let ?m = "bfs_match env profile (length ms) (take (nat l) ts) b"
    from Cons.IH [of "drop (nat l) ts" "ms @ [?m]"] obtain new where h:
      "slm_backfills env profile tpm bs (drop (nat l) ts) (ms @ [?m]) = (ms @ [?m]) @ new"
      "subseq (map m_Backfill new) (map Some bs)" "prefix (concat (map m_Tickets new)) (drop (nat l) ts)" by blast
    then have "prefix (concat (map m_Tickets (?m # new))) ts" by (metis append_take_drop_id concat.simps(2) bfs_match_sel(1) list.simps(9) same_prefix_prefix)
    with h False show ?thesis by (intro exI [of _ "?m # new"]) (simp add: Let_def flip: l_def)
  qed simp
qed simp

section \<open>Witnesses\<close>

text \<open>Three matches, of which the second has a ticket of the first.\<close>

definition three_matches :: "match list" where
  "three_matches = map (\<lambda>(i, ts). empty_match\<lparr>m_MatchId := i, m_Tickets := map (\<lambda>t. empty_ticket\<lparr>t_Id := t\<rparr>) ts,
     m_Backfill := Some empty_backfill\<rparr>) [(''a'', [''1'', ''2'']), (''b'', [''2'', ''3'']), (''c'', [''3'', ''4''])]"

theorem scenario_evaluators_first_come_witness:
  "fm_Evaluate (\<lambda>_. False) (requests three_matches) = Some (Inr (), [''a'', ''c'']) \<and>
   bfs_Evaluate (\<lambda>_. False) (requests three_matches) = Some (Inr (), [''a'', ''c''])"
  using scenario_evaluators_first_come [of "\<lambda>_. False" three_matches]
  by (simp add: Let_def three_matches_def ticket_ids_def)

lemma sample_packs: "packs_int32 sample_env"
proof -
  have "int64_range v" if "- (2 ^ 31) \<le> v" "v < 2 ^ 31" for v using that by (simp add: int64_range_def)
  then show ?thesis by (auto simp: packs_int32_def sample_env_def)
qed

lemma sample_now: "length (formatted_now sample_env n) = 22"
  by (simp add: sample_env_def)

theorem scenario_matches_partition_witness:
  "\<exists>ms. fm_MatchFunction sample_env entirePool Map.empty [poolName \<mapsto> sample_tickets] = Inr ms \<and>
     concat (map m_Tickets ms) = take 2 sample_tickets"
  using scenario_matches_partition [OF sample_now refl, of entirePool Map.empty "[poolName \<mapsto> sample_tickets]"]
  by (auto simp: pool_entry_def)

theorem br_ticket_one_profile_witness:
  "\<exists>t. br_Ticket (\<lambda>k n. n - 1) br_Scenario = Inr t \<and> (\<exists>!p. p \<in> set (br_Profiles br_Scenario) \<and> in_profile (\<lambda>_. None) p t)"
  by (rule br_ticket_one_profile) (simp_all add: br_Scenario_def)


end
