(* ===== verification/Floats.thy ===== *)
theory Floats
  imports Prelude "HOL-Library.Log_Nat"
begin

text \<open>
  Arithmetic on Go's \<open>float64\<close>: a finite double is a rational, and every operation rounds the exact
  result to the nearest double, ties to even, on its own (the language allows a compiler to fuse a
  multiplication with an addition; the model does not fuse). The two zeros are one value: the program
  never divides by a zero that it computed. What the match functions use is that rounding is monotone.
\<close>

section \<open>Rounding\<close>

text \<open>The exponent of a positive rational: \<open>2\<^sup>l \<le> r < 2\<^sup>l\<^sup>+\<^sup>1\<close>.\<close>

definition rat_log2 :: "rat \<Rightarrow> int" where
  "rat_log2 r =
    (case quotient_of r of (p, q) \<Rightarrow>
       let k = bitlen p - bitlen q in if 2 powi k * of_int q \<le> (of_int p :: rat) then k else k - 1)"

text \<open>To the nearest integer, ties to even.\<close>

definition round_even :: "rat \<Rightarrow> int" where
  "round_even r =
    (let n = \<lfloor>r\<rfloor>; d = r - of_int n
     in if d < 1 / 2 then n else if d > 1 / 2 then n + 1 else if even n then n else n + 1)"

text \<open>The distance of neighbouring doubles about \<open>r\<close>: 53 significant bits, the smallest exponent is \<open>- 1074\<close>.\<close>

definition ulp_exp :: "rat \<Rightarrow> int" where
  "ulp_exp r = max (rat_log2 r - 52) (- 1074)"

definition round_pos :: "rat \<Rightarrow> rat" where
  "round_pos r = of_int (round_even (r / 2 powi ulp_exp r)) * 2 powi ulp_exp r"

definition round_rat :: "rat \<Rightarrow> rat" where
  "round_rat r = (if r = 0 then 0 else if r < 0 then - round_pos (- r) else round_pos r)"

definition f64_round :: "rat \<Rightarrow> f64" where
  "f64_round r =
    (let v = round_rat r in if 2 ^ 1024 \<le> v then PosInf else if v \<le> - (2 ^ 1024) then NegInf else Fin v)"

section \<open>Operations\<close>

fun f64_neg :: "f64 \<Rightarrow> f64" where
  "f64_neg NaN = NaN"
| "f64_neg NegInf = PosInf"
| "f64_neg PosInf = NegInf"
| "f64_neg (Fin a) = Fin (- a)"

fun f64_add :: "f64 \<Rightarrow> f64 \<Rightarrow> f64" where
  "f64_add (Fin a) (Fin b) = f64_round (a + b)"
| "f64_add NaN _ = NaN"
| "f64_add _ NaN = NaN"
| "f64_add PosInf NegInf = NaN"
| "f64_add NegInf PosInf = NaN"
| "f64_add PosInf _ = PosInf"
| "f64_add _ PosInf = PosInf"
| "f64_add NegInf _ = NegInf"
| "f64_add _ NegInf = NegInf"

definition f64_sub :: "f64 \<Rightarrow> f64 \<Rightarrow> f64" where
  "f64_sub x y = f64_add x (f64_neg y)"

text \<open>The product and the quotient by a positive finite number.\<close>

definition inf_of_sign :: "rat \<Rightarrow> f64" where
  "inf_of_sign a = (if a = 0 then NaN else if 0 < a then PosInf else NegInf)"

fun f64_mul :: "f64 \<Rightarrow> f64 \<Rightarrow> f64" where
  "f64_mul (Fin a) (Fin b) = f64_round (a * b)"
| "f64_mul NaN _ = NaN"
| "f64_mul _ NaN = NaN"
| "f64_mul PosInf (Fin b) = inf_of_sign b"
| "f64_mul NegInf (Fin b) = inf_of_sign (- b)"
| "f64_mul (Fin a) PosInf = inf_of_sign a"
| "f64_mul (Fin a) NegInf = inf_of_sign (- a)"
| "f64_mul PosInf PosInf = PosInf"
| "f64_mul NegInf NegInf = PosInf"
| "f64_mul PosInf NegInf = NegInf"
| "f64_mul NegInf PosInf = NegInf"

fun f64_div_pos :: "f64 \<Rightarrow> rat \<Rightarrow> f64" where
  "f64_div_pos (Fin a) b = f64_round (a / b)"
| "f64_div_pos x b = x"

section \<open>Rounding is monotone\<close>

lemma round_even_mono: "r \<le> s \<Longrightarrow> round_even r \<le> round_even s"
proof -
  assume le: "r \<le> s"
  then have fl: "\<lfloor>r\<rfloor> \<le> \<lfloor>s\<rfloor>" by (rule floor_mono)
  have up: "round_even r \<le> \<lfloor>r\<rfloor> + 1" and lo: "\<lfloor>s\<rfloor> \<le> round_even s" by (simp_all add: round_even_def Let_def)
  show ?thesis
  proof (cases "\<lfloor>r\<rfloor> = \<lfloor>s\<rfloor>")
    case True
    with le show ?thesis by (auto simp: round_even_def Let_def)
  next
    case False
    with fl up lo show ?thesis by linarith
  qed
qed

lemma round_even_of_int [simp]: "round_even (of_int n) = n"
  by (simp add: round_even_def)

lemma bitlen_powi:
  assumes "0 < p"
  shows "2 powi (bitlen p - 1) \<le> (of_int p :: rat)" and "of_int p < (2 powi bitlen p :: rat)"
proof -
  have pos: "1 \<le> bitlen p" using assms bitlen_nonneg [of p] bitlen_eq_zero_iff [of p] by linarith
  have b: "2 ^ nat (bitlen p - 1) \<le> p" "p < 2 ^ nat (bitlen p)" using bitlen_bounds [OF assms] by auto
  have "(2 powi (bitlen p - 1) :: rat) = of_int (2 ^ nat (bitlen p - 1))" using pos by (simp add: power_int_def)
  also have "\<dots> \<le> of_int p" using b(1) by (simp only: of_int_le_iff)
  finally show "2 powi (bitlen p - 1) \<le> (of_int p :: rat)" .
  have "(of_int p :: rat) < of_int (2 ^ nat (bitlen p))" using b(2) by (simp only: of_int_less_iff)
  also have "\<dots> = 2 powi bitlen p" using pos by (simp add: power_int_def)
  finally show "of_int p < (2 powi bitlen p :: rat)" .
qed

lemma rat_log2_bounds:
  assumes "0 < r"
  shows "2 powi rat_log2 r \<le> r" and "r < 2 powi (rat_log2 r + 1)"
proof -
  obtain p q where pq: "quotient_of r = (p, q)" by fastforce
  then have q: "0 < q" and r: "r = of_int p / of_int q" by (auto intro: quotient_of_denom_pos simp: quotient_of_div)
  with assms have p: "0 < p" by (simp add: zero_less_divide_iff)
  let ?k = "bitlen p - bitlen q"
  have lower: "2 powi (?k - 1) * of_int q \<le> (of_int p :: rat)"
  proof -
    have "2 powi (?k - 1) * of_int q \<le> (2 powi (?k - 1) * 2 powi bitlen q :: rat)"
      using bitlen_powi(2) [OF q] by (intro mult_left_mono) simp_all
    also have "\<dots> = 2 powi (bitlen p - 1)" by (simp flip: power_int_add)
    also have "\<dots> \<le> of_int p" by (rule bitlen_powi(1) [OF p])
    finally show ?thesis .
  qed
  have upper: "(of_int p :: rat) < 2 powi (?k + 1) * of_int q"
  proof -
    have "(of_int p :: rat) < 2 powi bitlen p" by (rule bitlen_powi(2) [OF p])
    also have "\<dots> = 2 powi (?k + 1) * 2 powi (bitlen q - 1)" by (simp flip: power_int_add)
    also have "\<dots> \<le> 2 powi (?k + 1) * of_int q" using bitlen_powi(1) [OF q] by (intro mult_left_mono) simp_all
    finally show ?thesis .
  qed
  have l: "rat_log2 r = (if 2 powi ?k * of_int q \<le> (of_int p :: rat) then ?k else ?k - 1)" by (simp add: rat_log2_def pq Let_def)
  have "2 powi rat_log2 r * of_int q \<le> (of_int p :: rat)" unfolding l using lower by simp
  then have "2 powi rat_log2 r \<le> (of_int p / of_int q :: rat)" using q by (simp add: pos_le_divide_eq)
  then show "2 powi rat_log2 r \<le> r" by (simp only: r)
  have "(of_int p :: rat) < 2 powi (rat_log2 r + 1) * of_int q" unfolding l using upper by simp
  then have "(of_int p / of_int q :: rat) < 2 powi (rat_log2 r + 1)" using q by (simp add: pos_divide_less_eq)
  then show "r < 2 powi (rat_log2 r + 1)" by (simp only: r)
qed

lemma rat_log2_mono:
  assumes "0 < r" and "r \<le> s"
  shows "rat_log2 r \<le> rat_log2 s"
proof (rule ccontr)
  assume "\<not> rat_log2 r \<le> rat_log2 s"
  then have "rat_log2 s + 1 \<le> rat_log2 r" by simp
  then have "(2 powi (rat_log2 s + 1) :: rat) \<le> 2 powi rat_log2 r" by (intro power_int_increasing) simp_all
  with rat_log2_bounds(1) [OF assms(1)] rat_log2_bounds(2) [of s] assms show False by simp
qed

text \<open>Rounding stays on the same side of any multiple of the distance of the doubles.\<close>

lemma round_grid:
  assumes "0 < (u :: rat)"
  shows "r \<le> of_int n * u \<Longrightarrow> of_int (round_even (r / u)) * u \<le> of_int n * u"
    and "of_int n * u \<le> r \<Longrightarrow> of_int n * u \<le> of_int (round_even (r / u)) * u"
proof -
  assume "r \<le> of_int n * u"
  then have "r / u \<le> of_int n" using assms by (simp add: field_simps)
  then show "of_int (round_even (r / u)) * u \<le> of_int n * u" using assms round_even_mono [of "r / u" "of_int n"] by simp
next
  assume "of_int n * u \<le> r"
  then have "of_int n \<le> r / u" using assms by (simp add: field_simps)
  then show "of_int n * u \<le> of_int (round_even (r / u)) * u" using assms round_even_mono [of "of_int n" "r / u"] by simp
qed

lemma powi_grid: "e \<le> k \<Longrightarrow> (2 powi k :: rat) = of_int (2 ^ nat (k - e)) * 2 powi e"
proof -
  assume "e \<le> k"
  then have "of_int (2 ^ nat (k - e)) = (2 powi (k - e) :: rat)" by (simp add: power_int_def)
  then show ?thesis by (simp flip: power_int_add)
qed

lemma round_pos_upper:
  assumes "r \<le> 2 powi k" and "ulp_exp r \<le> k"
  shows "round_pos r \<le> 2 powi k"
  using round_grid(1) [of "2 powi ulp_exp r" r "2 ^ nat (k - ulp_exp r)"] assms unfolding round_pos_def powi_grid [OF assms(2)] by simp

lemma round_pos_lower:
  assumes "2 powi k \<le> r" and "ulp_exp r \<le> k"
  shows "2 powi k \<le> round_pos r"
  using round_grid(2) [of "2 powi ulp_exp r" "2 ^ nat (k - ulp_exp r)" r] assms unfolding round_pos_def powi_grid [OF assms(2)] by simp

lemma round_pos_mono:
  assumes "0 < r" and "r \<le> s"
  shows "round_pos r \<le> round_pos s"
proof (cases "ulp_exp r = ulp_exp s")
  case True
  have "r / 2 powi ulp_exp s \<le> s / 2 powi ulp_exp s" using assms by (intro divide_right_mono) simp_all
  from round_even_mono [OF this] show ?thesis by (simp add: round_pos_def True)
next
  case False
  have "ulp_exp r \<le> ulp_exp s" using rat_log2_mono [OF assms] by (simp add: ulp_exp_def)
  with False have less: "ulp_exp r < ulp_exp s" by simp
  then have s: "ulp_exp s = rat_log2 s - 52" and l: "rat_log2 r + 1 \<le> rat_log2 s" "ulp_exp r + 53 \<le> rat_log2 s"
    by (auto simp: ulp_exp_def split: if_splits)
  have "r \<le> 2 powi (rat_log2 r + 1)" using rat_log2_bounds(2) [OF assms(1)] by simp
  also have "\<dots> \<le> 2 powi rat_log2 s" using l(1) by (intro power_int_increasing) simp_all
  finally have "round_pos r \<le> 2 powi rat_log2 s" using l(2) by (intro round_pos_upper) simp_all
  also have "\<dots> \<le> round_pos s" using rat_log2_bounds(1) [of s] assms s by (intro round_pos_lower) simp_all
  finally show ?thesis .
qed

lemma round_pos_nonneg: "0 < r \<Longrightarrow> 0 \<le> round_pos r"
  using round_grid(2) [of "2 powi ulp_exp r" 0 r] by (simp add: round_pos_def)

lemma round_rat_mono: "r \<le> s \<Longrightarrow> round_rat r \<le> round_rat s"
  using round_pos_mono [of r s] round_pos_mono [of "- s" "- r"] round_pos_nonneg [of s] round_pos_nonneg [of "- r"]
  by (auto simp: round_rat_def)

lemma round_rat_0 [simp]: "round_rat 0 = 0"
  by (simp add: round_rat_def)

lemma f64_round_mono: "r \<le> s \<Longrightarrow> f64_le (f64_round r) (f64_round s)"
  using round_rat_mono [of r s] by (auto simp: f64_round_def Let_def)

lemma f64_round_not_NaN [simp]: "f64_round r \<noteq> NaN"
  by (simp add: f64_round_def Let_def)

lemma f64_round_0 [simp]: "f64_round 0 = Fin 0"
  by (simp add: f64_round_def)

lemma f64_le_less_trans: "f64_le x y \<Longrightarrow> f64_less y z \<Longrightarrow> f64_less x z"
  by (cases x; cases y; cases z) auto

lemma f64_le_infinite [simp]: "f64_le NegInf x \<longleftrightarrow> x \<noteq> NaN" "f64_le x PosInf \<longleftrightarrow> x \<noteq> NaN"
  by (cases x; simp)+

lemma f64_sub_Fin [simp]: "f64_sub (Fin a) (Fin b) = f64_round (a - b)"
  by (simp add: f64_sub_def)

text \<open>Subtraction is monotone in its first and antitone in its second argument, except for NaN.\<close>

lemma f64_sub_mono:
  assumes "f64_le x x'" and "f64_le y' y" and "f64_sub x y \<noteq> NaN" and "f64_sub x' y' \<noteq> NaN"
  shows "f64_le (f64_sub x y) (f64_sub x' y')"
  using assms by (cases x; cases x'; cases y; cases y') (auto simp: f64_sub_def f64_round_mono diff_mono)

end
