(* ===== verification/Team_Shooter.thy ===== *)
theory Team_Shooter
  imports Scale_Scenarios Floats
begin

text \<open>
  The scenario of a skill-based team game (\<open>examples/scale/scenarios/teamshooter/teamshooter.go\<close>): profiles
  by region, mode and skill bracket, random players, a match function that slides a window over the players
  sorted by skill, and an evaluator that prefers the best quality. \<open>sort.Slice\<close> and the packing of a
  \<open>DoubleValue\<close> are parameters, as are the random numbers and the printing of a double.
\<close>

section \<open>Weighted choice\<close>

text \<open>
  \<open>weightedChoice\<close> iterates over its map twice: when it is called and at every choice, in an order that may
  differ. The keys come out in the first order; a choice gets the second and the source of random numbers.
\<close>

fun pick :: "(string \<times> int) list \<Rightarrow> int \<Rightarrow> string res" where
  "pick [] remainder = Inl Panic"
| "pick ((k, v) # m) remainder = (let remainder = remainder - v in if remainder < 0 then Inr k else pick m remainder)"

definition weightedChoice :: "(string \<times> int) list \<Rightarrow> string list \<times> ((string \<times> int) list \<Rightarrow> (int \<Rightarrow> int) \<Rightarrow> string res)" where
  "weightedChoice m =
    (let total = foldl (\<lambda>total (k, v). total + v) 0 m
     in (map fst m, \<lambda>m' intn. if total \<le> 0 then Inl Panic else pick m' (intn total)))"

section \<open>Scenario, profiles and tickets\<close>

abbreviation skillArg :: string where "skillArg \<equiv> ''skill''"
abbreviation modeArg :: string where "modeArg \<equiv> ''mode''"

record team_shooter =
  regions :: "string list"
  maxRegions :: int
  playersPerGame :: int
  skillBoundaries :: "f64 list"
  maxSkillDifference :: f64
  modes :: "string list"
  randomMode :: "(string \<times> int) list \<Rightarrow> (int \<Rightarrow> int) \<Rightarrow> string res"

abbreviation mode_weights :: "(string \<times> int) list" where
  "mode_weights \<equiv> [(''pl'', 100), (''cp'', 25)]"

text \<open>\<open>Scenario\<close>: \<open>m\<close> lists the weights in the order of the first iteration.\<close>

definition ts_Scenario :: "(string \<times> int) list \<Rightarrow> team_shooter" where
  "ts_Scenario m =
    (case weightedChoice m of (ms, rm) \<Rightarrow>
       \<lparr>regions = map (\<lambda>i. ''region_'' @ itoa (int i)) [0..<2], maxRegions = 1, playersPerGame = 12,
        skillBoundaries = [NegInf, Fin 0, PosInf], maxSkillDifference = f64_round (1 / 100),
        modes = ms, randomMode = rm\<rparr>)"

definition skillMin :: "team_shooter \<Rightarrow> nat \<Rightarrow> f64" where
  "skillMin t i = f64_sub (skillBoundaries t ! i) (f64_div_pos (maxSkillDifference t) 2)"

definition skillMax :: "team_shooter \<Rightarrow> nat \<Rightarrow> f64" where
  "skillMax t i = f64_add (skillBoundaries t ! (i + 1)) (f64_div_pos (maxSkillDifference t) 2)"

definition ts_profile :: "(f64 \<Rightarrow> string) \<Rightarrow> team_shooter \<Rightarrow> string \<Rightarrow> string \<Rightarrow> nat \<Rightarrow> match_profile" where
  "ts_profile show_f64 t region mode i = \<lparr>
     mp_Name = region @ ''_'' @ mode @ ''_'' @ show_f64 (skillMin t i) @ ''-'' @ show_f64 (skillMax t i),
     mp_Pools = [empty_pool\<lparr>p_Name := poolName,
       p_DoubleRangeFilters := [\<lparr>drf_DoubleArg = skillArg, drf_Max = skillMax t i, drf_Min = skillMin t i, drf_Exclude = ExNone\<rparr>],
       p_TagPresentFilters := [\<lparr>tpf_Tag = region\<rparr>],
       p_StringEqualsFilters := [\<lparr>sef_StringArg = modeArg, sef_Value = mode\<rparr>]\<rparr>],
     mp_Extensions = Map.empty\<rparr>"

definition ts_Profiles :: "(f64 \<Rightarrow> string) \<Rightarrow> team_shooter \<Rightarrow> match_profile list" where
  "ts_Profiles show_f64 t =
    concat (map (\<lambda>region. concat (map (\<lambda>mode. map (ts_profile show_f64 t region mode) [0..<length (skillBoundaries t) - 1])
      (modes t))) (regions t))"

definition clamp :: "f64 \<Rightarrow> f64 \<Rightarrow> f64 \<Rightarrow> f64" where
  "clamp v mn mx = (if f64_less v mn then mn else if f64_less mx v then mx else v)"

text \<open>The walk around the regions from a start.\<close>

fun walk_regions :: "string list \<Rightarrow> nat \<Rightarrow> nat \<Rightarrow> string list" where
  "walk_regions rs 0 region = []"
| "walk_regions rs (Suc n) region = rs ! region # walk_regions rs n ((region + 1) mod length rs)"

text \<open>\<open>Ticket\<close>: the draws \<open>0\<close> to \<open>2\<close> of \<open>intn\<close>, a normally distributed \<open>normal\<close>, and an order for the mode.\<close>

definition ts_Ticket :: "(nat \<Rightarrow> int \<Rightarrow> int) \<Rightarrow> f64 \<Rightarrow> (string \<times> int) list \<Rightarrow> team_shooter \<Rightarrow> ticket res" where
  "ts_Ticket intn normal m t =
    (if regions t = [] then Inl Panic
     else if maxRegions t \<le> 0 then Inl Panic
     else let region = intn 0 (int (length (regions t))); numRegions = intn 1 (maxRegions t) + 1 in
       case randomMode t m (intn 2) of
         Inl e \<Rightarrow> Inl e
       | Inr mode \<Rightarrow> Inr (empty_ticket\<lparr>t_SearchFields := Some \<lparr>
           DoubleArgs = [skillArg \<mapsto> clamp normal (Fin (-3)) (Fin 3)],
           StringArgs = [modeArg \<mapsto> mode],
           Tags = walk_regions (regions t) (nat numRegions) (nat region)\<rparr>\<rparr>))"

definition ts_Backfill :: "backfill option" where
  "ts_Backfill = None"

section \<open>Matches with a quality\<close>

record matchExt =
  x_id :: string
  x_tickets :: "ticket list"
  x_quality :: f64
  x_matchProfile :: string
  x_matchFunction :: string

text \<open>\<open>UnmarshalAny\<close> of a missing extension is an error; a missing match is dereferenced.\<close>

definition unpackMatch :: "(any_msg \<Rightarrow> f64 res) \<Rightarrow> match option \<Rightarrow> matchExt res" where
  "unpackMatch unmarshal m =
    (case m of
       None \<Rightarrow> Inl Panic
     | Some m \<Rightarrow>
         (case m_Extensions m ''quality'' of
            None \<Rightarrow> Inl (Wrapped FmtErr)
          | Some a \<Rightarrow>
              (case unmarshal a of
                 Inl e \<Rightarrow> Inl (Wrapped e)
               | Inr v \<Rightarrow> Inr \<lparr>x_id = m_MatchId m, x_tickets = m_Tickets m, x_quality = v,
                   x_matchProfile = m_MatchProfile m, x_matchFunction = m_MatchFunction m\<rparr>)))"

definition pack :: "(f64 \<Rightarrow> any_msg res) \<Rightarrow> matchExt \<Rightarrow> match res" where
  "pack marshal m =
    (case marshal (x_quality m) of
       Inl e \<Rightarrow> Inl (Wrapped e)
     | Inr a \<Rightarrow> Inr (empty_match\<lparr>m_MatchId := x_id m, m_Tickets := x_tickets m, m_MatchProfile := x_matchProfile m,
         m_MatchFunction := x_matchFunction m, m_Extensions := [''quality'' \<mapsto> a]\<rparr>))"

section \<open>Match function\<close>

text \<open>The skill of a ticket: a missing argument reads as zero, missing search fields are dereferenced.\<close>

definition skill :: "ticket \<Rightarrow> f64 res" where
  "skill t =
    (case t_SearchFields t of
       None \<Rightarrow> Inl Panic
     | Some s \<Rightarrow> Inr (case DoubleArgs s skillArg of None \<Rightarrow> Fin 0 | Some v \<Rightarrow> v))"

definition skill_val :: "ticket \<Rightarrow> f64" where
  "skill_val t = (case skill t of Inl _ \<Rightarrow> NaN | Inr v \<Rightarrow> v)"

abbreviation skill_less :: "ticket \<Rightarrow> ticket \<Rightarrow> bool" where
  "skill_less a b \<equiv> f64_less (skill_val a) (skill_val b)"

text \<open>\<open>sort.Slice\<close> compares if there are two elements or more, and then looks at every one.\<close>

definition sort_tickets :: "((ticket \<Rightarrow> ticket \<Rightarrow> bool) \<Rightarrow> ticket list \<Rightarrow> ticket list) \<Rightarrow> ticket list \<Rightarrow> ticket list res" where
  "sort_tickets srt tickets =
    (if 2 \<le> length tickets \<and> list_ex (\<lambda>t. t_SearchFields t = None) tickets then Inl Panic else Inr (srt skill_less tickets))"

definition average :: "ticket list \<Rightarrow> f64" where
  "average mt = f64_div_pos (foldl (\<lambda>avg t. f64_add avg (skill_val t)) (Fin 0) mt) (of_nat (length mt))"

definition quality :: "ticket list \<Rightarrow> f64" where
  "quality mt =
    (let avg = average mt
     in foldl (\<lambda>q t. let diff = f64_sub (skill_val t) avg in f64_sub q (f64_mul diff diff)) (Fin 0) mt)"

text \<open>
  The loop over the windows. A window without a ticket has no last one, and a negative length is no slice:
  both panic.
\<close>

function ts_loop :: "mmf_env \<Rightarrow> (f64 \<Rightarrow> any_msg res) \<Rightarrow> team_shooter \<Rightarrow> string \<Rightarrow> ticket list \<Rightarrow> nat \<Rightarrow> match list \<Rightarrow> match list res" where
  "ts_loop env marshal t profile tickets i matches =
    (if int i + playersPerGame t \<le> int (length tickets) then
       if playersPerGame t \<le> 0 then Inl Panic
       else let mt = take (nat (playersPerGame t)) (drop i tickets) in
         case skill (last mt) of
           Inl e \<Rightarrow> Inl e
         | Inr hi \<Rightarrow>
             (case skill (hd mt) of
                Inl e \<Rightarrow> Inl e
              | Inr lo \<Rightarrow>
                  if f64_less (f64_sub hi lo) (maxSkillDifference t) then
                    (case pack marshal \<lparr>x_id = scenario_match_id profile (formatted_now env (length matches)) (length matches),
                        x_tickets = mt, x_quality = quality mt, x_matchProfile = profile, x_matchFunction = ''skillmatcher''\<rparr> of
                       Inl e \<Rightarrow> Inl e
                     | Inr m \<Rightarrow> ts_loop env marshal t profile tickets (i + 1) (matches @ [m]))
                  else ts_loop env marshal t profile tickets (i + 1) matches)
     else Inr matches)"
  by pat_completeness auto
termination
  by (relation "measure (\<lambda>(env, marshal, t, profile, ts, i, ms). length ts - i)") auto

declare ts_loop.simps [simp del]

definition ts_MatchFunction :: "((ticket \<Rightarrow> ticket \<Rightarrow> bool) \<Rightarrow> ticket list \<Rightarrow> ticket list) \<Rightarrow> mmf_env \<Rightarrow> (f64 \<Rightarrow> any_msg res) \<Rightarrow>
    team_shooter \<Rightarrow> match_profile \<Rightarrow> (string \<rightharpoonup> backfill list) \<Rightarrow> (string \<rightharpoonup> ticket list) \<Rightarrow> match list res" where
  "ts_MatchFunction srt env marshal t p poolBackfills poolTickets =
    (case sort_tickets srt (pool_entry poolTickets poolName) of
       Inl e \<Rightarrow> Inl e
     | Inr tickets \<Rightarrow> ts_loop env marshal t (mp_Name p) tickets 0 [])"

section \<open>Evaluator\<close>

fun ts_recv :: "(any_msg \<Rightarrow> f64 res) \<Rightarrow> matchExt list \<Rightarrow> scale_event list \<Rightarrow> matchExt list res option" where
  "ts_recv unmarshal proposals [] = None"
| "ts_recv unmarshal proposals (EvalEOF # evs) = Some (Inr proposals)"
| "ts_recv unmarshal proposals (EvalErr e # evs) = Some (Inl (Wrapped e))"
| "ts_recv unmarshal proposals (EvalReq m # evs) =
    (case unpackMatch unmarshal m of
       Inl e \<Rightarrow> Some (Inl e)
     | Inr p \<Rightarrow> ts_recv unmarshal (proposals @ [p]) evs)"

definition higher_quality :: "matchExt \<Rightarrow> matchExt \<Rightarrow> bool" where
  "higher_quality p p' = f64_less (x_quality p') (x_quality p)"

text \<open>The loop over the sorted proposals: here an accepted id is sent at once.\<close>

fun ts_send :: "(nat \<Rightarrow> bool) \<Rightarrow> string set \<Rightarrow> matchExt list \<Rightarrow> string list \<Rightarrow> unit res \<times> string list" where
  "ts_send sendFails used [] out = (Inr (), out)"
| "ts_send sendFails used (p # ps) out =
    (if any_used used (x_tickets p) then ts_send sendFails used ps out
     else if sendFails (length out) then (Inl (Wrapped (StreamErr 0)), out)
     else ts_send sendFails (mark_used used (x_tickets p)) ps (out @ [x_id p]))"

definition ts_Evaluate :: "((matchExt \<Rightarrow> matchExt \<Rightarrow> bool) \<Rightarrow> matchExt list \<Rightarrow> matchExt list) \<Rightarrow> (any_msg \<Rightarrow> f64 res) \<Rightarrow>
    (nat \<Rightarrow> bool) \<Rightarrow> scale_event list \<Rightarrow> (unit res \<times> string list) option" where
  "ts_Evaluate srt unmarshal sendFails evs =
    (case ts_recv unmarshal [] evs of
       None \<Rightarrow> None
     | Some (Inl e) \<Rightarrow> Some (Inl e, [])
     | Some (Inr proposals) \<Rightarrow> Some (ts_send sendFails {} (srt higher_quality proposals) []))"

section \<open>The choice has the given weights\<close>

lemma foldl_total: "foldl (\<lambda>total (k, v). total + v) c m = c + sum_list (map snd m)" for c :: int
  by (induction m arbitrary: c) (auto simp: split_beta)

lemma pick_total:
  assumes "list_all (\<lambda>(k, v). 0 \<le> v) m" and "0 \<le> d" and "d < sum_list (map snd m)"
  shows "\<exists>k \<in> fst ` set m. pick m d = Inr k"
  using assms by (induction m d rule: pick.induct) (auto simp: Let_def)

text \<open>The draws that lead to a key are as many as its weight.\<close>

lemma pick_count:
  assumes "list_all (\<lambda>(k, v). 0 \<le> v) m" and "distinct (map fst m)"
  shows "card {d. 0 \<le> d \<and> d < sum_list (map snd m) \<and> pick m d = Inr k} = nat (case map_of m k of None \<Rightarrow> 0 | Some v \<Rightarrow> v)"
  using assms
proof (induction m)
  case (Cons kv m)
  obtain k' v where kv: "kv = (k', v)" by fastforce
  let ?S = "sum_list (map snd m)" and ?A = "{d. 0 \<le> d \<and> d < sum_list (map snd m) \<and> pick m d = Inr k}"
  let ?B = "{d. 0 \<le> d \<and> d < v \<and> k' = k}"
  have "\<forall>x \<in> set (map snd m). 0 \<le> x" using Cons.prems(1) by (auto simp: list_all_iff)
  then have v: "0 \<le> v" "0 \<le> ?S" using Cons.prems(1) by (auto simp: kv intro!: sum_list_nonneg)
  have "{d. 0 \<le> d \<and> d < sum_list (map snd (kv # m)) \<and> pick (kv # m) d = Inr k} = ?B \<union> (\<lambda>d. d + v) ` ?A" (is "?L = _")
  proof (rule set_eqI)
    fix d
    have "d \<in> (\<lambda>d. d + v) ` ?A \<longleftrightarrow> d - v \<in> ?A" by (auto simp: image_iff intro!: exI [of _ "d - v"])
    then show "d \<in> ?L \<longleftrightarrow> d \<in> ?B \<union> (\<lambda>d. d + v) ` ?A" using v by (auto simp: kv Let_def)
  qed
  moreover have "card ((\<lambda>d. d + v) ` ?A) = card ?A" by (rule card_image) (simp add: inj_on_def)
  moreover have "?B \<inter> (\<lambda>d. d + v) ` ?A = {}" using v by auto
  moreover have "finite ?A" by (rule finite_subset [of _ "{0..<?S}"]) auto
  moreover have "finite ?B" by (rule finite_subset [of _ "{0..<v}"]) auto
  ultimately have "card ?L = card ?B + card ?A" by (simp add: card_Un_disjoint)
  moreover have "card ?B = (if k' = k then nat v else 0)"
  proof (cases "k' = k")
    case True
    then have "?B = {0..<v}" by auto
    with True show ?thesis by simp
  qed simp
  moreover have "map_of m k = None" if "k' = k" using Cons.prems(2) that by (auto simp: kv map_of_eq_None_iff)
  ultimately show ?case using Cons by (auto simp: kv split: option.splits)
qed simp

text \<open>The order of a map does not matter.\<close>

lemma perm_weights:
  fixes m :: "('k \<times> int) list"
  assumes "mset m' = mset m"
  shows "sum_list (map snd m') = sum_list (map snd m)" and "set m' = set m"
    and "distinct (map fst m') \<longleftrightarrow> distinct (map fst m)" and "list_all P m' \<longleftrightarrow> list_all P m"
proof -
  show set: "set m' = set m" by (rule mset_eq_setD [OF assms])
  then show "list_all P m' \<longleftrightarrow> list_all P m" by (simp add: list_all_iff)
  have p: "mset (map snd m') = mset (map snd m)" "mset (map fst m') = mset (map fst m)" using assms by simp_all
  show "sum_list (map snd m') = sum_list (map snd m)" unfolding sum_mset_sum_list [symmetric] p(1) ..
  show "distinct (map fst m') \<longleftrightarrow> distinct (map fst m)" by (rule mset_eq_imp_distinct_iff [OF p(2)])
qed

lemma weightedChoice_key:
  assumes "list_all (\<lambda>(k, v). 0 \<le> v) m" and "mset m' = mset m" and "0 \<le> intn (sum_list (map snd m))"
    and "intn (sum_list (map snd m)) < sum_list (map snd m)"
  shows "\<exists>k \<in> set (fst (weightedChoice m)). snd (weightedChoice m) m' intn = Inr k"
  using pick_total [of m' "intn (sum_list (map snd m))"] assms perm_weights [OF assms(2)]
  by (auto simp: weightedChoice_def foldl_total)

text \<open>
  A weighted choice is fair. In whatever order the map is iterated at the choice, every draw gives a key
  of the map, so that the code never reaches its panic, and the number of draws that give a key is the
  key's weight.
\<close>

theorem weighted_choice_fair:
  assumes "distinct (map fst m)" and "list_all (\<lambda>(k, v). 0 \<le> v) m" and "0 < sum_list (map snd m)" and "mset m' = mset m"
  shows "(\<forall>intn. (0 \<le> intn (sum_list (map snd m)) \<and> intn (sum_list (map snd m)) < sum_list (map snd m)) \<longrightarrow>
      (\<exists>k \<in> set (fst (weightedChoice m)). snd (weightedChoice m) m' intn = Inr k)) \<and>
    card {d. 0 \<le> d \<and> d < sum_list (map snd m) \<and> snd (weightedChoice m) m' (\<lambda>_. d) = Inr k} =
      nat (case map_of m k of None \<Rightarrow> 0 | Some v \<Rightarrow> v)"
proof -
  note perm = perm_weights [OF assms(4)]
  have m': "list_all (\<lambda>(k, v). 0 \<le> v) m'" "distinct (map fst m')" using assms(1,2) perm by simp_all
  have "map_of m' = map_of m" by (subst map_of_inject_set) (use m'(2) assms(1) perm in simp_all)
  with pick_count [OF m', of k] assms(3) have
    "card {d. 0 \<le> d \<and> d < sum_list (map snd m) \<and> snd (weightedChoice m) m' (\<lambda>_. d) = Inr k} =
      nat (case map_of m k of None \<Rightarrow> 0 | Some v \<Rightarrow> v)" by (simp add: weightedChoice_def foldl_total perm(1))
  with weightedChoice_key [OF assms(2,4)] show ?thesis by blast
qed

section \<open>Every player has a profile\<close>

lemma clamp_bounds:
  assumes "v \<noteq> NaN" and "f64_le mn mx" and "mn \<noteq> NaN" and "mx \<noteq> NaN"
  shows "f64_le mn (clamp v mn mx)" and "f64_le (clamp v mn mx) mx"
  using assms by (cases v; cases mn; cases mx; auto simp: clamp_def)+

lemma set_walk_regions: "r < length rs \<Longrightarrow> set (walk_regions rs n r) \<subseteq> set rs"
proof (induction n arbitrary: r)
  case (Suc n)
  have "(r + 1) mod length rs < length rs" using Suc.prems by (intro mod_less_divisor) linarith
  from Suc.IH [OF this] Suc.prems show ?case by simp
qed simp

lemma length_walk_regions: "length (walk_regions rs n r) = n"
  by (induction n arbitrary: r) simp_all

lemma ts_in_profile:
  assumes "t_SearchFields tk = Some \<lparr>DoubleArgs = [skillArg \<mapsto> v], StringArgs = [modeArg \<mapsto> mode], Tags = tags\<rparr>"
  shows "in_profile ts_time (ts_profile show_f64 t region mode i) tk \<longleftrightarrow>
    f64_le (skillMin t i) v \<and> f64_le v (skillMax t i) \<and> region \<in> set tags"
  using assms by (simp add: in_profile_def ts_profile_def NewPoolFilter_def empty_pool_def In_def created_check_def ticket_entity_def)

text \<open>The two brackets overlap around zero, and together they cover all skills.\<close>

lemma half_nonneg: "f64_le (Fin 0) (f64_div_pos (maxSkillDifference (ts_Scenario m)) 2)"
proof -
  have pos: "f64_le (Fin 0) (f64_round r)" if "0 \<le> r" for r using f64_round_mono [OF that] by simp
  have "f64_le (Fin 0) (f64_div_pos x 2)" if "f64_le (Fin 0) x" for x using that by (cases x) (auto intro: pos)
  then show ?thesis by (simp add: ts_Scenario_def split_beta pos)
qed

lemma brackets_cover:
  assumes "v \<noteq> NaN"
  shows "\<exists>i < 2. f64_le (skillMin (ts_Scenario m) i) v \<and> f64_le v (skillMax (ts_Scenario m) i)"
proof -
  let ?t = "ts_Scenario m"
  obtain w where w: "f64_div_pos (maxSkillDifference ?t) 2 = w" "f64_le (Fin 0) w" using half_nonneg by blast
  have b: "skillBoundaries ?t = [NegInf, Fin 0, PosInf]" by (simp add: ts_Scenario_def split_beta)
  have round: "f64_le (Fin 0) (f64_round r)" "f64_le (f64_round (- r)) (Fin 0)" if "0 \<le> r" for r
    using f64_round_mono [of 0 r] f64_round_mono [of "- r" 0] that by simp_all
  have "skillMin ?t 0 = NegInf" "f64_le (Fin 0) (skillMax ?t 0)" "f64_le (skillMin ?t 1) (Fin 0)" "skillMax ?t 1 = PosInf"
    using w(2) by (cases w; simp add: skillMin_def skillMax_def w(1) b f64_sub_def round)+
  then have "f64_le (skillMin ?t 0) v \<and> f64_le v (skillMax ?t 0) \<or> f64_le (skillMin ?t 1) v \<and> f64_le v (skillMax ?t 1)"
  proof (cases "f64_le v (Fin 0)")
    case True
    with \<open>f64_le (Fin 0) (skillMax ?t 0)\<close> have "f64_le v (skillMax ?t 0)" by (rule f64_le_trans [rotated])
    with \<open>skillMin ?t 0 = NegInf\<close> assms show ?thesis by simp
  next
    case False
    with assms have "f64_le (Fin 0) v" by (cases v) auto
    with \<open>f64_le (skillMin ?t 1) (Fin 0)\<close> have "f64_le (skillMin ?t 1) v" by (rule f64_le_trans)
    with \<open>skillMax ?t 1 = PosInf\<close> assms show ?thesis by simp
  qed
  then show ?thesis by (metis one_less_numeral_iff semiring_norm(76) zero_less_numeral)
qed

lemma ts_Scenario_sel:
  "length (regions (ts_Scenario m)) = 2" "maxRegions (ts_Scenario m) = 1" "modes (ts_Scenario m) = fst (weightedChoice m)"
  "randomMode (ts_Scenario m) = snd (weightedChoice m)" "length (skillBoundaries (ts_Scenario m)) = 3"
  by (simp_all add: ts_Scenario_def split_beta)

lemma ts_profile_in:
  "region \<in> set (regions t) \<Longrightarrow> mode \<in> set (modes t) \<Longrightarrow> i < length (skillBoundaries t) - 1 \<Longrightarrow>
   ts_profile show_f64 t region mode i \<in> set (ts_Profiles show_f64 t)"
  unfolding ts_Profiles_def by simp (meson atLeastLessThan_iff imageI zero_le)

text \<open>
  The profiles of the team shooter leave nobody out: every ticket that the scenario makes, whatever
  the draws, searches in at least one region, and for each region that it searches in it is in the pool of
  a profile of that region.
\<close>

theorem team_ticket_has_profile:
  assumes draw: "\<And>k n. 0 < n \<Longrightarrow> 0 \<le> intn k n \<and> intn k n < n" and "normal \<noteq> NaN"
    and m: "mset m = mset mode_weights" "mset m' = mset mode_weights"
  shows "\<exists>tk s. ts_Ticket intn normal m' (ts_Scenario m) = Inr tk \<and> t_SearchFields tk = Some s \<and> Tags s \<noteq> [] \<and>
    (\<forall>region \<in> set (Tags s). \<exists>p \<in> set (ts_Profiles show_f64 (ts_Scenario m)).
      list_all (\<lambda>q. p_TagPresentFilters q = [\<lparr>tpf_Tag = region\<rparr>]) (mp_Pools p) \<and> in_profile ts_time p tk)"
proof -
  let ?t = "ts_Scenario m"
  note w = perm_weights [OF m(1)]
  have mm: "mset m' = mset m" and all: "list_all (\<lambda>(k, v). 0 \<le> v) m" and sum: "0 < sum_list (map snd m)" using m w by simp_all
  obtain mode where mode: "mode \<in> set (modes ?t)" "randomMode ?t m' (intn 2) = Inr mode"
    using weightedChoice_key [OF all mm, of "intn 2"] draw [OF sum, of 2] by (auto simp: ts_Scenario_sel)
  let ?v = "clamp normal (Fin (-3)) (Fin 3)" and ?tags = "walk_regions (regions ?t) (nat (intn 1 1 + 1)) (nat (intn 0 2))"
  let ?s = "\<lparr>DoubleArgs = [skillArg \<mapsto> ?v], StringArgs = [modeArg \<mapsto> mode], Tags = ?tags\<rparr>"
  let ?tk = "empty_ticket\<lparr>t_SearchFields := Some ?s\<rparr>"
  have ne: "regions ?t \<noteq> []" using ts_Scenario_sel(1) [of m] by auto
  have tk: "ts_Ticket intn normal m' ?t = Inr ?tk" using mode(2) ne by (simp add: ts_Ticket_def ts_Scenario_sel Let_def)
  have d: "0 \<le> intn 1 1" "0 \<le> intn 0 2" "intn 0 2 < 2" using draw [of 1 1] draw [of 2 0] by auto
  have "length ?tags \<noteq> 0" unfolding length_walk_regions using d by simp
  then have "?tags \<noteq> []" by auto
  moreover have "\<exists>p \<in> set (ts_Profiles show_f64 ?t).
      list_all (\<lambda>q. p_TagPresentFilters q = [\<lparr>tpf_Tag = region\<rparr>]) (mp_Pools p) \<and> in_profile ts_time p ?tk" if r: "region \<in> set ?tags" for region
  proof -
    have "nat (intn 0 2) < length (regions ?t)" using d by (simp add: ts_Scenario_sel)
    then have "region \<in> set (regions ?t)" using set_walk_regions r by blast
    moreover have "?v \<noteq> NaN" using assms(2) by (simp add: clamp_def)
    then obtain i where i: "i < 2" "f64_le (skillMin ?t i) ?v \<and> f64_le ?v (skillMax ?t i)" using brackets_cover by blast
    ultimately have "ts_profile show_f64 ?t region mode i \<in> set (ts_Profiles show_f64 ?t)"
      using mode(1) i(1) by (intro ts_profile_in) (simp_all add: ts_Scenario_sel)
    moreover have "in_profile ts_time (ts_profile show_f64 ?t region mode i) ?tk"
      by (rule ts_in_profile [THEN iffD2]) (use i r in auto)
    moreover have "list_all (\<lambda>q. p_TagPresentFilters q = [\<lparr>tpf_Tag = region\<rparr>]) (mp_Pools (ts_profile show_f64 ?t region mode i))"
      by (simp add: ts_profile_def)
    ultimately show ?thesis by blast
  qed
  ultimately show ?thesis using tk by (intro exI [of _ ?tk] exI [of _ ?s]) simp
qed

section \<open>Windows of close players\<close>

text \<open>All windows of \<open>n\<close> consecutive elements, from the \<open>i\<close>-th on.\<close>

definition windows_from :: "nat \<Rightarrow> nat \<Rightarrow> 'a list \<Rightarrow> 'a list list" where
  "windows_from i n xs = map (\<lambda>j. take n (drop j xs)) [i..<Suc (length xs) - n]"

abbreviation windows :: "nat \<Rightarrow> 'a list \<Rightarrow> 'a list list" where
  "windows \<equiv> windows_from 0"

lemma windows_from_step: "i + n \<le> length xs \<Longrightarrow> windows_from i n xs = take n (drop i xs) # windows_from (i + 1) n xs"
  unfolding windows_from_def by (subst upt_conv_Cons) simp_all

lemma windows_from_end: "\<not> i + n \<le> length xs \<Longrightarrow> windows_from i n xs = []"
  by (simp add: windows_from_def)

lemma window_parts: "w \<in> set (windows n xs) \<Longrightarrow> \<exists>ys zs. xs = ys @ w @ zs"
  by (auto simp: windows_from_def) (metis append_take_drop_id)

lemma length_window: "n \<le> length xs \<Longrightarrow> w \<in> set (windows n xs) \<Longrightarrow> length w = n"
  by (auto simp: windows_from_def)

definition close_window :: "f64 \<Rightarrow> ticket list \<Rightarrow> bool" where
  "close_window d w = f64_less (f64_sub (skill_val (last w)) (skill_val (hd w))) d"

definition known_skill :: "ticket \<Rightarrow> bool" where
  "known_skill t \<longleftrightarrow> (\<exists>q. skill t = Inr (Fin q))"

lemma known_skill_val: "known_skill t \<Longrightarrow> skill t = Inr (skill_val t) \<and> skill_val t \<noteq> NaN"
  by (auto simp: known_skill_def skill_val_def)

lemma pack_sel:
  "pack marshal x = Inr m \<Longrightarrow> m_Tickets m = x_tickets x \<and> m_MatchId m = x_id x"
  by (auto simp: pack_def split: sum.splits)

lemma ts_loop_windows:
  assumes ppg: "0 < playersPerGame t" and pack: "\<And>v. \<exists>a. marshal v = Inr a"
  shows "list_all known_skill ts \<Longrightarrow> \<exists>new. ts_loop env marshal t profile ts i ms = Inr (ms @ new) \<and>
    map m_Tickets new = filter (close_window (maxSkillDifference t)) (windows_from i (nat (playersPerGame t)) ts) \<and>
    map m_MatchId new = map (\<lambda>k. scenario_match_id profile (formatted_now env (length ms + k)) (length ms + k)) [0..<length new]"
  using assms
proof (induction env marshal t profile ts i ms rule: ts_loop.induct)
  case (1 env marshal t profile ts i ms)
  let ?n = "nat (playersPerGame t)" and ?w = "take (nat (playersPerGame t)) (drop i ts)"
  show ?case
  proof (cases "int i + playersPerGame t \<le> int (length ts)")
    case False
    then have "\<not> i + ?n \<le> length ts" using "1.prems"(2) by linarith
    then show ?thesis using False by (subst ts_loop.simps) (simp add: windows_from_end)
  next
    case True
    then have i: "i + ?n \<le> length ts" using "1.prems"(2) by linarith
    have w: "?w \<noteq> []" "set ?w \<subseteq> set ts" using "1.prems"(2) i by (auto dest: in_set_takeD in_set_dropD)
    have k: "known_skill x" if "x \<in> set ?w" for x using that w(2) "1.prems"(1) by (auto simp: list_all_iff)
    from k [OF last_in_set [OF w(1)]] k [OF hd_in_set [OF w(1)]] have sk: "skill (last ?w) = Inr (skill_val (last ?w))" "skill (hd ?w) = Inr (skill_val (hd ?w))" by (simp_all add: known_skill_val)
    note step = windows_from_step [OF i]
    show ?thesis
    proof (cases "close_window (maxSkillDifference t) ?w")
      case close: False
      then have "ts_loop env marshal t profile ts i ms = ts_loop env marshal t profile ts (i + 1) ms"
        using True "1.prems"(2) sk by (subst ts_loop.simps) (simp add: Let_def close_window_def)
      with "1.IH"(2) [OF True _ refl sk] "1.prems" close show ?thesis by (simp add: step close_window_def)
    next
      case close: True
      let ?x = "\<lparr>x_id = scenario_match_id profile (formatted_now env (length ms)) (length ms), x_tickets = ?w,
        x_quality = quality ?w, x_matchProfile = profile, x_matchFunction = ''skillmatcher''\<rparr>"
      obtain m where m: "pack marshal ?x = Inr m" using "1.prems"(3) [of "quality ?w"] by (auto simp: pack_def)
      have l: "ts_loop env marshal t profile ts i ms = ts_loop env marshal t profile ts (i + 1) (ms @ [m])"
        using True "1.prems"(2) sk m close by (subst ts_loop.simps) (simp add: Let_def close_window_def)
      have "\<not> playersPerGame t \<le> 0" "f64_less (f64_sub (skill_val (last ?w)) (skill_val (hd ?w))) (maxSkillDifference t)"
        using "1.prems"(2) close by (simp_all only: close_window_def not_le)
      from "1.IH"(1) [OF True this(1) refl sk this(2) m "1.prems"] obtain new where h:
        "ts_loop env marshal t profile ts (i + 1) (ms @ [m]) = Inr ((ms @ [m]) @ new)"
        "map m_Tickets new = filter (close_window (maxSkillDifference t)) (windows_from (i + 1) ?n ts)"
        "map m_MatchId new = map (\<lambda>k. scenario_match_id profile (formatted_now env (length ms + 1 + k)) (length ms + 1 + k)) [0..<length new]"
        by auto
      with l pack_sel [OF m] close show ?thesis
        by (intro exI [of _ "m # new"]) (simp add: step map_upt_Suc del: upt_Suc)
    qed
  qed
qed

text \<open>In a sorted list the ends of a window are its least and its greatest skill.\<close>

lemma sorted_ends:
  assumes "sorted_wrt (\<lambda>a b. \<not> skill_less b a) w" and "list_all known_skill w" and "t \<in> set w"
  shows "f64_le (skill_val (hd w)) (skill_val t)" and "f64_le (skill_val t) (skill_val (last w))"
proof -
  have nn: "skill_val x \<noteq> NaN" if "x \<in> set w" for x using assms(2) that known_skill_val by (auto simp: list_all_iff)
  have refl: "f64_le (skill_val t) (skill_val t)" using nn [OF assms(3)] by (simp add: f64_le_iff)
  obtain x xs where x: "w = x # xs" using assms(3) by (cases w) auto
  show "f64_le (skill_val (hd w)) (skill_val t)"
  proof (cases "t = x")
    case False
    with assms x show ?thesis using nn by (auto simp: f64_le_iff)
  qed (use refl x in simp)
  obtain ys y where y: "w = ys @ [y]" using assms(3) by (cases w rule: rev_cases) auto
  show "f64_le (skill_val t) (skill_val (last w))"
  proof (cases "t = y")
    case False
    with assms(1,3) have "\<not> skill_less y t" by (auto simp: y sorted_wrt_append)
    with nn assms(3) show ?thesis by (simp add: y f64_le_iff)
  qed (use refl y in simp)
qed

lemma f64_sub_known: "known_skill a \<Longrightarrow> known_skill b \<Longrightarrow> f64_sub (skill_val a) (skill_val b) \<noteq> NaN"
  by (auto simp: known_skill_def skill_val_def)

lemma close_window_pairs:
  assumes "sorted_wrt (\<lambda>a b. \<not> skill_less b a) w" and "list_all known_skill w" and "close_window d w"
    and "a \<in> set w" and "b \<in> set w"
  shows "f64_less (f64_sub (skill_val a) (skill_val b)) d"
proof -
  have "w \<noteq> []" using assms(4) by auto
  then have ends: "last w \<in> set w" "hd w \<in> set w" by simp_all
  have k: "known_skill x" if "x \<in> set w" for x using that assms(2) by (simp add: list_all_iff)
  have "f64_le (f64_sub (skill_val a) (skill_val b)) (f64_sub (skill_val (last w)) (skill_val (hd w)))"
    by (rule f64_sub_mono [OF sorted_ends(2) [OF assms(1,2,4)] sorted_ends(1) [OF assms(1,2,5)]])
      (use f64_sub_known k assms(4,5) ends in blast)+
  with assms(3) show ?thesis unfolding close_window_def by (blast intro: f64_le_less_trans)
qed

lemma f64_strict_weak:
  assumes "\<And>x. x \<in> A \<Longrightarrow> f x \<noteq> NaN"
  shows "strict_weak (\<lambda>a b. f64_less (f a) (f b)) A" and "strict_weak (\<lambda>a b. f64_less (f b) (f a)) A"
  unfolding strict_weak_def using assms by (safe, auto dest: f64_less_trans f64_not_less_trans)

lemma skill_strict_weak: "list_all known_skill ts \<Longrightarrow> strict_weak skill_less (set ts)"
  by (rule f64_strict_weak) (simp add: list_all_iff known_skill_val)

text \<open>
  The match function of the team shooter makes exactly the matches it should: with any sorting, its
  matches are the windows of consecutive players by skill whose ends are close enough, in order and with
  distinct ids; each has the full number of players, and the skills of any two of them, not only of the
  ends, differ by less than the allowed difference in the arithmetic of doubles.
\<close>

theorem team_matches_close:
  assumes "go_sort srt" and "0 < playersPerGame t" and "\<And>v. \<exists>a. marshal v = Inr a" and "\<And>n. length (formatted_now env n) = 22"
    and "ts = pool_entry poolTickets poolName" and "list_all known_skill ts"
  shows "\<exists>ms. ts_MatchFunction srt env marshal t p poolBackfills poolTickets = Inr ms \<and>
    map m_Tickets ms = filter (close_window (maxSkillDifference t)) (windows (nat (playersPerGame t)) (srt skill_less ts)) \<and>
    distinct (map m_MatchId ms) \<and>
    (\<forall>m \<in> set ms. int (length (m_Tickets m)) = playersPerGame t \<and>
      (\<forall>a \<in> set (m_Tickets m). \<forall>b \<in> set (m_Tickets m). f64_less (f64_sub (skill_val a) (skill_val b)) (maxSkillDifference t)))"
proof -
  let ?ts = "srt skill_less ts" and ?n = "nat (playersPerGame t)"
  have known: "list_all known_skill ?ts" using assms(6) go_sort.set_srt [OF assms(1)] by (simp add: list_all_iff)
  have sorted: "sorted_wrt (\<lambda>a b. \<not> skill_less b a) ?ts" using assms(1,6) by (intro go_sort.srt_sorted skill_strict_weak)
  have "t_SearchFields t \<noteq> None" if "known_skill t" for t using that by (auto simp: known_skill_def skill_def split: option.splits)
  then have "\<not> list_ex (\<lambda>t. t_SearchFields t = None) ts" using assms(6) by (auto simp: list_ex_iff list_all_iff)
  then have srt: "sort_tickets srt ts = Inr ?ts" by (simp add: sort_tickets_def)
  obtain ms where ms: "ts_loop env marshal t (mp_Name p) ?ts 0 [] = Inr ms"
    "map m_Tickets ms = filter (close_window (maxSkillDifference t)) (windows ?n ?ts)"
    "map m_MatchId ms = map (\<lambda>k. scenario_match_id (mp_Name p) (formatted_now env k) k) [0..<length ms]"
    using ts_loop_windows [where marshal = marshal and env = env and profile = "mp_Name p" and i = 0 and ms = "[]", OF assms(2,3) known] by auto
  have "int (length (m_Tickets m)) = playersPerGame t \<and>
      (\<forall>a \<in> set (m_Tickets m). \<forall>b \<in> set (m_Tickets m). f64_less (f64_sub (skill_val a) (skill_val b)) (maxSkillDifference t))"
    if m: "m \<in> set ms" for m
  proof -
    have w: "m_Tickets m \<in> set (windows ?n ?ts)" "close_window (maxSkillDifference t) (m_Tickets m)"
      using m imageI [OF m, of m_Tickets] unfolding set_map [symmetric] ms(2) by simp_all
    have "?n \<le> length ?ts" using w(1) by (auto simp: windows_from_def)
    from length_window [OF this w(1)] have l: "int (length (m_Tickets m)) = playersPerGame t" using assms(2) by simp
    obtain ys zs where parts: "?ts = ys @ m_Tickets m @ zs" using window_parts [OF w(1)] by blast
    have "sorted_wrt (\<lambda>a b. \<not> skill_less b a) (m_Tickets m)" "list_all known_skill (m_Tickets m)"
      using sorted known unfolding parts by (simp_all add: sorted_wrt_append)
    with w(2) l show ?thesis by (blast intro: close_window_pairs)
  qed
  moreover have "distinct (map m_MatchId ms)" unfolding ms(3) by (rule scenario_ids_distinct [OF assms(4)])
  ultimately show ?thesis using ms(1,2) srt assms(5) by (auto simp: ts_MatchFunction_def)
qed

section \<open>The best matches are accepted\<close>

definition ext_ids :: "matchExt \<Rightarrow> string set" where
  "ext_ids p = t_Id ` set (x_tickets p)"

text \<open>On a sorted list, whatever is rejected collides with something at least as good.\<close>

lemma first_come_dominated:
  "sorted_wrt R ms \<Longrightarrow> \<forall>a \<in> set acc. \<forall>m \<in> set ms. R a m \<Longrightarrow> m \<in> set ms \<Longrightarrow>
   m \<in> set (first_come ids acc ms) \<or> (\<exists>a \<in> set (first_come ids acc ms). ids a \<inter> ids m \<noteq> {} \<and> R a m)"
proof (induction ms arbitrary: acc)
  case (Cons x ms)
  show ?case
  proof (cases "m = x")
    case True
    have "\<exists>a \<in> set (first_come ids acc ms). ids a \<inter> ids x \<noteq> {} \<and> R a x" if "list_ex (\<lambda>a. ids a \<inter> ids x \<noteq> {}) acc"
      using that first_come_set(1) [of acc ids ms] Cons.prems(2) unfolding list_ex_iff by (meson list.set_intros(1) subsetD)
    moreover have "x \<in> set (first_come ids (acc @ [x]) ms)" using first_come_set(1) [of "acc @ [x]" ids ms] by simp
    ultimately show ?thesis by (simp add: True)
  next
    case False
    with Cons.prems have m: "m \<in> set ms" "sorted_wrt R ms" by simp_all
    with Cons.IH [OF m(2) _ m(1), of acc] Cons.IH [OF m(2) _ m(1), of "acc @ [x]"] Cons.prems show ?thesis by simp
  qed
qed simp

lemma ts_send_first_come:
  assumes "\<And>k. \<not> sendFails k"
  shows "used = \<Union> (ext_ids ` set acc) \<Longrightarrow>
    ts_send sendFails used ps (map x_id acc) = (Inr (), map x_id (first_come ext_ids acc ps))"
proof (induction ps arbitrary: used acc)
  case (Cons p ps)
  have "any_used used (x_tickets p) \<longleftrightarrow> list_ex (\<lambda>a. ext_ids a \<inter> ext_ids p \<noteq> {}) acc"
    unfolding Cons.prems any_used_iff list_ex_iff ext_ids_def [of p] by blast
  moreover have "ts_send sendFails (mark_used used (x_tickets p)) ps (map x_id (acc @ [p])) =
      (Inr (), map x_id (first_come ext_ids (acc @ [p]) ps))" by (rule Cons.IH) (auto simp: Cons.prems ext_ids_def)
  moreover have "\<not> sendFails (length (map x_id acc))" by (rule assms)
  ultimately show ?case using Cons.IH [OF Cons.prems] by simp
qed simp

text \<open>What is packed unpacks to itself.\<close>

lemma unpack_pack:
  assumes "\<And>v a. marshal v = Inr a \<Longrightarrow> unmarshal a = Inr v" and "pack marshal p = Inr m"
  shows "unpackMatch unmarshal (Some m) = Inr p"
  using assms by (auto simp: pack_def unpackMatch_def split: sum.splits)

lemma ts_recv_packed:
  assumes "\<And>v a. marshal v = Inr a \<Longrightarrow> unmarshal a = Inr v"
  shows "list_all2 (\<lambda>p m. pack marshal p = Inr m) ps ms \<Longrightarrow> ts_recv unmarshal acc (requests ms) = Some (Inr (acc @ ps))"
  by (induction ps ms arbitrary: acc rule: list_all2_induct) (simp_all add: unpack_pack [OF assms])

lemma quality_strict_weak: "list_all (\<lambda>p. x_quality p \<noteq> NaN) ps \<Longrightarrow> strict_weak higher_quality (set ps)"
  unfolding higher_quality_def by (rule f64_strict_weak) (simp add: list_all_iff)

text \<open>
  The evaluator of the team shooter accepts the best matches: from a stream of packed proposals it sends
  the ids of those that the reference keeps of the sorted proposals; no two share a ticket, and, if every
  quality is a number, each rejected proposal shares a ticket with an accepted one of at least its quality.
\<close>

theorem team_evaluator_best_first:
  assumes "go_sort srt" and "\<And>v a. marshal v = Inr a \<Longrightarrow> unmarshal a = Inr v"
    and "list_all2 (\<lambda>p m. pack marshal p = Inr m) ps ms" and "\<And>k. \<not> sendFails k"
  shows "let acc = first_come ext_ids [] (srt higher_quality ps) in
    ts_Evaluate srt unmarshal sendFails (requests ms) = Some (Inr (), map x_id acc) \<and>
    set acc \<subseteq> set ps \<and> sorted_wrt (\<lambda>p q. ext_ids p \<inter> ext_ids q = {}) acc \<and>
    (list_all (\<lambda>p. x_quality p \<noteq> NaN) ps \<longrightarrow>
      (\<forall>p \<in> set ps. p \<in> set acc \<or> (\<exists>a \<in> set acc. ext_ids a \<inter> ext_ids p \<noteq> {} \<and> \<not> f64_less (x_quality a) (x_quality p))))"
proof -
  let ?ps = "srt higher_quality ps"
  let ?acc = "first_come ext_ids [] ?ps"
  have ev: "ts_Evaluate srt unmarshal sendFails (requests ms) = Some (Inr (), map x_id ?acc)"
    using ts_recv_packed [OF assms(2,3), where acc = "[]"] ts_send_first_come [where sendFails = sendFails and used = "{}" and acc = "[]" and ps = ?ps, OF assms(4)] by (simp add: ts_Evaluate_def)
  have best: "p \<in> set ?acc \<or> (\<exists>a \<in> set ?acc. ext_ids a \<inter> ext_ids p \<noteq> {} \<and> \<not> f64_less (x_quality a) (x_quality p))"
    if "list_all (\<lambda>p. x_quality p \<noteq> NaN) ps" "p \<in> set ps" for p
    using first_come_dominated [of _ ?ps "[]" p ext_ids, OF go_sort.srt_sorted [OF assms(1) quality_strict_weak [OF that(1)]]]
      that(2) go_sort.set_srt [OF assms(1)] by (simp add: higher_quality_def)
  have "set ?acc \<subseteq> set ps" "sorted_wrt (\<lambda>p q. ext_ids p \<inter> ext_ids q = {}) ?acc"
    using go_sort.srt_accept(1) [OF assms(1), of ext_ids higher_quality ps] fifo.accept_disjoint [of ext_ids ?ps] by blast+
  with ev best show ?thesis by (simp add: Let_def)
qed

section \<open>Witnesses\<close>

theorem weighted_choice_fair_witness:
  "card {d. 0 \<le> d \<and> d < 125 \<and> snd (weightedChoice mode_weights) (rev mode_weights) (\<lambda>_. d) = Inr ''pl''} = 100"
  using weighted_choice_fair [of mode_weights "rev mode_weights" "''pl''"] by simp

theorem team_ticket_has_profile_witness:
  "\<exists>tk s. ts_Ticket (\<lambda>k n. 0) (Fin 5) mode_weights (ts_Scenario mode_weights) = Inr tk \<and> t_SearchFields tk = Some s \<and> Tags s \<noteq> [] \<and>
    (\<forall>region \<in> set (Tags s). \<exists>p \<in> set (ts_Profiles (\<lambda>_. []) (ts_Scenario mode_weights)). in_profile (\<lambda>_. None) p tk)"
proof -
  have "0 \<le> (0 :: int) \<and> (0 :: int) < n" if "0 < n" for n using that by simp
  from team_ticket_has_profile [of "\<lambda>k n. 0" "Fin 5" mode_weights mode_weights "\<lambda>_. []" "\<lambda>_. None", OF this] show ?thesis by simp blast
qed

abbreviation sample_player :: "string \<Rightarrow> ticket" where
  "sample_player i \<equiv> empty_ticket\<lparr>t_Id := i, t_SearchFields := Some (emptySearchFields\<lparr>DoubleArgs := [skillArg \<mapsto> Fin 0]\<rparr>)\<rparr>"

definition sample_marshal :: "f64 \<Rightarrow> any_msg res" where
  "sample_marshal v = (if v = Fin 1 then Inr \<lparr>TypeUrl = [], AnyValue = ''1''\<rparr> else if v = Fin 2 then Inr \<lparr>TypeUrl = [], AnyValue = ''2''\<rparr> else Inl FmtErr)"

definition sample_unmarshal_double :: "any_msg \<Rightarrow> f64 res" where
  "sample_unmarshal_double a = (if AnyValue a = ''1'' then Inr (Fin 1) else Inr (Fin 2))"

theorem team_matches_close_witness:
  "\<exists>ms. ts_MatchFunction insertion_sort sample_env (\<lambda>v. Inr \<lparr>TypeUrl = [], AnyValue = []\<rparr>)
       ((ts_Scenario mode_weights)\<lparr>playersPerGame := 2, maxSkillDifference := Fin 1\<rparr>) entirePool Map.empty
       [poolName \<mapsto> [sample_player ''a'', sample_player ''b'']] = Inr ms \<and>
     map m_Tickets ms = [[sample_player ''a'', sample_player ''b'']]"
proof -
  let ?ts = "[sample_player ''a'', sample_player ''b'']"
  have k: "skill (sample_player i) = Inr (Fin 0)" for i by (simp add: skill_def)
  then have known: "list_all known_skill ?ts" and v: "skill_val (sample_player i) = Fin 0" for i by (auto simp: known_skill_def skill_val_def)
  have "insertion_sort skill_less ?ts = ?ts" by (simp add: insertion_sort_def v)
  moreover have "windows 2 ?ts = [?ts]" by (simp add: windows_from_def)
  moreover have "close_window (Fin 1) ?ts" by (simp add: close_window_def v)
  ultimately show ?thesis
    using team_matches_close [of insertion_sort "(ts_Scenario mode_weights)\<lparr>playersPerGame := 2, maxSkillDifference := Fin 1\<rparr>"
        "\<lambda>v. Inr \<lparr>TypeUrl = [], AnyValue = []\<rparr>" sample_env ?ts "[poolName \<mapsto> ?ts]" entirePool Map.empty,
        OF insertion.go_sort_axioms _ _ sample_now _ known] by (auto simp: pool_entry_def)
qed

theorem team_evaluator_best_first_witness:
  "\<exists>ms. list_all2 (\<lambda>p m. pack sample_marshal p = Inr m)
       [\<lparr>x_id = ''a'', x_tickets = [sample_player ''1''], x_quality = Fin 1, x_matchProfile = [], x_matchFunction = []\<rparr>,
        \<lparr>x_id = ''b'', x_tickets = [sample_player ''1''], x_quality = Fin 2, x_matchProfile = [], x_matchFunction = []\<rparr>] ms \<and>
     ts_Evaluate insertion_sort sample_unmarshal_double (\<lambda>_. False) (requests ms) = Some (Inr (), [''b''])"
proof -
  let ?a = "\<lparr>x_id = ''a'', x_tickets = [sample_player ''1''], x_quality = Fin 1, x_matchProfile = [], x_matchFunction = []\<rparr>"
    and ?b = "\<lparr>x_id = ''b'', x_tickets = [sample_player ''1''], x_quality = Fin 2, x_matchProfile = [], x_matchFunction = []\<rparr>"
  have round: "sample_unmarshal_double a = Inr v" if "sample_marshal v = Inr a" for v a
    using that by (auto simp: sample_marshal_def sample_unmarshal_double_def split: if_splits)
  obtain m m' where "pack sample_marshal ?a = Inr m" "pack sample_marshal ?b = Inr m'" by (simp add: pack_def sample_marshal_def)
  then have l: "list_all2 (\<lambda>p m. pack sample_marshal p = Inr m) [?a, ?b] [m, m']" by simp
  have "insertion_sort higher_quality [?a, ?b] = [?b, ?a]" by (simp add: insertion_sort_def higher_quality_def)
  with team_evaluator_best_first [of insertion_sort sample_marshal sample_unmarshal_double "[?a, ?b]" "[m, m']" "\<lambda>_. False",
      OF insertion.go_sort_axioms round l] l
  show ?thesis by (intro exI [of _ "[m, m']"]) (simp add: Let_def ext_ids_def)
qed

end
