(* ===== verification/Store_Typing.thy ===== *)
theory Store_Typing
  imports Store_Properties
begin

text \<open>
  A type system for the key space of the state store. Tickets and backfills are stored under their ids in
  one key space, and the index structures hold ids of one kind only. Ids are given kinds; a call of the
  store is well typed if the ids in its arguments have the kinds that the operation expects. Well-typed
  calls keep the store well typed, and no read among them meets a value of the wrong kind.
\<close>

section \<open>Kinds\<close>

datatype kind = TicketKind | BackfillKind

type_synonym typing = "string \<rightharpoonup> kind"

abbreviation of_kind :: "typing \<Rightarrow> kind \<Rightarrow> string set" where
  "of_kind G k \<equiv> {i. G i = Some k}"

definition typed_value :: "('b \<Rightarrow> ticket option) \<Rightarrow> ('b \<Rightarrow> backfill_internal option) \<Rightarrow> typing \<Rightarrow> string \<Rightarrow> 'b \<Rightarrow> bool" where
  "typed_value decT decB G i b \<longleftrightarrow>
     (case G i of
        None \<Rightarrow> False
      | Some TicketKind \<Rightarrow> (\<exists>t. decT b = Some t \<and> t_Id t = i)
      | Some BackfillKind \<Rightarrow> (\<exists>bf tids. decB b = Some \<lparr>bi_Backfill = Some bf, bi_TicketIds = tids\<rparr> \<and> bf_Id bf = i \<and>
          set tids \<subseteq> of_kind G TicketKind))"

definition typed_store :: "('b \<Rightarrow> ticket option) \<Rightarrow> ('b \<Rightarrow> backfill_internal option) \<Rightarrow> typing \<Rightarrow> 'b astore \<Rightarrow> bool" where
  "typed_store decT decB G a \<longleftrightarrow>
     (\<forall>i b. objs a i = Some b \<longrightarrow> typed_value decT decB G i b) \<and>
     tindex a \<subseteq> of_kind G TicketKind \<and> dom (pending a) \<subseteq> of_kind G TicketKind \<and>
     dom (acks a) \<subseteq> of_kind G BackfillKind \<and>
     (\<forall>i g. bindex a i = Some g \<longrightarrow> G i = Some BackfillKind \<and> atoi g \<noteq> None)"

lemmas typed_defs = typed_store_def typed_value_def

section \<open>Well-typed calls\<close>

text \<open>A step for every operation of the interface that may change the store or reads values by id.\<close>

inductive store_call :: "('s, 'c) service \<Rightarrow> typing \<Rightarrow> 's \<Rightarrow> 's \<Rightarrow> bool" for S G where
  call_create_ticket: "G (t_Id t) = Some TicketKind \<Longrightarrow> store_call S G s (snd (CreateTicket S t s))"
| call_get_ticket: "G i = Some TicketKind \<Longrightarrow> store_call S G s (snd (GetTicket S i s))"
| call_delete_ticket: "G i = Some TicketKind \<Longrightarrow> store_call S G s (snd (DeleteTicket S i s))"
| call_index_ticket: "G (t_Id t) = Some TicketKind \<Longrightarrow> store_call S G s (snd (IndexTicket S t s))"
| call_deindex_ticket: "store_call S G s (snd (DeindexTicket S i s))"
| call_get_indexed: "store_call S G s (snd (GetIndexedIDSet S s))"
| call_get_tickets: "set ids \<subseteq> of_kind G TicketKind \<Longrightarrow> store_call S G s (snd (GetTickets S ids s))"
| call_update_assignments: "set (assign_ids gs) \<subseteq> of_kind G TicketKind \<Longrightarrow> store_call S G s (snd (UpdateAssignments S gs s))"
| call_add_pending: "set ids \<subseteq> of_kind G TicketKind \<Longrightarrow> store_call S G s (snd (AddTicketsToPendingRelease S ids s))"
| call_delete_pending: "store_call S G s (snd (DeleteTicketsFromPendingRelease S ids s))"
| call_release_all: "store_call S G s (snd (ReleaseAllTickets S s))"
| call_create_backfill: "G (bf_Id bf) = Some BackfillKind \<Longrightarrow> set tids \<subseteq> of_kind G TicketKind \<Longrightarrow>
    store_call S G s (snd (CreateBackfill S bf tids s))"
| call_get_backfill: "G i = Some BackfillKind \<Longrightarrow> store_call S G s (snd (GetBackfill S i s))"
| call_get_backfills: "set ids \<subseteq> of_kind G BackfillKind \<Longrightarrow> store_call S G s (snd (GetBackfills S ids s))"
| call_delete_backfill: "G i = Some BackfillKind \<Longrightarrow> store_call S G s (snd (DeleteBackfill S i s))"
| call_delete_completely: "G i = Some BackfillKind \<Longrightarrow> store_call S G s (snd (DeleteBackfillCompletely S i s))"
| call_update_backfill: "G (bf_Id bf) = Some BackfillKind \<Longrightarrow> set tids \<subseteq> of_kind G TicketKind \<Longrightarrow>
    store_call S G s (snd (UpdateBackfill S bf tids s))"
| call_mutex_lock: "store_call S G s (snd (MutexLock S i s))"
| call_mutex_unlock: "store_call S G s (snd (MutexUnlock S i s))"
| call_cleanup: "store_call S G s (snd (CleanupBackfills S s))"
| call_acknowledge: "store_call S G s (snd (UpdateAcknowledgmentTimestamp S i s))"
| call_get_expired: "store_call S G s (snd (GetExpiredBackfillIDs S s))"
| call_index_backfill: "G (bf_Id bf) = Some BackfillKind \<Longrightarrow> store_call S G s (snd (IndexBackfill S bf s))"
| call_deindex_backfill: "store_call S G s (snd (DeindexBackfill S i s))"
| call_get_indexed_backfills: "store_call S G s (snd (GetIndexedBackfills S s))"

section \<open>Preservation on the abstract store\<close>

lemma typed_store_put:
  "typed_store decT decB G a \<Longrightarrow> typed_value decT decB G i b \<Longrightarrow>
   typed_store decT decB G (a\<lparr>objs := (objs a)(i \<mapsto> b), ttls := z\<rparr>)"
  by (simp add: typed_store_def)

lemma typed_store_remove:
  "typed_store decT decB G a \<Longrightarrow> typed_store decT decB G (a\<lparr>objs := (objs a)(i := None), ttls := z\<rparr>)"
  by (simp add: typed_store_def)

lemma typed_create_ticket:
  assumes "typed_store decT decB G a" and "G (t_Id t) = Some TicketKind" and "\<And>b. encT t = Some b \<Longrightarrow> decT b = Some t"
  shows "typed_store decT decB G (snd (as_CreateTicket encT t a))"
  using assms by (auto simp: as_CreateTicket_def typed_value_def split: option.splits intro!: typed_store_put)

lemma typed_delete_ticket: "typed_store decT decB G a \<Longrightarrow> typed_store decT decB G (snd (as_DeleteTicket i a))"
  by (simp add: as_DeleteTicket_def typed_store_remove)

lemma typed_backfill_value:
  assumes "G (bf_Id bf) = Some BackfillKind" and "set tids \<subseteq> of_kind G TicketKind"
    and "decB b = Some \<lparr>bi_Backfill = Some bf, bi_TicketIds = tids\<rparr>"
  shows "typed_value decT decB G (bf_Id bf) b"
  using assms by (simp add: typed_value_def)

lemma typed_create_backfill:
  assumes "typed_store decT decB G a" and "G (bf_Id bf) = Some BackfillKind" and "set tids \<subseteq> of_kind G TicketKind"
    and "\<And>bi b. encB bi = Some b \<Longrightarrow> decB b = Some bi"
  shows "typed_store decT decB G (snd (as_CreateBackfill encB dbl bf tids now a))"
  using assms(1,2) typed_backfill_value [OF assms(2,3), of decB _ decT] assms(4)
  by (auto simp: as_CreateBackfill_def typed_store_def split: option.splits)

lemma typed_update_backfill:
  assumes "typed_store decT decB G a" and "G (bf_Id bf) = Some BackfillKind" and "set tids \<subseteq> of_kind G TicketKind"
    and "\<And>bi b. encB bi = Some b \<Longrightarrow> decB b = Some bi"
  shows "typed_store decT decB G (snd (as_UpdateBackfill encB ttl bf tids now a))"
  using assms(1) typed_backfill_value [OF assms(2,3), of decB _ decT] assms(4)
  by (auto simp: as_UpdateBackfill_def split: option.splits sum.splits bool.splits intro!: typed_store_put)

lemma typed_delete_backfill: "typed_store decT decB G a \<Longrightarrow> typed_store decT decB G (snd (as_DeleteBackfill i a))"
  by (auto simp: as_DeleteBackfill_def typed_store_def)

lemma typed_delete_pending: "typed_store decT decB G a \<Longrightarrow> typed_store decT decB G (as_DeletePending ids a)"
  by (auto simp: as_DeletePending_def typed_store_def)

lemma typed_add_pending:
  "typed_store decT decB G a \<Longrightarrow> set ids \<subseteq> of_kind G TicketKind \<Longrightarrow> typed_store decT decB G (as_AddPending dbl ids now a)"
  unfolding typed_store_def as_AddPending_def by (fastforce split: if_splits)

lemma typed_deindex: "typed_store decT decB G a \<Longrightarrow> typed_store decT decB G (as_DeindexBackfill i a)"
  by (auto simp: as_DeindexBackfill_def typed_store_def)

lemma typed_delete_completely: "typed_store decT decB G a \<Longrightarrow> typed_store decT decB G (as_DeleteCompletely decB i a)"
  by (simp add: as_DeleteCompletely_def Let_def typed_delete_backfill typed_delete_pending typed_deindex)

lemma typed_cleanup: "typed_store decT decB G a \<Longrightarrow> typed_store decT decB G (fold (as_DeleteCompletely decB) ids a)"
  by (induction ids arbitrary: a) (simp_all add: typed_delete_completely)

lemma typed_acknowledge: "typed_store decT decB G a \<Longrightarrow> typed_store decT decB G (snd (as_Acknowledge dbl ttl i now now' a))"
  by (auto simp: as_Acknowledge_def as_expired_def typed_store_def split: option.splits sum.splits bool.splits)

lemma typed_store_all:
  "typed_store decT decB G a \<Longrightarrow> (\<And>i b. (i, b) \<in> set xs \<Longrightarrow> typed_value decT decB G i b) \<Longrightarrow>
   typed_store decT decB G (store_all px xs a)"
proof (induction xs arbitrary: a)
  case (Cons x xs)
  obtain i b where x: "x = (i, b)" by (cases x)
  have "store_all px (x # xs) a = store_all px xs (a\<lparr>objs := (objs a)(i \<mapsto> b), ttls := (ttls a)(i \<mapsto> px)\<rparr>)"
    by (simp add: store_all_def x)
  then show ?case using Cons by (simp add: x typed_store_put)
qed (simp add: store_all_def)

lemma typed_ticket:
  "typed_store decT decB G a \<Longrightarrow> G i = Some TicketKind \<Longrightarrow> objs a i = Some b \<Longrightarrow> \<exists>t. decT b = Some t \<and> t_Id t = i"
  by (force simp: typed_defs)

lemma typed_backfill:
  "typed_store decT decB G a \<Longrightarrow> G i = Some BackfillKind \<Longrightarrow> objs a i = Some b \<Longrightarrow>
   \<exists>bf tids. decB b = Some \<lparr>bi_Backfill = Some bf, bi_TicketIds = tids\<rparr> \<and> bf_Id bf = i \<and> set tids \<subseteq> of_kind G TicketKind"
  by (force simp: typed_defs)

lemma typed_update_assignments:
  assumes a: "typed_store decT decB G a" and ids: "set (assign_ids gs) \<subseteq> of_kind G TicketKind"
    and enc: "\<And>t b. encT t = Some b \<Longrightarrow> decT b = Some t"
  shows "typed_store decT decB G (snd (as_UpdateAssignments encT decT px gs a))"
proof (cases "gs = [] \<or> \<not> assign_valid gs \<or> those (map decT (List.map_filter (objs a) (assign_ids gs))) = None")
  case True
  then show ?thesis using a by (auto simp: as_UpdateAssignments_def)
next
  case False
  then obtain ts where ts: "those (map decT (List.map_filter (objs a) (assign_ids gs))) = Some ts" by blast
  show ?thesis
  proof (cases "those (map (encT \<circ> assigned gs) ts)")
    case None
    then show ?thesis using a False ts by (simp add: as_UpdateAssignments_def)
  next
    case (Some bs)
    have "typed_value decT decB G i b" if "(i, b) \<in> set (zip (map t_Id ts) bs)" for i b
    proof -
      from that obtain t where t: "t \<in> set ts" "i = t_Id t" "(t, b) \<in> set (zip ts bs)" by (auto simp: zip_map1 dest: set_zip_leftD)
      have "encT (assigned gs t) = Some b" using Some t(3) by (induction ts arbitrary: bs) (auto split: option.splits)
      moreover obtain j c where "j \<in> set (assign_ids gs)" "objs a j = Some c" "decT c = Some t" using found_ids [OF ts t(1)] by blast
      ultimately show ?thesis using typed_ticket [OF a, of j c] ids enc t(2) by (fastforce simp: typed_value_def assigned_def)
    qed
    then show ?thesis using a False ts Some by (simp add: as_UpdateAssignments_def typed_store_all)
  qed
qed

lemmas typed_ops = typed_create_ticket typed_delete_ticket typed_create_backfill typed_update_backfill typed_delete_backfill
  typed_delete_pending typed_deindex typed_delete_completely typed_cleanup typed_acknowledge typed_update_assignments

lemma generation_atoi: "\<exists>y. atoi (itoa (sint (g :: 64 word))) = Some y"
  by (subst atoi_itoa) (use sint_range_size [of g] in \<open>simp_all add: int64_range_def word_size\<close>)

section \<open>Preservation and the results of reads\<close>

context statestore
begin

abbreviation typed :: "typing \<Rightarrow> 's \<Rightarrow> bool" where
  "typed G s \<equiv> good s \<and> typed_store decT decB G (store s)"

lemma typed_meets:
  assumes "meets good store clock f P" and "typed G s"
    and "\<And>now now' r a'. P now now' (store s) r a' \<Longrightarrow> typed_store decT decB G a'"
  shows "typed G (snd (f s))"
  using assms unfolding meets_def meets_at_def by blast

lemma typed_meets_at:
  assumes "meets_at good store clock f P s" and "typed G s"
    and "\<And>now now' r a'. P now now' (store s) r a' \<Longrightarrow> typed_store decT decB G a'"
  shows "typed G (snd (f s))"
  using assms unfolding meets_at_def by blast

lemma ticket_calls_typed:
  assumes ty: "typed G s" and G: "dom G \<inter> reserved = {}"
  shows "G (t_Id t) = Some TicketKind \<Longrightarrow> typed G (snd (CreateTicket S t s))"
    "G i = Some TicketKind \<Longrightarrow> typed G (snd (DeleteTicket S i s))"
    "G (t_Id t) = Some TicketKind \<Longrightarrow> typed G (snd (IndexTicket S t s))"
    "typed G (snd (DeindexTicket S j s))"
    "set ids \<subseteq> of_kind G TicketKind \<Longrightarrow> typed G (snd (AddTicketsToPendingRelease S ids s))"
    "typed G (snd (DeleteTicketsFromPendingRelease S js s))"
    "typed G (snd (ReleaseAllTickets S s))"
proof -
  have st: "typed_store decT decB G (store s)" using ty ..
  have res: "k \<notin> reserved" if "G k = Some c" for k c using G that by blast
  show "typed G (snd (CreateTicket S t s))" if t: "G (t_Id t) = Some TicketKind"
    by (rule typed_meets [OF create_ticket [OF res [OF t]] ty]) (metis typed_create_ticket [OF st t codecT] snd_conv)
  show "typed G (snd (DeleteTicket S i s))" if i: "G i = Some TicketKind"
    by (rule typed_meets [OF delete_ticket [OF res [OF i]] ty]) (metis typed_delete_ticket [OF st] snd_conv)
  show "typed G (snd (IndexTicket S t s))" if "G (t_Id t) = Some TicketKind"
    by (rule typed_meets [OF index_ticket ty]) (use st that in \<open>simp add: typed_store_def\<close>)
  show "typed G (snd (DeindexTicket S j s))"
    by (rule typed_meets [OF deindex_ticket ty]) (use st in \<open>auto simp: typed_store_def\<close>)
  show "typed G (snd (AddTicketsToPendingRelease S ids s))" if "set ids \<subseteq> of_kind G TicketKind"
    by (rule typed_meets [OF add_pending ty]) (simp add: typed_add_pending st that)
  show "typed G (snd (DeleteTicketsFromPendingRelease S js s))"
    by (rule typed_meets [OF delete_pending ty]) (simp add: typed_delete_pending st)
  show "typed G (snd (ReleaseAllTickets S s))"
    by (rule typed_meets [OF release_all ty]) (use st in \<open>simp add: typed_store_def\<close>)
qed

lemma assignments_typed:
  assumes ty: "typed G s" and G: "dom G \<inter> reserved = {}" and ids: "set (assign_ids gs) \<subseteq> of_kind G TicketKind"
  shows "typed G (snd (UpdateAssignments S gs s))"
proof -
  have st: "typed_store decT decB G (store s)" using ty ..
  have "tickets_at decT (assign_ids gs) (store s)" using typed_ticket [OF st] ids by (fastforce simp: tickets_at_def)
  moreover have "\<forall>i \<in> set (assign_ids gs). i \<notin> reserved" using ids G by blast
  ultimately have "meets_at good store clock (UpdateAssignments S gs)
      (\<lambda>now now' a ra a'. (ra, a') = as_UpdateAssignments encT decT px gs a) s" using ty by (intro update_assignments) simp_all
  then show ?thesis by (rule typed_meets_at [OF _ ty]) (metis typed_update_assignments [OF st ids codecT] snd_conv)
qed

lemma backfill_calls_typed:
  assumes ty: "typed G s" and G: "dom G \<inter> reserved = {}"
  shows "G (bf_Id bf) = Some BackfillKind \<Longrightarrow> set tids \<subseteq> of_kind G TicketKind \<Longrightarrow> typed G (snd (CreateBackfill S bf tids s))"
    "G (bf_Id bf) = Some BackfillKind \<Longrightarrow> set tids \<subseteq> of_kind G TicketKind \<Longrightarrow> typed G (snd (UpdateBackfill S bf tids s))"
    "G i = Some BackfillKind \<Longrightarrow> typed G (snd (DeleteBackfill S i s))"
    "G i = Some BackfillKind \<Longrightarrow> typed G (snd (DeleteBackfillCompletely S i s))"
    "typed G (snd (CleanupBackfills S s))"
    "typed G (snd (UpdateAcknowledgmentTimestamp S j s))"
    "G (bf_Id bf) = Some BackfillKind \<Longrightarrow> typed G (snd (IndexBackfill S bf s))"
    "typed G (snd (DeindexBackfill S j s))"
proof -
  have st: "typed_store decT decB G (store s)" using ty ..
  have res: "k \<notin> reserved" if "G k = Some c" for k c using G that by blast
  show "typed G (snd (CreateBackfill S bf tids s))" if b: "G (bf_Id bf) = Some BackfillKind" and t: "set tids \<subseteq> of_kind G TicketKind"
    by (rule typed_meets [OF create_backfill [OF res [OF b]] ty]) (metis typed_create_backfill [OF st b t codecB] snd_conv)
  show "typed G (snd (UpdateBackfill S bf tids s))" if b: "G (bf_Id bf) = Some BackfillKind" and t: "set tids \<subseteq> of_kind G TicketKind"
    by (rule typed_meets [OF update_backfill [OF res [OF b]] ty]) (metis typed_update_backfill [OF st b t codecB] snd_conv)
  show "typed G (snd (DeleteBackfill S i s))" if i: "G i = Some BackfillKind"
    by (rule typed_meets [OF delete_backfill [OF res [OF i]] ty]) (metis typed_delete_backfill [OF st] snd_conv)
  show "typed G (snd (DeleteBackfillCompletely S i s))" if i: "G i = Some BackfillKind"
    by (rule typed_meets [OF delete_completely [OF res [OF i]] ty]) (simp add: typed_delete_completely st)
  have "dom (acks (store s)) \<inter> reserved = {}" using st res by (auto simp: typed_store_def)
  with ty show "typed G (snd (CleanupBackfills S s))"
    by (intro typed_meets_at [OF cleanup ty]) (auto simp: typed_cleanup)
  show "typed G (snd (UpdateAcknowledgmentTimestamp S j s))"
    by (rule typed_meets [OF acknowledge ty]) (metis typed_acknowledge [OF st] snd_conv)
  show "typed G (snd (IndexBackfill S bf s))" if "G (bf_Id bf) = Some BackfillKind"
    by (rule typed_meets [OF index_backfill ty])
      (use st that in \<open>auto simp: typed_store_def as_IndexBackfill_def generation_atoi split: if_splits\<close>)
  show "typed G (snd (DeindexBackfill S j s))"
    by (rule typed_meets [OF deindex_backfill ty]) (simp add: typed_deindex st)
qed

lemma read_calls_typed:
  assumes ty: "typed G s" and G: "dom G \<inter> reserved = {}"
  shows "G i = Some c \<Longrightarrow> typed G (snd (GetTicket S i s))" "G i = Some c \<Longrightarrow> typed G (snd (GetBackfill S i s))"
    "typed G (snd (GetIndexedIDSet S s))" "typed G (snd (GetTickets S ids s))" "typed G (snd (GetBackfills S ids s))"
    "typed G (snd (MutexLock S j s))" "typed G (snd (MutexUnlock S j s))"
    "typed G (snd (GetExpiredBackfillIDs S s))" "typed G (snd (GetIndexedBackfills S s))"
proof -
  have res: "k \<notin> reserved" if "G k = Some c" for k c using G that by blast
  show "typed G (snd (GetTicket S i s))" if "G i = Some c" by (rule typed_meets [OF get_ticket [OF res [OF that]] ty]) (simp add: ty)
  show "typed G (snd (GetBackfill S i s))" if "G i = Some c" by (rule typed_meets [OF get_backfill [OF res [OF that]] ty]) (simp add: ty)
qed (rule typed_meets [OF get_indexed ty] typed_meets [OF get_tickets ty] typed_meets [OF get_backfills ty]
    typed_meets [OF mutex_lock ty] typed_meets [OF mutex_unlock ty] typed_meets [OF get_expired ty]
    typed_meets [OF get_indexed_backfills ty]; simp add: ty)+

lemma call_typed: "store_call S G s s' \<Longrightarrow> dom G \<inter> reserved = {} \<Longrightarrow> typed G s \<Longrightarrow> typed G s'"
  by (induction rule: store_call.induct)
    (rule ticket_calls_typed assignments_typed backfill_calls_typed read_calls_typed; assumption)+

lemma calls_typed:
  "(store_call S G)\<^sup>*\<^sup>* s s' \<Longrightarrow> dom G \<inter> reserved = {} \<Longrightarrow> typed G s \<Longrightarrow> typed G s'"
  by (induction rule: rtranclp_induct) (use call_typed in blast)+

lemma read_ticket_typed:
  assumes "typed G s" and "dom G \<inter> reserved = {}" and "G i = Some TicketKind"
  shows "fst (GetTicket S i s) = Inl (Status NotFound) \<or> (\<exists>t. fst (GetTicket S i s) = Inr t \<and> t_Id t = i)"
proof -
  have "i \<notin> reserved" using assms(2,3) by blast
  then obtain r s' where "GetTicket S i s = (r, s')" "r = as_GetTicket decT i (store s)"
    using meetsE [OF get_ticket, of i s] assms(1) by metis
  then show ?thesis using typed_ticket [of decT decB G "store s" i] assms(1,3) by (fastforce simp: as_GetTicket_def split: option.splits)
qed

lemma read_tickets_typed:
  assumes "typed G s" and "set ids \<subseteq> of_kind G TicketKind"
  shows "\<exists>ts. fst (GetTickets S ids s) = Inr ts \<and> t_Id ` set ts \<subseteq> set ids"
proof -
  obtain r s' where r: "GetTickets S ids s = (r, s')" "r = as_GetTickets decT ids (store s)"
    using meetsE [OF get_tickets, of s ids] assms(1) by metis
  have dec: "\<exists>t. decT b = Some t \<and> t_Id t = i" if "i \<in> set ids" "objs (store s) i = Some b" for i b
    using typed_ticket [of decT decB G "store s" i b] assms that by blast
  then obtain ts where ts: "those (map decT (List.map_filter (objs (store s)) ids)) = Some ts"
    using found_all [of ids "objs (store s)" decT] by fastforce
  then have "t_Id ` set ts \<subseteq> set ids" using found_ids [OF ts] dec by fastforce
  with r ts show ?thesis by (simp add: as_GetTickets_def)
qed

lemma read_backfill_typed:
  assumes "typed G s" and "dom G \<inter> reserved = {}" and "G i = Some BackfillKind"
  shows "fst (GetBackfill S i s) = Inl (Status NotFound) \<or>
    (\<exists>bf tids. fst (GetBackfill S i s) = Inr (Some bf, tids) \<and> bf_Id bf = i \<and> set tids \<subseteq> of_kind G TicketKind)"
proof -
  have "i \<notin> reserved" using assms(2,3) by blast
  then obtain r s' where "GetBackfill S i s = (r, s')" "r = as_GetBackfill decB i (store s)"
    using meetsE [OF get_backfill, of i s] assms(1) by metis
  then show ?thesis using typed_backfill [of decT decB G "store s" i] assms(1,3) by (fastforce simp: as_GetBackfill_def split: option.splits)
qed

lemma read_index_typed:
  assumes "typed G s"
  shows "\<exists>ids. fst (GetIndexedIDSet S s) = Inr ids \<and> ids \<subseteq> of_kind G TicketKind"
    and "\<exists>m. fst (GetIndexedBackfills S s) = Inr m \<and> dom m \<subseteq> of_kind G BackfillKind"
proof -
  show "\<exists>ids. fst (GetIndexedIDSet S s) = Inr ids \<and> ids \<subseteq> of_kind G TicketKind"
  proof -
    obtain now r s' where "GetIndexedIDSet S s = (r, s')" "r = Inr (as_GetIndexedIDSet dbl pttl now (store s))"
      using meetsE [OF get_indexed, of s] assms by metis
    moreover have "tindex (store s) \<subseteq> of_kind G TicketKind" using assms by (simp add: typed_store_def)
    ultimately show ?thesis by (auto simp: as_GetIndexedIDSet_def)
  qed
  show "\<exists>m. fst (GetIndexedBackfills S s) = Inr m \<and> dom m \<subseteq> of_kind G BackfillKind"
  proof -
    obtain now r s' where "GetIndexedBackfills S s = (r, s')" "r = as_GetIndexedBackfills dbl bttl now (store s)"
      using meetsE [OF get_indexed_backfills, of s] assms by metis
    moreover have "G i = Some BackfillKind \<and> atoi g \<noteq> None" if "bindex (store s) i = Some g" for i g
      using assms that by (simp add: typed_store_def)
    ultimately show ?thesis by (fastforce simp: as_GetIndexedBackfills_def Let_def split: if_splits bind_splits)
  qed
qed

end

lemma calls_from_empty:
  assumes "redis_backend E view pend dbl sched" and "S = New sched cfg E" and "dom G \<inter> reserved = {}"
    and "view s0 = Map.empty" and "(store_call S G)\<^sup>*\<^sup>* s0 s"
  shows "wf_keys (view s) \<and> typed_store (UnmarshalTicket E) (UnmarshalBackfill E) G (astore_of (view s))"
proof -
  have "typed_store (UnmarshalTicket E) (UnmarshalBackfill E) G (astore_of (view s0))"
    by (simp add: assms(4) typed_store_def astore_of_def str_of_def set_of_def zset_of_def hash_of_def)
  then show ?thesis
    using statestore.calls_typed [OF redis_backend.backend_contract [OF assms(1,2)] assms(5,3)] by (simp add: assms(4))
qed

text \<open>
  C5: Well-typed use of the store. Give every id a kind, ticket or backfill. In every sequence of calls whose
  ids have the kinds that the operations expect, from the empty store, Redis keeps its keys of the
  right Redis type, values are stored under ids of their kind and carry their own id, and the indices hold
  ids of one kind. Hence a read of a ticket or a backfill gives a value with the id asked for or
  \<open>NotFound\<close>, and the reads of several tickets and of the two indices never fail.
\<close>

theorem store_well_typed:
  assumes be: "redis_backend E view pend dbl sched" and S: "S = New sched cfg E" and G: "dom G \<inter> reserved = {}"
    and s0: "view s0 = Map.empty" and run: "(store_call S G)\<^sup>*\<^sup>* s0 s"
  shows "wf_keys (view s) \<and> typed_store (UnmarshalTicket E) (UnmarshalBackfill E) G (astore_of (view s)) \<and>
    (\<forall>i. G i = Some TicketKind \<longrightarrow>
      fst (GetTicket S i s) = Inl (Status NotFound) \<or> (\<exists>t. fst (GetTicket S i s) = Inr t \<and> t_Id t = i)) \<and>
    (\<forall>i. G i = Some BackfillKind \<longrightarrow> fst (GetBackfill S i s) = Inl (Status NotFound) \<or>
      (\<exists>bf tids. fst (GetBackfill S i s) = Inr (Some bf, tids) \<and> bf_Id bf = i \<and> set tids \<subseteq> of_kind G TicketKind)) \<and>
    (\<forall>ids. set ids \<subseteq> of_kind G TicketKind \<longrightarrow> (\<exists>ts. fst (GetTickets S ids s) = Inr ts \<and> t_Id ` set ts \<subseteq> set ids)) \<and>
    (\<exists>js. fst (GetIndexedIDSet S s) = Inr js \<and> js \<subseteq> of_kind G TicketKind) \<and>
    (\<exists>m. fst (GetIndexedBackfills S s) = Inr m \<and> dom m \<subseteq> of_kind G BackfillKind)"
proof -
  note contract = redis_backend.backend_contract [OF be S]
  note ty = calls_from_empty [OF assms]
  show ?thesis
    by (intro conjI allI impI conjunct1 [OF ty] conjunct2 [OF ty] statestore.read_ticket_typed [OF contract ty G]
        statestore.read_backfill_typed [OF contract ty G] statestore.read_tickets_typed [OF contract ty]
        statestore.read_index_typed [OF contract ty])
qed

text \<open>On the reference Redis: a ticket is created and indexed, a backfill for it is created and indexed.\<close>

abbreviation sample_typing :: typing where
  "sample_typing \<equiv> [''a'' \<mapsto> TicketKind, ''b'' \<mapsto> BackfillKind]"

abbreviation sample_service :: "(rstate, unit) service" where
  "sample_service \<equiv> New rev ref_cfg ref_ok_env"

theorem store_well_typed_witness:
  "\<exists>s1 s2. store_call sample_service sample_typing ref_init s1 \<and> store_call sample_service sample_typing s1 s2 \<and>
     s1 = snd (CreateTicket sample_service ticket_a ref_init) \<and>
     typed_store (UnmarshalTicket ref_ok_env) (UnmarshalBackfill ref_ok_env) sample_typing (astore_of (lview (rs_data s2))) \<and>
     (fst (GetTicket sample_service ''a'' s2) = Inl (Status NotFound) \<or>
       (\<exists>t. fst (GetTicket sample_service ''a'' s2) = Inr t \<and> t_Id t = ''a''))"
proof -
  let ?S = sample_service and ?G = sample_typing
  let ?s1 = "snd (CreateTicket ?S ticket_a ref_init)"
  let ?s2 = "snd (CreateBackfill ?S backfill_b [''a''] ?s1)"
  have 1: "store_call ?S ?G ref_init ?s1" by (rule call_create_ticket) simp
  have 2: "store_call ?S ?G ?s1 ?s2" by (rule call_create_backfill) simp_all
  from 1 2 have run: "(store_call ?S ?G)\<^sup>*\<^sup>* ref_init ?s2" by (meson rtranclp.intros)
  have "dom ?G \<inter> reserved = {}" by auto
  note typed = store_well_typed [OF ref_ok.redis_backend_axioms refl this ref_init_wf(2) run]
  show ?thesis using 1 2 typed by (intro exI [of _ ?s1] exI [of _ ?s2] conjI) simp_all
qed

end
