(* ===== verification/Tutorials.thy ===== *)
theory Tutorials
  imports Team_Shooter Backend Store_Typing
begin

text \<open>
  The tutorials (\<open>tutorials\<close>): the match functions with a fixed number of tickets per pool, the custom
  evaluator, the profiles and tickets, the director that fetches matches and assigns servers, and the
  frontend that deletes assigned tickets. They are shown to work together with the services: what the
  director assigns through the backend, the frontend of the tutorial finds and deletes.
\<close>

section \<open>Match functions\<close>

text \<open>
  One pass over the map of pools, which takes \<open>k\<close> tickets of every pool until one has too few. The list is the
  map in the order in which this pass goes through it.
\<close>

type_synonym pools = "(string \<times> ticket list) list"

fun drain :: "nat \<Rightarrow> pools \<Rightarrow> ticket list \<Rightarrow> bool \<times> pools \<times> ticket list" where
  "drain k [] matchTickets = (False, [], matchTickets)"
| "drain k ((pool, tickets) # rest) matchTickets =
    (if length tickets < k then (True, (pool, tickets) # rest, matchTickets)
     else (case drain k rest (matchTickets @ take k tickets) of
             (insufficientTickets, rest', mt) \<Rightarrow> (insufficientTickets, (pool, drop k tickets) # rest', mt)))"

text \<open>
  The loop of \<open>makeMatches\<close>, which need not end: \<open>ord n\<close> is the order of the \<open>n\<close>-th pass, \<open>mk n\<close> makes the \<open>n\<close>-th
  match of its tickets.
\<close>

partial_function (option) make_loop ::
  "(nat \<Rightarrow> pools \<Rightarrow> pools) \<Rightarrow> nat \<Rightarrow> (nat \<Rightarrow> ticket list \<Rightarrow> match res) \<Rightarrow> nat \<Rightarrow> pools \<Rightarrow> match list \<Rightarrow> match list res option" where
  "make_loop ord k mk num poolTickets matches =
    (case drain k (ord num poolTickets) [] of
       (insufficientTickets, poolTickets', matchTickets) \<Rightarrow>
         if insufficientTickets then Some (Inr matches)
         else (case mk num matchTickets of
                 Inl e \<Rightarrow> Some (Inl e)
               | Inr m \<Rightarrow> make_loop ord k mk (num + 1) poolTickets' (matches @ [m])))"

definition plain_match :: "string \<Rightarrow> string \<Rightarrow> string \<Rightarrow> ticket list \<Rightarrow> match" where
  "plain_match matchId profile matchName tickets =
    empty_match\<lparr>m_MatchId := matchId, m_MatchProfile := profile, m_MatchFunction := matchName, m_Tickets := tickets\<rparr>"

text \<open>\<open>matchmaker101/solution\<close>: four tickets of each pool, ids from \<open>xid\<close>.\<close>

definition mm101_makeMatches :: "(nat \<Rightarrow> string) \<Rightarrow> (nat \<Rightarrow> pools \<Rightarrow> pools) \<Rightarrow> match_profile \<Rightarrow> pools \<Rightarrow> match list res option" where
  "mm101_makeMatches newID ord p poolTickets =
    make_loop ord 4 (\<lambda>n mt. Inr (plain_match (''profile-'' @ mp_Name p @ ''-'' @ newID n) (mp_Name p) ''basic-matchfunction'' mt)) 0 poolTickets []"

text \<open>\<open>matchmaker102/solution\<close>: one ticket of each pool, ids from the time and a count.\<close>

definition mm102_makeMatches :: "mmf_env \<Rightarrow> (nat \<Rightarrow> pools \<Rightarrow> pools) \<Rightarrow> match_profile \<Rightarrow> pools \<Rightarrow> match list res option" where
  "mm102_makeMatches env ord p poolTickets =
    make_loop ord 1 (\<lambda>n mt. Inr (plain_match (scenario_match_id (mp_Name p) (formatted_now env n) n) (mp_Name p) ''multipool-matchfunction'' mt))
      0 poolTickets []"

text \<open>\<open>custom_evaluator\<close>: as before, with four tickets of each pool.\<close>

definition ce_makeMatches :: "mmf_env \<Rightarrow> (nat \<Rightarrow> pools \<Rightarrow> pools) \<Rightarrow> match_profile \<Rightarrow> pools \<Rightarrow> match list res option" where
  "ce_makeMatches env ord p poolTickets =
    make_loop ord 4 (\<lambda>n mt. Inr (plain_match (scenario_match_id (mp_Name p) (formatted_now env n) n) (mp_Name p) ''basic-matchfunction'' mt))
      0 poolTickets []"

text \<open>
  \<open>default_evaluator/solution\<close>: with the sum of the waiting times as the score. \<open>now n\<close> is the time of the \<open>n\<close>-th
  match in nanoseconds as a double; getters of a missing message return zero values.
\<close>

definition enter_time :: "ticket \<Rightarrow> f64" where
  "enter_time t =
    (case t_SearchFields t of
       None \<Rightarrow> Fin 0
     | Some s \<Rightarrow> (case DoubleArgs s ''time.enterqueue'' of None \<Rightarrow> Fin 0 | Some v \<Rightarrow> v))"

definition scoreCalculator :: "f64 \<Rightarrow> ticket list \<Rightarrow> f64" where
  "scoreCalculator now tickets = foldl (\<lambda>matchScore t. f64_add matchScore (f64_sub now (enter_time t))) (Fin 0) tickets"

definition de_makeMatches :: "mmf_env \<Rightarrow> (f64 \<Rightarrow> any_msg res) \<Rightarrow> (nat \<Rightarrow> f64) \<Rightarrow> (nat \<Rightarrow> pools \<Rightarrow> pools) \<Rightarrow> match_profile \<Rightarrow>
    pools \<Rightarrow> match list res option" where
  "de_makeMatches env marshal now ord p poolTickets =
    make_loop ord 4 (\<lambda>n mt.
      case marshal (scoreCalculator (now n) mt) of
        Inl e \<Rightarrow> Inl (Wrapped e)
      | Inr evaluationInput \<Rightarrow>
          Inr ((plain_match (scenario_match_id (mp_Name p) (formatted_now env n) n) (mp_Name p) ''basic-matchfunction'' mt)
            \<lparr>m_Extensions := [''evaluation_input'' \<mapsto> evaluationInput]\<rparr>)) 0 poolTickets []"

text \<open>\<open>Run\<close>, the same in all of them: query the pools, make the matches, send them.\<close>

definition tut_Run :: "(match_profile \<Rightarrow> pools \<Rightarrow> match list res option) \<Rightarrow> (pool \<Rightarrow> ticket page_event list res) \<Rightarrow>
    ((string \<rightharpoonup> ticket list) \<Rightarrow> pools) \<Rightarrow> (nat \<Rightarrow> bool) \<Rightarrow> match_profile \<Rightarrow> pools_event list \<Rightarrow> (unit res \<times> match list) option" where
  "tut_Run makeMatches client entries sendFails profile evs =
    (case QueryPools client (mp_Pools profile) evs of
       None \<Rightarrow> None
     | Some (Inl e) \<Rightarrow> Some (Inl e, [])
     | Some (Inr poolTickets) \<Rightarrow>
         (case makeMatches profile (entries poolTickets) of
            None \<Rightarrow> None
          | Some (Inl e) \<Rightarrow> Some (Inl e, [])
          | Some (Inr proposals) \<Rightarrow> Some (send_proposals sendFails proposals [])))"

section \<open>Custom evaluator\<close>

text \<open>\<open>custom_evaluator/solution/evaluator\<close>: a match waits as long as the longest waiting of its tickets.\<close>

record matchEval =
  me_match :: match
  maxWait :: f64

fun max_wait :: "f64 \<Rightarrow> ticket list \<Rightarrow> f64 \<Rightarrow> f64" where
  "max_wait now [] w = w"
| "max_wait now (t # ts) w =
    (let qt = f64_sub now (enter_time t) in max_wait now ts (if f64_less w qt then qt else w))"

definition byMaxWait_Less :: "matchEval \<Rightarrow> matchEval \<Rightarrow> bool" where
  "byMaxWait_Less a b = f64_less (maxWait b) (maxWait a)"

text \<open>The decollider: the ids of accepted matches, and the match that uses a ticket.\<close>

record ce_decollider =
  ce_resultIDs :: "string list"
  ce_ticketsUsed :: "string \<rightharpoonup> string \<times> f64"

fun ce_taken :: "(string \<rightharpoonup> string \<times> f64) \<Rightarrow> ticket list \<Rightarrow> bool" where
  "ce_taken used [] = False"
| "ce_taken used (t # ts) = (used (t_Id t) \<noteq> None \<or> ce_taken used ts)"

definition ce_maybeAdd :: "matchEval \<Rightarrow> ce_decollider \<Rightarrow> ce_decollider" where
  "ce_maybeAdd m d =
    (if ce_taken (ce_ticketsUsed d) (m_Tickets (me_match m)) then d
     else d\<lparr>ce_ticketsUsed := fold (\<lambda>t u. u(t_Id t \<mapsto> (m_MatchId (me_match m), maxWait m))) (m_Tickets (me_match m)) (ce_ticketsUsed d),
            ce_resultIDs := ce_resultIDs d @ [m_MatchId (me_match m)]\<rparr>)"

definition ce_evaluate :: "((matchEval \<Rightarrow> matchEval \<Rightarrow> bool) \<Rightarrow> matchEval list \<Rightarrow> matchEval list) \<Rightarrow> f64 \<Rightarrow> match list \<Rightarrow> string list" where
  "ce_evaluate srt now proposals =
    (let matches = map (\<lambda>m. \<lparr>me_match = m, maxWait = max_wait now (m_Tickets m) (Fin 0)\<rparr>) proposals
     in ce_resultIDs (fold ce_maybeAdd (srt byMaxWait_Less matches) \<lparr>ce_resultIDs = [], ce_ticketsUsed = Map.empty\<rparr>))"

text \<open>\<open>Evaluate\<close> of the server: a missing match is read through getters, as an empty one; here errors are passed on as they are.\<close>

fun ce_recv :: "match list \<Rightarrow> scale_event list \<Rightarrow> match list res option" where
  "ce_recv proposals [] = None"
| "ce_recv proposals (EvalEOF # evs) = Some (Inr proposals)"
| "ce_recv proposals (EvalErr e # evs) = Some (Inl e)"
| "ce_recv proposals (EvalReq m # evs) = ce_recv (proposals @ [case m of None \<Rightarrow> empty_match | Some m \<Rightarrow> m]) evs"

fun ce_send :: "(nat \<Rightarrow> bool) \<Rightarrow> string list \<Rightarrow> string list \<Rightarrow> unit res \<times> string list" where
  "ce_send sendFails [] out = (Inr (), out)"
| "ce_send sendFails (result # results) out =
    (if sendFails (length out) then (Inl (StreamErr 0), out) else ce_send sendFails results (out @ [result]))"

definition ce_Evaluate :: "((matchEval \<Rightarrow> matchEval \<Rightarrow> bool) \<Rightarrow> matchEval list \<Rightarrow> matchEval list) \<Rightarrow> f64 \<Rightarrow> (nat \<Rightarrow> bool) \<Rightarrow>
    scale_event list \<Rightarrow> (unit res \<times> string list) option" where
  "ce_Evaluate srt now sendFails evs =
    (case ce_recv [] evs of
       None \<Rightarrow> None
     | Some (Inl e) \<Rightarrow> Some (Inl e, [])
     | Some (Inr proposals) \<Rightarrow> Some (ce_send sendFails (ce_evaluate srt now proposals) []))"

section \<open>Profiles and tickets\<close>

abbreviation tut_modes :: "string list" where
  "tut_modes \<equiv> [''mode.demo'', ''mode.ctf'', ''mode.battleroyale'']"

abbreviation tut_roles :: "string list" where
  "tut_roles \<equiv> [''role.dps'', ''role.support'', ''role.tank'']"

definition mode_pool :: "string \<Rightarrow> string \<Rightarrow> pool" where
  "mode_pool name mode = empty_pool\<lparr>p_Name := name, p_TagPresentFilters := [\<lparr>tpf_Tag = mode\<rparr>]\<rparr>"

text \<open>\<open>generateProfiles\<close> of \<open>matchmaker101/solution\<close>, of the tutorials that start from it, and of \<open>matchmaker102/solution\<close>.\<close>

definition mm101_generateProfiles :: "match_profile list" where
  "mm101_generateProfiles = map (\<lambda>mode. \<lparr>mp_Name = ''mode_based_profile_'' @ mode, mp_Pools = [mode_pool (''pool_mode_'' @ mode) mode],
     mp_Extensions = Map.empty\<rparr>) tut_modes"

definition ce_generateProfiles :: "match_profile list" where
  "ce_generateProfiles = map (\<lambda>mode. \<lparr>mp_Name = ''mode_based_profile'', mp_Pools = [mode_pool (''pool_mode_'' @ mode) mode],
     mp_Extensions = Map.empty\<rparr>) tut_modes"

definition role_pool :: "string \<Rightarrow> string \<Rightarrow> pool" where
  "role_pool mode role = (mode_pool (''pool_'' @ mode @ ''_'' @ role) mode)
     \<lparr>p_StringEqualsFilters := [\<lparr>sef_StringArg = ''attributes.role'', sef_Value = role\<rparr>]\<rparr>"

definition mm102_generateProfiles :: "match_profile list" where
  "mm102_generateProfiles = map (\<lambda>mode. \<lparr>mp_Name = ''profile_'' @ mode, mp_Pools = map (role_pool mode) tut_roles,
     mp_Extensions = Map.empty\<rparr>) tut_modes"

text \<open>\<open>makeTicket\<close>: \<open>intn k n\<close> is the \<open>k\<close>-th draw below \<open>n\<close>.\<close>

definition mm101_makeTicket :: "(nat \<Rightarrow> nat \<Rightarrow> nat) \<Rightarrow> ticket" where
  "mm101_makeTicket intn = empty_ticket\<lparr>t_SearchFields := Some (emptySearchFields\<lparr>Tags := [tut_modes ! intn 0 3]\<rparr>)\<rparr>"

definition mm102_makeTicket :: "(nat \<Rightarrow> nat \<Rightarrow> nat) \<Rightarrow> ticket" where
  "mm102_makeTicket intn = empty_ticket\<lparr>t_SearchFields := Some (emptySearchFields\<lparr>Tags := [tut_modes ! intn 0 3],
     StringArgs := [''attributes.role'' \<mapsto> tut_roles ! intn 1 3]\<rparr>)\<rparr>"

text \<open>\<open>custom_evaluator\<close>: one or two modes out of four, as the keys of a map that \<open>iter\<close> enumerates, and the time of entry.\<close>

definition ce_gameModes :: "(nat \<Rightarrow> nat \<Rightarrow> nat) \<Rightarrow> (string set \<Rightarrow> string list) \<Rightarrow> string list" where
  "ce_gameModes intn iter =
    (let modes = tut_modes @ [''mode.2v2''];
         n = intn 0 2 + 1
     in iter ((\<lambda>i. modes ! intn (Suc i) 4) ` {..<n}))"

definition enterQueueTime :: "nat \<Rightarrow> int \<Rightarrow> f64" where
  "enterQueueTime d now = f64_round (of_int (now - int d * Second))"

definition ce_makeTicket :: "(nat \<Rightarrow> nat \<Rightarrow> nat) \<Rightarrow> (string set \<Rightarrow> string list) \<Rightarrow> int \<Rightarrow> ticket" where
  "ce_makeTicket intn iter now = empty_ticket\<lparr>t_SearchFields := Some (emptySearchFields\<lparr>Tags := ce_gameModes intn iter,
     DoubleArgs := [''time.enterqueue'' \<mapsto> enterQueueTime (intn (intn 0 2 + 2) 5) now]\<rparr>)\<rparr>"

section \<open>Director and frontend\<close>

text \<open>\<open>fetch\<close>: the events of the stream of matches.\<close>

datatype fetch_recv = FetchResp match | FetchEOF | FetchErr go_error

fun tut_fetch_loop :: "fetch_recv list \<Rightarrow> match list \<Rightarrow> match list res option" where
  "tut_fetch_loop [] result = None"
| "tut_fetch_loop (FetchEOF # evs) result = Some (Inr result)"
| "tut_fetch_loop (FetchErr e # evs) result = Some (Inl e)"
| "tut_fetch_loop (FetchResp m # evs) result = tut_fetch_loop evs (result @ [m])"

definition tut_fetch :: "(match_profile \<Rightarrow> fetch_recv list res) \<Rightarrow> match_profile \<Rightarrow> match list res option" where
  "tut_fetch client p = (case client p of Inl e \<Rightarrow> Some (Inl e) | Inr evs \<Rightarrow> tut_fetch_loop evs [])"

text \<open>
  \<open>assign\<close>: for every match a random address, and a request with one group. The backend is a function on its
  state; \<open>addr n\<close> is the address drawn for the \<open>n\<close>-th match.
\<close>

definition assign_request :: "string \<Rightarrow> match \<Rightarrow> assignment_group list" where
  "assign_request conn m = [\<lparr>ag_TicketIds = map t_Id (m_Tickets m), ag_Assignment = Some \<lparr>a_Connection = conn, a_Extensions = Map.empty\<rparr>\<rparr>]"

fun tut_assign :: "(assignment_group list \<Rightarrow> 's \<Rightarrow> assign_response res \<times> 's) \<Rightarrow> (nat \<Rightarrow> string) \<Rightarrow> nat \<Rightarrow> match list \<Rightarrow> 's \<Rightarrow> unit res \<times> 's" where
  "tut_assign AssignTickets addr n [] s = (Inr (), s)"
| "tut_assign AssignTickets addr n (m # ms) s =
    (case AssignTickets (assign_request (addr n) m) s of
       (Inl e, s') \<Rightarrow> (Inl (Wrapped e), s')
     | (Inr _, s') \<Rightarrow> tut_assign AssignTickets addr (n + 1) ms s')"

text \<open>
  \<open>deleteOnAssign\<close>: polls until the ticket has an assignment, then deletes it; an error ends the process.
  \<open>other n\<close> is what everyone else does during the \<open>n\<close>-th sleep.
\<close>

datatype poll_result = ProcessExit go_error | Deleted

partial_function (option) deleteOnAssign ::
  "(string \<Rightarrow> 's \<Rightarrow> ticket res \<times> 's) \<Rightarrow> (string \<Rightarrow> 's \<Rightarrow> unit res \<times> 's) \<Rightarrow> (nat \<Rightarrow> 's \<Rightarrow> 's) \<Rightarrow> nat \<Rightarrow> string \<Rightarrow> 's \<Rightarrow>
   (poll_result \<times> 's) option" where
  "deleteOnAssign getTicket deleteTicket other n i s =
    (case getTicket i s of
       (Inl e, s1) \<Rightarrow> Some (ProcessExit e, s1)
     | (Inr got, s1) \<Rightarrow>
         if t_Assignment got \<noteq> None then
           (case deleteTicket i s1 of
              (Inl e, s2) \<Rightarrow> Some (ProcessExit e, s2)
            | (Inr _, s2) \<Rightarrow> Some (Deleted, s2))
         else deleteOnAssign getTicket deleteTicket other (n + 1) i (other n s1))"

section \<open>What the match functions make\<close>

abbreviation too_few :: "nat \<Rightarrow> pools \<Rightarrow> bool" where
  "too_few k ps \<equiv> (\<exists>e \<in> set ps. length (snd e) < k)"

lemma drain_stops: "too_few k ps \<Longrightarrow> fst (drain k ps mt)"
  by (induction k ps mt rule: drain.induct) (fastforce split: prod.splits)+

lemma drain_all: "\<not> too_few k ps \<Longrightarrow> drain k ps mt = (False, map (apsnd (drop k)) ps, mt @ concat (map (take k \<circ> snd) ps))"
  by (induction k ps mt rule: drain.induct) auto

text \<open>The smallest number of rounds that a pool allows; a permutation of the pools does not change it.\<close>

definition rounds :: "nat \<Rightarrow> pools \<Rightarrow> nat" where
  "rounds k ps = Min ((\<lambda>e. length (snd e) div k) ` set ps)"

definition round_tickets :: "nat \<Rightarrow> nat \<Rightarrow> pools \<Rightarrow> ticket multiset" where
  "round_tickets k i ps = mset (concat (map (\<lambda>e. take k (drop (i * k) (snd e))) ps))"

definition permutes_pools :: "(nat \<Rightarrow> pools \<Rightarrow> pools) \<Rightarrow> bool" where
  "permutes_pools ord \<longleftrightarrow> (\<forall>n ps. mset (ord n ps) = mset ps)"

lemma round_tickets_perm: "mset ps = mset qs \<Longrightarrow> round_tickets k i ps = round_tickets k i qs"
  unfolding round_tickets_def mset_concat by (metis (mono_tags) mset_map sum_mset_sum_list)

lemma rounds_perm: "mset ps = mset qs \<Longrightarrow> rounds k ps = rounds k qs"
  unfolding rounds_def by (metis mset_eq_setD)

lemma round_tickets_drained:
  "round_tickets k i (map (apsnd (drop k)) ps) = round_tickets k (Suc i) ps"
  by (simp add: round_tickets_def comp_def add.commute)

lemma rounds_zero:
  assumes "ps \<noteq> []" and "0 < k"
  shows "rounds k ps = 0 \<longleftrightarrow> too_few k ps"
proof -
  have "rounds k ps = 0 \<longleftrightarrow> 0 \<in> (\<lambda>e. length (snd e) div k) ` set ps"
    unfolding rounds_def by (metis Min_in Min_le assms(1) finite_imageI finite_set image_is_empty le_zero_eq set_empty)
  then show ?thesis using assms(2) by (auto simp: div_eq_0_iff image_iff)
qed

lemma rounds_drained:
  assumes "ps \<noteq> []" and "\<not> too_few k ps" and "0 < k"
  shows "rounds k (map (apsnd (drop k)) ps) = rounds k ps - 1"
proof -
  have "(length (snd e) - k) div k = length (snd e) div k - 1" if "e \<in> set ps" for e
    using assms(2,3) that by (metis diff_add_inverse2 div_add_self2 le_add_diff_inverse2 linorder_not_le neq0_conv)
  then have "(\<lambda>e. length (snd e) div k) ` set (map (apsnd (drop k)) ps) = (\<lambda>n. n - 1) ` (\<lambda>e. length (snd e) div k) ` set ps"
    by (simp add: image_image)
  moreover have "Min ((\<lambda>n. n - 1) ` A) = Min A - 1" if "finite A" "A \<noteq> {}" for A :: "nat set"
    using mono_Min_commute [of "\<lambda>n. n - 1" A] that by (simp add: mono_def diff_le_mono)
  ultimately show ?thesis using assms(1) by (simp add: rounds_def)
qed

text \<open>The loop makes as many matches as the smallest pool allows, the \<open>i\<close>-th of the \<open>i\<close>-th tickets of every pool.\<close>

lemma make_loop_result:
  assumes "permutes_pools ord" and "0 < k" and mk: "\<And>n mt. \<exists>m. mk n mt = Inr m \<and> m_Tickets m = mt" and "ps \<noteq> []"
  shows "\<exists>new. make_loop ord k mk n ps ms = Some (Inr (ms @ new)) \<and> length new = rounds k ps \<and>
    (\<forall>i < length new. mset (m_Tickets (new ! i)) = round_tickets k i ps \<and> mk (n + i) (m_Tickets (new ! i)) = Inr (new ! i))"
  using assms(4)
proof (induction "rounds k ps" arbitrary: ps n ms)
  case (0 ps)
  let ?qs = "ord n ps"
  have perm: "mset ?qs = mset ps" using assms(1) by (simp add: permutes_pools_def)
  have qs: "?qs \<noteq> []" using perm 0(2) by fastforce
  then have "too_few k ?qs" using rounds_zero [OF _ assms(2)] 0(1) rounds_perm [OF perm, of k] by metis
  then have "fst (drain k ?qs [])" by (rule drain_stops)
  then show ?case using 0(1) by (subst make_loop.simps) (auto split: prod.splits)
next
  case (Suc r ps)
  let ?qs = "ord n ps" and ?rs = "map (apsnd (drop k)) (ord n ps)"
  have perm: "mset ?qs = mset ps" using assms(1) by (simp add: permutes_pools_def)
  have qs: "?qs \<noteq> []" using perm Suc.prems by fastforce
  have full: "\<not> too_few k ?qs"
    using rounds_zero [OF qs assms(2)] Suc.hyps(2) rounds_perm [OF perm, of k] by simp
  let ?mt = "concat (map (take k \<circ> snd) ?qs)"
  have d: "drain k ?qs [] = (False, ?rs, ?mt)" using drain_all [OF full] by simp
  obtain m where m: "mk n ?mt = Inr m" "m_Tickets m = ?mt" using mk by blast
  have "r = rounds k ?rs" using rounds_drained [OF qs full assms(2)] rounds_perm [OF perm, of k] Suc.hyps(2) by simp
  from Suc.hyps(1) [OF this, of "n + 1" "ms @ [m]"] qs obtain new where new:
    "make_loop ord k mk (n + 1) ?rs (ms @ [m]) = Some (Inr ((ms @ [m]) @ new))" "length new = rounds k ?rs"
    "\<forall>i < length new. mset (m_Tickets (new ! i)) = round_tickets k i ?rs \<and> mk (n + 1 + i) (m_Tickets (new ! i)) = Inr (new ! i)"
    by auto
  have "mset (m_Tickets m) = round_tickets k 0 ps"
    unfolding m(2) round_tickets_perm [OF perm, symmetric] by (simp add: round_tickets_def comp_def)
  moreover have "round_tickets k i ?rs = round_tickets k (Suc i) ps" for i
    unfolding round_tickets_drained by (rule round_tickets_perm [OF perm])
  ultimately have "\<forall>i < length (m # new). mset (m_Tickets ((m # new) ! i)) = round_tickets k i ps \<and>
      mk (n + i) (m_Tickets ((m # new) ! i)) = Inr ((m # new) ! i)"
    using new(3) m by (auto simp: All_less_Suc2)
  moreover have "length (m # new) = rounds k ps" using new(2) \<open>r = rounds k ?rs\<close> Suc.hyps(2) by simp
  moreover have "make_loop ord k mk n ps ms = Some (Inr (ms @ m # new))"
    using new(1) by (subst make_loop.simps) (simp add: d m(1))
  ultimately show ?case by blast
qed

text \<open>Without a pool the loop makes empty matches for ever.\<close>

lemma make_loop_no_pools:
  "make_loop ord k mk n ps ms = Some r \<Longrightarrow> (\<forall>n. ord n [] = []) \<longrightarrow> (\<forall>n mt. \<exists>m. mk n mt = Inr m) \<longrightarrow> ps \<noteq> []"
proof (erule make_loop.raw_induct [rotated], intro impI notI)
  fix f ord k mk n and ps :: pools and ms r
  assume IH: "\<And>ord k mk n ps ms r. f ord k mk n ps ms = Some r \<Longrightarrow> (\<forall>n. ord n [] = []) \<longrightarrow> (\<forall>n mt. \<exists>m. mk n mt = Inr m) \<longrightarrow> (ps :: pools) \<noteq> []"
    and body: "(case drain k (ord n ps) [] of
       (insufficientTickets, poolTickets', matchTickets) \<Rightarrow>
         if insufficientTickets then Some (Inr ms)
         else (case mk n matchTickets of
                 Inl e \<Rightarrow> Some (Inl e)
               | Inr m \<Rightarrow> f ord k mk (n + 1) poolTickets' (ms @ [m]))) = Some r"
    and ord: "\<forall>n. ord n [] = ([] :: pools)" and mk: "\<forall>n mt. \<exists>m. mk n mt = Inr m" and ps: "ps = []"
  obtain m where "mk n [] = Inr m" using mk by blast
  with body ord ps have "f ord k mk (n + 1) [] (ms @ [m]) = Some r" by simp
  from IH [OF this] ord mk show False by blast
qed

definition makes_rounds :: "nat \<Rightarrow> pools \<Rightarrow> match list res option \<Rightarrow> bool" where
  "makes_rounds k ps r \<longleftrightarrow> (\<exists>ms. r = Some (Inr ms) \<and> length ms = rounds k ps \<and>
     (\<forall>i < length ms. mset (m_Tickets (ms ! i)) = round_tickets k i ps))"

lemma makes_roundsI:
  assumes "permutes_pools ord" and "0 < k" and "\<And>n mt. \<exists>m. mk n mt = Inr m \<and> m_Tickets m = mt" and "ps \<noteq> []"
  shows "makes_rounds k ps (make_loop ord k mk n ps [])"
  using make_loop_result [where n = n and ms = "[]", OF assms] unfolding makes_rounds_def by fastforce

lemma permutes_Nil: "permutes_pools ord \<Longrightarrow> ord n [] = []"
  by (metis mset_zero_iff permutes_pools_def)

lemma make_loop_None:
  "permutes_pools ord \<Longrightarrow> (\<And>n mt. \<exists>m. mk n mt = Inr m \<and> m_Tickets m = mt) \<Longrightarrow> make_loop ord k mk n [] ms = None"
  using make_loop_no_pools [of ord k mk n "[]" ms] permutes_Nil [of ord] by (cases "make_loop ord k mk n [] ms") (simp, metis)

lemma plain_match_sel [simp]: "m_Tickets (plain_match i p f ts) = ts" "m_MatchId (plain_match i p f ts) = i"
  by (simp_all add: plain_match_def)

text \<open>
  The match functions of the tutorials, on a profile with at least one pool, end and make exactly as many
  matches as the smallest pool allows; the \<open>i\<close>-th match has the \<open>i\<close>-th group of tickets of every pool and no other.
  The order in which a pass goes through the pools does not matter. On a profile without pools they do not end.
\<close>

theorem tutorial_matches:
  assumes "permutes_pools ord" and "\<And>v. \<exists>a. marshal v = Inr a"
  shows "if ps = []
    then mm101_makeMatches newID ord p ps = None \<and> mm102_makeMatches env ord p ps = None \<and>
      ce_makeMatches env ord p ps = None \<and> de_makeMatches env marshal now ord p ps = None
    else makes_rounds 4 ps (mm101_makeMatches newID ord p ps) \<and> makes_rounds 1 ps (mm102_makeMatches env ord p ps) \<and>
      makes_rounds 4 ps (ce_makeMatches env ord p ps) \<and> makes_rounds 4 ps (de_makeMatches env marshal now ord p ps)"
proof -
  have de: "\<exists>m. (case marshal (scoreCalculator (now n) mt) of Inl e \<Rightarrow> Inl (Wrapped e)
      | Inr a \<Rightarrow> Inr ((plain_match (i n) q f mt)\<lparr>m_Extensions := [''evaluation_input'' \<mapsto> a]\<rparr>)) = Inr m \<and> m_Tickets m = mt" for n mt i q f
    using assms(2) [of "scoreCalculator (now n) mt"] by auto
  show ?thesis
    unfolding mm101_makeMatches_def mm102_makeMatches_def ce_makeMatches_def de_makeMatches_def
    using assms(1) de by (simp add: makes_roundsI make_loop_None)
qed

section \<open>The evaluator prefers those who wait longest\<close>

lemma max_wait_number: "w \<noteq> NaN \<Longrightarrow> max_wait now ts w \<noteq> NaN"
proof (induction ts arbitrary: w)
  case (Cons t ts)
  have "(if f64_less w x then x else w) \<noteq> NaN" for x using Cons.prems by (cases x) (auto split: if_splits)
  then show ?case using Cons.IH by (simp add: Let_def)
qed simp

definition eval_ids :: "matchEval \<Rightarrow> string set" where
  "eval_ids m = ticket_ids (me_match m)"

lemma ce_taken_iff: "ce_taken used ts \<longleftrightarrow> dom used \<inter> t_Id ` set ts \<noteq> {}"
  by (induction ts) auto

lemma dom_mark: "dom (fold (\<lambda>t u. u(t_Id t \<mapsto> v)) ts u) = dom u \<union> t_Id ` set ts"
  by (induction ts arbitrary: u) auto

lemma ce_fold_first_come:
  "ce_resultIDs d = map (m_MatchId \<circ> me_match) acc \<Longrightarrow> dom (ce_ticketsUsed d) = \<Union> (eval_ids ` set acc) \<Longrightarrow>
   ce_resultIDs (fold ce_maybeAdd ms d) = map (m_MatchId \<circ> me_match) (first_come eval_ids acc ms)"
proof (induction ms arbitrary: d acc)
  case (Cons m ms)
  have "ce_taken (ce_ticketsUsed d) (m_Tickets (me_match m)) \<longleftrightarrow> list_ex (\<lambda>a. eval_ids a \<inter> eval_ids m \<noteq> {}) acc"
    unfolding ce_taken_iff Cons.prems(2) list_ex_iff by (auto simp: eval_ids_def ticket_ids_def)
  moreover have "dom (ce_ticketsUsed (ce_maybeAdd m d)) = \<Union> (eval_ids ` set (acc @ [m]))"
    if "\<not> ce_taken (ce_ticketsUsed d) (m_Tickets (me_match m))"
    using that Cons.prems(2) by (auto simp: ce_maybeAdd_def dom_mark eval_ids_def ticket_ids_def)
  ultimately show ?case
    using Cons.IH [of "ce_maybeAdd m d" "acc @ [m]"] Cons.IH [OF Cons.prems] Cons.prems(1) by (auto simp: ce_maybeAdd_def)
qed simp

lemma ce_recv_requests: "ce_recv acc (requests ms) = Some (Inr (acc @ ms))"
  by (induction ms arbitrary: acc) simp_all

lemma ce_send_ok: "(\<And>k. \<not> sendFails k) \<Longrightarrow> ce_send sendFails results out = (Inr (), out @ results)"
  by (induction results arbitrary: out) simp_all

text \<open>
  The custom evaluator accepts by waiting time: it sends the ids of the matches that the reference keeps of
  the matches sorted by the wait of their longest waiting ticket. No two of them share a ticket, and
  each rejected match shares a ticket with an accepted one that waits at least as long.
\<close>

theorem custom_evaluator_longest_wait:
  assumes "go_sort srt" and "\<And>k. \<not> sendFails k"
  shows "let ms' = map (\<lambda>m. \<lparr>me_match = m, maxWait = max_wait now (m_Tickets m) (Fin 0)\<rparr>) ms;
             acc = first_come eval_ids [] (srt byMaxWait_Less ms')
    in ce_Evaluate srt now sendFails (requests ms) = Some (Inr (), map (m_MatchId \<circ> me_match) acc) \<and>
      set acc \<subseteq> set ms' \<and> sorted_wrt (\<lambda>a b. eval_ids a \<inter> eval_ids b = {}) acc \<and>
      (\<forall>m \<in> set ms'. m \<in> set acc \<or> (\<exists>a \<in> set acc. eval_ids a \<inter> eval_ids m \<noteq> {} \<and> f64_le (maxWait m) (maxWait a)))"
proof -
  define ms' where "ms' = map (\<lambda>m. \<lparr>me_match = m, maxWait = max_wait now (m_Tickets m) (Fin 0)\<rparr>) ms"
  let ?ps = "srt byMaxWait_Less ms'"
  let ?acc = "first_come eval_ids [] ?ps"
  have num: "maxWait m \<noteq> NaN" if "m \<in> set ms'" for m using that by (auto simp: ms'_def max_wait_number)
  have "strict_weak byMaxWait_Less (set ms')" unfolding byMaxWait_Less_def by (rule f64_strict_weak) (use num in blast)
  then have srt: "sorted_wrt (\<lambda>a b. \<not> byMaxWait_Less b a) ?ps" by (rule go_sort.srt_sorted [OF assms(1)])
  have set: "set ?ps = set ms'" by (rule go_sort.set_srt [OF assms(1)])
  have acc: "set ?acc \<subseteq> set ms'" using fifo.accept_set [of eval_ids ?ps] set by blast
  have "m \<in> set ?acc \<or> (\<exists>a \<in> set ?acc. eval_ids a \<inter> eval_ids m \<noteq> {} \<and> f64_le (maxWait m) (maxWait a))" if m: "m \<in> set ms'" for m
  proof -
    have "f64_le (maxWait m) (maxWait a)" if "\<not> byMaxWait_Less m a" "a \<in> set ?acc" for a
      using that num [OF m] num [of a] acc by (auto simp: byMaxWait_Less_def f64_le_iff)
    then show ?thesis using first_come_dominated [OF srt, of "[]" m eval_ids] m set by auto
  qed
  moreover have "ce_Evaluate srt now sendFails (requests ms) = Some (Inr (), map (m_MatchId \<circ> me_match) ?acc)"
    using ce_fold_first_come [of "\<lparr>ce_resultIDs = [], ce_ticketsUsed = Map.empty\<rparr>" "[]" ?ps]
    by (simp add: ce_Evaluate_def ce_recv_requests ce_send_ok assms(2) ce_evaluate_def flip: ms'_def)
  ultimately show ?thesis using acc fifo.accept_disjoint [of eval_ids ?ps] by (simp add: Let_def flip: ms'_def)
qed

section \<open>Profiles and tickets fit\<close>

abbreviation in_pool :: "(timestamp option \<Rightarrow> gtime option) \<Rightarrow> pool \<Rightarrow> ticket \<Rightarrow> bool" where
  "in_pool ts_time p t \<equiv> (case NewPoolFilter ts_time p of Inl _ \<Rightarrow> False | Inr pf \<Rightarrow> In ts_time pf (ticket_entity t))"

lemma in_mode_pool:
  "t_SearchFields t = Some s \<Longrightarrow> in_pool ts_time (mode_pool name mode) t \<longleftrightarrow> mode \<in> set (Tags s)"
  by (simp add: mode_pool_def NewPoolFilter_def empty_pool_def In_def created_check_def ticket_entity_def)

lemma in_role_pool:
  "t_SearchFields t = Some s \<Longrightarrow> in_pool ts_time (role_pool mode role) t \<longleftrightarrow>
     mode \<in> set (Tags s) \<and> StringArgs s ''attributes.role'' = Some role"
  by (auto simp: role_pool_def mode_pool_def NewPoolFilter_def empty_pool_def In_def created_check_def ticket_entity_def split: option.splits)

lemma in_mm101:
  "in_profile ts_time \<lparr>mp_Name = n, mp_Pools = [mode_pool n' mode], mp_Extensions = x\<rparr> t \<longleftrightarrow> in_pool ts_time (mode_pool n' mode) t"
  by (simp add: in_profile_def)

lemma in_mm102:
  "in_profile ts_time \<lparr>mp_Name = n, mp_Pools = map (role_pool mode) roles, mp_Extensions = x\<rparr> t \<longleftrightarrow>
     (\<exists>role \<in> set roles. in_pool ts_time (role_pool mode role) t)"
  by (simp add: in_profile_def list_ex_iff)

lemma unique_image: "i < length xs \<Longrightarrow> (\<And>x. x \<in> set xs \<Longrightarrow> P (f x) \<longleftrightarrow> x = xs ! i) \<Longrightarrow> \<exists>!p. p \<in> set (map f xs) \<and> P p"
  by (rule ex1I [of _ "f (xs ! i)"]) auto

text \<open>
  Every ticket of the first two tutorials is found by exactly one profile of its director, in the second by
  exactly one pool of it. In the last one the profiles have the same name, and a ticket that draws only the
  mode \<open>mode.2v2\<close> is found by none.
\<close>

theorem tutorial_ticket_profile:
  assumes "\<And>k n. 0 < n \<Longrightarrow> intn k n < n"
  shows "(\<exists>!p. p \<in> set mm101_generateProfiles \<and> in_profile ts_time p (mm101_makeTicket intn)) \<and>
    (\<exists>!p. p \<in> set mm102_generateProfiles \<and> in_profile ts_time p (mm102_makeTicket intn)) \<and>
    (\<forall>p \<in> set ce_generateProfiles. mp_Name p = ''mode_based_profile'' \<and>
      (ce_gameModes intn iter = [''mode.2v2''] \<longrightarrow> \<not> in_profile ts_time p (ce_makeTicket intn iter now)))"
proof (intro conjI ballI impI)
  have d: "intn 0 3 < length tut_modes" "intn 1 3 < length tut_roles" using assms [of 3] by (simp_all add: numeral_3_eq_3)
  show "\<exists>!p. p \<in> set mm101_generateProfiles \<and> in_profile ts_time p (mm101_makeTicket intn)"
    unfolding mm101_generateProfiles_def by (rule unique_image [OF d(1)]) (simp add: in_mm101 in_mode_pool mm101_makeTicket_def)
  show "\<exists>!p. p \<in> set mm102_generateProfiles \<and> in_profile ts_time p (mm102_makeTicket intn)"
    unfolding mm102_generateProfiles_def
  proof (rule unique_image [OF d(1)])
    fix mode
    show "in_profile ts_time \<lparr>mp_Name = ''profile_'' @ mode, mp_Pools = map (role_pool mode) tut_roles, mp_Extensions = Map.empty\<rparr>
        (mm102_makeTicket intn) \<longleftrightarrow> mode = tut_modes ! intn 0 3"
      unfolding in_mm102 using nth_mem [OF d(2)] by (auto simp: in_role_pool mm102_makeTicket_def)
  qed
next
  fix p assume p: "p \<in> set ce_generateProfiles"
  then obtain mode where m: "mode \<in> set tut_modes" "p = \<lparr>mp_Name = ''mode_based_profile'', mp_Pools = [mode_pool (''pool_mode_'' @ mode) mode],
     mp_Extensions = Map.empty\<rparr>" unfolding ce_generateProfiles_def by auto
  show "mp_Name p = ''mode_based_profile''" by (simp add: m(2))
  assume "ce_gameModes intn iter = [''mode.2v2'']"
  then show "\<not> in_profile ts_time p (ce_makeTicket intn iter now)"
    using m(1) unfolding m(2) in_mm101 by (auto simp: in_mode_pool ce_makeTicket_def)
qed

section \<open>Director, backend and frontend together\<close>

context statestore
begin

definition has_assignment :: "(assignment \<Rightarrow> bool) \<Rightarrow> 'b astore \<Rightarrow> string \<Rightarrow> bool" where
  "has_assignment P a i \<longleftrightarrow> (\<exists>b t g. objs a i = Some b \<and> decT b = Some t \<and> t_Assignment t = Some g \<and> P g)"

text \<open>The abstract effect of one group: every stored ticket of it gets an assignment, nothing else changes.\<close>

lemma assign_group_effect:
  assumes ty: "typed_store decT decB G a" and ids: "set ids \<subseteq> of_kind G TicketKind" "distinct ids" "ids \<noteq> []"
    and enc: "\<And>t. encT t \<noteq> None" and P: "P asg" and gs: "gs = [\<lparr>ag_TicketIds = ids, ag_Assignment = Some asg\<rparr>]"
  obtains fs ts a' where "as_UpdateAssignments encT decT px gs a = (Inr (fs, ts), a')" "dom (objs a') = dom (objs a)"
    "tindex a' = tindex a" "\<And>i. has_assignment P a i \<or> i \<in> set ids \<and> objs a i \<noteq> None \<Longrightarrow> has_assignment P a' i"
proof -
  have aids: "assign_ids gs = ids" and valid: "assign_valid gs" using ids by (simp_all add: gs assign_ids_def assign_valid_def)
  have dec: "\<exists>t. decT b = Some t \<and> t_Id t = i" if "i \<in> set ids" "objs a i = Some b" for i b
    using typed_ticket [OF ty] ids(1) that by blast
  obtain ts where ts: "those (map decT (List.map_filter (objs a) ids)) = Some ts"
    using found_all [of ids "objs a" decT] dec by fastforce
  obtain bs where bs: "those (map (encT \<circ> assigned gs) ts) = Some bs" using those_total [of ts "encT \<circ> assigned gs"] enc by auto
  have tids: "map t_Id ts = filter (\<lambda>i. objs a i \<noteq> None) ids" by (rule found_map_ids [OF ts]) (use dec in force)
  then have dts: "distinct (map t_Id ts)" and sts: "t_Id ` set ts = {i \<in> set ids. objs a i \<noteq> None}"
    using ids(2) by (simp, metis set_filter set_map)
  let ?a = "store_all px (zip (map t_Id ts) bs) a"
  have in_ts: "\<exists>b. objs ?a (t_Id t) = Some b \<and> decT b = Some (assigned gs t)" if "t \<in> set ts" for t
    using those_zip [OF bs that] store_all_in [OF dts] codecT by fastforce
  have out: "objs ?a i = objs a i" if "i \<notin> t_Id ` set ts" for i
    using store_all_out [of i "zip (map t_Id ts) bs" px a] that by (force dest: set_zip_leftD)
  have asg: "t_Assignment (assigned gs t) = Some asg" if "t \<in> set ts" for t
  proof -
    have "t_Id t \<in> set ids" using sts that by blast
    moreover have "map_of (map (\<lambda>i. (i, asg)) ids) i = Some asg" if "i \<in> set ids" for i using that by (induction ids) auto
    ultimately show ?thesis by (simp add: assigned_def assign_map_def assign_pairs_def gs)
  qed
  show ?thesis
  proof (rule that)
    show "as_UpdateAssignments encT decT px gs a =
        (Inr (map not_found_failure (filter (\<lambda>i. objs a i = None) ids), map (assigned gs) ts), ?a)"
      using valid ts bs by (simp add: as_UpdateAssignments_def aids) (simp add: gs)
    have "objs ?a i = None \<longleftrightarrow> objs a i = None" for i
    proof (cases "i \<in> t_Id ` set ts")
      case True
      then show ?thesis using in_ts sts by force
    next
      case False
      then show ?thesis by (simp add: out)
    qed
    then show "dom (objs ?a) = dom (objs a)" by (auto simp: dom_def)
    show "tindex ?a = tindex a" by (simp add: store_all_def)
    show "has_assignment P ?a i" if h: "has_assignment P a i \<or> i \<in> set ids \<and> objs a i \<noteq> None" for i
    proof (cases "i \<in> t_Id ` set ts")
      case True
      then show ?thesis unfolding has_assignment_def using in_ts asg P by fastforce
    next
      case False
      then show ?thesis using h sts out [OF False] by (auto simp: has_assignment_def)
    qed
  qed
qed

lemma has_assignment_objs: "objs a' = objs a \<Longrightarrow> has_assignment P a' i = has_assignment P a i"
  by (simp add: has_assignment_def)

lemma director_assigns:
  assumes "typed G s" and "dom G \<inter> reserved = {}" and "\<And>t. encT t \<noteq> None" and "\<And>n. P \<lparr>a_Connection = addr n, a_Extensions = Map.empty\<rparr>"
    and "\<forall>m \<in> set ms. m_Tickets m \<noteq> [] \<and> distinct (map t_Id (m_Tickets m)) \<and> ticket_ids m \<subseteq> of_kind G TicketKind"
  shows "\<exists>s'. tut_assign (be_AssignTickets S) addr n ms s = (Inr (), s') \<and> typed G s' \<and> dom (objs (store s')) = dom (objs (store s)) \<and>
    tindex (store s') = tindex (store s) - \<Union> (ticket_ids ` set ms) \<and>
    (\<forall>i. has_assignment P (store s) i \<or> i \<in> \<Union> (ticket_ids ` set ms) \<and> objs (store s) i \<noteq> None \<longrightarrow> has_assignment P (store s') i)"
  using assms(1,5)
proof (induction ms arbitrary: s n)
  case (Cons m ms)
  let ?gs = "assign_request (addr n) m" and ?ids = "map t_Id (m_Tickets m)"
  have aids: "assign_ids ?gs = ?ids" by (simp add: assign_request_def assign_ids_def)
  have m: "m_Tickets m \<noteq> []" "distinct ?ids" "set ?ids \<subseteq> of_kind G TicketKind" using Cons.prems(2) by (auto simp: ticket_ids_def)
  have res: "\<forall>i \<in> set (assign_ids ?gs). i \<notin> reserved" using m(3) assms(2) unfolding aids by blast
  have at: "tickets_at decT (assign_ids ?gs) (store s)"
    using typed_ticket [of decT decB G "store s"] Cons.prems(1) m(3) unfolding aids tickets_at_def by fastforce
  obtain fs ts a' where up: "as_UpdateAssignments encT decT px ?gs (store s) = (Inr (fs, ts), a')"
      "dom (objs a') = dom (objs (store s))" "tindex a' = tindex (store s)"
      "\<And>i. has_assignment P (store s) i \<or> i \<in> set ?ids \<and> objs (store s) i \<noteq> None \<Longrightarrow> has_assignment P a' i"
    by (rule assign_group_effect [of G "store s" ?ids P "\<lparr>a_Connection = addr n, a_Extensions = Map.empty\<rparr>" ?gs])
      (use Cons.prems(1) m assms(3,4) in \<open>simp_all add: assign_request_def\<close>)
  obtain r s1 where run: "be_AssignTickets S ?gs s = (r, s1)" by (metis surj_pair)
  from assign_handler [OF _ res at run] Cons.prems(1) up(1) have h: "good s1" "r = Inr fs"
    "store s1 = as_DeletePending ?ids (a'\<lparr>tindex := tindex a' - set ?ids\<rparr>)" by (simp_all add: aids)
  have "typed_store decT decB G a'"
    using typed_update_assignments [of decT decB G "store s" ?gs encT px] Cons.prems(1) m(3) codecT up(1) by (simp add: aids)
  then have ty: "typed G s1" unfolding h(3) using h(1) by (intro conjI typed_delete_pending) (auto simp: typed_store_def)
  have eqs: "objs (store s1) = objs a'" "tindex (store s1) = tindex a' - set ?ids" by (simp_all add: h(3) as_DeletePending_def)
  obtain s' where s': "tut_assign (be_AssignTickets S) addr (n + 1) ms s1 = (Inr (), s')" "typed G s'"
    "dom (objs (store s')) = dom (objs (store s1))" "tindex (store s') = tindex (store s1) - \<Union> (ticket_ids ` set ms)"
    "\<forall>i. has_assignment P (store s1) i \<or> i \<in> \<Union> (ticket_ids ` set ms) \<and> objs (store s1) i \<noteq> None \<longrightarrow> has_assignment P (store s') i"
    using Cons.IH [OF ty, of "n + 1"] Cons.prems(2) by auto
  have "has_assignment P (store s') i"
    if "has_assignment P (store s) i \<or> i \<in> \<Union> (ticket_ids ` set (m # ms)) \<and> objs (store s) i \<noteq> None" for i
  proof -
    have "objs (store s1) i = None \<longleftrightarrow> objs (store s) i = None" using up(2) eqs(1) by (metis domIff)
    then show ?thesis using that up(4) [of i] s'(5) has_assignment_objs [OF eqs(1), of P i] by (auto simp: ticket_ids_def)
  qed
  moreover have "tut_assign (be_AssignTickets S) addr n (m # ms) s = (Inr (), s')" using run h(2) s'(1) by simp
  ultimately show ?case using s' up(2,3) eqs by (auto simp: ticket_ids_def)
qed simp

text \<open>A ticket with an assignment is deleted at the first poll.\<close>

lemma poll_deletes:
  assumes "typed G s" and "i \<notin> reserved" and "has_assignment P (store s) i"
  shows "\<exists>s'. deleteOnAssign (fe_GetTicket S) (\<lambda>i s. (fst (fst (fe_DeleteTicket S i s)), snd (fe_DeleteTicket S i s))) other n i s =
      Some (Deleted, s') \<and> good s' \<and> i \<notin> tindex (store s') \<and> objs (store s') = objs (store s)"
proof -
  obtain r s1 where 1: "GetTicket S i s = (r, s1)" "good s1" "r = as_GetTicket decT i (store s)" "store s1 = store s"
    using meetsE [OF get_ticket [OF assms(2)], of s] assms(1) by metis
  from assms(3) obtain t where t: "as_GetTicket decT i (store s) = Inr t" "t_Assignment t \<noteq> None"
    by (auto simp: as_GetTicket_def has_assignment_def)
  have got: "fe_GetTicket S i s = (Inr t, s1)" using 1 t(1) by (simp add: fe_GetTicket_def)
  obtain r2 s2 where 2: "DeindexTicket S i s1 = (r2, s2)" "good s2" "r2 = Inr ()" "store s2 = (store s1)\<lparr>tindex := tindex (store s1) - {i}\<rparr>"
    using meetsE [OF deindex_ticket, of s1 i] 1(2) by metis
  have "fe_DeleteTicket S i s1 = ((Inr (), [i]), s2)" using 2(1,3) by (simp add: fe_DeleteTicket_def doDeleteTicket_def)
  with got t(2) 2(2,4) 1(4) show ?thesis by (subst deleteOnAssign.simps) auto
qed

end


abbreviation w_match_a :: match where
  "w_match_a \<equiv> empty_match\<lparr>m_MatchId := ''m'', m_Tickets := [ticket_a]\<rparr>"

lemma sample_id: "t_Id ticket_a = ''a''"
  by simp

abbreviation sample_state :: rstate where
  "sample_state \<equiv> snd (CreateTicket ref_store ticket_a ref_init)"

lemma sample_unreserved: "dom sample_typing \<inter> reserved = {}"
  by auto

lemma sample_encodes: "MarshalTicket ref_ok_env t \<noteq> None"
  by (simp add: ref_env_def)

lemma sample_stored:
  shows "wf_keys (lview (rs_data sample_state)) \<and>
      typed_store (UnmarshalTicket ref_ok_env) (UnmarshalBackfill ref_ok_env) sample_typing (astore_of (lview (rs_data sample_state)))"
    and "str_of (lview (rs_data sample_state)) ''a'' \<noteq> None"
proof -
  have "store_call ref_store sample_typing ref_init sample_state" by (rule call_create_ticket) simp
  then have "(store_call ref_store sample_typing)\<^sup>*\<^sup>* ref_init sample_state" by simp
  with sample_unreserved show "wf_keys (lview (rs_data sample_state)) \<and>
      typed_store (UnmarshalTicket ref_ok_env) (UnmarshalBackfill ref_ok_env) sample_typing (astore_of (lview (rs_data sample_state)))"
    by (intro calls_from_empty [OF ref_ok.redis_backend_axioms ref_store_def _ ref_init_wf(2)])
  have st: "astore_of (lview (rs_data sample_state)) = snd (as_CreateTicket (MarshalTicket ref_ok_env) ticket_a (astore_of (lview (rs_data ref_init))))"
    using meetsE [OF statestore.create_ticket [OF redis_backend.backend_contract [OF ref_ok.redis_backend_axioms ref_store_def]], of ticket_a ref_init]
    by (metis ref_init_wf(1) letters_not_reserved snd_conv sample_id)
  show "str_of (lview (rs_data sample_state)) ''a'' \<noteq> None"
    unfolding astore_of_sel(1) [symmetric] st by (simp add: as_CreateTicket_def)
qed


end
