(* ===== verification/Demo.thy ===== *)
theory Demo
  imports Tutorials "HOL-Library.Sublist"
begin

text \<open>
  The parts of the demo (\<open>examples/demo\<close>) that share state between goroutines: \<open>bytesub\<close>, which hands the
  latest value to many subscribers, and \<open>updater\<close>, a JSON object whose fields are set concurrently; and the
  fake director and players, which report their progress through them.
\<close>

section \<open>Subscribers to the latest value\<close>

text \<open>
  \<open>ByteSub\<close>: the channel \<open>nextReady\<close> is the number of announcements so far; the channel with a smaller number is
  closed. \<open>history\<close> is a ghost: all values announced. A subscriber waits on a channel, or writes the value
  that \<open>get\<close> returned, or has returned.
\<close>

record bytesub =
  nextReady :: nat
  latest :: "string option"
  history :: "string option list"

datatype sub_phase = Waiting | Writing string | Returned go_error

record subscriber =
  waits_on :: "nat option"
  sub_phase :: sub_phase
  written :: "string list"

definition bytesub_New :: bytesub where
  "bytesub_New = \<lparr>nextReady = 0, latest = None, history = []\<rparr>"

definition new_subscriber :: subscriber where
  "new_subscriber = \<lparr>waits_on = None, sub_phase = Waiting, written = []\<rparr>"

definition AnnounceLatest :: "string option \<Rightarrow> bytesub \<Rightarrow> bytesub" where
  "AnnounceLatest b s = s\<lparr>nextReady := nextReady s + 1, latest := b, history := history s @ [b]\<rparr>"

definition bs_get :: "bytesub \<Rightarrow> string option \<times> nat" where
  "bs_get s = (latest s, nextReady s)"

text \<open>\<open>Subscribe\<close>: a new subscriber starts with a closed channel. \<open>get\<close> is under the lock; the write is not.\<close>

definition ready :: "bytesub \<Rightarrow> subscriber \<Rightarrow> bool" where
  "ready s r = (case waits_on r of None \<Rightarrow> True | Some n \<Rightarrow> n < nextReady s)"

datatype write_result = WroteAll | WrotePart | WriteErr go_error

definition sub_receive :: "bytesub \<Rightarrow> subscriber \<Rightarrow> subscriber" where
  "sub_receive s r =
    (case bs_get s of (b, next) \<Rightarrow>
       r\<lparr>waits_on := Some next, sub_phase := (case b of None \<Rightarrow> Waiting | Some v \<Rightarrow> Writing v)\<rparr>)"

definition sub_write :: "write_result \<Rightarrow> string \<Rightarrow> subscriber \<Rightarrow> subscriber" where
  "sub_write res v r =
    (case res of
       WroteAll \<Rightarrow> r\<lparr>written := written r @ [v], sub_phase := Waiting\<rparr>
     | WrotePart \<Rightarrow> r\<lparr>sub_phase := Returned FmtErr\<rparr>
     | WriteErr e \<Rightarrow> r\<lparr>sub_phase := Returned e\<rparr>)"

inductive bytesub_step :: "bytesub \<times> (nat \<Rightarrow> subscriber) \<Rightarrow> bytesub \<times> (nat \<Rightarrow> subscriber) \<Rightarrow> bool" where
  announce_value: "bytesub_step (s, rs) (AnnounceLatest b s, rs)"
| receive_value: "sub_phase (rs i) = Waiting \<Longrightarrow> ready s (rs i) \<Longrightarrow> bytesub_step (s, rs) (s, rs(i := sub_receive s (rs i)))"
| write_value: "sub_phase (rs i) = Writing v \<Longrightarrow> bytesub_step (s, rs) (s, rs(i := sub_write res v (rs i)))"
| context_done: "sub_phase (rs i) = Waiting \<Longrightarrow> bytesub_step (s, rs) (s, rs(i := (rs i)\<lparr>sub_phase := Returned e\<rparr>))"

abbreviation bytesub_reachable :: "bytesub \<times> (nat \<Rightarrow> subscriber) \<Rightarrow> bool" where
  "bytesub_reachable \<equiv> bytesub_step\<^sup>*\<^sup>* (bytesub_New, \<lambda>_. new_subscriber)"

text \<open>
  What a subscriber has written, with the value that it is about to write, is a subsequence of what was
  announced up to the announcement it saw last, and its last element is that of this announcement.
\<close>

definition announced :: "string option list \<Rightarrow> string list" where
  "announced h = List.map_filter id h"

definition in_hand :: "subscriber \<Rightarrow> string list" where
  "in_hand r = written r @ (case sub_phase r of Writing v \<Rightarrow> [v] | _ \<Rightarrow> [])"

definition sub_inv :: "string option list \<Rightarrow> subscriber \<Rightarrow> bool" where
  "sub_inv h r \<longleftrightarrow>
    (case waits_on r of
       None \<Rightarrow> written r = [] \<and> (\<forall>v. sub_phase r \<noteq> Writing v)
     | Some n \<Rightarrow> n \<le> length h \<and> subseq (in_hand r) (announced (take n h)) \<and>
         ((\<nexists>e. sub_phase r = Returned e) \<and> 0 < n \<longrightarrow> (\<forall>v. h ! (n - 1) = Some v \<longrightarrow> in_hand r \<noteq> [] \<and> last (in_hand r) = v)))"

definition bytesub_inv :: "bytesub \<times> (nat \<Rightarrow> subscriber) \<Rightarrow> bool" where
  "bytesub_inv x \<longleftrightarrow>
    (case x of (s, rs) \<Rightarrow> nextReady s = length (history s) \<and>
       latest s = (if history s = [] then None else last (history s)) \<and> (\<forall>i. sub_inv (history s) (rs i)))"

lemma announced_append [simp]: "announced (g @ h) = announced g @ announced h"
  by (simp add: announced_def List.map_filter_def)

lemma announced_Some [simp]: "announced [Some v] = [v]"
  by (simp add: announced_def List.map_filter_simps)

lemma subseq_init: "subseq (xs @ ys) zs \<Longrightarrow> subseq xs zs"
  by (rule subseq_order.trans [of _ "xs @ ys"]) (simp add: list_emb_prefix)

lemma announced_take: "subseq xs (announced (take n h)) \<Longrightarrow> subseq xs (announced h)"
  by (subst append_take_drop_id [of n h, symmetric]) (simp only: announced_append list_emb_prefix)

lemma sub_inv_announce: "sub_inv h r \<Longrightarrow> sub_inv (h @ [b]) r"
  by (auto simp: sub_inv_def nth_append split: option.splits)

lemma sub_inv_receive:
  assumes s: "nextReady s = length (history s)" "latest s = (if history s = [] then None else last (history s))"
    and r: "sub_inv (history s) r" "sub_phase r = Waiting" "ready s r"
  shows "sub_inv (history s) (sub_receive s r)"
proof -
  let ?h = "history s" and ?n = "case waits_on r of None \<Rightarrow> 0 | Some n \<Rightarrow> n"
  have n: "?n \<le> length ?h" "subseq (written r) (announced (take ?n ?h))"
    using r(1,2) by (auto simp: sub_inv_def in_hand_def split: option.splits)
  have lt: "?n < length ?h" if "?h \<noteq> []" using r(3) s(1) that by (auto simp: ready_def split: option.splits)
  show ?thesis
  proof (cases "latest s")
    case None
    have "subseq (written r) (announced ?h)" using n(2) by (rule announced_take)
    then show ?thesis using None s by (auto simp: sub_inv_def sub_receive_def bs_get_def in_hand_def last_conv_nth split: if_splits)
  next
    case (Some v)
    then have h: "?h \<noteq> []" "last ?h = Some v" using s(2) by (auto split: if_splits)
    then obtain g where g: "?h = g @ [Some v]" by (metis append_butlast_last_id)
    with lt have "?n \<le> length g" by simp
    then have "take ?n ?h = take ?n g" by (simp add: g)
    then have "subseq (written r) (announced g)" using n(2) announced_take [of "written r" ?n g] by simp
    then have "subseq (written r @ [v]) (announced ?h)" unfolding g by simp
    then show ?thesis using Some s(1) g by (auto simp: sub_inv_def sub_receive_def bs_get_def in_hand_def nth_append)
  qed
qed

lemma sub_inv_write: "sub_inv h r \<Longrightarrow> sub_phase r = Writing v \<Longrightarrow> sub_inv h (sub_write res v r)"
  by (auto simp: sub_inv_def sub_write_def in_hand_def split: option.splits write_result.splits dest: subseq_init)

lemma sub_inv_done: "sub_inv h r \<Longrightarrow> sub_phase r = Waiting \<Longrightarrow> sub_inv h (r\<lparr>sub_phase := Returned e\<rparr>)"
  by (auto simp: sub_inv_def in_hand_def split: option.splits)

lemma bytesub_step_inv: "bytesub_step x y \<Longrightarrow> bytesub_inv x \<Longrightarrow> bytesub_inv y"
proof (induction rule: bytesub_step.induct)
  case (announce_value s rs b)
  then show ?case by (simp add: bytesub_inv_def AnnounceLatest_def sub_inv_announce)
next
  case (receive_value rs i s)
  then show ?case using sub_inv_receive [of s "rs i"] by (simp add: bytesub_inv_def)
next
  case (write_value rs i v s res)
  then show ?case using sub_inv_write [of "history s" "rs i" v res] by (simp add: bytesub_inv_def)
next
  case (context_done rs i s e)
  then show ?case using sub_inv_done [of "history s" "rs i" e] by (simp add: bytesub_inv_def)
qed

lemma bytesub_invariant: "bytesub_reachable x \<Longrightarrow> bytesub_inv x"
proof (induction rule: rtranclp_induct)
  case base
  show ?case by (simp add: bytesub_inv_def bytesub_New_def new_subscriber_def sub_inv_def)
next
  case (step y z)
  then show ?case by (blast intro: bytesub_step_inv)
qed

text \<open>
  Subscribers get the latest value. In every interleaving of announcements and subscribers, what a
  subscriber has written is a subsequence of the announced values, in their order and each at most once;
  and a subscriber that is waiting with nothing to receive has written the latest value last, if there is
  one.
\<close>

theorem bytesub_latest:
  assumes "bytesub_reachable (s, rs)"
  shows "subseq (written (rs i)) (announced (history s)) \<and>
    (sub_phase (rs i) = Waiting \<and> \<not> ready s (rs i) \<longrightarrow>
      (\<forall>v. latest s = Some v \<longrightarrow> written (rs i) \<noteq> [] \<and> last (written (rs i)) = v))"
proof -
  from bytesub_invariant [OF assms] have len: "nextReady s = length (history s)"
    and lat: "latest s = (if history s = [] then None else last (history s))" and inv: "sub_inv (history s) (rs i)"
    by (simp_all add: bytesub_inv_def)
  have 1: "subseq (written (rs i)) (announced (history s))"
  proof (cases "waits_on (rs i)")
    case None
    then show ?thesis using inv by (simp add: sub_inv_def)
  next
    case (Some n)
    then have "subseq (in_hand (rs i)) (announced (take n (history s)))" using inv by (simp add: sub_inv_def)
    then have "subseq (in_hand (rs i)) (announced (history s))" by (rule announced_take)
    then show ?thesis unfolding in_hand_def by (rule subseq_init)
  qed
  have 2: "written (rs i) \<noteq> [] \<and> last (written (rs i)) = v"
    if w: "sub_phase (rs i) = Waiting" "\<not> ready s (rs i)" "latest s = Some v" for v
  proof -
    obtain n where n: "waits_on (rs i) = Some n" "n \<ge> length (history s)" using w(2) len by (auto simp: ready_def split: option.splits)
    have "history s \<noteq> []" "last (history s) = Some v" using lat w(3) by (auto split: if_splits)
    then show ?thesis using inv n w(1) by (auto simp: sub_inv_def in_hand_def last_conv_nth)
  qed
  from 1 2 show ?thesis by blast
qed

theorem bytesub_latest_witness:
  "\<exists>s rs. bytesub_reachable (s, rs) \<and> sub_phase (rs 0) = Waiting \<and> \<not> ready s (rs 0) \<and> latest s = Some ''x'' \<and> written (rs 0) \<noteq> [] \<and> last (written (rs 0)) = ''x''"
proof -
  let ?s = "AnnounceLatest (Some ''x'') bytesub_New" and ?r0 = new_subscriber
  let ?r1 = "sub_receive ?s ?r0"
  let ?r2 = "sub_write WroteAll ''x'' ?r1"
  let ?rs = "(\<lambda>_. ?r0)(0 := ?r2)"
  have "bytesub_step (bytesub_New, \<lambda>_. ?r0) (?s, \<lambda>_. ?r0)" by (rule announce_value)
  moreover have "bytesub_step (?s, \<lambda>_. ?r0) (?s, (\<lambda>_. ?r0)(0 := ?r1))"
    by (rule receive_value) (simp_all add: new_subscriber_def ready_def)
  moreover have "bytesub_step (?s, (\<lambda>_. ?r0)(0 := ?r1)) (?s, ?rs)"
    using bytesub_step.write_value [of "(\<lambda>_. ?r0)(0 := ?r1)" 0 "''x''" ?s WroteAll]
    by (simp add: sub_receive_def bs_get_def AnnounceLatest_def)
  ultimately have run: "bytesub_reachable (?s, ?rs)" by (meson converse_rtranclp_into_rtranclp rtranclp.rtrancl_refl)
  have st: "sub_phase (?rs 0) = Waiting \<and> \<not> ready ?s (?rs 0) \<and> latest ?s = Some ''x''"
    by (simp add: ready_def sub_write_def sub_receive_def bs_get_def AnnounceLatest_def bytesub_New_def)
  with bytesub_latest [OF run, of 0] run show ?thesis by blast
qed

section \<open>An object that is updated concurrently\<close>

text \<open>
  \<open>Updater\<close>: the loop of \<open>start\<close> publishes the children, waits for an update, and takes all updates that wait. An
  update comes from a goroutine that called the function of \<open>ForField\<close>: a rendezvous on an unbuffered
  channel. \<open>applied\<close> is a ghost: the updates taken; \<open>published\<close> are the arguments of \<open>set\<close>, \<open>None\<close> for \<open>nil\<close>.
\<close>

type_synonym children = "string \<rightharpoonup> string"

datatype updater_phase = Publishing | Selecting | Applying | Stopped

record updater =
  u_children :: children
  u_phase :: updater_phase
  published :: "children option list"
  u_applied :: "(string \<times> string option) list"

definition updater_create :: updater where
  "updater_create = \<lparr>u_children = Map.empty, u_phase = Publishing, published = [], u_applied = []\<rparr>"

text \<open>\<open>forceMarshalJson\<close>: \<open>enc\<close> is \<open>json.Marshal\<close> of a value, \<open>encErr\<close> that of an object with the text of an error.\<close>

definition forceMarshalJson :: "('v \<Rightarrow> string res) \<Rightarrow> (go_error \<Rightarrow> string res) \<Rightarrow> 'v \<Rightarrow> string" where
  "forceMarshalJson enc encErr v =
    (case enc v of
       Inr b \<Rightarrow> b
     | Inl e \<Rightarrow> (case encErr e of
         Inr b \<Rightarrow> b
       | Inl _ \<Rightarrow> ''{\"Error\":\"There was an error encoding the json message, additional there was an error encoding that error message.\"}''))"

text \<open>\<open>ForField\<close>: the update that a call of the returned function sends; \<open>nil\<close> removes the field.\<close>

definition ForField :: "('v \<Rightarrow> string res) \<Rightarrow> (go_error \<Rightarrow> string res) \<Rightarrow> string \<Rightarrow> 'v option \<Rightarrow> string \<times> string option" where
  "ForField enc encErr field v = (field, map_option (forceMarshalJson enc encErr) v)"

definition apply_update :: "string \<times> string option \<Rightarrow> children \<Rightarrow> children" where
  "apply_update up m = (case up of (field, None) \<Rightarrow> m(field := None) | (field, Some v) \<Rightarrow> m(field \<mapsto> v))"

definition take_update :: "string \<times> string option \<Rightarrow> updater \<Rightarrow> updater" where
  "take_update up u = u\<lparr>u_children := apply_update up (u_children u), u_applied := u_applied u @ [up], u_phase := Applying\<rparr>"

inductive updater_step :: "updater \<Rightarrow> updater \<Rightarrow> bool" where
  publish: "u_phase u = Publishing \<Longrightarrow> updater_step u (u\<lparr>published := published u @ [Some (u_children u)], u_phase := Selecting\<rparr>)"
| first_update: "u_phase u = Selecting \<Longrightarrow> updater_step u (take_update up u)"
| waiting_update: "u_phase u = Applying \<Longrightarrow> updater_step u (take_update up u)"
| none_waiting: "u_phase u = Applying \<Longrightarrow> updater_step u (u\<lparr>u_phase := Publishing\<rparr>)"
| ctx_done: "u_phase u = Selecting \<Longrightarrow> updater_step u (u\<lparr>published := published u @ [None], u_phase := Stopped\<rparr>)"

abbreviation updater_reachable :: "updater \<Rightarrow> bool" where
  "updater_reachable \<equiv> updater_step\<^sup>*\<^sup>* updater_create"

definition state_after :: "(string \<times> string option) list \<Rightarrow> children" where
  "state_after ups = fold apply_update ups Map.empty"

text \<open>The value of a field is that of its last update.\<close>

lemma state_after_snoc [simp]: "state_after (ups @ [up]) = apply_update up (state_after ups)"
  by (simp add: state_after_def)

lemma state_after_last:
  "state_after ups f = (case filter (\<lambda>up. fst up = f) ups of [] \<Rightarrow> None | us \<Rightarrow> snd (last us))"
proof (induction ups rule: rev_induct)
  case (snoc up ups)
  obtain g v where up: "up = (g, v)" by (cases up)
  show ?case
    by (cases v; cases "g = f"; cases "filter (\<lambda>up. fst up = f) ups") (use snoc in \<open>auto simp: up apply_update_def\<close>)
qed (simp add: state_after_def)

definition updater_inv :: "updater \<Rightarrow> bool" where
  "updater_inv u \<longleftrightarrow> u_children u = state_after (u_applied u) \<and>
     (\<forall>m. Some m \<in> set (published u) \<longrightarrow> (\<exists>n. m = state_after (take n (u_applied u)))) \<and>
     (u_phase u = Selecting \<longrightarrow> published u \<noteq> [] \<and> last (published u) = Some (u_children u)) \<and>
     (None \<in> set (published u) \<longleftrightarrow> u_phase u = Stopped) \<and> (u_phase u = Stopped \<longrightarrow> last (published u) = None)"

lemma updater_take_inv: "updater_inv u \<Longrightarrow> u_phase u \<noteq> Stopped \<Longrightarrow> updater_inv (take_update up u)"
proof -
  assume inv: "updater_inv u" and ph: "u_phase u \<noteq> Stopped"
  have "\<exists>n. m = state_after (take n (u_applied u @ [up]))" if "Some m \<in> set (published u)" for m
  proof -
    obtain n where "m = state_after (take n (u_applied u))" using inv \<open>Some m \<in> set (published u)\<close> unfolding updater_inv_def by blast
    then have "m = state_after (take (min n (length (u_applied u))) (u_applied u @ [up]))" by (simp add: min_def)
    then show ?thesis by blast
  qed
  then show ?thesis using inv ph by (simp add: updater_inv_def take_update_def)
qed

lemma updater_step_inv: "updater_step u v \<Longrightarrow> updater_inv u \<Longrightarrow> updater_inv v"
proof (induction rule: updater_step.induct)
  case (publish u)
  then have "\<exists>n. u_children u = state_after (take n (u_applied u))"
    by (intro exI [of _ "length (u_applied u)"]) (simp add: updater_inv_def)
  with publish show ?case by (auto simp: updater_inv_def)
qed (auto simp: updater_take_inv, auto simp: updater_inv_def)

lemma updater_invariant: "updater_reachable u \<Longrightarrow> updater_inv u"
proof (induction rule: rtranclp_induct)
  case base
  show ?case by (simp add: updater_inv_def updater_create_def state_after_def)
next
  case (step u v)
  then show ?case by (blast intro: updater_step_inv)
qed

text \<open>
  The object is always the result of the updates taken, in their order; each published object is the
  result of a first part of them; when the loop waits for updates, the last published object is the
  present one; and \<open>nil\<close> is published exactly when the loop has stopped, as the last.
\<close>

theorem updater_publishes:
  assumes "updater_reachable u"
  shows "(\<forall>f. u_children u f = (case filter (\<lambda>up. fst up = f) (u_applied u) of [] \<Rightarrow> None | us \<Rightarrow> snd (last us))) \<and>
    (\<forall>m. Some m \<in> set (published u) \<longrightarrow> (\<exists>n. m = state_after (take n (u_applied u)))) \<and>
    (u_phase u = Selecting \<longrightarrow> last (published u) = Some (u_children u)) \<and>
    (None \<in> set (published u) \<longleftrightarrow> u_phase u = Stopped) \<and> (u_phase u = Stopped \<longrightarrow> last (published u) = None)"
  using updater_invariant [OF assms] state_after_last [of "u_applied u"] by (simp add: updater_inv_def)

section \<open>Director, players and the clock\<close>

text \<open>
  What a component of the demo reports: a stage with what it shows, or the error that \<open>recover\<close> caught. Every
  run of a component returns; \<open>Run\<close> starts the next one until the context is done.
\<close>

datatype 'x report = Stage string 'x | Encountered go_error

text \<open>\<open>director.run\<close>: fetch the matches of one profile with one pool, and assign them one after the other; a panic ends the run.\<close>

definition demo_profile :: match_profile where
  "demo_profile = \<lparr>mp_Name = ''1v1'', mp_Pools = [empty_pool\<lparr>p_Name := ''Everyone''\<rparr>], mp_Extensions = Map.empty\<rparr>"

fun demo_assign :: "(assignment_group list \<Rightarrow> 's \<Rightarrow> assign_response res \<times> 's) \<Rightarrow> (nat \<Rightarrow> string) \<Rightarrow> nat \<Rightarrow> match list \<Rightarrow> 's \<Rightarrow> unit res \<times> 's" where
  "demo_assign AssignTickets addr n [] s = (Inr (), s)"
| "demo_assign AssignTickets addr n (m # ms) s =
    (case AssignTickets (assign_request (addr n) m) s of
       (Inl e, s') \<Rightarrow> (Inl e, s')
     | (Inr _, s') \<Rightarrow> demo_assign AssignTickets addr (n + 1) ms s')"

definition director_run :: "go_error option \<Rightarrow> (match_profile \<Rightarrow> fetch_recv list res) \<Rightarrow>
    (assignment_group list \<Rightarrow> 's \<Rightarrow> assign_response res \<times> 's) \<Rightarrow> (nat \<Rightarrow> string) \<Rightarrow> 's \<Rightarrow> (match list report list \<times> 's) option" where
  "director_run dial client AssignTickets addr s =
    (let r1 = [Stage ''Connecting to backend'' []] in
     case dial of
       Some e \<Rightarrow> Some (r1 @ [Encountered e], s)
     | None \<Rightarrow>
         (let r2 = r1 @ [Stage ''Match Match: Sending Request'' []] in
          case tut_fetch client demo_profile of
            None \<Rightarrow> None
          | Some (Inl e) \<Rightarrow> Some (r2 @ [Encountered e], s)
          | Some (Inr matches) \<Rightarrow>
              (let r3 = r2 @ [Stage ''Matches Found'' matches, Stage ''Assigning Players'' matches] in
               case demo_assign AssignTickets addr 0 matches s of
                 (Inl e, s') \<Rightarrow> Some (r3 @ [Encountered e], s')
               | (Inr _, s') \<Rightarrow> Some (r3 @ [Stage ''Sleeping'' matches], s'))))"

text \<open>
  \<open>clients.runScenario\<close>: a player creates a ticket and waits for a connection. The error of \<open>WatchAssignments\<close> is not
  looked at: without a stream the first \<open>Recv\<close> panics.
\<close>

datatype watch_recv = WatchResp "assignment option" | WatchErr go_error

definition get_connection :: "assignment option \<Rightarrow> string" where
  "get_connection a = (case a of None \<Rightarrow> [] | Some a \<Rightarrow> a_Connection a)"

fun watch_loop :: "assignment option \<Rightarrow> watch_recv list \<Rightarrow> assignment option res option" where
  "watch_loop a [] = (if get_connection a = [] then None else Some (Inr a))"
| "watch_loop a (ev # evs) =
    (if get_connection a = [] then (case ev of WatchErr e \<Rightarrow> Some (Inl e) | WatchResp a' \<Rightarrow> watch_loop a' evs) else Some (Inr a))"

definition runScenario :: "go_error option \<Rightarrow> (ticket option \<Rightarrow> 's \<Rightarrow> ticket res \<times> 's) \<Rightarrow> (string \<Rightarrow> watch_recv list res) \<Rightarrow> go_error option \<Rightarrow>
    's \<Rightarrow> (assignment option report list \<times> 's) option" where
  "runScenario dial create WatchAssignments closeSend s =
    (let r1 = [Stage ''Main Menu'' None, Stage ''Connecting to Open Match frontend'' None] in
     case dial of
       Some e \<Rightarrow> Some (r1 @ [Encountered e], s)
     | None \<Rightarrow>
         (let r2 = r1 @ [Stage ''Creating Open Match Ticket'' None] in
          case create (Some empty_ticket) s of
            (Inl e, s') \<Rightarrow> Some (r2 @ [Encountered e], s')
          | (Inr t, s') \<Rightarrow>
              (let r3 = r2 @ [Stage (''Waiting match with ticket Id '' @ t_Id t) None] in
               case WatchAssignments (t_Id t) of
                 Inl e \<Rightarrow> Some (r3 @ [Encountered Panic], s')
               | Inr evs \<Rightarrow>
                   (case watch_loop None evs of
                      None \<Rightarrow> None
                    | Some (Inl e) \<Rightarrow> Some (r3 @ [Encountered e], s')
                    | Some (Inr a) \<Rightarrow>
                        (case closeSend of
                           Some e \<Rightarrow> Some (r3 @ [Encountered e], s')
                         | None \<Rightarrow> Some (r3 @ [Stage ''Sleeping (pretend this is playing a match...)'' a], s'))))))"

text \<open>\<open>uptime.Run\<close>: counts the ticks, and removes its field when the context is done.\<close>

datatype clock_event = ClockTick | ClockDone

fun uptime_Run :: "nat \<Rightarrow> clock_event list \<Rightarrow> nat option list" where
  "uptime_Run i [] = []"
| "uptime_Run i (ClockTick # evs) = Some i # uptime_Run (i + 1) evs"
| "uptime_Run i (ClockDone # evs) = [None]"

lemma uptime_counts: "ClockDone \<notin> set evs \<Longrightarrow> uptime_Run i (evs @ [ClockDone]) = map Some [i..<i + length evs] @ [None]"
proof (induction evs arbitrary: i)
  case (Cons ev evs)
  then show ?case by (cases ev) (simp_all add: upt_rec)
qed simp

text \<open>The director of the demo and that of the tutorials assign alike, up to the wrapping of an error.\<close>

lemma demo_assign_tut:
  "demo_assign AssignTickets addr n ms s =
    (case tut_assign AssignTickets addr n ms s of (Inl (Wrapped e), s') \<Rightarrow> (Inl e, s') | r \<Rightarrow> r)"
  by (induction ms arbitrary: n s) (auto split: prod.splits sum.splits)

lemma watch_loop_done: "get_connection a \<noteq> [] \<Longrightarrow> watch_loop a evs = Some (Inr a)"
  by (cases evs) simp_all

text \<open>
  The demo comes full circle. From a well-typed store, if the matches fetched have tickets with distinct
  ids, a run of the director reports its five stages and no error; and for every ticket of these matches
  that is in the store, a player who watches it then, for however many polls, receives an assignment with a
  connection first, and its loop ends with it.
\<close>

theorem demo_round:
  fixes S :: "('s, 'c) service"
  assumes be: "redis_backend E view pend dbl sched" and S: "S = New sched cfg E" and G: "dom G \<inter> reserved = {}"
    and ty: "wf_keys (view s) \<and> typed_store (UnmarshalTicket E) (UnmarshalBackfill E) G (astore_of (view s))"
    and enc: "\<And>t. MarshalTicket E t \<noteq> None" and addr: "\<And>n. addr n \<noteq> []"
    and fetched: "tut_fetch client demo_profile = Some (Inr ms)"
    and ms: "\<forall>m \<in> set ms. m_Tickets m \<noteq> [] \<and> distinct (map t_Id (m_Tickets m)) \<and> ticket_ids m \<subseteq> of_kind G TicketKind"
  shows "\<exists>s1. director_run None client (be_AssignTickets S) addr s =
      Some ([Stage ''Connecting to backend'' [], Stage ''Match Match: Sending Request'' [], Stage ''Matches Found'' ms,
        Stage ''Assigning Players'' ms, Stage ''Sleeping'' ms], s1) \<and>
    (\<forall>m \<in> set ms. \<forall>i \<in> ticket_ids m. str_of (view s) i \<noteq> None \<longrightarrow>
      (\<exists>g. a_Connection g \<noteq> [] \<and> (\<forall>n. watch_loop None (map WatchResp (changes None (fst (observed (Suc n) E i s1)))) = Some (Inr (Some g)))))"
proof -
  let ?P = "\<lambda>g. a_Connection g \<noteq> []"
  note contract = redis_backend.backend_contract [OF be S]
  have conn: "?P \<lparr>a_Connection = addr n, a_Extensions = Map.empty\<rparr>" for n by (simp add: addr)
  obtain s1 where s1: "tut_assign (be_AssignTickets S) addr 0 ms s = (Inr (), s1)" "wf_keys (view s1)"
    "\<forall>i. statestore.has_assignment (UnmarshalTicket E) ?P (astore_of (view s)) i \<or>
       i \<in> \<Union> (ticket_ids ` set ms) \<and> objs (astore_of (view s)) i \<noteq> None \<longrightarrow>
       statestore.has_assignment (UnmarshalTicket E) ?P (astore_of (view s1)) i"
    using statestore.director_assigns [where P = ?P and addr = addr and n = 0, OF contract ty G enc conn ms]
    by (elim exE conjE) (rule that, assumption+)
  have "\<exists>g. ?P g \<and> (\<forall>n. watch_loop None (map WatchResp (changes None (fst (observed (Suc n) E i s1)))) = Some (Inr (Some g)))"
    if m: "m \<in> set ms" "i \<in> ticket_ids m" "str_of (view s) i \<noteq> None" for m i
  proof -
    have i: "i \<notin> reserved" using ms m(1,2) G by blast
    have "statestore.has_assignment (UnmarshalTicket E) ?P (astore_of (view s1)) i" using s1(3) m by auto
    then obtain t g where t: "as_GetTicket (UnmarshalTicket E) i (astore_of (view s1)) = Inr t" "t_Assignment t = Some g" "?P g"
      unfolding statestore.has_assignment_def [OF contract] by (auto simp: as_GetTicket_def)
    obtain s2 where "rb_GetTicket E i s1 = (Inr t, s2)"
      using meetsE [OF redis_up.GetTicket_meets [OF redis_backend.axioms(1) [OF be] i], of s1] s1(2) t(1) by metis
    then show ?thesis using t(2,3)
      by (intro exI [of _ g]) (simp add: watch_loop_done get_connection_def split: prod.split)
  qed
  moreover have "director_run None client (be_AssignTickets S) addr s =
      Some ([Stage ''Connecting to backend'' [], Stage ''Match Match: Sending Request'' [], Stage ''Matches Found'' ms,
        Stage ''Assigning Players'' ms, Stage ''Sleeping'' ms], s1)"
    by (simp add: director_run_def fetched demo_assign_tut s1(1))
  ultimately show ?thesis by blast
qed

theorem demo_round_witness:
  "\<exists>s s1 g. s = snd (CreateTicket ref_store ticket_a ref_init) \<and>
     director_run None (\<lambda>_. Inr [FetchResp w_match_a, FetchEOF]) (be_AssignTickets ref_store) (\<lambda>_. ''1.2.3.4:2222'') s =
       Some ([Stage ''Connecting to backend'' [], Stage ''Match Match: Sending Request'' [], Stage ''Matches Found'' [w_match_a],
         Stage ''Assigning Players'' [w_match_a], Stage ''Sleeping'' [w_match_a]], s1) \<and>
     a_Connection g \<noteq> [] \<and> watch_loop None (map WatchResp (changes None (fst (observed 1 ref_ok_env ''a'' s1)))) = Some (Inr (Some g))"
proof -
  let ?c = "\<lambda>_ :: match_profile. Inr [FetchResp w_match_a, FetchEOF]" and ?addr = "\<lambda>_ :: nat. ''1.2.3.4:2222''"
  have f: "tut_fetch ?c demo_profile = Some (Inr [w_match_a])" by (simp add: tut_fetch_def)
  have addr: "?addr n \<noteq> []" for n by simp
  from demo_round [OF ref_ok.redis_backend_axioms ref_store_def sample_unreserved sample_stored(1) sample_encodes addr f] sample_stored(2)
  obtain s1 g where "director_run None ?c (be_AssignTickets ref_store) ?addr (snd (CreateTicket ref_store ticket_a ref_init)) =
       Some ([Stage ''Connecting to backend'' [], Stage ''Match Match: Sending Request'' [], Stage ''Matches Found'' [w_match_a],
         Stage ''Assigning Players'' [w_match_a], Stage ''Sleeping'' [w_match_a]], s1)" "a_Connection g \<noteq> []"
     "\<forall>n. watch_loop None (map WatchResp (changes None (fst (observed (Suc n) ref_ok_env ''a'' s1)))) = Some (Inr (Some g))"
    by (auto simp: ticket_ids_def)
  then show ?thesis by (metis One_nat_def)
qed

end
