(* ===== verification/Scale_Drivers.thy ===== *)
theory Scale_Drivers
  imports Tutorials
begin

text \<open>
  The programs that drive the services in the scale test (\<open>examples/scale/backend\<close>, \<open>examples/scale/frontend\<close>).
  The backend driver fetches matches for all profiles at every tick and hands them through buffered channels
  to workers that assign tickets, acknowledge backfills and delete backfills; the frontend driver starts
  runners that create a ticket, watch it and delete it. Both are step relations in which the services answer
  in any way.
\<close>

section \<open>Lists of goroutines\<close>

text \<open>What the goroutines of a list hold, as a multiset.\<close>

definition holding :: "('w \<Rightarrow> 'a option) \<Rightarrow> 'w list \<Rightarrow> 'a multiset" where
  "holding f ws = mset (List.map_filter f ws)"

primrec opt_mset :: "'a option \<Rightarrow> 'a multiset" where
  "opt_mset None = {#}"
| "opt_mset (Some a) = {#a#}"

lemma holding_simps [simp]:
  "holding f [] = {#}" "holding f (w # ws) = opt_mset (f w) + holding f ws"
  "holding f (vs @ ws) = holding f vs + holding f ws"
  by (auto simp: holding_def List.map_filter_def)

lemma holding_none: "(\<And>w. w \<in> set ws \<Longrightarrow> f w = None) \<Longrightarrow> holding f ws = {#}"
  by (induction ws) auto

lemma holding_replicate [simp]: "f w = None \<Longrightarrow> holding f (replicate n w) = {#}"
  by (rule holding_none) simp

text \<open>When one goroutine moves, what the others hold stays.\<close>

lemma holding_upd:
  "i < length ws \<Longrightarrow> holding f (ws[i := w]) = holding f (take i ws) + opt_mset (f w) + holding f (drop (Suc i) ws)"
  by (simp add: upd_conv_take_nth_drop ac_simps)

lemma holding_idle [simp]:
  "i < length ws \<Longrightarrow> f (ws ! i) = None \<Longrightarrow> holding f (ws[i := w]) = holding f ws + opt_mset (f w)"
  using holding_upd [of i ws f "ws ! i"] by (simp add: holding_upd ac_simps)

lemma holding_busy:
  "i < length ws \<Longrightarrow> f (ws ! i) = Some a \<Longrightarrow> \<exists>R. holding f ws = add_mset a R \<and> (\<forall>w. holding f (ws[i := w]) = R + opt_mset (f w))"
  using holding_upd [of i ws f "ws ! i"] by (intro exI [of _ "holding f (take i ws) + holding f (drop (Suc i) ws)"]) (simp add: holding_upd ac_simps)

section \<open>The backend driver\<close>

text \<open>
  A goroutine of \<open>runFetchMatches\<close>, of \<open>runAssignments\<close>, \<open>runAcknowledgeBackfills\<close> and \<open>runDeleteBackfills\<close>: where
  it is and what it holds.
\<close>

datatype fetcher = Calling match_profile | Receiving | SendAssign match | SendAck match | FetchDone
datatype assigner = AssignIdle | Assigning match
datatype acker = AckIdle | Acking match backfill | SendDelete backfill
datatype deleter = DeleteIdle | Deleting backfill

record scale_counters =
  mIterations :: nat
  mFetchMatchCalls :: nat
  mFetchMatchSuccesses :: nat
  mFetchMatchErrors :: nat
  mMatchesReturned :: nat
  mSumTicketsReturned :: nat
  mMatchesAssigned :: nat
  mMatchAssignsFailed :: nat
  mBackfillsDeleted :: nat
  mBackfillDeletesFailed :: nat

text \<open>
  The state of the driver. The last four fields are ghosts: the matches received, those a worker has asked
  the backend to assign, those the acknowledging workers are done with, and the backfills the deleting
  workers are done with; \<open>to_be_deleted\<close> are the backfills acknowledged without an error.
\<close>

record scale_backend = scale_counters +
  matchesToAssign :: "match list"
  matchesToAcknowledge :: "match list"
  backfillsToDelete :: "backfill list"
  ticking :: bool
  fetchers :: "fetcher list"
  assigners :: "assigner list"
  ackers :: "acker list"
  deleters :: "deleter list"
  sb_crashed :: bool
  received :: "match list"
  assigned_ms :: "match list"
  handled_ms :: "match list"
  to_be_deleted :: "backfill list"
  handled_bs :: "backfill list"

abbreviation chan_size :: nat where
  "chan_size \<equiv> 30000"

definition scale_backend_init :: "scenario \<Rightarrow> scale_backend" where
  "scale_backend_init sc =
    \<lparr>mIterations = 0, mFetchMatchCalls = 0, mFetchMatchSuccesses = 0, mFetchMatchErrors = 0, mMatchesReturned = 0,
     mSumTicketsReturned = 0, mMatchesAssigned = 0, mMatchAssignsFailed = 0, mBackfillsDeleted = 0, mBackfillDeletesFailed = 0,
     matchesToAssign = [], matchesToAcknowledge = [], backfillsToDelete = [], ticking = False, fetchers = [],
     assigners = (if BackendAssignsTickets sc then replicate 100 AssignIdle else []),
     ackers = (if BackendAcknowledgesBackfills sc then replicate 100 AckIdle else []),
     deleters = (if BackendDeletesBackfills sc then replicate 100 DeleteIdle else []),
     sb_crashed = False, received = [], assigned_ms = [], handled_ms = [], to_be_deleted = [], handled_bs = []\<rparr>"

text \<open>\<open>run\<close>: at a tick a goroutine for every profile; the next tick is taken when all of them are done.\<close>

definition tick_start :: "scenario \<Rightarrow> scale_backend \<Rightarrow> scale_backend" where
  "tick_start sc s = s\<lparr>ticking := True, fetchers := map Calling (sc_Profiles sc)\<rparr>"

definition tick_end :: "scale_backend \<Rightarrow> scale_backend" where
  "tick_end s = s\<lparr>ticking := False, mIterations := mIterations s + 1\<rparr>"

text \<open>\<open>runFetchMatches\<close>: the call, and the stream; a response without a match is dereferenced.\<close>

definition fetch_call :: "bool \<Rightarrow> nat \<Rightarrow> scale_backend \<Rightarrow> scale_backend" where
  "fetch_call ok i s =
    (let s1 = s\<lparr>mFetchMatchCalls := mFetchMatchCalls s + 1\<rparr>
     in if ok then s1\<lparr>fetchers := (fetchers s)[i := Receiving]\<rparr>
        else s1\<lparr>mFetchMatchErrors := mFetchMatchErrors s + 1, fetchers := (fetchers s)[i := FetchDone]\<rparr>)"

datatype scale_recv = ScaleEOF | ScaleErr | ScaleResp "match option"

definition after_assign :: "scenario \<Rightarrow> match \<Rightarrow> fetcher" where
  "after_assign sc m = (if BackendAcknowledgesBackfills sc then SendAck m else Receiving)"

definition fetch_receive :: "scenario \<Rightarrow> scale_recv \<Rightarrow> nat \<Rightarrow> scale_backend \<Rightarrow> scale_backend" where
  "fetch_receive sc ev i s =
    (case ev of
       ScaleEOF \<Rightarrow> s\<lparr>mFetchMatchSuccesses := mFetchMatchSuccesses s + 1, fetchers := (fetchers s)[i := FetchDone]\<rparr>
     | ScaleErr \<Rightarrow> s\<lparr>mFetchMatchErrors := mFetchMatchErrors s + 1, fetchers := (fetchers s)[i := FetchDone]\<rparr>
     | ScaleResp None \<Rightarrow> s\<lparr>sb_crashed := True\<rparr>
     | ScaleResp (Some m) \<Rightarrow>
         s\<lparr>mSumTicketsReturned := mSumTicketsReturned s + length (m_Tickets m), mMatchesReturned := mMatchesReturned s + 1,
           received := received s @ [m],
           fetchers := (fetchers s)[i := if BackendAssignsTickets sc then SendAssign m else after_assign sc m]\<rparr>)"

definition send_assign :: "scenario \<Rightarrow> match \<Rightarrow> nat \<Rightarrow> scale_backend \<Rightarrow> scale_backend" where
  "send_assign sc m i s = s\<lparr>matchesToAssign := matchesToAssign s @ [m], fetchers := (fetchers s)[i := after_assign sc m]\<rparr>"

definition send_ack :: "match \<Rightarrow> nat \<Rightarrow> scale_backend \<Rightarrow> scale_backend" where
  "send_ack m i s = s\<lparr>matchesToAcknowledge := matchesToAcknowledge s @ [m], fetchers := (fetchers s)[i := Receiving]\<rparr>"

text \<open>\<open>runAssignments\<close>: take a match, ask for the assignment of its tickets (the request is \<open>assign_request\<close> of the tutorials), count.\<close>

definition assign_take :: "match \<Rightarrow> nat \<Rightarrow> scale_backend \<Rightarrow> scale_backend" where
  "assign_take m i s = s\<lparr>matchesToAssign := tl (matchesToAssign s), assigners := (assigners s)[i := Assigning m]\<rparr>"

definition assign_done :: "bool \<Rightarrow> match \<Rightarrow> nat \<Rightarrow> scale_backend \<Rightarrow> scale_backend" where
  "assign_done ok m i s =
    (let s1 = s\<lparr>assigners := (assigners s)[i := AssignIdle], assigned_ms := assigned_ms s @ [m]\<rparr>
     in if ok then s1\<lparr>mMatchesAssigned := mMatchesAssigned s + 1\<rparr> else s1\<lparr>mMatchAssignsFailed := mMatchAssignsFailed s + 1\<rparr>)"

text \<open>\<open>runAcknowledgeBackfills\<close>: a match without a backfill is passed over, a failed acknowledgement is not followed by a deletion.\<close>

definition match_backfill :: "match \<Rightarrow> backfill option" where
  "match_backfill m = (case m_Backfill m of None \<Rightarrow> None | Some b \<Rightarrow> if bf_Id b = [] then None else Some b)"

definition ack_take :: "match \<Rightarrow> nat \<Rightarrow> scale_backend \<Rightarrow> scale_backend" where
  "ack_take m i s =
    (let s1 = s\<lparr>matchesToAcknowledge := tl (matchesToAcknowledge s)\<rparr>
     in case match_backfill m of
          None \<Rightarrow> s1\<lparr>handled_ms := handled_ms s @ [m]\<rparr>
        | Some b \<Rightarrow> s1\<lparr>ackers := (ackers s)[i := Acking m b]\<rparr>)"

definition ack_done :: "scenario \<Rightarrow> bool \<Rightarrow> match \<Rightarrow> backfill \<Rightarrow> nat \<Rightarrow> scale_backend \<Rightarrow> scale_backend" where
  "ack_done sc ok m b i s =
    (let s1 = s\<lparr>handled_ms := handled_ms s @ [m]\<rparr>
     in if ok \<and> BackendDeletesBackfills sc
        then s1\<lparr>to_be_deleted := to_be_deleted s @ [b], ackers := (ackers s)[i := SendDelete b]\<rparr>
        else s1\<lparr>ackers := (ackers s)[i := AckIdle]\<rparr>)"

definition send_delete :: "backfill \<Rightarrow> nat \<Rightarrow> scale_backend \<Rightarrow> scale_backend" where
  "send_delete b i s = s\<lparr>backfillsToDelete := backfillsToDelete s @ [b], ackers := (ackers s)[i := AckIdle]\<rparr>"

text \<open>\<open>runDeleteBackfills\<close>: the condition of the scenario may panic, which ends the program.\<close>

definition delete_take :: "scenario \<Rightarrow> backfill \<Rightarrow> nat \<Rightarrow> scale_backend \<Rightarrow> scale_backend" where
  "delete_take sc b i s =
    (let s1 = s\<lparr>backfillsToDelete := tl (backfillsToDelete s)\<rparr>
     in case sc_BackfillDeleteCond sc b of
          Inl _ \<Rightarrow> s\<lparr>sb_crashed := True\<rparr>
        | Inr False \<Rightarrow> s1\<lparr>handled_bs := handled_bs s @ [b]\<rparr>
        | Inr True \<Rightarrow> s1\<lparr>deleters := (deleters s)[i := Deleting b]\<rparr>)"

definition delete_done :: "bool \<Rightarrow> backfill \<Rightarrow> nat \<Rightarrow> scale_backend \<Rightarrow> scale_backend" where
  "delete_done ok b i s =
    (let s1 = s\<lparr>deleters := (deleters s)[i := DeleteIdle], handled_bs := handled_bs s @ [b]\<rparr>
     in if ok then s1\<lparr>mBackfillsDeleted := mBackfillsDeleted s + 1\<rparr> else s1\<lparr>mBackfillDeletesFailed := mBackfillDeletesFailed s + 1\<rparr>)"

text \<open>One step of one goroutine. A send on a buffered channel waits for room.\<close>

inductive sb_step :: "scenario \<Rightarrow> scale_backend \<Rightarrow> scale_backend \<Rightarrow> bool" for sc where
  sb_tick: "\<not> sb_crashed s \<Longrightarrow> \<not> ticking s \<Longrightarrow> sb_step sc s (tick_start sc s)"
| sb_tick_end: "\<not> sb_crashed s \<Longrightarrow> ticking s \<Longrightarrow> \<forall>f \<in> set (fetchers s). f = FetchDone \<Longrightarrow> sb_step sc s (tick_end s)"
| sb_call: "\<not> sb_crashed s \<Longrightarrow> i < length (fetchers s) \<Longrightarrow> fetchers s ! i = Calling p \<Longrightarrow> sb_step sc s (fetch_call ok i s)"
| sb_receive: "\<not> sb_crashed s \<Longrightarrow> i < length (fetchers s) \<Longrightarrow> fetchers s ! i = Receiving \<Longrightarrow> sb_step sc s (fetch_receive sc ev i s)"
| sb_send_assign: "\<not> sb_crashed s \<Longrightarrow> i < length (fetchers s) \<Longrightarrow> fetchers s ! i = SendAssign m \<Longrightarrow>
    length (matchesToAssign s) < chan_size \<Longrightarrow> sb_step sc s (send_assign sc m i s)"
| sb_send_ack: "\<not> sb_crashed s \<Longrightarrow> i < length (fetchers s) \<Longrightarrow> fetchers s ! i = SendAck m \<Longrightarrow>
    length (matchesToAcknowledge s) < chan_size \<Longrightarrow> sb_step sc s (send_ack m i s)"
| sb_assign_take: "\<not> sb_crashed s \<Longrightarrow> i < length (assigners s) \<Longrightarrow> assigners s ! i = AssignIdle \<Longrightarrow>
    matchesToAssign s = m # ms \<Longrightarrow> sb_step sc s (assign_take m i s)"
| sb_assign_done: "\<not> sb_crashed s \<Longrightarrow> i < length (assigners s) \<Longrightarrow> assigners s ! i = Assigning m \<Longrightarrow> sb_step sc s (assign_done ok m i s)"
| sb_ack_take: "\<not> sb_crashed s \<Longrightarrow> i < length (ackers s) \<Longrightarrow> ackers s ! i = AckIdle \<Longrightarrow>
    matchesToAcknowledge s = m # ms \<Longrightarrow> sb_step sc s (ack_take m i s)"
| sb_ack_done: "\<not> sb_crashed s \<Longrightarrow> i < length (ackers s) \<Longrightarrow> ackers s ! i = Acking m b \<Longrightarrow> sb_step sc s (ack_done sc ok m b i s)"
| sb_send_delete: "\<not> sb_crashed s \<Longrightarrow> i < length (ackers s) \<Longrightarrow> ackers s ! i = SendDelete b \<Longrightarrow>
    length (backfillsToDelete s) < chan_size \<Longrightarrow> sb_step sc s (send_delete b i s)"
| sb_delete_take: "\<not> sb_crashed s \<Longrightarrow> i < length (deleters s) \<Longrightarrow> deleters s ! i = DeleteIdle \<Longrightarrow>
    backfillsToDelete s = b # bs \<Longrightarrow> sb_step sc s (delete_take sc b i s)"
| sb_delete_done: "\<not> sb_crashed s \<Longrightarrow> i < length (deleters s) \<Longrightarrow> deleters s ! i = Deleting b \<Longrightarrow> sb_step sc s (delete_done ok b i s)"

abbreviation sb_reachable :: "scenario \<Rightarrow> scale_backend \<Rightarrow> bool" where
  "sb_reachable sc \<equiv> (sb_step sc)\<^sup>*\<^sup>* (scale_backend_init sc)"

lemmas sb_ops = tick_start_def tick_end_def fetch_call_def fetch_receive_def send_assign_def send_ack_def assign_take_def assign_done_def
  ack_take_def ack_done_def send_delete_def delete_take_def delete_done_def after_assign_def

subsection \<open>Where the matches are\<close>

text \<open>The match that a goroutine still has to pass to the assigning workers, to the acknowledging workers, and so on.\<close>

fun to_assign :: "fetcher \<Rightarrow> match option" where
  "to_assign (SendAssign m) = Some m"
| "to_assign _ = None"

fun to_ack :: "scenario \<Rightarrow> fetcher \<Rightarrow> match option" where
  "to_ack sc (SendAssign m) = (if BackendAcknowledgesBackfills sc then Some m else None)"
| "to_ack sc (SendAck m) = Some m"
| "to_ack sc _ = None"

fun active :: "fetcher \<Rightarrow> unit option" where
  "active (Calling p) = None"
| "active FetchDone = None"
| "active _ = Some ()"

fun assigning :: "assigner \<Rightarrow> match option" where
  "assigning AssignIdle = None"
| "assigning (Assigning m) = Some m"

fun acking :: "acker \<Rightarrow> match option" where
  "acking (Acking m b) = Some m"
| "acking _ = None"

fun to_delete :: "acker \<Rightarrow> backfill option" where
  "to_delete (SendDelete b) = Some b"
| "to_delete _ = None"

fun deleting :: "deleter \<Rightarrow> backfill option" where
  "deleting DeleteIdle = None"
| "deleting (Deleting b) = Some b"

definition sb_fetch_inv :: "scale_backend \<Rightarrow> bool" where
  "sb_fetch_inv s \<longleftrightarrow> (\<not> ticking s \<longrightarrow> (\<forall>f \<in> set (fetchers s). f = FetchDone)) \<and>
     mFetchMatchCalls s = mFetchMatchSuccesses s + mFetchMatchErrors s + size (holding active (fetchers s)) \<and>
     mMatchesReturned s = length (received s) \<and> mSumTicketsReturned s = sum_list (map (length \<circ> m_Tickets) (received s))"

definition assign_inv :: "scenario \<Rightarrow> scale_backend \<Rightarrow> bool" where
  "assign_inv sc s \<longleftrightarrow>
     mset (if BackendAssignsTickets sc then received s else []) =
       holding to_assign (fetchers s) + mset (matchesToAssign s) + holding assigning (assigners s) + mset (assigned_ms s) \<and>
     mMatchesAssigned s + mMatchAssignsFailed s = length (assigned_ms s)"

definition ack_inv :: "scenario \<Rightarrow> scale_backend \<Rightarrow> bool" where
  "ack_inv sc s \<longleftrightarrow>
     mset (if BackendAcknowledgesBackfills sc then received s else []) =
       holding (to_ack sc) (fetchers s) + mset (matchesToAcknowledge s) + holding acking (ackers s) + mset (handled_ms s)"

definition delete_inv :: "scenario \<Rightarrow> scale_backend \<Rightarrow> bool" where
  "delete_inv sc s \<longleftrightarrow>
     mset (to_be_deleted s) = holding to_delete (ackers s) + mset (backfillsToDelete s) + holding deleting (deleters s) + mset (handled_bs s) \<and>
     (to_be_deleted s \<noteq> [] \<longrightarrow> BackendDeletesBackfills sc) \<and>
     (\<forall>b. b \<in># holding deleting (deleters s) \<longrightarrow> sc_BackfillDeleteCond sc b = Inr True) \<and>
     mBackfillsDeleted s + mBackfillDeletesFailed s = length (filter (\<lambda>b. sc_BackfillDeleteCond sc b = Inr True) (handled_bs s))"

lemma holding_Calling [simp]: "(\<And>p. f (Calling p) = None) \<Longrightarrow> holding f (map Calling ps) = {#}"
  by (rule holding_none) auto

lemma holding_done: "\<forall>w \<in> set ws. w = FetchDone \<Longrightarrow> f FetchDone = None \<Longrightarrow> holding f ws = {#}"
  by (rule holding_none) auto

lemma busy_ticking: "sb_fetch_inv s \<Longrightarrow> i < length (fetchers s) \<Longrightarrow> fetchers s ! i \<noteq> FetchDone \<Longrightarrow> ticking s"
  unfolding sb_fetch_inv_def by (metis nth_mem)

lemma sb_fetch_inv_step: "sb_step sc s t \<Longrightarrow> sb_fetch_inv s \<Longrightarrow> sb_fetch_inv t"
proof (induction rule: sb_step.induct)
  case (sb_tick s)
  then show ?case by (simp add: sb_fetch_inv_def sb_ops holding_done)
next
  case (sb_call s i p ok)
  then show ?case using busy_ticking [of s i] by (auto simp: sb_fetch_inv_def sb_ops Let_def)
next
  case (sb_receive s i ev)
  then show ?case using busy_ticking [of s i] holding_busy [of i "fetchers s" active "()"]
    by (auto simp: sb_fetch_inv_def sb_ops split: scale_recv.splits option.splits)
next
  case (sb_send_assign s i m)
  then show ?case using busy_ticking [of s i] holding_busy [of i "fetchers s" active "()"] by (auto simp: sb_fetch_inv_def sb_ops Let_def)
next
  case (sb_send_ack s i m)
  then show ?case using busy_ticking [of s i] holding_busy [of i "fetchers s" active "()"] by (auto simp: sb_fetch_inv_def sb_ops Let_def)
qed (auto simp: sb_fetch_inv_def sb_ops Let_def split: option.splits sum.splits bool.splits)

lemma assign_inv_step: "sb_step sc s t \<Longrightarrow> sb_fetch_inv s \<Longrightarrow> assign_inv sc s \<Longrightarrow> assign_inv sc t"
proof (induction rule: sb_step.induct)
  case (sb_tick s)
  then show ?case by (simp add: assign_inv_def sb_fetch_inv_def sb_ops holding_done split: if_splits)
next
  case (sb_send_assign s i m)
  then show ?case using holding_busy [of i "fetchers s" to_assign m] by (auto simp: assign_inv_def sb_ops split: if_splits)
next
  case (sb_assign_done s i m ok)
  then show ?case using holding_busy [of i "assigners s" assigning m] by (auto simp: assign_inv_def sb_ops Let_def split: if_splits)
qed (auto simp: assign_inv_def sb_ops Let_def split: if_splits scale_recv.splits option.splits sum.splits bool.splits)

lemma ack_inv_step: "sb_step sc s t \<Longrightarrow> sb_fetch_inv s \<Longrightarrow> ack_inv sc s \<Longrightarrow> ack_inv sc t"
proof (induction rule: sb_step.induct)
  case (sb_tick s)
  then show ?case by (simp add: ack_inv_def sb_fetch_inv_def sb_ops holding_done split: if_splits)
next
  case (sb_send_assign s i m)
  then show ?case using holding_busy [of i "fetchers s" "to_ack sc" m] by (auto simp: ack_inv_def sb_ops split: if_splits)
next
  case (sb_send_ack s i m)
  then show ?case using holding_busy [of i "fetchers s" "to_ack sc" m] by (auto simp: ack_inv_def sb_ops split: if_splits)
next
  case (sb_ack_done s i m b ok)
  then show ?case using holding_busy [of i "ackers s" acking m] by (auto simp: ack_inv_def sb_ops Let_def split: if_splits)
qed (auto simp: ack_inv_def sb_ops Let_def split: if_splits scale_recv.splits option.splits sum.splits bool.splits)

lemma delete_inv_step: "sb_step sc s t \<Longrightarrow> delete_inv sc s \<Longrightarrow> delete_inv sc t"
proof (induction rule: sb_step.induct)
  case (sb_send_delete s i b)
  then show ?case using holding_busy [of i "ackers s" to_delete b] by (auto simp: delete_inv_def sb_ops)
next
  case (sb_delete_done s i b ok)
  then show ?case using holding_busy [of i "deleters s" deleting b] by (auto simp: delete_inv_def sb_ops Let_def)
qed (auto simp: delete_inv_def sb_ops Let_def split: scale_recv.splits option.splits sum.splits bool.splits)

definition workers_inv :: "scenario \<Rightarrow> scale_backend \<Rightarrow> bool" where
  "workers_inv sc s \<longleftrightarrow>
     length (assigners s) = (if BackendAssignsTickets sc then 100 else 0) \<and>
     length (ackers s) = (if BackendAcknowledgesBackfills sc then 100 else 0) \<and>
     length (deleters s) = (if BackendDeletesBackfills sc then 100 else 0) \<and>
     length (matchesToAssign s) \<le> chan_size \<and> length (matchesToAcknowledge s) \<le> chan_size \<and> length (backfillsToDelete s) \<le> chan_size"

lemma workers_inv_step: "sb_step sc s t \<Longrightarrow> workers_inv sc s \<Longrightarrow> workers_inv sc t"
  by (induction rule: sb_step.induct)
    (auto simp: workers_inv_def sb_ops Let_def split: scale_recv.splits option.splits sum.splits bool.splits)

definition sb_inv :: "scenario \<Rightarrow> scale_backend \<Rightarrow> bool" where
  "sb_inv sc s \<longleftrightarrow> sb_fetch_inv s \<and> assign_inv sc s \<and> ack_inv sc s \<and> delete_inv sc s \<and> workers_inv sc s"

lemma sb_inv_step: "sb_step sc s t \<Longrightarrow> sb_inv sc s \<Longrightarrow> sb_inv sc t"
  by (simp add: sb_inv_def sb_fetch_inv_step assign_inv_step ack_inv_step delete_inv_step workers_inv_step)

lemma sb_inv_init: "sb_inv sc (scale_backend_init sc)"
  by (simp add: sb_inv_def sb_fetch_inv_def assign_inv_def ack_inv_def delete_inv_def workers_inv_def scale_backend_init_def)

lemma sb_invariant: "sb_reachable sc s \<Longrightarrow> sb_inv sc s"
  by (induction rule: rtranclp_induct) (auto simp: sb_inv_init intro: sb_inv_step)

subsection \<open>The channels drain\<close>

text \<open>The steps still to be done for the matches and backfills that are under way.\<close>

definition load :: "scenario \<Rightarrow> scale_backend \<Rightarrow> nat" where
  "load sc s = 3 * size (holding to_assign (fetchers s)) + 6 * size (holding (to_ack sc) (fetchers s)) +
     2 * length (matchesToAssign s) + size (holding assigning (assigners s)) +
     5 * length (matchesToAcknowledge s) + 4 * size (holding acking (ackers s)) +
     3 * size (holding to_delete (ackers s)) + 2 * length (backfillsToDelete s) + size (holding deleting (deleters s))"

lemma holding_nonempty:
  assumes "holding f ws \<noteq> {#}"
  obtains i a where "i < length ws" and "f (ws ! i) = Some a"
proof -
  from assms obtain w where "w \<in> set ws" "f w \<noteq> None" using holding_none by metis
  then show ?thesis using that by (metis in_set_conv_nth not_None_eq)
qed

lemma holding_empty: "holding f ws = {#} \<Longrightarrow> i < length ws \<Longrightarrow> f (ws ! i) = None"
  using holding_busy [of i ws f] by (cases "f (ws ! i)") auto

definition can_drain :: "scenario \<Rightarrow> scale_backend \<Rightarrow> bool" where
  "can_drain sc s \<longleftrightarrow> (\<exists>t. sb_step sc s t \<and> load sc t < load sc s \<and> received t = received s \<and> \<not> sb_crashed t)"

lemma can_drainI: "sb_step sc s t \<Longrightarrow> load sc t < load sc s \<Longrightarrow> received t = received s \<Longrightarrow> \<not> sb_crashed t \<Longrightarrow> can_drain sc s"
  by (auto simp: can_drain_def)

lemma drain_deleters:
  assumes inv: "sb_inv sc s" "\<not> sb_crashed s" and cond: "\<And>b. \<exists>c. sc_BackfillDeleteCond sc b = Inr c"
    and busy: "holding deleting (deleters s) \<noteq> {#} \<or> backfillsToDelete s \<noteq> []"
  shows "can_drain sc s"
proof (cases "holding deleting (deleters s) = {#}")
  case False
  then obtain i b where i: "i < length (deleters s)" "deleting (deleters s ! i) = Some b" by (rule holding_nonempty)
  then have "deleters s ! i = Deleting b" by (cases "deleters s ! i") auto
  from sb_delete_done [OF inv(2) i(1) this, of sc True] show ?thesis
    by (rule can_drainI) (use holding_busy [of i "deleters s" deleting b] i inv(2) in \<open>auto simp: load_def delete_done_def\<close>)
next
  case True
  with busy obtain b bs where b: "backfillsToDelete s = b # bs" by (cases "backfillsToDelete s") auto
  then have "to_be_deleted s \<noteq> []" using inv(1) by (auto simp: sb_inv_def delete_inv_def)
  then have i: "0 < length (deleters s)" using inv(1) by (auto simp: sb_inv_def delete_inv_def workers_inv_def)
  then have d: "deleting (deleters s ! 0) = None" using True holding_empty by blast
  then have "deleters s ! 0 = DeleteIdle" by (cases "deleters s ! 0") auto
  from sb_delete_take [OF inv(2) i this b] show ?thesis
    by (rule can_drainI) (use i d b cond [of b] inv(2) in \<open>auto simp: load_def delete_take_def Let_def split: bool.splits\<close>)
qed

lemma drain_ackers:
  assumes inv: "sb_inv sc s" "\<not> sb_crashed s" and room: "backfillsToDelete s = []"
    and busy: "holding to_delete (ackers s) \<noteq> {#} \<or> holding acking (ackers s) \<noteq> {#} \<or> matchesToAcknowledge s \<noteq> []"
  shows "can_drain sc s"
proof -
  consider "holding to_delete (ackers s) \<noteq> {#}" | "holding acking (ackers s) \<noteq> {#}"
    | "holding to_delete (ackers s) = {#}" "holding acking (ackers s) = {#}" "matchesToAcknowledge s \<noteq> []"
    using busy by auto
  then show ?thesis
  proof cases
    case 1
    then obtain i b where i: "i < length (ackers s)" "to_delete (ackers s ! i) = Some b" by (rule holding_nonempty)
    then have a: "ackers s ! i = SendDelete b" by (cases "ackers s ! i") auto
    have "length (backfillsToDelete s) < chan_size" by (simp add: room)
    from sb_send_delete [OF inv(2) i(1) a this] show ?thesis
      by (rule can_drainI) (use holding_busy [of i "ackers s" to_delete b] i a inv(2) in \<open>auto simp: load_def send_delete_def\<close>)
  next
    case 2
    then obtain i m where i: "i < length (ackers s)" "acking (ackers s ! i) = Some m" by (rule holding_nonempty)
    then obtain b where a: "ackers s ! i = Acking m b" by (cases "ackers s ! i") auto
    from sb_ack_done [OF inv(2) i(1) a, of sc False] show ?thesis
      by (rule can_drainI) (use holding_busy [of i "ackers s" acking m] i a inv(2) in \<open>auto simp: load_def ack_done_def\<close>)
  next
    case 3
    then obtain m ms where m: "matchesToAcknowledge s = m # ms" by (cases "matchesToAcknowledge s") auto
    then have i: "0 < length (ackers s)" using inv(1) by (auto simp: sb_inv_def ack_inv_def workers_inv_def split: if_splits)
    then have a: "acking (ackers s ! 0) = None" "to_delete (ackers s ! 0) = None" using 3 holding_empty by blast+
    then have "ackers s ! 0 = AckIdle" by (cases "ackers s ! 0") auto
    from sb_ack_take [OF inv(2) i this m] show ?thesis
      by (rule can_drainI) (use i a m inv(2) in \<open>auto simp: load_def ack_take_def Let_def split: option.splits\<close>)
  qed
qed

lemma drain_assigners:
  assumes inv: "sb_inv sc s" "\<not> sb_crashed s"
    and busy: "holding assigning (assigners s) \<noteq> {#} \<or> matchesToAssign s \<noteq> []"
  shows "can_drain sc s"
proof (cases "holding assigning (assigners s) = {#}")
  case False
  then obtain i m where i: "i < length (assigners s)" "assigning (assigners s ! i) = Some m" by (rule holding_nonempty)
  then have "assigners s ! i = Assigning m" by (cases "assigners s ! i") auto
  from sb_assign_done [OF inv(2) i(1) this, of sc True] show ?thesis
    by (rule can_drainI) (use holding_busy [of i "assigners s" assigning m] i inv(2) in \<open>auto simp: load_def assign_done_def\<close>)
next
  case True
  with busy obtain m ms where m: "matchesToAssign s = m # ms" by (cases "matchesToAssign s") auto
  then have i: "0 < length (assigners s)" using inv(1) by (auto simp: sb_inv_def assign_inv_def workers_inv_def split: if_splits)
  then have a: "assigning (assigners s ! 0) = None" using True holding_empty by blast
  then have "assigners s ! 0 = AssignIdle" by (cases "assigners s ! 0") auto
  from sb_assign_take [OF inv(2) i this m] show ?thesis
    by (rule can_drainI) (use i a m inv(2) in \<open>auto simp: load_def assign_take_def\<close>)
qed

lemma drain_fetchers:
  assumes "\<not> sb_crashed s" and room: "matchesToAssign s = []" "matchesToAcknowledge s = []"
    and busy: "holding to_assign (fetchers s) \<noteq> {#} \<or> holding (to_ack sc) (fetchers s) \<noteq> {#}"
  shows "can_drain sc s"
proof -
  obtain i where i: "i < length (fetchers s)" "to_assign (fetchers s ! i) \<noteq> None \<or> to_ack sc (fetchers s ! i) \<noteq> None"
    using busy holding_nonempty by (metis option.distinct(1))
  consider m where "fetchers s ! i = SendAssign m" | m where "fetchers s ! i = SendAck m"
    using i(2) by (cases "fetchers s ! i") auto
  then show ?thesis
  proof cases
    case (1 m)
    have "length (matchesToAssign s) < chan_size" by (simp add: room)
    from sb_send_assign [OF assms(1) i(1) 1 this] show ?thesis
      by (rule can_drainI) (use holding_busy [of i "fetchers s" to_assign m] holding_busy [of i "fetchers s" "to_ack sc" m] i 1 assms(1)
        in \<open>auto simp: load_def send_assign_def after_assign_def\<close>)
  next
    case (2 m)
    have "length (matchesToAcknowledge s) < chan_size" by (simp add: room)
    from sb_send_ack [OF assms(1) i(1) 2 this] show ?thesis
      by (rule can_drainI) (use holding_busy [of i "fetchers s" "to_ack sc" m] i 2 assms(1) in \<open>auto simp: load_def send_ack_def\<close>)
  qed
qed

lemma drain_step:
  assumes "sb_inv sc s" and "\<not> sb_crashed s" and "\<And>b. \<exists>c. sc_BackfillDeleteCond sc b = Inr c" and "load sc s \<noteq> 0"
  shows "can_drain sc s"
  using assms drain_deleters [OF assms(1-3)] drain_ackers [OF assms(1,2)] drain_assigners [OF assms(1,2)] drain_fetchers [OF assms(2), of sc]
  by (fastforce simp: load_def)

lemma drain_all_steps:
  assumes "sb_inv sc s" and "\<not> sb_crashed s" and "\<And>b. \<exists>c. sc_BackfillDeleteCond sc b = Inr c"
  shows "\<exists>t. (sb_step sc)\<^sup>*\<^sup>* s t \<and> received t = received s \<and> load sc t = 0 \<and> sb_inv sc t"
  using assms(1,2)
proof (induction "load sc s" arbitrary: s rule: less_induct)
  case less
  show ?case
  proof (cases "load sc s = 0")
    case True
    then show ?thesis using less.prems by blast
  next
    case False
    from drain_step [OF less.prems assms(3) this] obtain t where
      t: "sb_step sc s t" "load sc t < load sc s" "received t = received s" "\<not> sb_crashed t" by (auto simp: can_drain_def)
    from less.hyps [OF t(2) sb_inv_step [OF t(1) less.prems(1)] t(4)] t show ?thesis by (metis converse_rtranclp_into_rtranclp)
  qed
qed


abbreviation w_scenario :: scenario where
  "w_scenario \<equiv> \<lparr>FrontendTicketCreatedQPS = 100, FrontendTotalTicketsToCreate = 5, FrontendTotalBackfillsToCreate = 2,
     FrontendCreatesBackfillsOnStart = True, FrontendDeletesTickets = True, BackendAssignsTickets = True,
     BackendAcknowledgesBackfills = True, BackendDeletesBackfills = True, sc_Ticket = bfs_Ticket, sc_Backfill = bfs_Backfill,
     sc_BackfillDeleteCond = (\<lambda>b. Inr True), sc_Profiles = bfs_Profiles, MMF = (\<lambda>_ _ _ _ _ _ _. None), sc_Evaluator = bfs_Evaluate\<rparr>"

text \<open>The state after the first match was received.\<close>

abbreviation w_received :: scale_backend where
  "w_received \<equiv> fetch_receive w_scenario (ScaleResp (Some w_match_a)) 0 (fetch_call True 0 (tick_start w_scenario (scale_backend_init w_scenario)))"


section \<open>The frontend driver\<close>

subsection \<open>Gauges\<close>

text \<open>
  \<open>concurrentGauge\<close>: a value changed under a mutex; what was recorded last is the value. A \<open>stateGauge\<close> is the gauge
  its goroutine is counted in, if any; \<open>stop\<close> and \<open>start\<close> take the lock once for every gauge they change.
\<close>

datatype gauge = RunnersWaiting | RunnersCreating

datatype runner_phase = Started | Sleeping | Switching | Creating | Watching string | Deleting_ticket string | Returning | Gone

record sf_runner =
  r_phase :: runner_phase
  r_gauge :: "gauge option"

text \<open>
  A runner is \<open>Switching\<close> between \<open>stop\<close> of one gauge and the start of the next, and \<open>Returning\<close> before the deferred \<open>stop\<close>.
  \<open>tickets_made\<close> and \<open>tickets_gone\<close> are ghosts: the ids created, and those whose deletion was asked for.
\<close>

record scale_frontend =
  gauge_value :: "gauge \<Rightarrow> int"
  mTicketsCreated :: nat
  mTicketCreationsFailed :: nat
  mTicketsDeleted :: nat
  mTicketDeletesFailed :: nat
  mTicketsTimeToAssignment :: nat
  runners :: "sf_runner list"
  tickets_made :: "string list"
  tickets_gone :: "string list"

definition concurrentGauge :: "gauge \<Rightarrow> int \<Rightarrow> scale_frontend \<Rightarrow> scale_frontend" where
  "concurrentGauge g delta s = s\<lparr>gauge_value := (gauge_value s)(g := gauge_value s g + delta)\<rparr>"

definition set_runner :: "nat \<Rightarrow> sf_runner \<Rightarrow> scale_frontend \<Rightarrow> scale_frontend" where
  "set_runner i r s = s\<lparr>runners := (runners s)[i := r]\<rparr>"

definition gauge_stop :: "nat \<Rightarrow> sf_runner \<Rightarrow> scale_frontend \<Rightarrow> scale_frontend" where
  "gauge_stop i r s =
    (case r_gauge r of None \<Rightarrow> set_runner i r s | Some g \<Rightarrow> set_runner i (r\<lparr>r_gauge := None\<rparr>) (concurrentGauge g (-1) s))"

definition gauge_start :: "gauge \<Rightarrow> nat \<Rightarrow> sf_runner \<Rightarrow> scale_frontend \<Rightarrow> scale_frontend" where
  "gauge_start g i r s = set_runner i (r\<lparr>r_gauge := Some g\<rparr>) (concurrentGauge g 1 s)"

definition new_runner :: sf_runner where
  "new_runner = \<lparr>r_phase = Started, r_gauge = None\<rparr>"

definition scale_frontend_init :: scale_frontend where
  "scale_frontend_init = \<lparr>gauge_value = \<lambda>_. 0, mTicketsCreated = 0, mTicketCreationsFailed = 0, mTicketsDeleted = 0,
     mTicketDeletesFailed = 0, mTicketsTimeToAssignment = 0, runners = [], tickets_made = [], tickets_gone = []\<rparr>"

subsection \<open>Runners\<close>

text \<open>The loop over one tick in \<open>run\<close>: how many runners are started.\<close>

fun tick_loop :: "int \<Rightarrow> int \<Rightarrow> nat \<Rightarrow> nat \<Rightarrow> nat" where
  "tick_loop ticketTotal totalCreated 0 started = started"
| "tick_loop ticketTotal totalCreated (Suc i) started =
    tick_loop ticketTotal totalCreated i (if ticketTotal = -1 \<or> totalCreated < ticketTotal then started + 1 else started)"

definition frontend_tick :: "scenario \<Rightarrow> scale_frontend \<Rightarrow> scale_frontend" where
  "frontend_tick sc s =
    (let n = tick_loop (FrontendTotalTicketsToCreate sc) 0 (nat (FrontendTicketCreatedQPS sc)) 0
     in s\<lparr>runners := runners s @ replicate n new_runner\<rparr>)"

text \<open>\<open>createTicket\<close>, \<open>watchAssignments\<close> and \<open>deleteTicket\<close> in a runner.\<close>

definition runner_create :: "string res \<Rightarrow> nat \<Rightarrow> sf_runner \<Rightarrow> scale_frontend \<Rightarrow> scale_frontend" where
  "runner_create resp i r s =
    (case resp of
       Inl e \<Rightarrow> set_runner i (r\<lparr>r_phase := Returning\<rparr>) (s\<lparr>mTicketCreationsFailed := mTicketCreationsFailed s + 1\<rparr>)
     | Inr t \<Rightarrow> set_runner i (r\<lparr>r_phase := Watching t\<rparr>)
         (s\<lparr>mTicketsCreated := mTicketsCreated s + 1, tickets_made := tickets_made s @ [t]\<rparr>))"

text \<open>A response of the stream: the loop goes on while the connection is empty; a failed call of \<open>WatchAssignments\<close> is an error as well.\<close>

definition runner_watch :: "scenario \<Rightarrow> assignment option res \<Rightarrow> string \<Rightarrow> nat \<Rightarrow> sf_runner \<Rightarrow> scale_frontend \<Rightarrow> scale_frontend" where
  "runner_watch sc resp t i r s =
    (let r' = r\<lparr>r_phase := if FrontendDeletesTickets sc then Deleting_ticket t else Returning\<rparr>
     in case resp of
          Inl e \<Rightarrow> set_runner i r' s
        | Inr a \<Rightarrow> if (case a of None \<Rightarrow> [] | Some a \<Rightarrow> a_Connection a) = [] then s
            else set_runner i r' (s\<lparr>mTicketsTimeToAssignment := mTicketsTimeToAssignment s + 1\<rparr>))"

definition runner_delete :: "bool \<Rightarrow> string \<Rightarrow> nat \<Rightarrow> sf_runner \<Rightarrow> scale_frontend \<Rightarrow> scale_frontend" where
  "runner_delete ok t i r s =
    (let s1 = set_runner i (r\<lparr>r_phase := Returning\<rparr>) (s\<lparr>tickets_gone := tickets_gone s @ [t]\<rparr>)
     in if ok then s1\<lparr>mTicketsDeleted := mTicketsDeleted s + 1\<rparr> else s1\<lparr>mTicketDeletesFailed := mTicketDeletesFailed s + 1\<rparr>)"

inductive sf_step :: "scenario \<Rightarrow> scale_frontend \<Rightarrow> scale_frontend \<Rightarrow> bool" for sc where
  sf_tick: "sf_step sc s (frontend_tick sc s)"
| sf_start: "i < length (runners s) \<Longrightarrow> runners s ! i = r \<Longrightarrow> r_phase r = Started \<Longrightarrow> sf_step sc s (gauge_start RunnersWaiting i (r\<lparr>r_phase := Sleeping\<rparr>) s)"
| sf_wake: "i < length (runners s) \<Longrightarrow> runners s ! i = r \<Longrightarrow> r_phase r = Sleeping \<Longrightarrow> sf_step sc s (gauge_stop i (r\<lparr>r_phase := Switching\<rparr>) s)"
| sf_creating: "i < length (runners s) \<Longrightarrow> runners s ! i = r \<Longrightarrow> r_phase r = Switching \<Longrightarrow> sf_step sc s (gauge_start RunnersCreating i (r\<lparr>r_phase := Creating\<rparr>) s)"
| sf_create: "i < length (runners s) \<Longrightarrow> runners s ! i = r \<Longrightarrow> r_phase r = Creating \<Longrightarrow> sf_step sc s (runner_create resp i r s)"
| sf_watch: "i < length (runners s) \<Longrightarrow> runners s ! i = r \<Longrightarrow> r_phase r = Watching t \<Longrightarrow> sf_step sc s (runner_watch sc wresp t i r s)"
| sf_delete: "i < length (runners s) \<Longrightarrow> runners s ! i = r \<Longrightarrow> r_phase r = Deleting_ticket t \<Longrightarrow> sf_step sc s (runner_delete ok t i r s)"
| sf_return: "i < length (runners s) \<Longrightarrow> runners s ! i = r \<Longrightarrow> r_phase r = Returning \<Longrightarrow> sf_step sc s (gauge_stop i (r\<lparr>r_phase := Gone\<rparr>) s)"

abbreviation sf_reachable :: "scenario \<Rightarrow> scale_frontend \<Rightarrow> bool" where
  "sf_reachable sc \<equiv> (sf_step sc)\<^sup>*\<^sup>* scale_frontend_init"

lemmas sf_ops = frontend_tick_def gauge_start_def gauge_stop_def set_runner_def concurrentGauge_def runner_create_def runner_watch_def
  runner_delete_def new_runner_def Let_def

subsection \<open>Gauges count the runners, and no ticket is left behind\<close>

text \<open>The gauge that a runner is counted in, by its phase; the ticket it still has to delete.\<close>

fun phase_gauge :: "runner_phase \<Rightarrow> gauge option" where
  "phase_gauge Sleeping = Some RunnersWaiting"
| "phase_gauge Started = None"
| "phase_gauge Switching = None"
| "phase_gauge Gone = None"
| "phase_gauge _ = Some RunnersCreating"

definition in_gauge :: "gauge \<Rightarrow> sf_runner \<Rightarrow> unit option" where
  "in_gauge g r = (if r_gauge r = Some g then Some () else None)"

definition keeps :: "sf_runner \<Rightarrow> string option" where
  "keeps r = (case r_phase r of Watching t \<Rightarrow> Some t | Deleting_ticket t \<Rightarrow> Some t | _ \<Rightarrow> None)"

definition sf_inv :: "scenario \<Rightarrow> scale_frontend \<Rightarrow> bool" where
  "sf_inv sc s \<longleftrightarrow> (\<forall>r \<in> set (runners s). r_gauge r = phase_gauge (r_phase r)) \<and>
     (\<forall>g. gauge_value s g = int (size (holding (in_gauge g) (runners s)))) \<and>
     mTicketsCreated s = length (tickets_made s) \<and> mTicketsDeleted s + mTicketDeletesFailed s = length (tickets_gone s) \<and>
     (if FrontendDeletesTickets sc then mset (tickets_made s) = holding keeps (runners s) + mset (tickets_gone s)
      else tickets_gone s = [] \<and> (\<forall>r \<in> set (runners s). \<forall>t. r_phase r \<noteq> Deleting_ticket t))"

lemma size_holding_upd:
  "i < length ws \<Longrightarrow> int (size (holding f (ws[i := w]))) =
     int (size (holding f ws)) - int (size (opt_mset (f (ws ! i)))) + int (size (opt_mset (f w)))"
  using holding_upd [of i ws f "ws ! i"] by (simp add: holding_upd)

lemma runner_inv_upd:
  assumes "sf_inv sc s" and "i < length (runners s)" and "runners s ! i = r"
  shows "r_gauge r = phase_gauge (r_phase r)"
  using assms nth_mem [of i "runners s"] by (simp add: sf_inv_def)

lemma sf_inv_step: "sf_step sc s t \<Longrightarrow> sf_inv sc s \<Longrightarrow> sf_inv sc t"
proof (induction rule: sf_step.induct)
  case (sf_tick s)
  then show ?case by (auto simp: sf_inv_def sf_ops in_gauge_def keeps_def)
next
  case (sf_start i s r)
  then show ?case using runner_inv_upd [of sc s i r]
    by (auto simp: sf_inv_def sf_ops size_holding_upd in_gauge_def keeps_def dest!: subsetD [OF set_update_subset_insert])
next
  case (sf_wake i s r)
  then show ?case using runner_inv_upd [of sc s i r]
    by (auto simp: sf_inv_def sf_ops size_holding_upd in_gauge_def keeps_def dest!: subsetD [OF set_update_subset_insert])
next
  case (sf_creating i s r)
  then show ?case using runner_inv_upd [of sc s i r]
    by (auto simp: sf_inv_def sf_ops size_holding_upd in_gauge_def keeps_def dest!: subsetD [OF set_update_subset_insert])
next
  case (sf_create i s r resp)
  then show ?case using runner_inv_upd [of sc s i r]
    by (auto simp: sf_inv_def sf_ops size_holding_upd in_gauge_def keeps_def split: sum.splits dest!: subsetD [OF set_update_subset_insert])
next
  case (sf_watch i s r t wresp)
  then show ?case using runner_inv_upd [of sc s i r] holding_busy [of i "runners s" keeps t]
    by (auto simp: sf_inv_def sf_ops size_holding_upd in_gauge_def keeps_def split: sum.splits dest!: subsetD [OF set_update_subset_insert])
next
  case (sf_delete i s r t ok)
  then have "FrontendDeletesTickets sc" using nth_mem [of i "runners s"] by (auto simp: sf_inv_def split: if_splits)
  with sf_delete show ?case using runner_inv_upd [of sc s i r] holding_busy [of i "runners s" keeps t]
    by (auto simp: sf_inv_def sf_ops size_holding_upd in_gauge_def keeps_def dest!: subsetD [OF set_update_subset_insert])
next
  case (sf_return i s r)
  then show ?case using runner_inv_upd [of sc s i r]
    by (auto simp: sf_inv_def sf_ops size_holding_upd in_gauge_def keeps_def dest!: subsetD [OF set_update_subset_insert])
qed

lemma sf_inv_init: "sf_inv sc scale_frontend_init"
  by (simp add: sf_inv_def scale_frontend_init_def)

lemma sf_invariant: "sf_reachable sc s \<Longrightarrow> sf_inv sc s"
  by (induction rule: rtranclp_induct) (auto simp: sf_inv_init intro: sf_inv_step)

lemma tick_loop_all: "tot = -1 \<or> 0 < tot \<Longrightarrow> tick_loop tot 0 n k = n + k"
  by (induction n arbitrary: k) auto

lemma in_gauge_phase:
  "\<forall>r \<in> set rs. r_gauge r = phase_gauge (r_phase r) \<Longrightarrow>
   size (holding (in_gauge g) rs) = length (filter (\<lambda>r. phase_gauge (r_phase r) = Some g) rs)"
  by (induction rs) (auto simp: in_gauge_def)

text \<open>
  The frontend driver keeps its books. In every interleaving of its runners, and however the services
  answer, each of the two gauges shows the number of runners in the phases it stands for; the counters agree
  with the tickets created and deleted; and, if the scenario deletes tickets, every ticket created is either
  with a runner that still watches or deletes it, or its deletion was asked for exactly once. So when all
  runners are gone the gauges are zero and no ticket is left.
\<close>

theorem scale_frontend_accounts:
  assumes "sf_reachable sc s"
  shows "(\<forall>g. gauge_value s g = int (length (filter (\<lambda>r. phase_gauge (r_phase r) = Some g) (runners s)))) \<and>
    mTicketsCreated s = length (tickets_made s) \<and> mTicketsDeleted s + mTicketDeletesFailed s = length (tickets_gone s) \<and>
    (FrontendDeletesTickets sc \<longrightarrow> mset (tickets_made s) = holding keeps (runners s) + mset (tickets_gone s)) \<and>
    (FrontendDeletesTickets sc \<and> (\<forall>r \<in> set (runners s). r_phase r = Gone) \<longrightarrow>
      (\<forall>g. gauge_value s g = 0) \<and> mset (tickets_gone s) = mset (tickets_made s))"
proof -
  from sf_invariant [OF assms] have inv: "\<forall>r \<in> set (runners s). r_gauge r = phase_gauge (r_phase r)"
    "\<forall>g. gauge_value s g = int (size (holding (in_gauge g) (runners s)))"
    "mTicketsCreated s = length (tickets_made s)" "mTicketsDeleted s + mTicketDeletesFailed s = length (tickets_gone s)"
    "FrontendDeletesTickets sc \<longrightarrow> mset (tickets_made s) = holding keeps (runners s) + mset (tickets_gone s)"
    by (simp_all add: sf_inv_def split: if_splits)
  have "holding keeps (runners s) = {#}" if "\<forall>r \<in> set (runners s). r_phase r = Gone"
    by (rule holding_none) (use that in \<open>simp add: keeps_def\<close>)
  moreover have "filter (\<lambda>r. phase_gauge (r_phase r) = Some g) (runners s) = []" if "\<forall>r \<in> set (runners s). r_phase r = Gone" for g
    using that by (simp add: filter_empty_conv)
  ultimately show ?thesis using inv in_gauge_phase [OF inv(1)] by simp
qed

abbreviation w_started :: scale_frontend where
  "w_started \<equiv> frontend_tick w_scenario scale_frontend_init"

theorem scale_frontend_accounts_witness:
  "sf_reachable w_scenario w_started \<and> length (runners w_started) = 100 \<and> gauge_value w_started RunnersWaiting = 0 \<and>
   mTicketsCreated w_started = 0 \<and> mset (tickets_made w_started) = holding keeps (runners w_started) + mset (tickets_gone w_started)"
proof -
  have reach: "sf_reachable w_scenario w_started" using sf_tick [of w_scenario scale_frontend_init] by simp
  have "length (runners w_started) = 100" by (simp add: sf_ops tick_loop_all scale_frontend_init_def)
  moreover have "gauge_value w_started RunnersWaiting = 0" "tickets_made w_started = []" by (simp_all add: sf_ops scale_frontend_init_def)
  ultimately show ?thesis using scale_frontend_accounts [OF reach] reach by simp
qed

text \<open>
  \<open>FrontendTotalTicketsToCreate\<close> is not a bound: the number of tickets already created stays 0 in \<open>run\<close>, so every
  tick starts as many runners as the first one, for any positive total.
\<close>

theorem scale_frontend_unbounded:
  assumes "0 < FrontendTotalTicketsToCreate sc" and "0 < FrontendTicketCreatedQPS sc"
  shows "\<exists>s. sf_reachable sc s \<and> n \<le> length (runners s)"
proof (induction n)
  case 0
  then show ?case by blast
next
  case (Suc n)
  then obtain s where s: "sf_reachable sc s" "n \<le> length (runners s)" by blast
  have "sf_reachable sc (frontend_tick sc s)" using s(1) sf_tick by (rule rtranclp.rtrancl_into_rtrancl)
  moreover have "Suc n \<le> length (runners (frontend_tick sc s))" using s(2) assms by (simp add: frontend_tick_def tick_loop_all)
  ultimately show ?case by blast
qed

subsection \<open>Backfills at the start\<close>

text \<open>\<open>createBackfill\<close> and the loop of \<open>createBackfills\<close>, which stops at the first error; \<open>run\<close> ignores its result. The counters come first.\<close>

definition createBackfill :: "(backfill option \<Rightarrow> 's \<Rightarrow> unit res \<times> 's) \<Rightarrow> scenario \<Rightarrow> nat \<times> nat \<times> 's \<Rightarrow> unit res \<times> nat \<times> nat \<times> 's" where
  "createBackfill create sc x =
    (case x of (mBackfillsCreated, mBackfillCreationsFailed, s) \<Rightarrow>
       (case create (sc_Backfill sc) s of
          (Inl e, s') \<Rightarrow> (Inl e, mBackfillsCreated, mBackfillCreationsFailed + 1, s')
        | (Inr _, s') \<Rightarrow> (Inr (), mBackfillsCreated + 1, mBackfillCreationsFailed, s')))"

fun createBackfills :: "(backfill option \<Rightarrow> 's \<Rightarrow> unit res \<times> 's) \<Rightarrow> scenario \<Rightarrow> nat \<Rightarrow> nat \<times> nat \<times> 's \<Rightarrow> unit res \<times> nat \<times> nat \<times> 's" where
  "createBackfills create sc 0 x = (Inr (), x)"
| "createBackfills create sc (Suc n) x =
    (case createBackfill create sc x of (Inl e, x') \<Rightarrow> (Inl e, x') | (Inr _, x') \<Rightarrow> createBackfills create sc n x')"

lemma createBackfills_count:
  "createBackfills create sc n (c, f, s) = (r, c', f', s') \<Longrightarrow>
   (case r of Inr _ \<Rightarrow> c' = c + n \<and> f' = f | Inl e \<Rightarrow> c \<le> c' \<and> c' < c + n \<and> f' = f + 1)"
proof (induction n arbitrary: c f s)
  case (Suc n)
  then show ?case
    by (cases r) (fastforce simp: createBackfill_def split: prod.splits sum.splits)+
qed auto

end
