(* ===== verification/Filter_Testcases.thy ===== *)
theory Filter_Testcases
  imports Pool_Filter
begin

text \<open>
  The table of filtering cases (\<open>internal/filter/testcases/testcases.go\<close>) that the filter, the query service and
  the end-to-end tests share: search fields and a pool, and whether an entity with these fields is to be
  found through the pool. The table is data, translated case by case; the filter of \<open>Pool_Filter\<close> is shown
  to decide all of it.
\<close>

section \<open>The cases\<close>

record test_case =
  tc_Name :: string
  tc_SearchFields :: "search_fields option"
  tc_Pool :: pool

text \<open>\<open>timestamp\<close>: \<open>ptypes.TimestampProto\<close> is the parameter \<open>proto\<close>; its error is a panic.\<close>

definition tc_timestamp :: "(gtime \<Rightarrow> timestamp res) \<Rightarrow> gtime \<Rightarrow> timestamp res" where
  "tc_timestamp proto t = (case proto t of Inl e \<Rightarrow> Inl Panic | Inr tsp \<Rightarrow> Inr tsp)"

definition range_filter :: "string \<Rightarrow> f64 \<Rightarrow> f64 \<Rightarrow> exclude \<Rightarrow> double_range_filter" where
  "range_filter arg mn mx ex = \<lparr>drf_DoubleArg = arg, drf_Max = mx, drf_Min = mn, drf_Exclude = ex\<rparr>"

definition simpleDoubleRange :: "string \<Rightarrow> f64 \<Rightarrow> f64 \<Rightarrow> f64 \<Rightarrow> exclude \<Rightarrow> test_case" where
  "simpleDoubleRange name v mn mx ex =
    \<lparr>tc_Name = ''double range '' @ name,
     tc_SearchFields = Some (emptySearchFields\<lparr>DoubleArgs := [''field'' \<mapsto> v]\<rparr>),
     tc_Pool = empty_pool\<lparr>p_DoubleRangeFilters := [range_filter ''field'' mn mx ex]\<rparr>\<rparr>"

definition multipleFilters :: "bool \<Rightarrow> bool \<Rightarrow> bool \<Rightarrow> test_case" where
  "multipleFilters doubleRange stringEquals tagPresent =
    (let a = (if \<not> doubleRange then Fin 10 else Fin 0);
         b = (if \<not> stringEquals then ''bye'' else ''hi'');
         c = (if \<not> tagPresent then ''cya'' else ''yo'');
         show = (\<lambda>x. if x then ''true'' else ''false'')
     in \<lparr>tc_Name = ''multiplefilters: '' @ show doubleRange @ '', '' @ show stringEquals @ '', '' @ show tagPresent,
         tc_SearchFields = Some \<lparr>DoubleArgs = [''a'' \<mapsto> a], StringArgs = [''b'' \<mapsto> b], Tags = [c]\<rparr>,
         tc_Pool = empty_pool\<lparr>p_DoubleRangeFilters := [range_filter ''a'' (Fin (- 1)) (Fin 1) ExNone],
           p_StringEqualsFilters := [\<lparr>sef_StringArg = ''b'', sef_Value = ''hi''\<rparr>],
           p_TagPresentFilters := [\<lparr>tpf_Tag = ''yo''\<rparr>]\<rparr>\<rparr>)"

text \<open>Shapes that many cases share: string criteria, tag criteria and windows of the creation time.\<close>

definition string_case :: "string \<Rightarrow> (string \<rightharpoonup> string) option \<Rightarrow> string \<Rightarrow> string \<Rightarrow> test_case" where
  "string_case name args arg v = \<lparr>tc_Name = name,
     tc_SearchFields = map_option (\<lambda>m. emptySearchFields\<lparr>StringArgs := m\<rparr>) args,
     tc_Pool = empty_pool\<lparr>p_StringEqualsFilters := [\<lparr>sef_StringArg = arg, sef_Value = v\<rparr>]\<rparr>\<rparr>"

definition tag_case :: "string \<Rightarrow> string list option \<Rightarrow> string list \<Rightarrow> test_case" where
  "tag_case name tags wanted = \<lparr>tc_Name = name,
     tc_SearchFields = map_option (\<lambda>ts. emptySearchFields\<lparr>Tags := ts\<rparr>) tags,
     tc_Pool = empty_pool\<lparr>p_TagPresentFilters := map (\<lambda>t. \<lparr>tpf_Tag = t\<rparr>) wanted\<rparr>\<rparr>"

definition created_case :: "string \<Rightarrow> timestamp option \<Rightarrow> timestamp option \<Rightarrow> test_case" where
  "created_case name before after = \<lparr>tc_Name = name, tc_SearchFields = None,
     tc_Pool = empty_pool\<lparr>p_CreatedBefore := before, p_CreatedAfter := after\<rparr>\<rparr>"

definition included_ranges :: "test_case list" where
  "included_ranges =
        [simpleDoubleRange ''simpleInRange'' (Fin 5) (Fin 0) (Fin 10) ExNone,
         simpleDoubleRange ''simpleInRange'' (Fin 5) (Fin 0) (Fin 10) ExMin,
         simpleDoubleRange ''simpleInRange'' (Fin 5) (Fin 0) (Fin 10) ExMax,
         simpleDoubleRange ''simpleInRange'' (Fin 5) (Fin 0) (Fin 10) ExBoth,
         simpleDoubleRange ''exactMatch'' (Fin 5) (Fin 5) (Fin 5) ExNone,
         simpleDoubleRange ''infinityMax'' PosInf (Fin 0) PosInf ExNone,
         simpleDoubleRange ''infinityMax'' PosInf (Fin 0) PosInf ExMin,
         simpleDoubleRange ''infinityMin'' NegInf NegInf (Fin 0) ExNone,
         simpleDoubleRange ''infinityMin'' NegInf NegInf (Fin 0) ExMax,
         simpleDoubleRange ''excludeNone'' (Fin 0) (Fin 0) (Fin 1) ExNone,
         simpleDoubleRange ''excludeNone'' (Fin 1) (Fin 0) (Fin 1) ExNone,
         simpleDoubleRange ''excludeMin'' (Fin 1) (Fin 0) (Fin 1) ExMin,
         simpleDoubleRange ''excludeMax'' (Fin 0) (Fin 0) (Fin 1) ExMax,
         simpleDoubleRange ''excludeBoth'' (Fin 2) (Fin 0) (Fin 3) ExBoth,
         simpleDoubleRange ''excludeBoth'' (Fin 1) (Fin 0) (Fin 3) ExBoth]"

definition excluded_ranges :: "test_case list" where
  "excluded_ranges =
        [simpleDoubleRange ''exactMatch'' (Fin 5) (Fin 5) (Fin 5) ExMin,
         simpleDoubleRange ''exactMatch'' (Fin 5) (Fin 5) (Fin 5) ExMax,
         simpleDoubleRange ''exactMatch'' (Fin 5) (Fin 5) (Fin 5) ExBoth,
         simpleDoubleRange ''valueTooLow'' (Fin (- 1)) (Fin 0) (Fin 10) ExNone,
         simpleDoubleRange ''valueTooLow'' (Fin (- 1)) (Fin 0) (Fin 10) ExMin,
         simpleDoubleRange ''valueTooLow'' (Fin (- 1)) (Fin 0) (Fin 10) ExMax,
         simpleDoubleRange ''valueTooLow'' (Fin (- 1)) (Fin 0) (Fin 10) ExBoth,
         simpleDoubleRange ''valueTooHigh'' (Fin 11) (Fin 0) (Fin 10) ExNone,
         simpleDoubleRange ''valueTooHigh'' (Fin 11) (Fin 0) (Fin 10) ExMin,
         simpleDoubleRange ''valueTooHigh'' (Fin 11) (Fin 0) (Fin 10) ExMax,
         simpleDoubleRange ''valueTooHigh'' (Fin 11) (Fin 0) (Fin 10) ExBoth,
         simpleDoubleRange ''minIsNan'' (Fin 5) NaN (Fin 10) ExNone,
         simpleDoubleRange ''minIsNan'' (Fin 5) NaN (Fin 10) ExMin,
         simpleDoubleRange ''minIsNan'' (Fin 5) NaN (Fin 10) ExMax,
         simpleDoubleRange ''minIsNan'' (Fin 5) NaN (Fin 10) ExBoth,
         simpleDoubleRange ''maxIsNan'' (Fin 5) (Fin 0) NaN ExNone,
         simpleDoubleRange ''maxIsNan'' (Fin 5) (Fin 0) NaN ExMin,
         simpleDoubleRange ''maxIsNan'' (Fin 5) (Fin 0) NaN ExMax,
         simpleDoubleRange ''maxIsNan'' (Fin 5) (Fin 0) NaN ExBoth,
         simpleDoubleRange ''minMaxAreNan'' (Fin 5) NaN NaN ExNone,
         simpleDoubleRange ''minMaxAreNan'' (Fin 5) NaN NaN ExMin,
         simpleDoubleRange ''minMaxAreNan'' (Fin 5) NaN NaN ExMax,
         simpleDoubleRange ''minMaxAreNan'' (Fin 5) NaN NaN ExBoth,
         simpleDoubleRange ''valueIsNan'' NaN (Fin 0) (Fin 10) ExNone,
         simpleDoubleRange ''valueIsNan'' NaN (Fin 0) (Fin 10) ExMin,
         simpleDoubleRange ''valueIsNan'' NaN (Fin 0) (Fin 10) ExMax,
         simpleDoubleRange ''valueIsNan'' NaN (Fin 0) (Fin 10) ExBoth,
         simpleDoubleRange ''valueIsNanInfRange'' NaN NegInf PosInf ExNone,
         simpleDoubleRange ''valueIsNanInfRange'' NaN NegInf PosInf ExMin,
         simpleDoubleRange ''valueIsNanInfRange'' NaN NegInf PosInf ExMax,
         simpleDoubleRange ''valueIsNanInfRange'' NaN NegInf PosInf ExBoth,
         simpleDoubleRange ''infinityMax'' PosInf (Fin 0) PosInf ExMax,
         simpleDoubleRange ''infinityMax'' PosInf (Fin 0) PosInf ExBoth,
         simpleDoubleRange ''infinityMin'' NegInf NegInf (Fin 0) ExMin,
         simpleDoubleRange ''infinityMin'' NegInf NegInf (Fin 0) ExBoth,
         simpleDoubleRange ''allAreNan'' NaN NaN NaN ExNone,
         simpleDoubleRange ''allAreNan'' NaN NaN NaN ExMin,
         simpleDoubleRange ''allAreNan'' NaN NaN NaN ExMax,
         simpleDoubleRange ''allAreNan'' NaN NaN NaN ExBoth,
         simpleDoubleRange ''valueIsMax'' (Fin 1) (Fin 0) (Fin 1) ExMax,
         simpleDoubleRange ''valueIsMin'' (Fin 0) (Fin 0) (Fin 1) ExMin,
         simpleDoubleRange ''excludeBoth'' (Fin 0) (Fin 0) (Fin 1) ExBoth,
         simpleDoubleRange ''excludeBoth'' (Fin 1) (Fin 0) (Fin 1) ExBoth]"

definition included_fields :: "test_case list" where
  "included_fields =
        [string_case ''String equals simple positive'' (Some [''field'' \<mapsto> ''value'']) ''field'' ''value'',
         tag_case ''TagPresent simple positive'' (Some [''mytag'']) [''mytag''],
         tag_case ''TagPresent multiple all present'' (Some [''A'', ''B'', ''C'']) [''A'', ''C'', ''B''],
         multipleFilters True True True]"

definition missing_fields :: "test_case list" where
  "missing_fields =
        [\<lparr>tc_Name = ''DoubleRange no SearchFields'', tc_SearchFields = None,
          tc_Pool = empty_pool\<lparr>p_DoubleRangeFilters := [range_filter ''field'' NegInf PosInf ExNone]\<rparr>\<rparr>,
         string_case ''StringEquals no SearchFields'' None ''field'' ''value'',
         tag_case ''TagPresent no SearchFields'' None [''value''],
         \<lparr>tc_Name = ''double range missing field'',
          tc_SearchFields = Some (emptySearchFields\<lparr>DoubleArgs := [''otherfield'' \<mapsto> Fin 0]\<rparr>),
          tc_Pool = empty_pool\<lparr>p_DoubleRangeFilters := [range_filter ''field'' NegInf PosInf ExNone]\<rparr>\<rparr>]"

definition excluded_fields :: "test_case list" where
  "excluded_fields =
        [string_case ''String equals simple negative'' (Some [''field'' \<mapsto> ''value'']) ''field'' ''VALUE'',
         string_case ''String equals missing field'' (Some [''otherfield'' \<mapsto> ''othervalue'']) ''field'' ''value'',
         tag_case ''TagPresent simple negative'' (Some [''MYTAG'']) [''mytag''],
         tag_case ''TagPresent multiple with one missing'' (Some [''A'', ''B'', ''C'']) [''A'', ''D'', ''C'']]"

text \<open>The two tables, with the time \<open>now\<close> at which they are built; they panic if a time does not convert.\<close>

definition IncludedTestCases :: "(gtime \<Rightarrow> timestamp res) \<Rightarrow> gtime \<Rightarrow> test_case list res" where
  "IncludedTestCases proto now =
    (case (tc_timestamp proto (now + Hour), tc_timestamp proto (now - Hour)) of
       (Inr later, Inr earlier) \<Rightarrow> Inr (
         [\<lparr>tc_Name = ''no filters or fields'', tc_SearchFields = None, tc_Pool = empty_pool\<rparr>] @
         included_ranges @ included_fields @
         [created_case ''CreatedBefore simple positive'' (Some later) None,
          created_case ''CreatedAfter simple positive'' None (Some earlier),
          created_case ''Between CreatedBefore and CreatedAfter positive'' (Some later) (Some earlier),
          created_case ''No time search criteria positive'' None None])
     | _ \<Rightarrow> Inl Panic)"

definition ExcludedTestCases :: "(gtime \<Rightarrow> timestamp res) \<Rightarrow> gtime \<Rightarrow> test_case list res" where
  "ExcludedTestCases proto now =
    (case (tc_timestamp proto (now - Hour), tc_timestamp proto (now + Hour),
           tc_timestamp proto (now + 2 * Hour), tc_timestamp proto (now - 2 * Hour)) of
       (Inr earlier, Inr later, Inr later2, Inr earlier2) \<Rightarrow> Inr (
         missing_fields @ excluded_ranges @ excluded_fields @
         [created_case ''CreatedBefore simple negative'' (Some earlier) None,
          created_case ''CreatedAfter simple negative'' None (Some later),
          created_case ''Created before time range negative'' (Some later2) (Some later),
          created_case ''Created after time range negative'' (Some earlier) (Some earlier2)] @
         [multipleFilters False True True, multipleFilters True False True, multipleFilters True True False])
     | _ \<Rightarrow> Inl Panic)"

section \<open>The filter decides them\<close>

text \<open>What a test does with a case: the filter of its pool, on a ticket and on a backfill with its fields.\<close>

definition decides :: "(timestamp option \<Rightarrow> gtime option) \<Rightarrow> timestamp option \<Rightarrow> bool \<Rightarrow> test_case \<Rightarrow> bool" where
  "decides ts_time created expected tc \<longleftrightarrow>
    (case NewPoolFilter ts_time (tc_Pool tc) of
       Inl e \<Rightarrow> False
     | Inr pf \<Rightarrow>
         In ts_time pf (ticket_entity (empty_ticket\<lparr>t_SearchFields := tc_SearchFields tc, t_CreateTime := created\<rparr>)) = expected \<and>
         In ts_time pf (backfill_entity (empty_backfill\<lparr>bf_SearchFields := tc_SearchFields tc, bf_CreateTime := created\<rparr>)) = expected)"

lemma decides_fields:
  assumes "p_CreatedBefore (tc_Pool tc) = None" and "p_CreatedAfter (tc_Pool tc) = None"
  shows "decides ts_time created expected tc \<longleftrightarrow>
    (let s = (case tc_SearchFields tc of None \<Rightarrow> emptySearchFields | Some s \<Rightarrow> s) in
     (double_loop (DoubleArgs s) (p_DoubleRangeFilters (tc_Pool tc)) \<and>
      string_loop (StringArgs s) (p_StringEqualsFilters (tc_Pool tc)) \<and>
      tag_loop (Tags s) (p_TagPresentFilters (tc_Pool tc))) = expected)"
  using assms by (auto simp: decides_def NewPoolFilter_def In_def created_check_def ticket_entity_def backfill_entity_def Let_def
      empty_ticket_def empty_backfill_def)

lemma decides_created:
  assumes "before = None \<or> (\<exists>b. ts_time before = Some b \<and> b \<noteq> 0)" and "after = None \<or> (\<exists>a. ts_time after = Some a \<and> a \<noteq> 0)"
    and "ts_time created = Some ct"
  shows "decides ts_time created expected (created_case name before after) \<longleftrightarrow>
    ((before = None \<or> ct < the (ts_time before)) \<and> (after = None \<or> the (ts_time after) < ct)) = expected"
  using assms by (cases before; cases after)
    (auto simp: decides_def created_case_def NewPoolFilter_def In_iff_search in_search_def created_check_iff in_window_def
      ticket_entity_def backfill_entity_def empty_pool_def)

lemma decides_range:
  "decides ts_time created expected (simpleDoubleRange name v mn mx ex) \<longleftrightarrow> range_spec (range_filter ''field'' mn mx ex) v = expected"
  by (subst decides_fields) (simp_all add: simpleDoubleRange_def empty_pool_def range_filter_def double_loop_Cons del: double_loop.simps(2))

lemma decides_included_ranges: "list_all (decides ts_time created True) included_ranges"
  by (simp add: included_ranges_def decides_range range_spec_def range_filter_def)

lemma decides_excluded_ranges: "list_all (decides ts_time created False) excluded_ranges"
  by (simp add: excluded_ranges_def decides_range range_spec_def range_filter_def)

lemma decides_string:
  "decides ts_time created expected (string_case name args arg v) \<longleftrightarrow> (Option.bind args (\<lambda>m. m arg) = Some v) = expected"
  by (subst decides_fields) (auto simp: string_case_def empty_pool_def emptySearchFields_def split: option.splits)

lemma decides_tag:
  "decides ts_time created expected (tag_case name tags wanted) \<longleftrightarrow> (set wanted \<subseteq> (case tags of None \<Rightarrow> {} | Some ts \<Rightarrow> set ts)) = expected"
  by (subst decides_fields) (auto simp: tag_case_def empty_pool_def emptySearchFields_def tag_loop_iff split: option.splits)

lemma decides_multiple:
  "decides ts_time created expected (multipleFilters d s t) \<longleftrightarrow> (d \<and> s \<and> t) = expected"
  by (subst decides_fields) (simp_all add: multipleFilters_def empty_pool_def range_filter_def Let_def)

lemma decides_included_fields: "list_all (decides ts_time created True) included_fields"
  by (simp add: included_fields_def decides_string decides_tag decides_multiple)

lemma decides_excluded_fields: "list_all (decides ts_time created False) excluded_fields"
  by (simp add: excluded_fields_def decides_string decides_tag)

lemma decides_missing_fields: "list_all (decides ts_time created False) missing_fields"
  by (simp add: missing_fields_def decides_string decides_tag decides_fields empty_pool_def emptySearchFields_def range_filter_def)

text \<open>
  The pool filter passes the shared table of filtering cases. If timestamps convert undo to the times they
  were made of, none of the times is the zero time and the entity is created less than an hour after the
  table is built, then neither table panics, and the filter of every case accepts a ticket and a backfill
  with the fields of the case if the case is in the table of included cases, and rejects both if it is in
  the table of excluded cases.
\<close>

theorem filter_testcases:
  assumes proto: "\<And>t ts. proto t = Inr ts \<Longrightarrow> ts_time (Some ts) = Some t"
    and conv: "\<forall>t \<in> {now + Hour, now - Hour, now + 2 * Hour, now - 2 * Hour}. t \<noteq> 0 \<and> (\<exists>ts. proto t = Inr ts)"
    and created: "ts_time created = Some ct" "now \<le> ct" "ct < now + Hour"
  shows "\<exists>inc exc. IncludedTestCases proto now = Inr inc \<and> ExcludedTestCases proto now = Inr exc \<and>
    list_all (decides ts_time created True) inc \<and> list_all (decides ts_time created False) exc"
proof -
  have ex: "\<exists>ts. tc_timestamp proto t = Inr ts \<and> ts_time (Some ts) = Some t \<and> t \<noteq> 0"
    if "t \<in> {now + Hour, now - Hour, now + 2 * Hour, now - 2 * Hour}" for t
    using conv proto that by (force simp: tc_timestamp_def)
  obtain later earlier later2 earlier2 where
    ts: "tc_timestamp proto (now + Hour) = Inr later" "tc_timestamp proto (now - Hour) = Inr earlier"
      "tc_timestamp proto (now + 2 * Hour) = Inr later2" "tc_timestamp proto (now - 2 * Hour) = Inr earlier2"
    and undo: "ts_time (Some later) = Some (now + Hour)" "ts_time (Some earlier) = Some (now - Hour)"
      "ts_time (Some later2) = Some (now + 2 * Hour)" "ts_time (Some earlier2) = Some (now - 2 * Hour)"
    and nz: "now + Hour \<noteq> 0" "now - Hour \<noteq> 0" "now + 2 * Hour \<noteq> 0" "now - 2 * Hour \<noteq> 0"
    using ex [of "now + Hour"] ex [of "now - Hour"] ex [of "now + 2 * Hour"] ex [of "now - 2 * Hour"] by blast
  have none: "decides ts_time created True \<lparr>tc_Name = n, tc_SearchFields = None, tc_Pool = empty_pool\<rparr>" for n
    by (simp add: decides_fields empty_pool_def)
  have window: "decides ts_time created True (created_case n (Some later) None)"
    "decides ts_time created True (created_case n None (Some earlier))"
    "decides ts_time created True (created_case n (Some later) (Some earlier))"
    "decides ts_time created True (created_case n None None)"
    "decides ts_time created False (created_case n (Some earlier) None)"
    "decides ts_time created False (created_case n None (Some later))"
    "decides ts_time created False (created_case n (Some later2) (Some later))"
    "decides ts_time created False (created_case n (Some earlier) (Some earlier2))" for n
    by (subst decides_created [of _ ts_time _ created ct]; use undo nz created in force)+
  show ?thesis
    unfolding IncludedTestCases_def ExcludedTestCases_def ts prod.case sum.case sum.inject(2)
    by (simp add: none decides_included_ranges decides_included_fields decides_missing_fields decides_excluded_ranges
        decides_excluded_fields decides_multiple window)
qed

text \<open>With timestamps that count nanoseconds.\<close>

definition sample_proto :: "gtime \<Rightarrow> timestamp res" where
  "sample_proto t = Inr \<lparr>Seconds = t, Nanos = 0\<rparr>"

theorem filter_testcases_witness:
  "\<exists>inc exc. IncludedTestCases sample_proto (3 * Hour) = Inr inc \<and> ExcludedTestCases sample_proto (3 * Hour) = Inr exc \<and>
    list_all (decides (map_option Seconds) (Some \<lparr>Seconds = 3 * Hour, Nanos = 0\<rparr>) True) inc \<and>
    list_all (decides (map_option Seconds) (Some \<lparr>Seconds = 3 * Hour, Nanos = 0\<rparr>) False) exc"
  by (rule filter_testcases [of sample_proto _ "3 * Hour" _ "3 * Hour"]) (auto simp: sample_proto_def)

end
