(* ===== verification/Cacher.thy ===== *)
theory Cacher
  imports Prelude "HOL-Library.AList" "HOL-Library.Multiset"
begin

text \<open>
  \<open>internal/config/cacher.go\<close>: a cache of one constructed object, which is rebuilt when a configuration
  value that its construction read has changed. The construction may only read the configuration
  through the view it is given, so it is a tree of reads; the view it is given is the change detector,
  which records every read. The configuration is constant during one \<open>Get\<close>.
\<close>

section \<open>Constructions as trees of reads\<close>

datatype 'a reader =
    Result 'a
  | ReadIsSet string "bool \<Rightarrow> 'a reader"
  | ReadString string "string \<Rightarrow> 'a reader"
  | ReadInt string "int \<Rightarrow> 'a reader"
  | ReadInt64 string "int \<Rightarrow> 'a reader"
  | ReadFloat64 string "f64 \<Rightarrow> 'a reader"
  | ReadStringSlice string "string list \<Rightarrow> 'a reader"
  | ReadBool string "bool \<Rightarrow> 'a reader"
  | ReadDuration string "int \<Rightarrow> 'a reader"

text \<open>What a construction computes from a configuration.\<close>

primrec construct :: "config_view \<Rightarrow> 'a reader \<Rightarrow> 'a" where
  "construct cfg (Result x) = x"
| "construct cfg (ReadIsSet k f) = construct cfg (f (IsSet cfg k))"
| "construct cfg (ReadString k f) = construct cfg (f (GetString cfg k))"
| "construct cfg (ReadInt k f) = construct cfg (f (GetInt cfg k))"
| "construct cfg (ReadInt64 k f) = construct cfg (f (GetInt64 cfg k))"
| "construct cfg (ReadFloat64 k f) = construct cfg (f (GetFloat64 cfg k))"
| "construct cfg (ReadStringSlice k f) = construct cfg (f (GetStringSlice cfg k))"
| "construct cfg (ReadBool k f) = construct cfg (f (GetBool cfg k))"
| "construct cfg (ReadDuration k f) = construct cfg (f (GetDuration cfg k))"

text \<open>Constructions in sequence.\<close>

primrec rbind :: "'a reader \<Rightarrow> ('a \<Rightarrow> 'b reader) \<Rightarrow> 'b reader" where
  "rbind (Result x) g = g x"
| "rbind (ReadIsSet k f) g = ReadIsSet k (\<lambda>v. rbind (f v) g)"
| "rbind (ReadString k f) g = ReadString k (\<lambda>v. rbind (f v) g)"
| "rbind (ReadInt k f) g = ReadInt k (\<lambda>v. rbind (f v) g)"
| "rbind (ReadInt64 k f) g = ReadInt64 k (\<lambda>v. rbind (f v) g)"
| "rbind (ReadFloat64 k f) g = ReadFloat64 k (\<lambda>v. rbind (f v) g)"
| "rbind (ReadStringSlice k f) g = ReadStringSlice k (\<lambda>v. rbind (f v) g)"
| "rbind (ReadBool k f) g = ReadBool k (\<lambda>v. rbind (f v) g)"
| "rbind (ReadDuration k f) g = ReadDuration k (\<lambda>v. rbind (f v) g)"

lemma construct_rbind [simp]: "construct cfg (rbind p g) = construct cfg (g (construct cfg p))"
  by (induction p) auto

section \<open>The change detector\<close>

record viewChangeDetector =
  isSet :: "(string \<times> bool) list"
  getString :: "(string \<times> string) list"
  getInt :: "(string \<times> int) list"
  getInt64 :: "(string \<times> int) list"
  getFloat64 :: "(string \<times> f64) list"
  getStringSlice :: "(string \<times> string list) list"
  getBool :: "(string \<times> bool) list"
  getDuration :: "(string \<times> int) list"

definition newViewChangeDetector :: viewChangeDetector where
  "newViewChangeDetector = \<lparr>isSet = [], getString = [], getInt = [], getInt64 = [], getFloat64 = [],
     getStringSlice = [], getBool = [], getDuration = []\<rparr>"

definition det_IsSet :: "config_view \<Rightarrow> string \<Rightarrow> viewChangeDetector \<Rightarrow> bool \<times> viewChangeDetector" where
  "det_IsSet cfg k r = (let v = IsSet cfg k in (v, r\<lparr>isSet := AList.update k v (isSet r)\<rparr>))"

definition det_GetString :: "config_view \<Rightarrow> string \<Rightarrow> viewChangeDetector \<Rightarrow> string \<times> viewChangeDetector" where
  "det_GetString cfg k r = (let v = GetString cfg k in (v, r\<lparr>getString := AList.update k v (getString r)\<rparr>))"

definition det_GetInt :: "config_view \<Rightarrow> string \<Rightarrow> viewChangeDetector \<Rightarrow> int \<times> viewChangeDetector" where
  "det_GetInt cfg k r = (let v = GetInt cfg k in (v, r\<lparr>getInt := AList.update k v (getInt r)\<rparr>))"

definition det_GetInt64 :: "config_view \<Rightarrow> string \<Rightarrow> viewChangeDetector \<Rightarrow> int \<times> viewChangeDetector" where
  "det_GetInt64 cfg k r = (let v = GetInt64 cfg k in (v, r\<lparr>getInt64 := AList.update k v (getInt64 r)\<rparr>))"

definition det_GetFloat64 :: "config_view \<Rightarrow> string \<Rightarrow> viewChangeDetector \<Rightarrow> f64 \<times> viewChangeDetector" where
  "det_GetFloat64 cfg k r = (let v = GetFloat64 cfg k in (v, r\<lparr>getFloat64 := AList.update k v (getFloat64 r)\<rparr>))"

definition det_GetStringSlice :: "config_view \<Rightarrow> string \<Rightarrow> viewChangeDetector \<Rightarrow> string list \<times> viewChangeDetector" where
  "det_GetStringSlice cfg k r =
     (let v = GetStringSlice cfg k in (v, r\<lparr>getStringSlice := AList.update k v (getStringSlice r)\<rparr>))"

definition det_GetBool :: "config_view \<Rightarrow> string \<Rightarrow> viewChangeDetector \<Rightarrow> bool \<times> viewChangeDetector" where
  "det_GetBool cfg k r = (let v = GetBool cfg k in (v, r\<lparr>getBool := AList.update k v (getBool r)\<rparr>))"

definition det_GetDuration :: "config_view \<Rightarrow> string \<Rightarrow> viewChangeDetector \<Rightarrow> int \<times> viewChangeDetector" where
  "det_GetDuration cfg k r = (let v = GetDuration cfg k in (v, r\<lparr>getDuration := AList.update k v (getDuration r)\<rparr>))"

lemmas det_defs = det_IsSet_def det_GetString_def det_GetInt_def det_GetInt64_def det_GetFloat64_def
  det_GetStringSlice_def det_GetBool_def det_GetDuration_def

lemma det_value [simp]:
  "fst (det_IsSet cfg k r) = IsSet cfg k"
  "fst (det_GetString cfg k r) = GetString cfg k"
  "fst (det_GetInt cfg k r) = GetInt cfg k"
  "fst (det_GetInt64 cfg k r) = GetInt64 cfg k"
  "fst (det_GetFloat64 cfg k r) = GetFloat64 cfg k"
  "fst (det_GetStringSlice cfg k r) = GetStringSlice cfg k"
  "fst (det_GetBool cfg k r) = GetBool cfg k"
  "fst (det_GetDuration cfg k r) = GetDuration cfg k"
  by (simp_all add: det_defs Let_def)

text \<open>Go's \<open>!=\<close> on doubles: a NaN differs from itself.\<close>

definition f64_neq :: "f64 \<Rightarrow> f64 \<Rightarrow> bool" where
  "f64_neq x y \<longleftrightarrow> x = NaN \<or> y = NaN \<or> x \<noteq> y"

text \<open>The comparison of two slices: their lengths, then element by element.\<close>

definition slice_differs :: "string list \<Rightarrow> string list \<Rightarrow> bool" where
  "slice_differs v actual = (if length actual \<noteq> length v then True else list_ex (\<lambda>i. v ! i \<noteq> actual ! i) [0..<length v])"

definition hasChanges :: "config_view \<Rightarrow> viewChangeDetector \<Rightarrow> bool" where
  "hasChanges cfg r \<longleftrightarrow>
     list_ex (\<lambda>(k, v). IsSet cfg k \<noteq> v) (isSet r) \<or>
     list_ex (\<lambda>(k, v). GetString cfg k \<noteq> v) (getString r) \<or>
     list_ex (\<lambda>(k, v). GetInt cfg k \<noteq> v) (getInt r) \<or>
     list_ex (\<lambda>(k, v). GetInt64 cfg k \<noteq> v) (getInt64 r) \<or>
     list_ex (\<lambda>(k, v). f64_neq (GetFloat64 cfg k) v) (getFloat64 r) \<or>
     list_ex (\<lambda>(k, v). slice_differs v (GetStringSlice cfg k)) (getStringSlice r) \<or>
     list_ex (\<lambda>(k, v). GetBool cfg k \<noteq> v) (getBool r) \<or>
     list_ex (\<lambda>(k, v). GetDuration cfg k \<noteq> v) (getDuration r)"

text \<open>A construction run on the detector.\<close>

primrec run_reader :: "config_view \<Rightarrow> 'a reader \<Rightarrow> viewChangeDetector \<Rightarrow> 'a \<times> viewChangeDetector" where
  "run_reader cfg (Result x) r = (x, r)"
| "run_reader cfg (ReadIsSet k f) r = (case det_IsSet cfg k r of (v, r') \<Rightarrow> run_reader cfg (f v) r')"
| "run_reader cfg (ReadString k f) r = (case det_GetString cfg k r of (v, r') \<Rightarrow> run_reader cfg (f v) r')"
| "run_reader cfg (ReadInt k f) r = (case det_GetInt cfg k r of (v, r') \<Rightarrow> run_reader cfg (f v) r')"
| "run_reader cfg (ReadInt64 k f) r = (case det_GetInt64 cfg k r of (v, r') \<Rightarrow> run_reader cfg (f v) r')"
| "run_reader cfg (ReadFloat64 k f) r = (case det_GetFloat64 cfg k r of (v, r') \<Rightarrow> run_reader cfg (f v) r')"
| "run_reader cfg (ReadStringSlice k f) r = (case det_GetStringSlice cfg k r of (v, r') \<Rightarrow> run_reader cfg (f v) r')"
| "run_reader cfg (ReadBool k f) r = (case det_GetBool cfg k r of (v, r') \<Rightarrow> run_reader cfg (f v) r')"
| "run_reader cfg (ReadDuration k f) r = (case det_GetDuration cfg k r of (v, r') \<Rightarrow> run_reader cfg (f v) r')"

section \<open>The cacher\<close>

text \<open>
  The results of a construction: the value, a close function (named by a value of type \<open>'k\<close>) and an error. The log
  records the close functions that were called, and those that constructions returned.
\<close>

record ('v, 'k) inst =
  i_value :: "'v option"
  i_close :: "'k option"
  i_err :: "go_error option"

record ('v, 'k) cacher =
  c_r :: "viewChangeDetector option"
  c_v :: "'v option"
  c_c :: "'k option"
  closed_log :: "'k list"
  opened_log :: "'k list"

definition NewCacher :: "('v, 'k) cacher" where
  "NewCacher = \<lparr>c_r = None, c_v = None, c_c = None, closed_log = [], opened_log = []\<rparr>"

definition locklessReset :: "('v, 'k) cacher \<Rightarrow> ('v, 'k) cacher" where
  "locklessReset c =
    (let c1 = (case c_c c of Some k \<Rightarrow> c\<lparr>closed_log := closed_log c @ [k]\<rparr> | None \<Rightarrow> c)
     in c1\<lparr>c_c := None, c_r := None, c_v := None\<rparr>)"

definition ForceReset :: "('v, 'k) cacher \<Rightarrow> ('v, 'k) cacher" where
  "ForceReset c = locklessReset c"

definition cacher_Get :: "('v, 'k) inst reader \<Rightarrow> config_view \<Rightarrow> ('v, 'k) cacher \<Rightarrow> ('v option) res \<times> ('v, 'k) cacher" where
  "cacher_Get newInstance cfg c =
    (if (case c_r c of None \<Rightarrow> True | Some r \<Rightarrow> hasChanges cfg r) then
       let c1 = locklessReset c;
           (inst, r) = run_reader cfg newInstance newViewChangeDetector;
           c2 = c1\<lparr>c_r := Some r, c_v := i_value inst, c_c := i_close inst,
                  opened_log := opened_log c1 @ (case i_close inst of Some k \<Rightarrow> [k] | None \<Rightarrow> [])\<rparr>
       in (case i_err inst of
             Some e \<Rightarrow> (Inl e, locklessReset c2)
           | None \<Rightarrow> (Inr (c_v c2), c2))
     else (Inr (c_v c), c))"

section \<open>Detection\<close>

lemma slice_differs_iff [simp]: "slice_differs v w \<longleftrightarrow> v \<noteq> w"
proof -
  have "v = w" if "length w = length v" "\<forall>i \<in> {0..<length v}. v ! i = w ! i"
    using that by (intro nth_equalityI) auto
  then show ?thesis by (auto simp: slice_differs_def list_ex_iff)
qed

text \<open>The detector knows a value of the configuration when it has recorded it.\<close>

definition extends :: "config_view \<Rightarrow> viewChangeDetector \<Rightarrow> viewChangeDetector \<Rightarrow> bool" where
  "extends cfg r r' \<longleftrightarrow>
    (\<forall>k. map_of (isSet r) k = Some (IsSet cfg k) \<longrightarrow> map_of (isSet r') k = Some (IsSet cfg k)) \<and>
    (\<forall>k. map_of (getString r) k = Some (GetString cfg k) \<longrightarrow> map_of (getString r') k = Some (GetString cfg k)) \<and>
    (\<forall>k. map_of (getInt r) k = Some (GetInt cfg k) \<longrightarrow> map_of (getInt r') k = Some (GetInt cfg k)) \<and>
    (\<forall>k. map_of (getInt64 r) k = Some (GetInt64 cfg k) \<longrightarrow> map_of (getInt64 r') k = Some (GetInt64 cfg k)) \<and>
    (\<forall>k. map_of (getFloat64 r) k = Some (GetFloat64 cfg k) \<longrightarrow> map_of (getFloat64 r') k = Some (GetFloat64 cfg k)) \<and>
    (\<forall>k. map_of (getStringSlice r) k = Some (GetStringSlice cfg k) \<longrightarrow> map_of (getStringSlice r') k = Some (GetStringSlice cfg k)) \<and>
    (\<forall>k. map_of (getBool r) k = Some (GetBool cfg k) \<longrightarrow> map_of (getBool r') k = Some (GetBool cfg k)) \<and>
    (\<forall>k. map_of (getDuration r) k = Some (GetDuration cfg k) \<longrightarrow> map_of (getDuration r') k = Some (GetDuration cfg k))"

lemma extends_refl [simp]: "extends cfg r r"
  by (simp add: extends_def)

lemma extends_trans: "extends cfg r r' \<Longrightarrow> extends cfg r' r'' \<Longrightarrow> extends cfg r r''"
  by (simp add: extends_def)

lemma extends_step:
  "extends cfg r (snd (det_IsSet cfg k r))" "extends cfg r (snd (det_GetString cfg k r))"
  "extends cfg r (snd (det_GetInt cfg k r))" "extends cfg r (snd (det_GetInt64 cfg k r))"
  "extends cfg r (snd (det_GetFloat64 cfg k r))" "extends cfg r (snd (det_GetStringSlice cfg k r))"
  "extends cfg r (snd (det_GetBool cfg k r))" "extends cfg r (snd (det_GetDuration cfg k r))"
  by (simp_all add: extends_def det_defs Let_def AList.update_conv')

lemma run_reader_extends: "extends cfg r (snd (run_reader cfg p r))"
proof (induction p arbitrary: r)
qed (simp_all add: case_prod_unfold, (meson extends_trans extends_step rangeI)+)

lemma no_change:
  assumes "\<not> hasChanges cfg r"
  shows "map_of (isSet r) k = Some x0 \<Longrightarrow> IsSet cfg k = x0"
    and "map_of (getString r) k = Some x1 \<Longrightarrow> GetString cfg k = x1"
    and "map_of (getInt r) k = Some x2 \<Longrightarrow> GetInt cfg k = x2"
    and "map_of (getInt64 r) k = Some x3 \<Longrightarrow> GetInt64 cfg k = x3"
    and "map_of (getFloat64 r) k = Some x4 \<Longrightarrow> GetFloat64 cfg k = x4"
    and "map_of (getStringSlice r) k = Some x5 \<Longrightarrow> GetStringSlice cfg k = x5"
    and "map_of (getBool r) k = Some x6 \<Longrightarrow> GetBool cfg k = x6"
    and "map_of (getDuration r) k = Some x7 \<Longrightarrow> GetDuration cfg k = x7"
  using assms by (fastforce simp: hasChanges_def list_ex_iff f64_neq_def dest: map_of_SomeD)+

lemma recorded:
  "map_of (isSet (snd (run_reader cfg p (snd (det_IsSet cfg k r))))) k = Some (IsSet cfg k)"
  "map_of (getString (snd (run_reader cfg p (snd (det_GetString cfg k r))))) k = Some (GetString cfg k)"
  "map_of (getInt (snd (run_reader cfg p (snd (det_GetInt cfg k r))))) k = Some (GetInt cfg k)"
  "map_of (getInt64 (snd (run_reader cfg p (snd (det_GetInt64 cfg k r))))) k = Some (GetInt64 cfg k)"
  "map_of (getFloat64 (snd (run_reader cfg p (snd (det_GetFloat64 cfg k r))))) k = Some (GetFloat64 cfg k)"
  "map_of (getStringSlice (snd (run_reader cfg p (snd (det_GetStringSlice cfg k r))))) k = Some (GetStringSlice cfg k)"
  "map_of (getBool (snd (run_reader cfg p (snd (det_GetBool cfg k r))))) k = Some (GetBool cfg k)"
  "map_of (getDuration (snd (run_reader cfg p (snd (det_GetDuration cfg k r))))) k = Some (GetDuration cfg k)"
  using run_reader_extends [of cfg _ p] unfolding extends_def
  by (simp_all add: det_defs Let_def AList.update_conv')

lemma detected:
  "\<not> hasChanges cfg' (snd (run_reader cfg p (snd (det_IsSet cfg k r)))) \<Longrightarrow> IsSet cfg' k = IsSet cfg k"
  "\<not> hasChanges cfg' (snd (run_reader cfg p (snd (det_GetString cfg k r)))) \<Longrightarrow> GetString cfg' k = GetString cfg k"
  "\<not> hasChanges cfg' (snd (run_reader cfg p (snd (det_GetInt cfg k r)))) \<Longrightarrow> GetInt cfg' k = GetInt cfg k"
  "\<not> hasChanges cfg' (snd (run_reader cfg p (snd (det_GetInt64 cfg k r)))) \<Longrightarrow> GetInt64 cfg' k = GetInt64 cfg k"
  "\<not> hasChanges cfg' (snd (run_reader cfg p (snd (det_GetFloat64 cfg k r)))) \<Longrightarrow> GetFloat64 cfg' k = GetFloat64 cfg k"
  "\<not> hasChanges cfg' (snd (run_reader cfg p (snd (det_GetStringSlice cfg k r)))) \<Longrightarrow> GetStringSlice cfg' k = GetStringSlice cfg k"
  "\<not> hasChanges cfg' (snd (run_reader cfg p (snd (det_GetBool cfg k r)))) \<Longrightarrow> GetBool cfg' k = GetBool cfg k"
  "\<not> hasChanges cfg' (snd (run_reader cfg p (snd (det_GetDuration cfg k r)))) \<Longrightarrow> GetDuration cfg' k = GetDuration cfg k"
  by (rule no_change, assumption, rule recorded)+

lemma run_reader_detects:
  "\<not> hasChanges cfg' (snd (run_reader cfg p r)) \<Longrightarrow> construct cfg' p = fst (run_reader cfg p r)"
  by (induction p arbitrary: r) (auto simp: case_prod_unfold detected)

lemma run_reader_value: "fst (run_reader cfg p r) = construct cfg p"
  by (induction p arbitrary: r) (auto simp: case_prod_unfold)

section \<open>Correctness of the cache\<close>

text \<open>
  Invariant: a cached object is what the construction yields, without an error, from any configuration
  in which the detector sees no change; and every close function that a construction returned has been
  called once, or belongs to the cached object.
\<close>

definition cacher_inv :: "('v, 'k) inst reader \<Rightarrow> ('v, 'k) cacher \<Rightarrow> bool" where
  "cacher_inv newInstance c \<longleftrightarrow>
    (case c_r c of
       None \<Rightarrow> c_v c = None \<and> c_c c = None
     | Some r \<Rightarrow> (\<forall>cfg. \<not> hasChanges cfg r \<longrightarrow>
         construct cfg newInstance = \<lparr>i_value = c_v c, i_close = c_c c, i_err = None\<rparr>)) \<and>
    mset (opened_log c) = mset (closed_log c) + (case c_c c of None \<Rightarrow> {#} | Some k \<Rightarrow> {#k#})"

lemma cacher_inv_new: "cacher_inv p NewCacher"
  by (simp add: cacher_inv_def NewCacher_def)

lemma cacher_inv_reset: "cacher_inv p c \<Longrightarrow> cacher_inv p (locklessReset c)"
  by (auto simp: cacher_inv_def locklessReset_def Let_def split: option.splits)

lemma reset_none [simp]: "c_r (locklessReset c) = None" "c_v (locklessReset c) = None" "c_c (locklessReset c) = None"
  by (simp_all add: locklessReset_def Let_def split: option.splits)

lemma cacher_inv_Get: "cacher_inv p c \<Longrightarrow> cacher_inv p (snd (cacher_Get p cfg c))"
proof (cases "case c_r c of None \<Rightarrow> True | Some r \<Rightarrow> hasChanges cfg r")
  case True
  assume inv: "cacher_inv p c"
  let ?c1 = "locklessReset c"
  obtain inst r where run: "run_reader cfg p newViewChangeDetector = (inst, r)" by (metis prod.exhaust)
  let ?c2 = "?c1\<lparr>c_r := Some r, c_v := i_value inst, c_c := i_close inst,
                  opened_log := opened_log ?c1 @ (case i_close inst of Some k \<Rightarrow> [k] | None \<Rightarrow> [])\<rparr>"
  have detects: "construct cfg' p = inst" if "\<not> hasChanges cfg' r" for cfg'
    using run_reader_detects [of cfg' cfg p newViewChangeDetector] run that by simp
  have log: "mset (opened_log ?c1) = mset (closed_log ?c1)"
    using cacher_inv_reset [OF inv] by (simp add: cacher_inv_def)
  show ?thesis
  proof (cases "i_err inst")
    case None
    have "cacher_inv p ?c2" using log detects None by (auto simp: cacher_inv_def split: option.splits)
    then show ?thesis using True run None by (simp add: cacher_Get_def Let_def)
  next
    case (Some e)
    have "cacher_inv p (locklessReset ?c2)" using log
      by (auto simp: cacher_inv_def locklessReset_def [of ?c2] Let_def split: option.splits)
    then show ?thesis using True run Some by (simp add: cacher_Get_def Let_def)
  qed
qed (simp add: cacher_Get_def)

lemma cacher_Get_result:
  assumes "cacher_inv p c"
  shows "fst (cacher_Get p cfg c) =
    (case i_err (construct cfg p) of Some e \<Rightarrow> Inl e | None \<Rightarrow> Inr (i_value (construct cfg p)))"
proof (cases "case c_r c of None \<Rightarrow> True | Some r \<Rightarrow> hasChanges cfg r")
  case True
  obtain inst r where run: "run_reader cfg p newViewChangeDetector = (inst, r)" by (metis prod.exhaust)
  with run_reader_value [of cfg p newViewChangeDetector] True show ?thesis
    by (simp add: cacher_Get_def Let_def split: option.splits)
next
  case False
  then obtain r where r: "c_r c = Some r" "\<not> hasChanges cfg r" by (auto split: option.splits)
  with assms have "construct cfg p = \<lparr>i_value = c_v c, i_close = c_c c, i_err = None\<rparr>" by (simp add: cacher_inv_def)
  with r show ?thesis by (simp add: cacher_Get_def)
qed

text \<open>A use of the cacher: the configuration changes, the object is asked for, or the cache is reset.\<close>

datatype cacher_event = Reconfigure config_view | AskGet | AskReset

fun cacher_run :: "('v, 'k) inst reader \<Rightarrow> cacher_event list \<Rightarrow> config_view \<Rightarrow> ('v, 'k) cacher \<Rightarrow> config_view \<times> ('v, 'k) cacher" where
  "cacher_run p [] cfg c = (cfg, c)"
| "cacher_run p (Reconfigure cfg' # evs) cfg c = cacher_run p evs cfg' c"
| "cacher_run p (AskGet # evs) cfg c = cacher_run p evs cfg (snd (cacher_Get p cfg c))"
| "cacher_run p (AskReset # evs) cfg c = cacher_run p evs cfg (ForceReset c)"

lemma cacher_run_inv: "cacher_inv p c \<Longrightarrow> cacher_inv p (snd (cacher_run p evs cfg c))"
  by (induction p evs cfg c rule: cacher_run.induct) (simp_all add: cacher_inv_Get cacher_inv_reset ForceReset_def)

text \<open>
  C31: Caching is transparent. After any sequence of configuration changes, gets and resets, \<open>Get\<close> returns
  what a construction from the current configuration returns, error or object; and no object is leaked
  or closed twice: every close function that a construction returned has been called exactly once,
  except that of the object in the cache.
\<close>

theorem cacher_transparent:
  "case cacher_run p evs cfg NewCacher of (cfg', c) \<Rightarrow>
     fst (cacher_Get p cfg' c) =
       (case i_err (construct cfg' p) of Some e \<Rightarrow> Inl e | None \<Rightarrow> Inr (i_value (construct cfg' p))) \<and>
     mset (opened_log c) = mset (closed_log c) + (case c_c c of None \<Rightarrow> {#} | Some k \<Rightarrow> {#k#})"
proof (cases "cacher_run p evs cfg NewCacher")
  case (Pair cfg' c)
  have "cacher_inv p c" using cacher_run_inv [OF cacher_inv_new, of p evs cfg] Pair by simp
  then show ?thesis using Pair cacher_Get_result [of p c cfg'] by (simp add: cacher_inv_def)
qed

end
