(* ===== verification/Rpc_Clients.thy ===== *)
theory Rpc_Clients
  imports Cacher "HOL-Library.Word"
begin

text \<open>
  The client side of \<open>internal/rpc\<close> (\<open>clients.go\<close>, \<open>clientcache.go\<close>, \<open>tls_util.go\<close>) and the log levels of
  \<open>internal/logging\<close>: which connection is made from which configuration. The file system, the parsing
  of certificates and URLs and the dialling of a connection are the parameter \<open>os\<close>; a constructed
  connection is a number. A function that gets a configuration is a tree of its reads.
\<close>

type_synonym bytes = "8 word list"

section \<open>Log levels\<close>

datatype level = PanicLevel | FatalLevel | ErrorLevel | WarnLevel | InfoLevel | DebugLevel | TraceLevel

text \<open>\<open>strings.ToLower\<close> on ASCII.\<close>

definition lower_char :: "char \<Rightarrow> char" where
  "lower_char c = (if 65 \<le> (of_char c :: nat) \<and> (of_char c :: nat) \<le> 90 then char_of ((of_char c :: nat) + 32) else c)"

definition ToLower :: "string \<Rightarrow> string" where
  "ToLower = map lower_char"

definition toLevel :: "string \<Rightarrow> level" where
  "toLevel s =
    (let l = ToLower s in
     if l = ''trace'' then TraceLevel
     else if l = ''debug'' then DebugLevel
     else if l = ''warn'' \<or> l = ''warning'' then WarnLevel
     else if l = ''error'' then ErrorLevel
     else if l = ''fatal'' then FatalLevel
     else if l = ''panic'' then PanicLevel
     else InfoLevel)"

fun isDebugLevel :: "level \<Rightarrow> bool" where
  "isDebugLevel TraceLevel = True"
| "isDebugLevel DebugLevel = True"
| "isDebugLevel _ = False"

definition IsDebugLevel :: "string \<Rightarrow> bool" where
  "IsDebugLevel l = isDebugLevel (toLevel l)"

definition IsDebugEnabled :: "bool reader" where
  "IsDebugEnabled = ReadString ''logging.level'' (\<lambda>l. Result (IsDebugLevel l))"

section \<open>Dial options\<close>

datatype interceptor = Tracing | PayloadLogging | CallLogging

datatype dial_option =
    StreamInterceptors "interceptor list"
  | UnaryInterceptors "interceptor list"
  | DefaultServiceConfig string
  | KeepaliveParams int int bool
  | StatsHandler
  | TransportCredentials bytes
  | Insecure

record sys =
  Stat :: "string \<Rightarrow> go_error option"
  ReadFile :: "string \<Rightarrow> bytes res"
  AppendCertsFromPEM :: "bytes \<Rightarrow> bool"
  Dial :: "string \<Rightarrow> dial_option list \<Rightarrow> nat res"
  urlParse :: "string \<Rightarrow> string res"

definition newGRPCDialOptions :: "bool \<Rightarrow> bool \<Rightarrow> bool \<Rightarrow> dial_option list" where
  "newGRPCDialOptions enableMetrics enableRPCLogging enableRPCPayloadLogging =
    (let i = Tracing # (if enableRPCLogging then (if enableRPCPayloadLogging then [PayloadLogging] else [CallLogging]) else [])
     in [StreamInterceptors i, UnaryInterceptors i, DefaultServiceConfig ''{\"loadBalancingPolicy\":\"round_robin\"}'',
         KeepaliveParams (20 * Second) (10 * Second) True] @ (if enableMetrics then [StatsHandler] else []))"

definition trustedCertificateFromFileData :: "sys \<Rightarrow> bytes \<Rightarrow> bytes res" where
  "trustedCertificateFromFileData os d = (if \<not> AppendCertsFromPEM os d then Inl (Wrapped FmtErr) else Inr d)"

definition toAddress :: "string \<Rightarrow> int \<Rightarrow> string" where
  "toAddress hostname port = hostname @ '':'' @ itoa port"

section \<open>gRPC clients\<close>

record client_params =
  Address :: string
  TrustedCertificate :: bytes
  EnableRPCLogging :: bool
  EnableRPCPayloadLogging :: bool
  EnableMetrics :: bool

definition usingTLS :: "client_params \<Rightarrow> bool" where
  "usingTLS p \<longleftrightarrow> length (TrustedCertificate p) > 0"

definition GRPCClientFromParams :: "sys \<Rightarrow> client_params \<Rightarrow> nat res" where
  "GRPCClientFromParams os p =
    (let opts = newGRPCDialOptions (EnableMetrics p) (EnableRPCLogging p) (EnableRPCPayloadLogging p) in
     if usingTLS p then
       (case trustedCertificateFromFileData os (TrustedCertificate p) of
          Inl e \<Rightarrow> Inl (Wrapped e)
        | Inr pool \<Rightarrow> Dial os (Address p) (opts @ [TransportCredentials pool]))
     else Dial os (Address p) (opts @ [Insecure]))"

text \<open>
  The trusted certificate of the configuration, as the functions below read it: nothing when no path
  is configured, an error when the file is missing or unreadable. The path is read up to three times.
\<close>

abbreviation certPath :: string where
  "certPath \<equiv> ''api.tls.rootCertificateFile''"

definition readCertificate :: "sys \<Rightarrow> (bytes option) res reader" where
  "readCertificate os =
    ReadString certPath (\<lambda>p. if p \<noteq> [] then
        ReadString certPath (\<lambda>p1. case Stat os p1 of
            Some e \<Rightarrow> Result (Inl e)
          | None \<Rightarrow> ReadString certPath (\<lambda>p2. Result (case ReadFile os p2 of Inl e \<Rightarrow> Inl e | Inr d \<Rightarrow> Inr (Some d))))
      else Result (Inr None))"

definition GRPCClientFromEndpoint :: "sys \<Rightarrow> string \<Rightarrow> nat res reader" where
  "GRPCClientFromEndpoint os address =
    ReadBool ''telemetry.prometheus.enable'' (\<lambda>metrics. ReadBool ''logging.rpc'' (\<lambda>log. rbind IsDebugEnabled (\<lambda>dbg.
      let opts = newGRPCDialOptions metrics log dbg in
      rbind (readCertificate os) (\<lambda>c. Result (case c of
          Inl e \<Rightarrow> Inl e
        | Inr (Some d) \<Rightarrow>
            (case trustedCertificateFromFileData os d of
               Inl e \<Rightarrow> Inl (Wrapped e)
             | Inr pool \<Rightarrow> Dial os address (opts @ [TransportCredentials pool]))
        | Inr None \<Rightarrow> Dial os address (opts @ [Insecure]))))))"

definition paramsFromConfig :: "sys \<Rightarrow> string \<Rightarrow> string \<Rightarrow> client_params res reader" where
  "paramsFromConfig os prefix port =
    ReadString (prefix @ ''.hostname'') (\<lambda>h. ReadInt (prefix @ port) (\<lambda>n. ReadBool ''logging.rpc'' (\<lambda>log.
      rbind IsDebugEnabled (\<lambda>dbg. ReadBool ''telemetry.prometheus.enable'' (\<lambda>metrics.
        rbind (readCertificate os) (\<lambda>c. Result (case c of
            Inl e \<Rightarrow> Inl e
          | Inr d \<Rightarrow> Inr \<lparr>Address = toAddress h n, TrustedCertificate = (case d of Some b \<Rightarrow> b | None \<Rightarrow> []),
              EnableRPCLogging = log, EnableRPCPayloadLogging = dbg, EnableMetrics = metrics\<rparr>)))))))"

definition GRPCClientFromConfig :: "sys \<Rightarrow> string \<Rightarrow> nat res reader" where
  "GRPCClientFromConfig os prefix =
    rbind (paramsFromConfig os prefix ''.grpcport'') (\<lambda>p. Result (case p of Inl e \<Rightarrow> Inl e | Inr p \<Rightarrow> GRPCClientFromParams os p))"

section \<open>HTTP clients\<close>

datatype transport = DefaultTransport | TLSTransport string bytes | LoggingTransport bool transport | MetricsTransport transport

record http_client =
  Timeout :: int
  Transport :: "transport option"

definition HasPrefix :: "string \<Rightarrow> string \<Rightarrow> bool" where
  "HasPrefix s p \<longleftrightarrow> take (length p) s = p"

definition sanitizeHTTPAddress :: "sys \<Rightarrow> string \<Rightarrow> bool \<Rightarrow> string res" where
  "sanitizeHTTPAddress os address preferHTTPS =
    (let lca = ToLower address;
         address = (if \<not> HasPrefix lca ''http://'' \<and> \<not> HasPrefix lca ''https://''
                    then (if preferHTTPS then ''https://'' @ address else ''http://'' @ address) else address)
     in (case urlParse os address of Inl e \<Rightarrow> Inl FmtErr | Inr u \<Rightarrow> Inr u))"

definition attachTransport :: "(transport \<Rightarrow> transport) \<Rightarrow> http_client \<Rightarrow> http_client" where
  "attachTransport wrapper c =
    c\<lparr>Transport := Some (wrapper (case Transport c of None \<Rightarrow> DefaultTransport | Some t \<Rightarrow> t))\<rparr>"

definition HTTPClientFromParams :: "sys \<Rightarrow> client_params \<Rightarrow> (http_client \<times> string) res" where
  "HTTPClientFromParams os p =
    (let c = \<lparr>Timeout = 3 * Second, Transport = None\<rparr>;
         finish = (\<lambda>c url.
           let c1 = (if EnableRPCLogging p then attachTransport (LoggingTransport (EnableRPCPayloadLogging p)) c else c);
               c2 = (if EnableMetrics p then attachTransport MetricsTransport c1 else c1)
           in Inr (c2, url))
     in if usingTLS p then
          (case sanitizeHTTPAddress os (Address p) True of
             Inl e \<Rightarrow> Inl e
           | Inr url \<Rightarrow>
               (case trustedCertificateFromFileData os (TrustedCertificate p) of
                  Inl e \<Rightarrow> Inl e
                | Inr pool \<Rightarrow> finish (c\<lparr>Transport := Some (TLSTransport (Address p) pool)\<rparr>) url))
        else
          (case sanitizeHTTPAddress os (Address p) False of Inl e \<Rightarrow> Inl e | Inr url \<Rightarrow> finish c url))"

definition HTTPClientFromConfig :: "sys \<Rightarrow> string \<Rightarrow> (http_client \<times> string) res reader" where
  "HTTPClientFromConfig os prefix =
    rbind (paramsFromConfig os prefix ''.httpport'') (\<lambda>p. Result (case p of Inl e \<Rightarrow> Inl e | Inr p \<Rightarrow> HTTPClientFromParams os p))"

definition HTTPClientFromEndpoint :: "sys \<Rightarrow> string \<Rightarrow> (http_client \<times> string) res reader" where
  "HTTPClientFromEndpoint os address =
    ReadBool ''logging.rpc'' (\<lambda>log. rbind IsDebugEnabled (\<lambda>dbg. ReadBool ''telemetry.prometheus.enable'' (\<lambda>metrics.
      rbind (readCertificate os) (\<lambda>c. Result (case c of
          Inl e \<Rightarrow> Inl e
        | Inr d \<Rightarrow> HTTPClientFromParams os \<lparr>Address = address, TrustedCertificate = (case d of Some b \<Rightarrow> b | None \<Rightarrow> []),
            EnableRPCLogging = log, EnableRPCPayloadLogging = dbg, EnableMetrics = metrics\<rparr>)))))"

section \<open>The client cache\<close>

text \<open>
  One table for both kinds of clients. A client of the other kind under the address counts as missing
  and is replaced.
\<close>

datatype cached_client = CachedGRPC nat | CachedHTTP http_client string

type_synonym client_cache = "string \<rightharpoonup> cached_client"

definition GetGRPC :: "sys \<Rightarrow> config_view \<Rightarrow> string \<Rightarrow> client_cache \<Rightarrow> nat res \<times> client_cache" where
  "GetGRPC os cfg address cache =
    (case cache address of
       Some (CachedGRPC c) \<Rightarrow> (Inr c, cache)
     | _ \<Rightarrow> (case construct cfg (GRPCClientFromEndpoint os address) of
               Inl e \<Rightarrow> (Inl e, cache)
             | Inr conn \<Rightarrow> (Inr conn, cache(address \<mapsto> CachedGRPC conn))))"

definition GetHTTP :: "sys \<Rightarrow> config_view \<Rightarrow> string \<Rightarrow> client_cache \<Rightarrow> (http_client \<times> string) res \<times> client_cache" where
  "GetHTTP os cfg address cache =
    (case cache address of
       Some (CachedHTTP c url) \<Rightarrow> (Inr (c, url), cache)
     | _ \<Rightarrow> (case construct cfg (HTTPClientFromEndpoint os address) of
               Inl e \<Rightarrow> (Inl e, cache)
             | Inr (client, url) \<Rightarrow> (Inr (client, url), cache(address \<mapsto> CachedHTTP client url))))"

definition NewClientCache :: client_cache where
  "NewClientCache = Map.empty"

section \<open>Properties\<close>

lemma construct_IsDebugEnabled [simp]: "construct cfg IsDebugEnabled = IsDebugLevel (GetString cfg ''logging.level'')"
  by (simp add: IsDebugEnabled_def)

lemma construct_readCertificate:
  "construct cfg (readCertificate os) =
    (let p = GetString cfg certPath in
     if p = [] then Inr None else case Stat os p of Some e \<Rightarrow> Inl e
     | None \<Rightarrow> (case ReadFile os p of Inl e \<Rightarrow> Inl e | Inr d \<Rightarrow> Inr (Some d)))"
  by (simp add: readCertificate_def Let_def split: option.splits)

definition dial_options :: "config_view \<Rightarrow> dial_option list" where
  "dial_options cfg = newGRPCDialOptions (GetBool cfg ''telemetry.prometheus.enable'') (GetBool cfg ''logging.rpc'')
     (IsDebugLevel (GetString cfg ''logging.level''))"

lemma endpoint_eq:
  "construct cfg (GRPCClientFromEndpoint os address) =
    (case construct cfg (readCertificate os) of
       Inl e \<Rightarrow> Inl e
     | Inr None \<Rightarrow> Dial os address (dial_options cfg @ [Insecure])
     | Inr (Some d) \<Rightarrow> if AppendCertsFromPEM os d then Dial os address (dial_options cfg @ [TransportCredentials d])
                      else Inl (Wrapped (Wrapped FmtErr)))"
  by (simp add: GRPCClientFromEndpoint_def dial_options_def Let_def trustedCertificateFromFileData_def
      split: sum.splits option.splits)

text \<open>
  Transport security of gRPC clients. A client made from an endpoint is encrypted with the configured
  certificate whenever a certificate path is configured, or it is not made at all. A client made from
  a configuration prefix is connected without encryption when the configured certificate file is
  empty; with the same file the client made from an endpoint is refused.
\<close>

theorem grpc_client_tls:
  assumes path: "GetString cfg certPath \<noteq> []"
  shows "((\<exists>e. construct cfg (GRPCClientFromEndpoint os address) = Inl e) \<or>
      (\<exists>d. ReadFile os (GetString cfg certPath) = Inr d \<and> AppendCertsFromPEM os d \<and>
        construct cfg (GRPCClientFromEndpoint os address) = Dial os address (dial_options cfg @ [TransportCredentials d]))) \<and>
    (Stat os (GetString cfg certPath) = None \<and> ReadFile os (GetString cfg certPath) = Inr [] \<longrightarrow>
      construct cfg (GRPCClientFromConfig os prefix) =
        Dial os (toAddress (GetString cfg (prefix @ ''.hostname'')) (GetInt cfg (prefix @ ''.grpcport'')))
          (dial_options cfg @ [Insecure]) \<and>
      (\<not> AppendCertsFromPEM os [] \<longrightarrow> construct cfg (GRPCClientFromEndpoint os address) = Inl (Wrapped (Wrapped FmtErr))))"
proof (intro conjI impI)
  show "(\<exists>e. construct cfg (GRPCClientFromEndpoint os address) = Inl e) \<or>
      (\<exists>d. ReadFile os (GetString cfg certPath) = Inr d \<and> AppendCertsFromPEM os d \<and>
        construct cfg (GRPCClientFromEndpoint os address) = Dial os address (dial_options cfg @ [TransportCredentials d]))"
    using path by (simp add: endpoint_eq construct_readCertificate Let_def split: option.splits sum.splits)
qed (use path in \<open>simp_all add: endpoint_eq construct_readCertificate Let_def GRPCClientFromConfig_def paramsFromConfig_def
    GRPCClientFromParams_def usingTLS_def dial_options_def\<close>)

definition sample_cfg :: config_view where
  "sample_cfg = \<lparr>IsSet = (\<lambda>_. False), GetString = (\<lambda>k. if k = certPath then ''ca.pem'' else []), GetInt = (\<lambda>_. 0), GetInt64 = (\<lambda>_. 0),
     GetFloat64 = (\<lambda>_. Fin 0), GetStringSlice = (\<lambda>_. []), GetBool = (\<lambda>_. False), GetDuration = (\<lambda>_. 0)\<rparr>"

definition sample_sys :: sys where
  "sample_sys = \<lparr>Stat = (\<lambda>_. None), ReadFile = (\<lambda>_. Inr []), AppendCertsFromPEM = (\<lambda>d. d \<noteq> []),
     Dial = (\<lambda>_ opts. if Insecure \<in> set opts then Inr 1 else Inr 2), urlParse = Inr\<rparr>"

theorem grpc_client_tls_witness:
  "construct sample_cfg (GRPCClientFromConfig sample_sys ''api.query'') = Inr 1 \<and>
   construct sample_cfg (GRPCClientFromEndpoint sample_sys ''q:1'') = Inl (Wrapped (Wrapped FmtErr))"
  using grpc_client_tls [of sample_cfg sample_sys "''q:1''" "''api.query''"]
  by (simp add: sample_cfg_def sample_sys_def)

text \<open>
  The client cache. A successful \<open>GetGRPC\<close> makes the following ones with the same address return the
  same connection without dialling, whatever happens to other addresses; a failed one leaves the cache
  as it was; and a \<open>GetHTTP\<close> for the address replaces the connection, so that it is dialled again.
\<close>

theorem client_cache_reuses:
  assumes "GetGRPC os cfg a cache = (Inr c, cache1)"
  shows "GetGRPC os' cfg' a cache1 = (Inr c, cache1) \<and>
    (\<forall>b r. b \<noteq> a \<longrightarrow> fst (GetGRPC os' cfg' a (cache1(b := r))) = Inr c) \<and>
    (case GetHTTP os cfg a cache1 of
       (Inl e, cache2) \<Rightarrow> cache2 = cache1
     | (Inr _, cache2) \<Rightarrow> fst (GetGRPC os cfg a cache2) = construct cfg (GRPCClientFromEndpoint os a))"
proof -
  have "cache1 a = Some (CachedGRPC c)"
    using assms by (auto simp: GetGRPC_def split: option.splits cached_client.splits sum.splits)
  then show ?thesis by (auto simp: GetGRPC_def GetHTTP_def split: sum.splits option.splits cached_client.splits)
qed

theorem client_cache_reuses_witness:
  "\<exists>cache1. GetGRPC sample_sys (sample_cfg\<lparr>GetString := \<lambda>_. []\<rparr>) ''q:1'' NewClientCache = (Inr 1, cache1) \<and>
     GetGRPC sample_sys sample_cfg ''q:1'' cache1 = (Inr 1, cache1)"
proof -
  let ?cfg = "sample_cfg\<lparr>GetString := \<lambda>_. []\<rparr>"
  have "GetGRPC sample_sys ?cfg ''q:1'' NewClientCache = (Inr 1, [''q:1'' \<mapsto> CachedGRPC 1])"
    by (simp add: GetGRPC_def NewClientCache_def endpoint_eq construct_readCertificate sample_sys_def sample_cfg_def)
  from client_cache_reuses [OF this] this show ?thesis by blast
qed

end
