(* ===== verification/Rpc_Server.thy ===== *)
theory Rpc_Server
  imports Rpc_Clients
begin

text \<open>
  The server side of \<open>internal/rpc\<close> (\<open>server.go\<close>, \<open>insecure.go\<close>, \<open>tls_server.go\<close>, \<open>tls_util.go\<close>): how a server is
  put together from the configuration, started and stopped, and which listeners are open on the way. A
  listener is a number; handlers are names. Network, certificates and the registration of a proxy are
  parameters.
\<close>

section \<open>Listeners\<close>

text \<open>The listeners that are open, and the number of calls of \<open>listen\<close> so far, which numbers the next one.\<close>

record net =
  open_listeners :: "nat set"
  listened :: nat

record server_env =
  listen_err :: "nat \<Rightarrow> string \<Rightarrow> go_error option"
  listener_addr :: "nat \<Rightarrow> string"
  SplitHostPort :: "string \<Rightarrow> (string \<times> string) res"
  server_os :: sys
  X509KeyPair :: "bytes \<Rightarrow> bytes \<Rightarrow> bytes res"
  ParseCertificate :: "bytes \<Rightarrow> bytes res"
  proxy_err :: "string \<Rightarrow> string \<Rightarrow> dial_option list \<Rightarrow> go_error option"
  shutdown_err :: "go_error option"

definition listen :: "server_env \<Rightarrow> string \<Rightarrow> net \<Rightarrow> nat res \<times> net" where
  "listen env address n =
    (let k = listened n in
     case listen_err env k address of
       Some e \<Rightarrow> (Inl e, n\<lparr>listened := k + 1\<rparr>)
     | None \<Rightarrow> (Inr k, n\<lparr>open_listeners := insert k (open_listeners n), listened := k + 1\<rparr>))"

definition close_listener :: "nat \<Rightarrow> net \<Rightarrow> net" where
  "close_listener k n = n\<lparr>open_listeners := open_listeners n - {k}\<rparr>"

section \<open>The HTTP router\<close>

text \<open>
  \<open>http.ServeMux\<close>: patterns with their handlers. \<open>Handle\<close> panics for an empty pattern and for one that is
  registered already. A request goes to the handler of its path, or to that of the longest pattern that
  ends with a slash and is a prefix of the path.
\<close>

type_synonym mux = "(string \<times> string) list"

definition mux_Handle :: "string \<Rightarrow> string \<Rightarrow> mux \<Rightarrow> mux res" where
  "mux_Handle pattern handler m =
    (if pattern = [] then Inl Panic
     else if map_of m pattern \<noteq> None then Inl Panic
     else Inr (m @ [(pattern, handler)]))"

fun longest_prefix :: "string \<Rightarrow> mux \<Rightarrow> (string \<times> string) option \<Rightarrow> (string \<times> string) option" where
  "longest_prefix path [] best = best"
| "longest_prefix path ((pattern, handler) # m) best =
    (if last pattern = CHR ''/'' \<and> HasPrefix path pattern \<and>
        (case best of None \<Rightarrow> True | Some (p, _) \<Rightarrow> length p < length pattern)
     then longest_prefix path m (Some (pattern, handler)) else longest_prefix path m best)"

definition mux_match :: "mux \<Rightarrow> string \<Rightarrow> string option" where
  "mux_match m path =
    (case map_of m path of
       Some handler \<Rightarrow> Some handler
     | None \<Rightarrow> map_option snd (longest_prefix path m None))"

section \<open>Parameters of a server\<close>

record server_params =
  ServeMux :: mux
  handlersForGrpc :: "string list"
  handlersForGrpcProxy :: "string list"
  handlersForHealthCheck :: "string list"
  grpcListener :: nat
  grpcProxyListener :: nat
  rootCaPublicCertificateFileData :: bytes
  publicCertificateFileData :: bytes
  privateKeyFileData :: bytes
  sp_enableRPCLogging :: bool
  sp_enableRPCPayloadLogging :: bool
  sp_enableMetrics :: bool

definition NewServerParamsFromListeners :: "nat \<Rightarrow> nat \<Rightarrow> server_params" where
  "NewServerParamsFromListeners grpcL proxyL =
    \<lparr>ServeMux = [], handlersForGrpc = [], handlersForGrpcProxy = [], handlersForHealthCheck = [],
     grpcListener = grpcL, grpcProxyListener = proxyL, rootCaPublicCertificateFileData = [],
     publicCertificateFileData = [], privateKeyFileData = [],
     sp_enableRPCLogging = False, sp_enableRPCPayloadLogging = False, sp_enableMetrics = False\<rparr>"

definition SetTLSConfiguration :: "bytes \<Rightarrow> bytes \<Rightarrow> bytes \<Rightarrow> server_params \<Rightarrow> server_params" where
  "SetTLSConfiguration rootData publicData privateData p =
    p\<lparr>rootCaPublicCertificateFileData := (if length rootData = 0 then publicData else rootData),
      publicCertificateFileData := publicData, privateKeyFileData := privateData\<rparr>"

definition server_usingTLS :: "server_params \<Rightarrow> bool" where
  "server_usingTLS p \<longleftrightarrow> length (publicCertificateFileData p) > 0"

text \<open>A nil handler is not added.\<close>

definition sp_AddHandleFunc :: "string option \<Rightarrow> string option \<Rightarrow> server_params \<Rightarrow> server_params" where
  "sp_AddHandleFunc handlerFunc grpcProxyHandler p =
    (let p = (case handlerFunc of None \<Rightarrow> p | Some h \<Rightarrow> p\<lparr>handlersForGrpc := handlersForGrpc p @ [h]\<rparr>)
     in case grpcProxyHandler of None \<Rightarrow> p | Some h \<Rightarrow> p\<lparr>handlersForGrpcProxy := handlersForGrpcProxy p @ [h]\<rparr>)"

definition sp_AddHealthCheckFunc :: "string option \<Rightarrow> server_params \<Rightarrow> server_params" where
  "sp_AddHealthCheckFunc handlerFunc p =
    (case handlerFunc of None \<Rightarrow> p | Some h \<Rightarrow> p\<lparr>handlersForHealthCheck := handlersForHealthCheck p @ [h]\<rparr>)"

text \<open>Errors of closing are logged only.\<close>

definition invalidate :: "server_params \<Rightarrow> net \<Rightarrow> net" where
  "invalidate p n = close_listener (grpcProxyListener p) (close_listener (grpcListener p) n)"

text \<open>The certificate files: none unless both are configured; the root defaults to the public certificate.\<close>

definition load_TLS :: "server_env \<Rightarrow> config_view \<Rightarrow> server_params \<Rightarrow> server_params res" where
  "load_TLS env cfg p =
    (let certFile = GetString cfg ''api.tls.certificateFile''; privateKeyFile = GetString cfg ''api.tls.privateKey'' in
     if length certFile > 0 \<and> length privateKeyFile > 0 then
       case ReadFile (server_os env) certFile of
         Inl e \<Rightarrow> Inl (Wrapped FmtErr)
       | Inr publicCertData \<Rightarrow>
           (case ReadFile (server_os env) privateKeyFile of
              Inl e \<Rightarrow> Inl (Wrapped FmtErr)
            | Inr privateKeyData \<Rightarrow>
                let rootCertFile = GetString cfg ''api.tls.rootCertificateFile'' in
                if length rootCertFile > 0 then
                  (case ReadFile (server_os env) rootCertFile of
                     Inl e \<Rightarrow> Inl (Wrapped FmtErr)
                   | Inr rootData \<Rightarrow> Inr (SetTLSConfiguration rootData publicCertData privateKeyData p))
                else Inr (SetTLSConfiguration publicCertData publicCertData privateKeyData p))
     else Inr p)"

definition NewServerParamsFromConfig :: "server_env \<Rightarrow> config_view \<Rightarrow> string \<Rightarrow> net \<Rightarrow> server_params res \<times> net" where
  "NewServerParamsFromConfig env cfg prefix n =
    (case listen env ('':'' @ itoa (GetInt cfg (prefix @ ''.grpcport''))) n of
       (Inl e, n) \<Rightarrow> (Inl (Wrapped e), n)
     | (Inr grpcL, n) \<Rightarrow>
         (case listen env ('':'' @ itoa (GetInt cfg (prefix @ ''.httpport''))) n of
            (Inl e, n) \<Rightarrow> (Inl (Wrapped e), close_listener grpcL n)
          | (Inr httpL, n) \<Rightarrow>
              let p = NewServerParamsFromListeners grpcL httpL in
              (case load_TLS env cfg p of
                 Inl e \<Rightarrow> (Inl e, invalidate p n)
               | Inr p \<Rightarrow> (Inr (p\<lparr>sp_enableMetrics := GetBool cfg ''telemetry.prometheus.enable'',
                   sp_enableRPCLogging := GetBool cfg ''logging.rpc'',
                   sp_enableRPCPayloadLogging := IsDebugLevel (GetString cfg ''logging.level'')\<rparr>), n))))"

section \<open>Options and handlers\<close>

datatype server_interceptor = Recovery | Validator | ServerTracing | ServerPayloadLogging | ServerCallLogging | ServerErrorLogging

datatype server_option =
    StatsHandlerOption
  | StreamChain "server_interceptor list"
  | UnaryChain "server_interceptor list"
  | KeepaliveEnforcement int bool
  | ServerCreds bytes

definition newGRPCServerOptions :: "server_params \<Rightarrow> server_option list" where
  "newGRPCServerOptions p =
    (let i = [Recovery, Validator, ServerTracing] @
           (if sp_enableRPCLogging p then (if sp_enableRPCPayloadLogging p then [ServerPayloadLogging] else [ServerCallLogging]) else []);
         i = i @ [ServerErrorLogging]
     in (if sp_enableMetrics p then [StatsHandlerOption] else []) @
        [StreamChain i, UnaryChain i, KeepaliveEnforcement (10 * Second) True])"

text \<open>\<open>serverUnaryInterceptor\<close> and \<open>serverStreamInterceptor\<close> log the error of the handler and pass it on.\<close>

definition serverInterceptor :: "('q \<Rightarrow> 'r res) \<Rightarrow> 'q \<Rightarrow> 'r res" where
  "serverInterceptor handler req = (case handler req of Inl e \<Rightarrow> Inl e | Inr h \<Rightarrow> Inr h)"

text \<open>
  A chain: the first interceptor is the outermost. \<open>other\<close> are the interceptors of the libraries; the
  recovery interceptor turns a panic of what it wraps into the error \<open>recovered\<close>.
\<close>

fun run_chain :: "(server_interceptor \<Rightarrow> ('q \<Rightarrow> 'r res) \<Rightarrow> 'q \<Rightarrow> 'r res) \<Rightarrow> go_error \<Rightarrow> server_interceptor list \<Rightarrow>
    ('q \<Rightarrow> 'r res) \<Rightarrow> 'q \<Rightarrow> 'r res" where
  "run_chain other recovered [] handler req = handler req"
| "run_chain other recovered (i # is) handler req =
    (let inner = run_chain other recovered is handler in
     if i = Recovery then (if inner req = Inl Panic then Inl recovered else inner req)
     else if i = ServerErrorLogging then serverInterceptor inner req
     else other i inner req)"

datatype http_handler = MuxHandler | MetricsHandler http_handler | LoggingHandler bool http_handler

definition instrumentHTTPHandler :: "http_handler \<Rightarrow> server_params \<Rightarrow> http_handler" where
  "instrumentHTTPHandler handler p =
    (let handler = (if sp_enableMetrics p then MetricsHandler handler else handler)
     in if sp_enableRPCLogging p then LoggingHandler (sp_enableRPCPayloadLogging p) handler else handler)"

definition certificateFromFileData :: "server_env \<Rightarrow> bytes \<Rightarrow> bytes \<Rightarrow> bytes res" where
  "certificateFromFileData env publicData privateData =
    (case X509KeyPair env publicData privateData of
       Inl e \<Rightarrow> Inl (Wrapped e)
     | Inr cert \<Rightarrow> (case ParseCertificate env cert of Inl e \<Rightarrow> Inl (Wrapped e) | Inr leaf \<Rightarrow> Inr cert))"

section \<open>Start and stop\<close>

record grpc_server =
  gs_options :: "server_option list"
  gs_handlers :: "string list"

record http_server =
  hs_addr :: string
  hs_mux :: mux
  hs_handler :: http_handler
  hs_tls :: "(bytes \<times> bytes) option"

text \<open>\<open>serving\<close> are the listeners on which a goroutine of the server serves.\<close>

record server =
  s_grpcListener :: nat
  s_httpListener :: nat
  s_grpcServer :: "grpc_server option"
  s_proxyMux :: "string list"
  s_httpServer :: "http_server option"
  serving :: "nat set"

definition newServer :: "nat \<Rightarrow> nat \<Rightarrow> server" where
  "newServer grpcL httpL = \<lparr>s_grpcListener = grpcL, s_httpListener = httpL, s_grpcServer = None, s_proxyMux = [],
     s_httpServer = None, serving = {}\<rparr>"

fun bind_proxies :: "server_env \<Rightarrow> string \<Rightarrow> dial_option list \<Rightarrow> string list \<Rightarrow> string list \<Rightarrow> string list res" where
  "bind_proxies env address opts [] proxies = Inr proxies"
| "bind_proxies env address opts (h # hs) proxies =
    (case proxy_err env h address opts of
       Some e \<Rightarrow> Inl (Wrapped e)
     | None \<Rightarrow> bind_proxies env address opts hs (proxies @ [h]))"

abbreviation HealthCheckEndpoint :: string where "HealthCheckEndpoint \<equiv> ''/healthz''"

definition serve_http :: "server_env \<Rightarrow> server_params \<Rightarrow> (bytes \<times> bytes) option \<Rightarrow> server \<Rightarrow> unit res \<times> server" where
  "serve_http env p tls s =
    (case mux_Handle HealthCheckEndpoint ''health'' (ServeMux p) of
       Inl e \<Rightarrow> (Inl e, s)
     | Inr m \<Rightarrow>
         (case mux_Handle ''/'' ''proxy'' m of
            Inl e \<Rightarrow> (Inl e, s)
          | Inr m \<Rightarrow> (Inr (), s\<lparr>s_httpServer := Some \<lparr>hs_addr = listener_addr env (s_httpListener s), hs_mux = m,
              hs_handler = instrumentHTTPHandler MuxHandler p, hs_tls = tls\<rparr>,
              serving := insert (s_httpListener s) (serving s)\<rparr>)))"

definition serve_grpc :: "server_params \<Rightarrow> server_option list \<Rightarrow> server \<Rightarrow> server" where
  "serve_grpc p opts s = s\<lparr>s_grpcServer := Some \<lparr>gs_options = opts, gs_handlers = handlersForGrpc p\<rparr>,
     serving := insert (s_grpcListener s) (serving s)\<rparr>"

text \<open>The second half of both kinds of \<open>start\<close>: the proxies, then the HTTP server.\<close>

definition serve_proxy :: "server_env \<Rightarrow> server_params \<Rightarrow> string \<Rightarrow> dial_option list \<Rightarrow> (bytes \<times> bytes) option \<Rightarrow> server \<Rightarrow>
    unit res \<times> server" where
  "serve_proxy env p address opts tls s =
    (case bind_proxies env address opts (handlersForGrpcProxy p) [] of
       Inl e \<Rightarrow> (Inl e, s)
     | Inr proxies \<Rightarrow> serve_http env p tls (s\<lparr>s_proxyMux := proxies\<rparr>))"

definition insecure_start :: "server_env \<Rightarrow> server_params \<Rightarrow> server \<Rightarrow> unit res \<times> server" where
  "insecure_start env p s =
    (let s = serve_grpc p (newGRPCServerOptions p) s;
         dialOpts = newGRPCDialOptions (sp_enableMetrics p) (sp_enableRPCLogging p) (sp_enableRPCPayloadLogging p) @ [Insecure]
     in serve_proxy env p (listener_addr env (s_grpcListener s)) dialOpts None s)"

definition tls_start :: "server_env \<Rightarrow> server_params \<Rightarrow> server \<Rightarrow> unit res \<times> server" where
  "tls_start env p s =
    (case SplitHostPort env (listener_addr env (s_grpcListener s)) of
       Inl e \<Rightarrow> (Inl e, s)
     | Inr (_, grpcPort) \<Rightarrow>
         (case trustedCertificateFromFileData (server_os env) (rootCaPublicCertificateFileData p) of
            Inl e \<Rightarrow> (Inl (Wrapped e), s)
          | Inr rootCaCert \<Rightarrow>
              (case trustedCertificateFromFileData (server_os env) (publicCertificateFileData p) of
                 Inl e \<Rightarrow> (Inl (Wrapped e), s)
               | Inr certPool \<Rightarrow>
                   (case certificateFromFileData env (publicCertificateFileData p) (privateKeyFileData p) of
                      Inl e \<Rightarrow> (Inl (Wrapped e), s)
                    | Inr cert \<Rightarrow>
                        let s = serve_grpc p (newGRPCServerOptions p @ [ServerCreds cert]) s;
                            opts = newGRPCDialOptions (sp_enableMetrics p) (sp_enableRPCLogging p) (sp_enableRPCPayloadLogging p) @
                              [TransportCredentials certPool]
                        in serve_proxy env p (''localhost:'' @ grpcPort) opts (Some (cert, rootCaCert)) s))))"

text \<open>
  \<open>stop\<close>: \<open>Shutdown\<close> and \<open>GracefulStop\<close> end the goroutines and close the listeners; without an HTTP server it
  dereferences nil.
\<close>

definition server_stop :: "server_env \<Rightarrow> server \<Rightarrow> net \<Rightarrow> unit res \<times> server \<times> net" where
  "server_stop env s n =
    (case s_httpServer s of
       None \<Rightarrow> (Inl Panic, s, n)
     | Some _ \<Rightarrow>
         (case shutdown_err env of None \<Rightarrow> Inr () | Some e \<Rightarrow> Inl e, s\<lparr>serving := {}\<rparr>,
          close_listener (s_grpcListener s) (close_listener (s_httpListener s) n)))"

text \<open>\<open>Server.Start\<close> and \<open>Server.Stop\<close>; a server that was never started is nil.\<close>

definition Server_Start :: "server_env \<Rightarrow> server_params \<Rightarrow> unit res \<times> server" where
  "Server_Start env p =
    (let s = newServer (grpcListener p) (grpcProxyListener p)
     in if server_usingTLS p then tls_start env p s else insecure_start env p s)"

definition Server_Stop :: "server_env \<Rightarrow> server option \<Rightarrow> net \<Rightarrow> unit res \<times> server option \<times> net" where
  "Server_Stop env s n =
    (case s of
       None \<Rightarrow> (Inl Panic, None, n)
     | Some s \<Rightarrow> (case server_stop env s n of (r, s, n) \<Rightarrow> (r, Some s, n)))"

section \<open>No listener leaks from the configuration\<close>

text \<open>Open listeners have been numbered, so the next one is new.\<close>

definition net_ok :: "net \<Rightarrow> bool" where
  "net_ok n \<longleftrightarrow> (\<forall>l \<in> open_listeners n. l < listened n)"

lemma listen_result:
  assumes "net_ok n" and "listen env address n = (r, n')"
  shows "net_ok n'" and "listened n' = listened n + 1"
    and "case r of Inl _ \<Rightarrow> open_listeners n' = open_listeners n
      | Inr l \<Rightarrow> l = listened n \<and> l \<notin> open_listeners n \<and> open_listeners n' = insert l (open_listeners n)"
  using assms by (auto simp: listen_def net_ok_def Let_def less_Suc_eq split: option.splits)

lemma close_listener_ok: "net_ok n \<Longrightarrow> net_ok (close_listener l n)"
  by (auto simp: close_listener_def net_ok_def)

lemma close_listener_sel [simp]:
  "open_listeners (close_listener l n) = open_listeners n - {l}" "listened (close_listener l n) = listened n"
  by (simp_all add: close_listener_def)

lemma new_params_sel [simp]:
  "grpcListener (NewServerParamsFromListeners g h) = g" "grpcProxyListener (NewServerParamsFromListeners g h) = h"
  "publicCertificateFileData (NewServerParamsFromListeners g h) = []" "ServeMux (NewServerParamsFromListeners g h) = []"
  by (simp_all add: NewServerParamsFromListeners_def)

lemma load_TLS_result:
  "load_TLS env cfg p = Inr p' \<Longrightarrow> grpcListener p' = grpcListener p \<and> grpcProxyListener p' = grpcProxyListener p \<and>
     handlersForGrpc p' = handlersForGrpc p \<and> handlersForGrpcProxy p' = handlersForGrpcProxy p \<and> ServeMux p' = ServeMux p \<and>
     handlersForHealthCheck p' = handlersForHealthCheck p"
  by (auto simp: load_TLS_def SetTLSConfiguration_def Let_def split: if_splits sum.splits)

lemma load_TLS_uses:
  "load_TLS env cfg p = Inr p' \<Longrightarrow> publicCertificateFileData p = [] \<Longrightarrow> server_usingTLS p' \<longleftrightarrow>
     GetString cfg ''api.tls.certificateFile'' \<noteq> [] \<and> GetString cfg ''api.tls.privateKey'' \<noteq> [] \<and>
     ReadFile (server_os env) (GetString cfg ''api.tls.certificateFile'') \<noteq> Inr []"
  by (auto simp: load_TLS_def SetTLSConfiguration_def server_usingTLS_def Let_def split: if_splits sum.splits)

lemma new_params_listeners:
  assumes "net_ok n" and "NewServerParamsFromConfig env cfg prefix n = (r, n')"
  shows "net_ok n' \<and> (case r of
      Inl _ \<Rightarrow> open_listeners n' = open_listeners n
    | Inr p \<Rightarrow> open_listeners n' = open_listeners n \<union> {grpcListener p, grpcProxyListener p} \<and>
        grpcListener p \<notin> open_listeners n \<and> grpcProxyListener p \<notin> open_listeners n \<and> grpcListener p \<noteq> grpcProxyListener p)"
proof -
  obtain r1 n1 where 1: "listen env ('':'' @ itoa (GetInt cfg (prefix @ ''.grpcport''))) n = (r1, n1)" by fastforce
  note l1 = listen_result [OF assms(1) 1]
  obtain r2 n2 where 2: "listen env ('':'' @ itoa (GetInt cfg (prefix @ ''.httpport''))) n1 = (r2, n2)" by fastforce
  note l2 = listen_result [OF l1(1) 2]
  show ?thesis
  proof (cases r1)
    case (Inl e)
    with assms(2) 1 l1 show ?thesis by (auto simp: NewServerParamsFromConfig_def)
  next
    case g: (Inr g)
    show ?thesis
    proof (cases r2)
      case (Inl e)
      with assms(2) 1 2 g l1 l2 show ?thesis by (auto simp: NewServerParamsFromConfig_def intro: close_listener_ok)
    next
      case h: (Inr h)
      let ?p = "NewServerParamsFromListeners g h"
      show ?thesis
      proof (cases "load_TLS env cfg ?p")
        case (Inl e)
        with assms(2) 1 2 g h have "r = Inl e" "n' = close_listener h (close_listener g n2)"
          by (simp_all add: NewServerParamsFromConfig_def Let_def invalidate_def)
        with g h l1 l2 show ?thesis by (auto intro: close_listener_ok)
      next
        case (Inr p)
        with assms(2) 1 2 g h l1 l2 load_TLS_result [OF Inr] show ?thesis
          by (auto simp: NewServerParamsFromConfig_def Let_def server_usingTLS_def)
      qed
    qed
  qed
qed

lemma new_params_TLS:
  "NewServerParamsFromConfig env cfg prefix n = (Inr p, n') \<Longrightarrow> server_usingTLS p \<longleftrightarrow>
     GetString cfg ''api.tls.certificateFile'' \<noteq> [] \<and> GetString cfg ''api.tls.privateKey'' \<noteq> [] \<and>
     ReadFile (server_os env) (GetString cfg ''api.tls.certificateFile'') \<noteq> Inr []"
  using load_TLS_uses [of env cfg]
  by (auto simp: NewServerParamsFromConfig_def Let_def server_usingTLS_def split: sum.splits prod.splits)

text \<open>
  C30: The construction of a server from the configuration leaks no listener: if it fails, for whatever
  reason, the listeners that it opened are closed again; if it succeeds, exactly the two listeners of the
  server have been opened. The server uses TLS if and only if both a certificate and a key are configured
  and the certificate file is not empty.
\<close>

theorem server_params_no_leak:
  assumes "net_ok n" and "NewServerParamsFromConfig env cfg prefix n = (r, n')"
  shows "net_ok n' \<and> (case r of
      Inl _ \<Rightarrow> open_listeners n' = open_listeners n
    | Inr p \<Rightarrow> open_listeners n' = open_listeners n \<union> {grpcListener p, grpcProxyListener p} \<and>
        grpcListener p \<notin> open_listeners n \<and> grpcProxyListener p \<notin> open_listeners n \<and> grpcListener p \<noteq> grpcProxyListener p \<and>
        (server_usingTLS p \<longleftrightarrow> GetString cfg ''api.tls.certificateFile'' \<noteq> [] \<and> GetString cfg ''api.tls.privateKey'' \<noteq> [] \<and>
          ReadFile (server_os env) (GetString cfg ''api.tls.certificateFile'') \<noteq> Inr []))"
  using new_params_listeners [OF assms] new_params_TLS [of env cfg prefix n] assms(2) by (auto split: sum.splits)

section \<open>What a started server serves\<close>

lemma bind_proxies_all: "bind_proxies env address opts hs ps = Inr ps' \<Longrightarrow> ps' = ps @ hs"
  by (induction hs arbitrary: ps) (fastforce split: option.splits)+

lemma serve_http_result:
  assumes "serve_http env p tls s = (r, s')"
  shows "s_grpcServer s' = s_grpcServer s \<and> s_proxyMux s' = s_proxyMux s \<and> s_grpcListener s' = s_grpcListener s \<and>
    s_httpListener s' = s_httpListener s \<and>
    (case r of
       Inl _ \<Rightarrow> s' = s
     | Inr _ \<Rightarrow> serving s' = insert (s_httpListener s) (serving s) \<and> (\<exists>hs. s_httpServer s' = Some hs \<and> hs_tls hs = tls \<and>
         hs_mux hs = ServeMux p @ [(HealthCheckEndpoint, ''health''), (''/'', ''proxy'')] \<and>
         map_of (ServeMux p) HealthCheckEndpoint = None \<and> map_of (ServeMux p) ''/'' = None))"
  using assms by (auto simp: serve_http_def mux_Handle_def split: if_splits sum.splits)

lemma serve_grpc_sel [simp]:
  "s_grpcListener (serve_grpc p opts s) = s_grpcListener s" "s_httpListener (serve_grpc p opts s) = s_httpListener s"
  "serving (serve_grpc p opts s) = insert (s_grpcListener s) (serving s)" "s_httpServer (serve_grpc p opts s) = s_httpServer s"
  "s_grpcServer (serve_grpc p opts s) = Some \<lparr>gs_options = opts, gs_handlers = handlersForGrpc p\<rparr>"
  by (simp_all add: serve_grpc_def)

definition started :: "server_params \<Rightarrow> server \<Rightarrow> bool" where
  "started p s \<longleftrightarrow> serving s = {grpcListener p, grpcProxyListener p} \<and> s_grpcListener s = grpcListener p \<and>
     s_httpListener s = grpcProxyListener p \<and> s_proxyMux s = handlersForGrpcProxy p \<and>
     (\<exists>gs hs. s_grpcServer s = Some gs \<and> gs_handlers gs = handlersForGrpc p \<and> s_httpServer s = Some hs \<and>
       hs_mux hs = ServeMux p @ [(HealthCheckEndpoint, ''health''), (''/'', ''proxy'')] \<and>
       (hs_tls hs \<noteq> None \<longleftrightarrow> server_usingTLS p) \<and> (\<exists>c. ServerCreds c \<in> set (gs_options gs)) = server_usingTLS p \<and>
       map_of (ServeMux p) HealthCheckEndpoint = None \<and> map_of (ServeMux p) ''/'' = None)"

text \<open>A start that fails leaves at most the gRPC server, and no HTTP server to stop.\<close>

definition half_started :: "server_params \<Rightarrow> server \<Rightarrow> bool" where
  "half_started p s \<longleftrightarrow> s_httpServer s = None \<and> serving s \<subseteq> {grpcListener p}"

lemma options_creds: "ServerCreds c \<notin> set (newGRPCServerOptions p)"
  by (simp add: newGRPCServerOptions_def Let_def)

lemma serve_proxy_result:
  assumes "serve_proxy env p address opts tls (serve_grpc p gopts (newServer (grpcListener p) (grpcProxyListener p))) = (r, s)"
    and "(\<exists>c. ServerCreds c \<in> set gopts) = server_usingTLS p" and "tls \<noteq> None \<longleftrightarrow> server_usingTLS p"
  shows "case r of Inl _ \<Rightarrow> half_started p s | Inr _ \<Rightarrow> started p s"
proof -
  let ?s = "serve_grpc p gopts (newServer (grpcListener p) (grpcProxyListener p))"
  show ?thesis
  proof (cases "bind_proxies env address opts (handlersForGrpcProxy p) []")
    case (Inl e)
    with assms(1) show ?thesis by (auto simp: serve_proxy_def newServer_def half_started_def)
  next
    case (Inr ps)
    with assms(1) have "serve_http env p tls (?s\<lparr>s_proxyMux := ps\<rparr>) = (r, s)" by (simp add: serve_proxy_def)
    from serve_http_result [OF this] bind_proxies_all [OF Inr] assms(2,3) show ?thesis
      by (cases r) (auto simp: newServer_def started_def half_started_def)
  qed
qed

lemma tls_start_cases:
  assumes "tls_start env p s = (r, s')"
  shows "(\<exists>e. r = Inl e \<and> s' = s) \<or>
    (\<exists>address opts tls c. serve_proxy env p address opts (Some tls) (serve_grpc p (newGRPCServerOptions p @ [ServerCreds c]) s) = (r, s'))"
  using assms unfolding tls_start_def Let_def by (simp split: sum.splits prod.splits) blast+

lemma Server_Start_result:
  "Server_Start env p = (r, s) \<Longrightarrow> case r of Inl _ \<Rightarrow> half_started p s | Inr _ \<Rightarrow> started p s"
proof (cases "server_usingTLS p")
  case True
  let ?s = "newServer (grpcListener p) (grpcProxyListener p)"
  assume "Server_Start env p = (r, s)"
  with True have "tls_start env p ?s = (r, s)" by (simp add: Server_Start_def)
  from tls_start_cases [OF this] show ?thesis
  proof (elim disjE exE conjE)
    fix e assume "r = Inl e" "s = ?s"
    then show ?thesis by (simp add: half_started_def newServer_def)
  qed (erule serve_proxy_result, use True in auto)
next
  case False
  assume "Server_Start env p = (r, s)"
  with False show ?thesis
    by (auto simp: Server_Start_def insecure_start_def Let_def options_creds elim!: serve_proxy_result)
qed

lemma HasPrefix_self [simp]: "HasPrefix p p"
  by (simp add: HasPrefix_def)

text \<open>A path that no pattern but the last one covers goes to the proxy.\<close>

lemma longest_prefix_none:
  "list_all (\<lambda>(pt, h). \<not> (last pt = CHR ''/'' \<and> HasPrefix path pt)) m \<Longrightarrow> longest_prefix path (m @ m') best = longest_prefix path m' best"
  by (induction m arbitrary: best) auto

lemma mux_match_proxy:
  assumes "list_all (\<lambda>(pt, h). pt \<noteq> path \<and> \<not> (last pt = CHR ''/'' \<and> HasPrefix path pt)) m" and "HasPrefix path ''/''"
    and "path \<noteq> HealthCheckEndpoint"
  shows "mux_match (m @ [(HealthCheckEndpoint, ''health''), (''/'', ''proxy'')]) path = Some ''proxy''"
proof -
  have "map_of m path = None" using assms(1) by (auto simp: list_all_iff map_of_eq_None_iff)
  moreover have "list_all (\<lambda>(pt, h). \<not> (last pt = CHR ''/'' \<and> HasPrefix path pt)) m" using assms(1) by (auto simp: list_all_iff)
  ultimately show ?thesis using assms(2,3)
    by (cases "path = ''/''") (auto simp: mux_match_def longest_prefix_none map_add_def HasPrefix_def)
qed

lemma mux_match_health:
  "map_of m HealthCheckEndpoint = None \<Longrightarrow> mux_match (m @ [(HealthCheckEndpoint, ''health''), (''/'', ''proxy'')]) HealthCheckEndpoint = Some ''health''"
  by (simp add: mux_match_def map_add_def)


text \<open>
  The recovery interceptor is the outermost one, so a handler that panics does not end the process but
  returns an error, whatever the other interceptors do.
\<close>

theorem handlers_recover:
  assumes "UnaryChain c \<in> set (newGRPCServerOptions p) \<or> StreamChain c \<in> set (newGRPCServerOptions p)" and "recovered \<noteq> Panic"
  shows "run_chain other recovered c handler req \<noteq> Inl Panic"
proof -
  have "\<exists>is. c = Recovery # is" using assms(1) by (auto simp: newGRPCServerOptions_def Let_def split: if_splits)
  with assms(2) show ?thesis by (auto simp: Let_def split: if_splits)
qed

section \<open>Witnesses\<close>

definition sample_server_env :: server_env where
  "sample_server_env = \<lparr>listen_err = (\<lambda>k a. if k = 1 then Some (FmtErr) else None), listener_addr = (\<lambda>_. ''[::]:50504''),
     SplitHostPort = (\<lambda>a. Inr (''::'', ''50504'')),
     server_os = \<lparr>Stat = (\<lambda>_. None), ReadFile = (\<lambda>_. Inl FmtErr), AppendCertsFromPEM = (\<lambda>_. True), Dial = (\<lambda>_ _. Inr 0), urlParse = Inr\<rparr>,
     X509KeyPair = (\<lambda>c k. Inr c), ParseCertificate = Inr, proxy_err = (\<lambda>_ _ _. None), shutdown_err = None\<rparr>"

definition sample_cfg :: config_view where
  "sample_cfg = \<lparr>IsSet = (\<lambda>_. False), GetString = (\<lambda>_. []), GetInt = (\<lambda>_. 0), GetInt64 = (\<lambda>_. 0), GetFloat64 = (\<lambda>_. Fin 0),
     GetStringSlice = (\<lambda>_. []), GetBool = (\<lambda>_. False), GetDuration = (\<lambda>_. 0)\<rparr>"

text \<open>The second listener cannot be opened, and the first one is closed.\<close>

theorem server_params_no_leak_witness:
  "\<exists>r n'. NewServerParamsFromConfig sample_server_env sample_cfg ''api.frontend'' \<lparr>open_listeners = {}, listened = 0\<rparr> = (Inl r, n') \<and>
     listened n' = 2 \<and> open_listeners n' = {}"
proof -
  obtain r n' where h: "NewServerParamsFromConfig sample_server_env sample_cfg ''api.frontend'' \<lparr>open_listeners = {}, listened = 0\<rparr> = (r, n')"
    by fastforce
  then have "\<exists>e. r = Inl e" "listened n' = 2"
    by (auto simp: NewServerParamsFromConfig_def listen_def sample_server_env_def)
  with server_params_no_leak [of "\<lparr>open_listeners = {}, listened = 0\<rparr>", OF _ h] h show ?thesis by (auto simp: net_ok_def)
qed


end
