(* ===== verification/Application.thy ===== *)
theory Application
  imports Rpc_Server
begin

text \<open>
  The life of an Open Match process: \<open>internal/appmain/appmain.go\<close> with the telemetry that it sets up
  (\<open>internal/telemetry\<close>), the bindings of the services (\<open>BindService\<close> of \<open>internal/app\<close>) and the harness for
  tests (\<open>internal/appmain/apptest\<close>). The state is what a process holds: open listeners, the metric views
  and the exporters that are registered with OpenCensus. A closer is a function on this state. What the
  libraries answer is a parameter.
\<close>

section \<open>State, parameters and bindings\<close>

text \<open>Views are named; an exporter is a new object, numbered by \<open>nextExporter\<close>.\<close>

record world =
  w_net :: net
  views :: "string set"
  traceExporters :: "nat set"
  viewExporters :: "nat set"
  nextExporter :: nat

type_synonym app_closer = "world \<Rightarrow> unit res \<times> world"

record app_params =
  ap_config :: config_view
  serviceName :: string

record bindings =
  b_sp :: server_params
  closers :: "app_closer list"
  firstErr :: "go_error option"

text \<open>What the libraries answer to the application.\<close>

record lib_env =
  view_Register_err :: "string list \<Rightarrow> go_error option"
  ParseDuration :: "string \<Rightarrow> int res"
  jaeger_err :: "string \<Rightarrow> string \<Rightarrow> string \<Rightarrow> go_error option"
  collector_err :: "nat \<Rightarrow> go_error option"
  prometheus_err :: "go_error option"
  stackdriver_err :: "string \<Rightarrow> string \<Rightarrow> go_error option"
  ocagent_err :: "string \<Rightarrow> go_error option"
  ocagent_stop_err :: "go_error option"

text \<open>A binding takes the bindings and the state on; a result \<open>Inl Panic\<close> is a panic, which nothing here recovers.\<close>

type_synonym bind = "lib_env \<Rightarrow> app_params \<Rightarrow> bindings \<Rightarrow> world \<Rightarrow> unit res \<times> bindings \<times> world"

definition b_AddHealthCheckFunc :: "string \<Rightarrow> bindings \<Rightarrow> bindings" where
  "b_AddHealthCheckFunc f b = b\<lparr>b_sp := sp_AddHealthCheckFunc (Some f) (b_sp b)\<rparr>"

definition b_AddHandleFunc :: "string option \<Rightarrow> string option \<Rightarrow> bindings \<Rightarrow> bindings" where
  "b_AddHandleFunc h g b = b\<lparr>b_sp := sp_AddHandleFunc h g (b_sp b)\<rparr>"

definition AddCloserErr :: "app_closer \<Rightarrow> bindings \<Rightarrow> bindings" where
  "AddCloserErr c b = b\<lparr>closers := closers b @ [c]\<rparr>"

definition AddCloser :: "(world \<Rightarrow> world) \<Rightarrow> bindings \<Rightarrow> bindings" where
  "AddCloser c b = AddCloserErr (\<lambda>w. (Inr (), c w)) b"

text \<open>\<open>RegisterViews\<close> keeps its first error for the end of the start; on success it adds a closer.\<close>

definition RegisterViews :: "lib_env \<Rightarrow> string list \<Rightarrow> bindings \<Rightarrow> world \<Rightarrow> bindings \<times> world" where
  "RegisterViews env vs b w =
    (case view_Register_err env vs of
       Some e \<Rightarrow> (b\<lparr>firstErr := (case firstErr b of None \<Rightarrow> Some e | Some e' \<Rightarrow> Some e')\<rparr>, w)
     | None \<Rightarrow> (AddCloser (\<lambda>w. w\<lparr>views := views w - set vs\<rparr>) b, w\<lparr>views := views w \<union> set vs\<rparr>))"

definition TelemetryHandle :: "string \<Rightarrow> string \<Rightarrow> bindings \<Rightarrow> bindings res" where
  "TelemetryHandle pattern handler b =
    (case mux_Handle pattern handler (ServeMux (b_sp b)) of
       Inl e \<Rightarrow> Inl e
     | Inr m \<Rightarrow> Inr (b\<lparr>b_sp := (b_sp b)\<lparr>ServeMux := m\<rparr>\<rparr>))"

section \<open>Telemetry\<close>

definition configureOpenCensus :: bind where
  "configureOpenCensus env p b w =
    (case ParseDuration env (GetString (ap_config p) ''telemetry.reportingPeriod'') of
       Inl e \<Rightarrow> (Inl (Wrapped e), b, w)
     | Inr d \<Rightarrow> (Inr (), b, w))"

definition bindJaeger :: bind where
  "bindJaeger env p b w =
    (let cfg = ap_config p in
     if \<not> GetBool cfg ''telemetry.jaeger.enable'' then (Inr (), b, w)
     else case jaeger_err env (GetString cfg ''telemetry.jaeger.agentEndpoint'') (GetString cfg ''telemetry.jaeger.collectorEndpoint'') (serviceName p) of
       Some e \<Rightarrow> (Inl (Wrapped e), b, w)
     | None \<Rightarrow>
         let je = nextExporter w in
         (Inr (), AddCloser (\<lambda>w. w\<lparr>traceExporters := traceExporters w - {je}\<rparr>) b,
          w\<lparr>traceExporters := insert je (traceExporters w), nextExporter := je + 1\<rparr>))"

definition bindPrometheus :: bind where
  "bindPrometheus env p b w =
    (let cfg = ap_config p in
     if \<not> GetBool cfg ''telemetry.prometheus.enable'' then (Inr (), b, w)
     else case collector_err env 0 of
       Some e \<Rightarrow> (Inl (Wrapped e), b, w)
     | None \<Rightarrow> (case collector_err env 1 of
         Some e \<Rightarrow> (Inl (Wrapped e), b, w)
       | None \<Rightarrow> (case prometheus_err env of
           Some e \<Rightarrow> (Inl (Wrapped e), b, w)
         | None \<Rightarrow>
             let x = nextExporter w;
                 w = w\<lparr>viewExporters := insert x (viewExporters w), nextExporter := x + 1\<rparr>;
                 b = AddCloser (\<lambda>w. w\<lparr>viewExporters := viewExporters w - {x}\<rparr>) b
             in (case TelemetryHandle (GetString cfg ''telemetry.prometheus.endpoint'') ''prometheus'' b of
                   Inl e \<Rightarrow> (Inl e, b, w)
                 | Inr b \<Rightarrow> (Inr (), b, w)))))"

definition bindStackDriverMetrics :: bind where
  "bindStackDriverMetrics env p b w =
    (let cfg = ap_config p in
     if \<not> GetBool cfg ''telemetry.stackdriverMetrics.enable'' then (Inr (), b, w)
     else case stackdriver_err env (GetString cfg ''telemetry.stackdriverMetrics.gcpProjectId'') (GetString cfg ''telemetry.stackdriverMetrics.prefix'') of
       Some e \<Rightarrow> (Inl (Wrapped e), b, w)
     | None \<Rightarrow>
         let sd = nextExporter w in
         (Inr (), AddCloser (\<lambda>w. w\<lparr>viewExporters := viewExporters w - {sd}, traceExporters := traceExporters w - {sd}\<rparr>) b,
          w\<lparr>viewExporters := insert sd (viewExporters w), traceExporters := insert sd (traceExporters w), nextExporter := sd + 1\<rparr>))"

definition bindOpenCensusAgent :: bind where
  "bindOpenCensusAgent env p b w =
    (let cfg = ap_config p in
     if \<not> GetBool cfg ''telemetry.opencensusAgent.enable'' then (Inr (), b, w)
     else case ocagent_err env (GetString cfg ''telemetry.opencensusAgent.agentEndpoint'') of
       Some e \<Rightarrow> (Inl (Wrapped e), b, w)
     | None \<Rightarrow>
         let oce = nextExporter w in
         (Inr (), AddCloserErr (\<lambda>w. (case ocagent_stop_err env of None \<Rightarrow> Inr () | Some e \<Rightarrow> Inl e,
             w\<lparr>viewExporters := viewExporters w - {oce}, traceExporters := traceExporters w - {oce}\<rparr>)) b,
          w\<lparr>traceExporters := insert oce (traceExporters w), viewExporters := insert oce (viewExporters w), nextExporter := oce + 1\<rparr>))"

text \<open>The three debug pages are served under their exact paths.\<close>

definition handle_pages :: "(string \<times> string) list \<Rightarrow> bind" where
  "handle_pages pages env p b w =
    (if \<not> GetBool (ap_config p) ''telemetry.zpages.enable'' then (Inr (), b, w)
     else (case fold (\<lambda>(pt, h) r. case r of Inl e \<Rightarrow> Inl e | Inr b \<Rightarrow> TelemetryHandle pt h b) pages (Inr b) of
             Inl e \<Rightarrow> (Inl e, b, w)
           | Inr b \<Rightarrow> (Inr (), b, w)))"

definition bindZpages :: bind where
  "bindZpages = handle_pages [(''/debug'', ''zpages'')]"

definition bindHelp :: bind where
  "bindHelp = handle_pages [(''/help'', ''help''), (''/sos'', ''help'')]"

definition bindConfigz :: bind where
  "bindConfigz = handle_pages [(''/configz'', ''configz'')]"

text \<open>One binding after the other, until the first error: \<open>telemetry.Setup\<close>, \<open>minimatch\<close>, \<open>apptest\<close>.\<close>

fun bindAll :: "bind list \<Rightarrow> bind" where
  "bindAll [] env p b w = (Inr (), b, w)"
| "bindAll (f # fs) env p b w =
    (case f env p b w of
       (Inl e, b, w) \<Rightarrow> (Inl e, b, w)
     | (Inr _, b, w) \<Rightarrow> bindAll fs env p b w)"

definition telemetry_Setup :: bind where
  "telemetry_Setup = bindAll [configureOpenCensus, bindJaeger, bindPrometheus, bindStackDriverMetrics, bindOpenCensusAgent,
     bindZpages, bindHelp, bindConfigz]"

section \<open>Bindings of the services\<close>

text \<open>Handlers and health checks are names; the store of a service is built without an error.\<close>

definition backend_views :: "string list" where
  "backend_views = [''open-match.dev/backend/total_matches'', ''open-match.dev/backend/total_bytes_per_match'',
     ''open-match.dev/backend/tickets_per_match'', ''open-match.dev/backend/tickets_assigned'',
     ''open-match.dev/backend/tickets_released'', ''open-match.dev/backend/ticket_time_to_assignment'']"

definition frontend_views :: "string list" where
  "frontend_views = [''open-match.dev/frontend/total_bytes_per_ticket'', ''open-match.dev/frontend/searchfields_per_ticket'',
     ''open-match.dev/frontend/total_bytes_per_backfill'', ''open-match.dev/frontend/searchfields_per_backfill'']"

definition query_views :: "string list" where
  "query_views = [''open-match.dev/query/tickets_per_query'', ''open-match.dev/query/total_active_tickets'',
     ''open-match.dev/query/backfills_per_query'', ''open-match.dev/query/total_backfill_tickets'',
     ''open-match.dev/query/total_pending_tickets'', ''open-match.dev/query/total_cached_items'',
     ''open-match.dev/query/cache_updates'', ''open-match.dev/query/total_fetched_items'',
     ''open-match.dev/query/waiting_requests'', ''open-match.dev/query/update_latency'']"

definition synchronizer_views :: "string list" where
  "synchronizer_views = [''open-match.dev/synchronizer/iteration_latency'', ''open-match.dev/synchronizer/registration_wait_time'',
     ''open-match.dev/synchronizer/registration_mmf_done_time'']"

definition evaluator_views :: "string list" where
  "evaluator_views = [''open-match.dev/evaluator/matches_per_request'', ''open-match.dev/evaluator/matches_per_response'']"

definition backend_BindService :: bind where
  "backend_BindService env p b w =
    (let b = b_AddHandleFunc (Some ''BackendService'') (Some ''BackendServiceHandler'') (b_AddHealthCheckFunc ''store'' b)
     in (case RegisterViews env backend_views b w of
           (b, w) \<Rightarrow> (Inr (), b, w)))"

definition frontend_BindService :: bind where
  "frontend_BindService env p b w =
    (let b = b_AddHandleFunc (Some ''FrontendService'') (Some ''FrontendServiceHandler'') (b_AddHealthCheckFunc ''store'' b)
     in (case RegisterViews env frontend_views b w of
           (b, w) \<Rightarrow> (Inr (), b, w)))"

text \<open>Both caches of the query service add the health check of the store.\<close>

definition query_BindService :: bind where
  "query_BindService env p b w =
    (let b = b_AddHandleFunc (Some ''QueryService'') (Some ''QueryServiceHandler'')
           (b_AddHealthCheckFunc ''store'' (b_AddHealthCheckFunc ''store'' b))
     in (case RegisterViews env query_views b w of
           (b, w) \<Rightarrow> (Inr (), b, w)))"

definition synchronizer_BindService :: bind where
  "synchronizer_BindService env p b w =
    (let b = b_AddHandleFunc (Some ''Synchronizer'') None (b_AddHealthCheckFunc ''store'' b)
     in (case RegisterViews env synchronizer_views b w of
           (b, w) \<Rightarrow> (Inr (), b, w)))"

definition evaluator_BindServiceFor :: bind where
  "evaluator_BindServiceFor env p b w =
    (let b = b_AddHandleFunc (Some ''Evaluator'') (Some ''EvaluatorHandler'') b
     in (case RegisterViews env evaluator_views b w of
           (b, w) \<Rightarrow> (Inr (), b, w)))"

definition defaulteval_BindService :: bind where
  "defaulteval_BindService env p b w =
    (case evaluator_BindServiceFor env p b w of
       (Inl e, b, w) \<Rightarrow> (Inl e, b, w)
     | (Inr _, b, w) \<Rightarrow>
         (case RegisterViews env [''open-match.dev/defaulteval/collided_matches_per_call''] b w of (b, w) \<Rightarrow> (Inr (), b, w)))"

definition minimatch_BindService :: bind where
  "minimatch_BindService = bindAll [backend_BindService, frontend_BindService, query_BindService, synchronizer_BindService]"

section \<open>The application\<close>

text \<open>\<open>App.Stop\<close>: the closers in reverse order; the first error is returned. A closer that panics ends it.\<close>

fun run_closers :: "app_closer list \<Rightarrow> unit res \<Rightarrow> world \<Rightarrow> unit res \<times> world" where
  "run_closers [] first w = (first, w)"
| "run_closers (c # cs) first w =
    (case c w of (r, w) \<Rightarrow>
       if r = Inl Panic then (Inl Panic, w)
       else run_closers cs (if first = Inr () then r else first) w)"

definition App_Stop :: "app_closer list \<Rightarrow> world \<Rightarrow> unit res \<times> world" where
  "App_Stop cs w = run_closers (rev cs) (Inr ()) w"

text \<open>
  \<open>NewApplication\<close>: a configuration that cannot be read and parameters that cannot be built end the process
  (\<open>Fatalf\<close>); a panic unwinds; any other error stops what was set up and is returned.
\<close>

datatype app_result = Exited | Panicked | StartFailed go_error | Started "app_closer list"

definition stop_with :: "go_error \<Rightarrow> bindings \<Rightarrow> world \<Rightarrow> app_result \<times> world" where
  "stop_with e b w = (if e = Panic then (Panicked, w) else
     (case App_Stop (closers b) w of (r, w) \<Rightarrow> (if r = Inl Panic then Panicked else StartFailed e, w)))"

definition stop_server :: "server_env \<Rightarrow> server \<Rightarrow> app_closer" where
  "stop_server senv s w = (case Server_Stop senv (Some s) (w_net w) of (r, s, n) \<Rightarrow> (r, w\<lparr>w_net := n\<rparr>))"

definition NewApplication :: "server_env \<Rightarrow> lib_env \<Rightarrow> string \<Rightarrow> bind \<Rightarrow> config_view res \<Rightarrow> world \<Rightarrow> app_result \<times> world" where
  "NewApplication senv env name bindService getCfg w =
    (case getCfg of
       Inl e \<Rightarrow> (Exited, w)
     | Inr cfg \<Rightarrow>
         (case NewServerParamsFromConfig senv cfg (''api.'' @ name) (w_net w) of
            (Inl e, n) \<Rightarrow> (Exited, w\<lparr>w_net := n\<rparr>)
          | (Inr sp, n) \<Rightarrow>
              let w = w\<lparr>w_net := n\<rparr>; p = \<lparr>ap_config = cfg, serviceName = name\<rparr>; b = \<lparr>b_sp = sp, closers = [], firstErr = None\<rparr> in
              (case telemetry_Setup env p b w of
                 (Inl e, b, w) \<Rightarrow> stop_with e b w
               | (Inr _, b, w) \<Rightarrow>
                   (case bindService env p b w of
                      (Inl e, b, w) \<Rightarrow> stop_with e b w
                    | (Inr _, b, w) \<Rightarrow>
                        (case firstErr b of
                           Some e \<Rightarrow> stop_with e b w
                         | None \<Rightarrow>
                             (case Server_Start senv (b_sp b) of
                                (Inl e, s) \<Rightarrow> stop_with e b w
                              | (Inr _, s) \<Rightarrow> (Started (closers (AddCloserErr (stop_server senv s) b)), w)))))))"

section \<open>Closers undo what was bound\<close>

text \<open>What a process has registered, and that the next exporter is a new one.\<close>

definition holdings :: "world \<Rightarrow> string set \<times> nat set \<times> nat set" where
  "holdings w = (views w, traceExporters w, viewExporters w)"

definition world_ok :: "world \<Rightarrow> bool" where
  "world_ok w \<longleftrightarrow> net_ok (w_net w) \<and> (\<forall>x \<in> traceExporters w \<union> viewExporters w. x < nextExporter w)"

definition lib_ok :: "lib_env \<Rightarrow> bool" where
  "lib_ok env \<longleftrightarrow> ocagent_stop_err env \<noteq> Some Panic"

text \<open>
  Run in reverse order in any state that holds what \<open>w'\<close> holds, the closers lead back to what \<open>w\<close> holdings,
  without a panic and with the same listeners.
\<close>

definition undoes :: "app_closer list \<Rightarrow> world \<Rightarrow> world \<Rightarrow> bool" where
  "undoes cs w w' \<longleftrightarrow> (\<forall>v first. holdings v = holdings w' \<and> first \<noteq> Inl Panic \<longrightarrow>
     (\<exists>r v'. run_closers (rev cs) first v = (r, v') \<and> holdings v' = holdings w \<and> w_net v' = w_net v \<and> r \<noteq> Inl Panic))"

lemma run_closers_append:
  "run_closers xs first w = (r, w') \<Longrightarrow> r \<noteq> Inl Panic \<Longrightarrow> run_closers (xs @ ys) first w = run_closers ys r w'"
  by (induction xs arbitrary: first w) (auto split: prod.splits if_splits)

lemma undoes_Nil: "holdings w = holdings w' \<Longrightarrow> undoes [] w w'"
  by (simp add: undoes_def)

lemma undoes_append:
  assumes "undoes cs w w1" and "undoes cs' w1 w2"
  shows "undoes (cs @ cs') w w2"
  unfolding undoes_def
proof (intro allI impI)
  fix v and first :: "unit res"
  assume "holdings v = holdings w2 \<and> first \<noteq> Inl Panic"
  with assms(2) obtain r v1 where 1: "run_closers (rev cs') first v = (r, v1)" "holdings v1 = holdings w1" "r \<noteq> Inl Panic" "w_net v1 = w_net v"
    unfolding undoes_def by blast
  with assms(1) obtain r' v' where "run_closers (rev cs) r v1 = (r', v')" "holdings v' = holdings w" "r' \<noteq> Inl Panic" "w_net v' = w_net v1"
    unfolding undoes_def by blast
  with run_closers_append [OF 1(1,3), of "rev cs"] 1(4)
  show "\<exists>r v'. run_closers (rev (cs @ cs')) first v = (r, v') \<and> holdings v' = holdings w \<and> w_net v' = w_net v \<and> r \<noteq> Inl Panic" by simp
qed

lemma undoes_single:
  assumes "\<And>v. holdings v = holdings w' \<Longrightarrow> \<exists>r v'. c v = (r, v') \<and> holdings v' = holdings w \<and> w_net v' = w_net v \<and> r \<noteq> Inl Panic"
  shows "undoes [c] w w'"
  unfolding undoes_def using assms by (fastforce split: prod.splits)

text \<open>
  The contract of a binding: it adds closers that undo what it did, registers no views but its own, and
  leaves the listeners alone.
\<close>

definition same_listeners :: "bindings \<Rightarrow> bindings \<Rightarrow> bool" where
  "same_listeners b b' \<longleftrightarrow> grpcListener (b_sp b') = grpcListener (b_sp b) \<and> grpcProxyListener (b_sp b') = grpcProxyListener (b_sp b)"

definition cleanly :: "string set \<Rightarrow> bindings \<Rightarrow> world \<Rightarrow> bindings \<Rightarrow> world \<Rightarrow> bool" where
  "cleanly V b w b' w' \<longleftrightarrow> (\<exists>new. closers b' = closers b @ new \<and> undoes new w w') \<and> world_ok w' \<and> w_net w' = w_net w \<and>
     views w' \<subseteq> views w \<union> V \<and> same_listeners b b'"

lemma cleanly_refl: "world_ok w \<Longrightarrow> closers b' = closers b \<Longrightarrow> same_listeners b b' \<Longrightarrow> cleanly V b w b' w"
  by (auto simp: cleanly_def intro: undoes_Nil)

lemma cleanly_trans:
  assumes "cleanly V b w b1 w1" and "cleanly V' b1 w1 b2 w2"
  shows "cleanly (V \<union> V') b w b2 w2"
proof -
  obtain new new' where "closers b1 = closers b @ new" "undoes new w w1" "closers b2 = closers b1 @ new'" "undoes new' w1 w2"
    using assms unfolding cleanly_def by blast
  then have "closers b2 = closers b @ (new @ new') \<and> undoes (new @ new') w w2" by (simp add: undoes_append)
  with assms show ?thesis unfolding cleanly_def same_listeners_def by auto
qed

lemma cleanly_closer:
  assumes "closers b' = closers b @ [c]" and "same_listeners b b'" and "world_ok w'" and "w_net w' = w_net w" and "views w' = views w"
    and "\<And>v. holdings v = holdings w' \<Longrightarrow> \<exists>r v'. c v = (r, v') \<and> holdings v' = holdings w \<and> w_net v' = w_net v \<and> r \<noteq> Inl Panic"
  shows "cleanly V b w b' w'"
  using assms undoes_single [of w' c w] by (auto simp: cleanly_def)

locale clean_bind =
  fixes bind :: bind and V :: "string set"
  assumes clean: "lib_ok env \<Longrightarrow> world_ok w \<Longrightarrow> views w \<inter> V = {} \<Longrightarrow> bind env p b w = (r, b', w') \<Longrightarrow> cleanly V b w b' w'"

text \<open>Bindings in sequence are clean if their views are disjoint.\<close>

lemma clean_bind_Nil: "clean_bind (bindAll []) {}"
  by unfold_locales (auto intro: cleanly_refl simp: same_listeners_def)

lemma clean_bind_Cons:
  assumes "clean_bind f V" and "clean_bind (bindAll fs) V'" and "V \<inter> V' = {}"
  shows "clean_bind (bindAll (f # fs)) (V \<union> V')"
proof
  fix env w p b r b' w'
  assume lib: "lib_ok env" and ok: "world_ok w" and dis: "views w \<inter> (V \<union> V') = {}" and run: "bindAll (f # fs) env p b w = (r, b', w')"
  obtain r1 b1 w1 where 1: "f env p b w = (r1, b1, w1)" by (metis prod_cases3)
  have c1: "cleanly V b w b1 w1" by (rule clean_bind.clean [OF assms(1) lib ok _ 1]) (use dis in blast)
  show "cleanly (V \<union> V') b w b' w'"
  proof (cases r1)
    case (Inl e)
    with run 1 c1 show ?thesis unfolding cleanly_def by auto
  next
    case (Inr u)
    with run 1 have 2: "bindAll fs env p b1 w1 = (r, b', w')" by simp
    have "cleanly V' b1 w1 b' w'"
      by (rule clean_bind.clean [OF assms(2) lib _ _ 2]) (use c1 dis assms(3) in \<open>auto simp: cleanly_def\<close>)
    with c1 show ?thesis by (rule cleanly_trans)
  qed
qed

text \<open>Steps of bindings that leave closers and listeners alone.\<close>

lemma bindings_sel [simp]:
  "closers (b_AddHealthCheckFunc f b) = closers b" "closers (b_AddHandleFunc h g b) = closers b"
  "same_listeners b (b_AddHealthCheckFunc f b')  \<longleftrightarrow> same_listeners b b'" "same_listeners b (b_AddHandleFunc h g b') \<longleftrightarrow> same_listeners b b'"
  "same_listeners b (AddCloserErr c b') \<longleftrightarrow> same_listeners b b'" "closers (AddCloserErr c b) = closers b @ [c]"
  "firstErr (b_AddHealthCheckFunc f b) = firstErr b" "firstErr (b_AddHandleFunc h g b) = firstErr b"
  by (simp_all add: b_AddHealthCheckFunc_def b_AddHandleFunc_def sp_AddHealthCheckFunc_def sp_AddHandleFunc_def AddCloserErr_def
      same_listeners_def Let_def split: option.splits)

lemma same_listeners_refl [simp]: "same_listeners b b"
  by (simp add: same_listeners_def)

lemma TelemetryHandle_sel:
  "TelemetryHandle pt h b = Inr b' \<Longrightarrow> closers b' = closers b \<and> (same_listeners a b' \<longleftrightarrow> same_listeners a b) \<and> firstErr b' = firstErr b"
  by (auto simp: TelemetryHandle_def same_listeners_def split: sum.splits)

lemma RegisterViews_cleanly:
  assumes "world_ok w" and "views w \<inter> set vs = {}" and "RegisterViews env vs b w = (b', w')"
  shows "cleanly (set vs) b w b' w'"
proof (cases "view_Register_err env vs")
  case None
  with assms(3) have b': "closers b' = closers b @ [\<lambda>w. (Inr (), w\<lparr>views := views w - set vs\<rparr>)]" "same_listeners b b'"
    and w': "w' = w\<lparr>views := views w \<union> set vs\<rparr>"
    by (auto simp: RegisterViews_def AddCloser_def)
  have "undoes [\<lambda>w. (Inr (), w\<lparr>views := views w - set vs\<rparr>)] w w'"
    by (rule undoes_single) (use assms(2) w' in \<open>auto simp: holdings_def\<close>)
  with b' w' assms(1) show ?thesis by (auto simp: cleanly_def world_ok_def)
next
  case (Some e)
  with assms show ?thesis by (auto simp: RegisterViews_def same_listeners_def intro!: cleanly_refl)
qed

text \<open>A service that adds handlers and health checks, then its views.\<close>

lemma clean_service:
  assumes "\<And>env p b w. bind env p b w = (case RegisterViews env vs (f b) w of (b, w) \<Rightarrow> (Inr (), b, w))"
    and "\<And>b. closers (f b) = closers b" and "\<And>b. same_listeners b (f b)"
  shows "clean_bind bind (set vs)"
proof
  fix env w p b r b' w'
  assume "lib_ok env" "world_ok w" "views w \<inter> set vs = {}" "bind env p b w = (r, b', w')"
  then have "cleanly (set vs) (f b) w b' w'" using RegisterViews_cleanly [of w vs env "f b" b' w'] assms(1) by (auto split: prod.splits)
  then show "cleanly (set vs) b w b' w'" using assms(2,3) [of b] by (auto simp: cleanly_def same_listeners_def)
qed

section \<open>Telemetry and services are clean\<close>

lemma AddCloser_sel [simp]: "closers (AddCloser c b) = closers b @ [\<lambda>w. (Inr (), c w)]" "same_listeners b (AddCloser c b') \<longleftrightarrow> same_listeners b b'"
  by (simp_all add: AddCloser_def)

lemma world_ok_fresh:
  "world_ok w \<Longrightarrow> nextExporter w \<notin> traceExporters w \<and> nextExporter w \<notin> viewExporters w"
  by (auto simp: world_ok_def)

text \<open>Registering a new exporter and a closer that removes it.\<close>

lemma cleanly_exporter:
  assumes "world_ok w" and "closers b' = closers b @ [c]" and "same_listeners b b'"
    and w': "w' = w\<lparr>traceExporters := (if tr then insert (nextExporter w) (traceExporters w) else traceExporters w),
      viewExporters := (if vw then insert (nextExporter w) (viewExporters w) else viewExporters w), nextExporter := nextExporter w + 1\<rparr>"
    and c: "\<And>v. \<exists>r. r \<noteq> Inl Panic \<and> c v = (r, v\<lparr>traceExporters := (if tr then traceExporters v - {nextExporter w} else traceExporters v),
      viewExporters := (if vw then viewExporters v - {nextExporter w} else viewExporters v)\<rparr>)"
  shows "cleanly V b w b' w'"
proof (rule cleanly_closer [OF assms(2,3)])
  show "world_ok w'" using assms(1) unfolding w' world_ok_def by (auto simp: less_Suc_eq)
  show "\<exists>r v'. c v = (r, v') \<and> holdings v' = holdings w \<and> w_net v' = w_net v \<and> r \<noteq> Inl Panic" if v: "holdings v = holdings w'" for v
  proof -
    obtain r where "r \<noteq> Inl Panic" "c v = (r, v\<lparr>traceExporters := (if tr then traceExporters v - {nextExporter w} else traceExporters v),
      viewExporters := (if vw then viewExporters v - {nextExporter w} else viewExporters v)\<rparr>)" using c by blast
    moreover have "holdings (v\<lparr>traceExporters := (if tr then traceExporters v - {nextExporter w} else traceExporters v),
      viewExporters := (if vw then viewExporters v - {nextExporter w} else viewExporters v)\<rparr>) = holdings w"
      using v world_ok_fresh [OF assms(1)] unfolding w' by (auto simp: holdings_def)
    ultimately show ?thesis by auto
  qed
qed (simp_all add: w')

lemma cleanly_handle:
  assumes "cleanly V b w b1 w'" and "TelemetryHandle pt h b1 = Inr b'"
  shows "cleanly V b w b' w'"
  using assms TelemetryHandle_sel [OF assms(2), of b] by (auto simp: cleanly_def)

lemma jaeger_clean: "clean_bind bindJaeger {}"
proof
  fix env w p b r b' w'
  assume "world_ok w" and "bindJaeger env p b w = (r, b', w')"
  then show "cleanly {} b w b' w'"
    by (auto simp: bindJaeger_def Let_def split: if_splits option.splits intro!: cleanly_refl cleanly_exporter [where tr = True and vw = False])
qed

lemma stackdriver_clean: "clean_bind bindStackDriverMetrics {}"
proof
  fix env w p b r b' w'
  assume "world_ok w" and "bindStackDriverMetrics env p b w = (r, b', w')"
  then show "cleanly {} b w b' w'"
    by (auto simp: bindStackDriverMetrics_def Let_def split: if_splits option.splits intro!: cleanly_refl cleanly_exporter [where tr = True and vw = True])
qed

lemma agent_clean: "clean_bind bindOpenCensusAgent {}"
proof
  fix env w p b r b' w'
  assume "lib_ok env" and "world_ok w" and "bindOpenCensusAgent env p b w = (r, b', w')"
  then show "cleanly {} b w b' w'"
    by (auto simp: bindOpenCensusAgent_def Let_def lib_ok_def split: if_splits option.splits intro!: cleanly_refl cleanly_exporter [where tr = True and vw = True])
qed

lemma prometheus_clean: "clean_bind bindPrometheus {}"
proof
  fix env w p b r b' w'
  assume ok: "world_ok w" and run: "bindPrometheus env p b w = (r, b', w')"
  let ?w = "w\<lparr>viewExporters := insert (nextExporter w) (viewExporters w), nextExporter := nextExporter w + 1\<rparr>"
    and ?b = "AddCloser (\<lambda>v. v\<lparr>viewExporters := viewExporters v - {nextExporter w}\<rparr>) b"
  have c: "cleanly {} b w ?b ?w" using ok by (intro cleanly_exporter [where tr = False and vw = True]) auto
  have "b' = b \<and> w' = w \<or> b' = ?b \<and> w' = ?w \<or> (\<exists>pt. TelemetryHandle pt ''prometheus'' ?b = Inr b') \<and> w' = ?w"
    using run unfolding bindPrometheus_def Let_def by (simp split: if_splits option.splits sum.splits) blast
  then show "cleanly {} b w b' w'"
  proof (elim disjE conjE exE)
    assume "b' = b" "w' = w"
    then show ?thesis using ok by (simp add: cleanly_refl)
  qed (use c cleanly_handle [OF c] in blast)+
qed

lemma handle_fold:
  "fold (\<lambda>(pt, h) r. case r of Inl e \<Rightarrow> Inl e | Inr b \<Rightarrow> TelemetryHandle pt h b) pages (Inr b) = Inr b' \<Longrightarrow>
   closers b' = closers b \<and> same_listeners b b' \<and> firstErr b' = firstErr b"
proof (induction pages arbitrary: b)
  case (Cons x pages)
  have err: "fold (\<lambda>(pt, h) r. case r of Inl e \<Rightarrow> Inl e | Inr b \<Rightarrow> TelemetryHandle pt h b) pages (Inl e) = Inl e" for e :: go_error and pages
    by (induction pages) auto
  obtain pt h where x: "x = (pt, h)" by fastforce
  show ?case
  proof (cases "TelemetryHandle pt h b")
    case (Inl e)
    with Cons.prems x err [of pages e] show ?thesis by simp
  next
    case (Inr b1)
    with Cons.prems x Cons.IH [of b1] TelemetryHandle_sel [OF Inr, of b] show ?thesis by (simp add: same_listeners_def)
  qed
qed simp

lemma pages_clean: "clean_bind (handle_pages pages) {}"
proof
  fix env w p b r b' w'
  assume ok: "world_ok w" and run: "handle_pages pages env p b w = (r, b', w')"
  from run consider "b' = b" "w' = w"
    | "fold (\<lambda>(pt, h) r. case r of Inl e \<Rightarrow> Inl e | Inr b \<Rightarrow> TelemetryHandle pt h b) pages (Inr b) = Inr b'" "w' = w"
    by (auto simp: handle_pages_def split: if_splits sum.splits)
  then show "cleanly {} b w b' w'" using ok handle_fold [of pages b b'] by cases (auto intro: cleanly_refl)
qed

lemma census_clean: "clean_bind configureOpenCensus {}"
  by unfold_locales (auto simp: configureOpenCensus_def split: sum.splits intro: cleanly_refl)

interpretation telemetry: clean_bind telemetry_Setup "{}"
proof -
  note Cons = clean_bind_Cons [where V = "{}" and V' = "{}", simplified]
  show "clean_bind telemetry_Setup {}"
    unfolding telemetry_Setup_def bindZpages_def bindHelp_def bindConfigz_def
    by (intro Cons census_clean jaeger_clean prometheus_clean stackdriver_clean agent_clean pages_clean clean_bind_Nil)
qed

interpretation backend: clean_bind backend_BindService "set backend_views"
  by (rule clean_service [where f = "\<lambda>b. b_AddHandleFunc (Some ''BackendService'') (Some ''BackendServiceHandler'') (b_AddHealthCheckFunc ''store'' b)"])
    (simp_all add: backend_BindService_def)

interpretation frontend: clean_bind frontend_BindService "set frontend_views"
  by (rule clean_service [where f = "\<lambda>b. b_AddHandleFunc (Some ''FrontendService'') (Some ''FrontendServiceHandler'') (b_AddHealthCheckFunc ''store'' b)"])
    (simp_all add: frontend_BindService_def)

interpretation query: clean_bind query_BindService "set query_views"
  by (rule clean_service [where f = "\<lambda>b. b_AddHandleFunc (Some ''QueryService'') (Some ''QueryServiceHandler'')
      (b_AddHealthCheckFunc ''store'' (b_AddHealthCheckFunc ''store'' b))"]) (simp_all add: query_BindService_def)

interpretation synchronizer: clean_bind synchronizer_BindService "set synchronizer_views"
  by (rule clean_service [where f = "\<lambda>b. b_AddHandleFunc (Some ''Synchronizer'') None (b_AddHealthCheckFunc ''store'' b)"])
    (simp_all add: synchronizer_BindService_def)

interpretation evaluator: clean_bind evaluator_BindServiceFor "set evaluator_views"
  by (rule clean_service [where f = "\<lambda>b. b_AddHandleFunc (Some ''Evaluator'') (Some ''EvaluatorHandler'') b"])
    (simp_all add: evaluator_BindServiceFor_def)

interpretation defaulteval: clean_bind defaulteval_BindService "set evaluator_views \<union> {''open-match.dev/defaulteval/collided_matches_per_call''}"
proof
  fix env w p b r b' w'
  let ?v = "''open-match.dev/defaulteval/collided_matches_per_call''"
  assume lib: "lib_ok env" and ok: "world_ok w" and dis: "views w \<inter> (set evaluator_views \<union> {?v}) = {}"
    and run: "defaulteval_BindService env p b w = (r, b', w')"
  obtain b1 w1 where 1: "evaluator_BindServiceFor env p b w = (Inr (), b1, w1)"
    by (cases "RegisterViews env evaluator_views (b_AddHandleFunc (Some ''Evaluator'') (Some ''EvaluatorHandler'') b) w")
      (simp add: evaluator_BindServiceFor_def)
  have c1: "cleanly (set evaluator_views) b w b1 w1" by (rule evaluator.clean [OF lib ok _ 1]) (use dis in blast)
  have 2: "RegisterViews env [?v] b1 w1 = (b', w')" using run 1 by (auto simp: defaulteval_BindService_def split: prod.splits)
  have new: "?v \<notin> set evaluator_views" by (simp add: evaluator_views_def)
  have "views w1 \<inter> set [?v] = {}" using c1 dis new unfolding cleanly_def list.set by blast
  moreover have "world_ok w1" using c1 by (simp add: cleanly_def)
  ultimately have "cleanly (set [?v]) b1 w1 b' w'" using 2 by (intro RegisterViews_cleanly)
  from cleanly_trans [OF c1 this] show "cleanly (set evaluator_views \<union> {?v}) b w b' w'" by simp
qed

lemma views_disjoint:
  "set query_views \<inter> set synchronizer_views = {}" "set frontend_views \<inter> (set query_views \<union> set synchronizer_views) = {}"
  "set backend_views \<inter> (set frontend_views \<union> (set query_views \<union> set synchronizer_views)) = {}"
  by (simp_all add: query_views_def synchronizer_views_def frontend_views_def backend_views_def)

interpretation minimatch: clean_bind minimatch_BindService
  "set backend_views \<union> (set frontend_views \<union> (set query_views \<union> (set synchronizer_views \<union> {})))"
  unfolding minimatch_BindService_def
  by (intro clean_bind_Cons clean_bind_Nil backend.clean_bind_axioms frontend.clean_bind_axioms query.clean_bind_axioms
      synchronizer.clean_bind_axioms) (simp_all add: views_disjoint)

section \<open>Start and stop of an application\<close>

lemma stop_with_undone:
  assumes "undoes (closers b) w w'" and "stop_with e b w' = (r, v)"
  shows "r = Panicked \<or> r = StartFailed e \<and> holdings v = holdings w \<and> w_net v = w_net w'"
proof (cases "e = Panic")
  case False
  obtain x v' where "App_Stop (closers b) w' = (x, v')" "holdings v' = holdings w" "w_net v' = w_net w'" "x \<noteq> Inl Panic"
    using assms(1) unfolding undoes_def App_Stop_def by blast
  with assms(2) False show ?thesis by (auto simp: stop_with_def)
qed (use assms(2) in \<open>simp add: stop_with_def\<close>)

text \<open>What may become of an application: \<open>g\<close> and \<open>h\<close> are its listeners.\<close>

definition app_outcome :: "world \<Rightarrow> app_result \<Rightarrow> world \<Rightarrow> bool" where
  "app_outcome w r w' \<longleftrightarrow>
    (case r of
       Exited \<Rightarrow> holdings w' = holdings w \<and> open_listeners (w_net w') = open_listeners (w_net w)
     | Panicked \<Rightarrow> True
     | StartFailed e \<Rightarrow> holdings w' = holdings w \<and> (\<exists>g h. g \<noteq> h \<and> g \<notin> open_listeners (w_net w) \<and> h \<notin> open_listeners (w_net w) \<and>
         open_listeners (w_net w') = open_listeners (w_net w) \<union> {g, h})
     | Started cs \<Rightarrow> (\<exists>g h. g \<noteq> h \<and> g \<notin> open_listeners (w_net w) \<and> h \<notin> open_listeners (w_net w) \<and>
         open_listeners (w_net w') = open_listeners (w_net w) \<union> {g, h}) \<and>
         (\<exists>x w''. App_Stop cs w' = (x, w'') \<and> x \<noteq> Inl Panic \<and> holdings w'' = holdings w \<and> open_listeners (w_net w'') = open_listeners (w_net w)))"

lemma stop_server_closes:
  assumes "Server_Start senv p = (Inr u, s)" and "shutdown_err senv \<noteq> Some Panic"
  shows "\<exists>r v'. stop_server senv s v = (r, v') \<and> r \<noteq> Inl Panic \<and> holdings v' = holdings v \<and>
    open_listeners (w_net v') = open_listeners (w_net v) - {grpcListener p, grpcProxyListener p}"
proof -
  have "started p s" using Server_Start_result [OF assms(1)] by simp
  then show ?thesis using assms(2)
    by (auto simp: stop_server_def holdings_def started_def Server_Stop_def server_stop_def split: option.splits)
qed

lemma App_Stop_server:
  assumes "Server_Start senv p = (Inr u, s)" and "shutdown_err senv \<noteq> Some Panic" and "undoes cs w w'"
  shows "\<exists>x w''. App_Stop (cs @ [stop_server senv s]) w' = (x, w'') \<and> x \<noteq> Inl Panic \<and> holdings w'' = holdings w \<and>
    open_listeners (w_net w'') = open_listeners (w_net w') - {grpcListener p, grpcProxyListener p}"
proof -
  obtain r v where v: "stop_server senv s w' = (r, v)" "r \<noteq> Inl Panic" "holdings v = holdings w'"
    "open_listeners (w_net v) = open_listeners (w_net w') - {grpcListener p, grpcProxyListener p}"
    using stop_server_closes [OF assms(1,2)] by blast
  obtain x w'' where "run_closers (rev cs) r v = (x, w'')" "holdings w'' = holdings w" "w_net w'' = w_net v" "x \<noteq> Inl Panic"
    using assms(3) v(2,3) unfolding undoes_def by blast
  with v show ?thesis by (simp add: App_Stop_def)
qed

context clean_bind
begin

lemma application_outcome:
  assumes lib: "lib_ok env" "shutdown_err senv \<noteq> Some Panic" and ok: "world_ok w" and dis: "views w \<inter> V = {}"
    and run: "NewApplication senv env name bind getCfg w = (r, w')"
  shows "app_outcome w r w'"
proof (cases getCfg)
  case (Inl e)
  with run show ?thesis by (auto simp: NewApplication_def app_outcome_def)
next
  case cfg: (Inr cfg)
  obtain r0 n where 0: "NewServerParamsFromConfig senv cfg (''api.'' @ name) (w_net w) = (r0, n)" by fastforce
  have "net_ok (w_net w)" using ok by (simp add: world_ok_def)
  note np = new_params_listeners [OF this 0]
  show ?thesis
  proof (cases r0)
    case (Inl e)
    have "r = Exited" "w' = w\<lparr>w_net := n\<rparr>" using run 0 unfolding NewApplication_def cfg Inl by simp_all
    with np Inl show ?thesis by (simp add: app_outcome_def holdings_def)
  next
    case sp: (Inr sp)
    let ?w = "w\<lparr>w_net := n\<rparr>" and ?p = "\<lparr>ap_config = cfg, serviceName = name\<rparr>" and ?b = "\<lparr>b_sp = sp, closers = [], firstErr = None\<rparr>"
    have ok1: "world_ok ?w" "holdings ?w = holdings w" using ok np by (auto simp: world_ok_def holdings_def)
    have gh: "\<exists>g h. g \<noteq> h \<and> g \<notin> open_listeners (w_net w) \<and> h \<notin> open_listeners (w_net w) \<and>
      open_listeners n = open_listeners (w_net w) \<union> {g, h}"
      by (intro exI [of _ "grpcListener sp"] exI [of _ "grpcProxyListener sp"]) (use np sp in simp)
    obtain rt b1 w1 where t: "telemetry_Setup env ?p ?b ?w = (rt, b1, w1)" by (metis prod_cases3)
    have tc: "cleanly {} ?b ?w b1 w1" using telemetry.clean [OF lib(1) ok1(1) _ t] by simp
    obtain rb b2 w2 where s: "bind env ?p b1 w1 = (rb, b2, w2)" by (metis prod_cases3)
    have "cleanly V b1 w1 b2 w2" by (rule clean [OF lib(1) _ _ s]) (use tc dis in \<open>auto simp: cleanly_def\<close>)
    from cleanly_trans [OF tc this] have sc: "cleanly V ?b ?w b2 w2" by simp
    have failed: "app_outcome w x v" if c: "cleanly V' ?b ?w b w'" "stop_with e b w' = (x, v)" for V' b w' e x v
    proof -
      have "undoes (closers b) ?w w'" "w_net w' = n" using c(1) by (auto simp: cleanly_def)
      from stop_with_undone [OF this(1) c(2)] this(2) ok1(2) have "x = Panicked \<or> (x = StartFailed e \<and> holdings v = holdings w \<and> w_net v = n)" by simp
      then show ?thesis
      proof
        assume "x = StartFailed e \<and> holdings v = holdings w \<and> w_net v = n"
        with gh show ?thesis by (simp add: app_outcome_def)
      qed (simp add: app_outcome_def)
    qed
    show ?thesis
    proof (cases rt)
      case (Inl e)
      with run cfg 0 sp t failed [OF tc] show ?thesis by (simp add: NewApplication_def Let_def)
    next
      case rt: (Inr u)
      show ?thesis
      proof (cases "\<exists>e. rb = Inl e \<or> rb = Inr () \<and> firstErr b2 = Some e")
        case True
        with run cfg 0 sp t rt s failed [OF sc] show ?thesis by (auto simp: NewApplication_def Let_def)
      next
        case False
        then have rb: "rb = Inr ()" "firstErr b2 = None" by (cases rb; auto)+
        obtain rs srv where st: "Server_Start senv (b_sp b2) = (rs, srv)" by fastforce
        show ?thesis
        proof (cases rs)
          case (Inl e)
          with run cfg 0 sp t rt s rb st failed [OF sc] show ?thesis by (simp add: NewApplication_def Let_def)
        next
          case (Inr u')
          with run cfg 0 sp t rt s rb st have r: "r = Started (closers b2 @ [stop_server senv srv])" "w' = w2"
            by (simp_all add: NewApplication_def Let_def)
          have "undoes (closers b2) ?w w2" and same: "w_net w2 = n" "grpcListener (b_sp b2) = grpcListener sp"
            "grpcProxyListener (b_sp b2) = grpcProxyListener sp" using sc by (auto simp: cleanly_def same_listeners_def)
          from App_Stop_server [OF st [unfolded Inr] lib(2) this(1)] obtain x w'' where
            "App_Stop (closers b2 @ [stop_server senv srv]) w2 = (x, w'')" "x \<noteq> Inl Panic" "holdings w'' = holdings w"
            "open_listeners (w_net w'') = open_listeners n - {grpcListener sp, grpcProxyListener sp}" unfolding same ok1(2) by blast
          moreover have "open_listeners n - {grpcListener sp, grpcProxyListener sp} = open_listeners (w_net w)" using np sp by auto
          ultimately show ?thesis unfolding app_outcome_def r app_result.case same using gh by blast
        qed
      qed
    qed
  qed
qed

end


section \<open>The debug pages are not reachable\<close>

text \<open>
  The pattern \<open>/debug\<close> has no slash at its end, so it matches this path only: with the patterns that the
  telemetry registers, a request for a page below it goes to the proxy of the gRPC gateway.
\<close>

definition telemetry_mux :: mux where
  "telemetry_mux = [(''/metrics'', ''prometheus''), (''/debug'', ''zpages''), (''/help'', ''help''), (''/sos'', ''help''), (''/configz'', ''configz'')]"

theorem debug_pages_unreachable:
  "mux_match (telemetry_mux @ [(HealthCheckEndpoint, ''health''), (''/'', ''proxy'')]) (''/debug/'' @ page) = Some ''proxy''"
  by (rule mux_match_proxy) (simp_all add: telemetry_mux_def HasPrefix_def)

section \<open>Health probe\<close>

text \<open>
  \<open>statefulProbe\<close> (\<open>telemetry/probe.go\<close>): a request without a query is a liveness probe; with one it is a
  readiness probe, which runs the checks in order up to the first that fails.
\<close>

datatype health_state = FirstProbe | Healthy | Unhealthy

datatype health_response = StatusOK | StatusServiceUnavailable go_error

fun run_probes :: "(nat \<Rightarrow> go_error option) list \<Rightarrow> nat \<Rightarrow> go_error option" where
  "run_probes [] now = None"
| "run_probes (probe # probes) now = (case probe now of Some e \<Rightarrow> Some e | None \<Rightarrow> run_probes probes now)"

definition probe_ServeHTTP :: "(nat \<Rightarrow> go_error option) list \<Rightarrow> nat \<Rightarrow> string list \<Rightarrow> health_state \<Rightarrow> health_response \<times> health_state" where
  "probe_ServeHTTP probes now query st =
    (if length query > 0 then
       (case run_probes probes now of
          Some e \<Rightarrow> (StatusServiceUnavailable e, Unhealthy)
        | None \<Rightarrow> (StatusOK, Healthy))
     else (StatusOK, st))"

definition NewHealthCheck :: "(nat \<Rightarrow> go_error option) list \<Rightarrow> nat \<Rightarrow> string list \<Rightarrow> health_state \<Rightarrow> health_response \<times> health_state" where
  "NewHealthCheck probes = probe_ServeHTTP probes"

definition NewAlwaysReadyHealthCheck :: "nat \<Rightarrow> string list \<Rightarrow> health_state \<Rightarrow> health_response \<times> health_state" where
  "NewAlwaysReadyHealthCheck = NewHealthCheck []"

lemma run_probes_first:
  "run_probes ps now = Some e \<longleftrightarrow> (\<exists>i < length ps. (ps ! i) now = Some e \<and> (\<forall>j < i. (ps ! j) now = None))"
proof (induction ps)
  case (Cons p ps)
  show ?case
  proof (cases "p now")
    case None
    then show ?thesis using Cons by (simp add: Ex_less_Suc2 All_less_Suc2)
  next
    case (Some e')
    then show ?thesis by (simp add: Ex_less_Suc2 All_less_Suc2)
  qed
qed simp

lemma run_probes_None: "run_probes ps now = None \<longleftrightarrow> (\<forall>p \<in> set ps. p now = None)"
  by (induction ps) (auto split: option.splits)

text \<open>
  A readiness probe fails exactly if a check fails, with the error of the first; a liveness probe always
  succeeds and changes nothing.
\<close>

theorem health_check_correct:
  "probe_ServeHTTP ps now (q # qs) st = (StatusServiceUnavailable e, Unhealthy) \<longleftrightarrow>
     (\<exists>i < length ps. (ps ! i) now = Some e \<and> (\<forall>j < i. (ps ! j) now = None))"
  "probe_ServeHTTP ps now (q # qs) st = (StatusOK, Healthy) \<longleftrightarrow> (\<forall>p \<in> set ps. p now = None)"
  "probe_ServeHTTP ps now [] st = (StatusOK, st)"
proof -
  show "probe_ServeHTTP ps now (q # qs) st = (StatusServiceUnavailable e, Unhealthy) \<longleftrightarrow>
     (\<exists>i < length ps. (ps ! i) now = Some e \<and> (\<forall>j < i. (ps ! j) now = None))"
    unfolding run_probes_first [symmetric] by (simp add: probe_ServeHTTP_def split: option.splits)
  show "probe_ServeHTTP ps now (q # qs) st = (StatusOK, Healthy) \<longleftrightarrow> (\<forall>p \<in> set ps. p now = None)"
    unfolding run_probes_None [symmetric] by (simp add: probe_ServeHTTP_def split: option.splits)
qed (simp add: probe_ServeHTTP_def)

section \<open>Listeners of tests\<close>

text \<open>
  \<open>apptest\<close>: an application under test gets its listeners from a table by network, host and port; every
  spelling of the unspecified host is one key, and a listener is handed out once. \<open>unspecified\<close> tells
  whether a host is such a spelling.
\<close>

type_synonym full_addr = "string \<times> string \<times> string"

definition newFullAddr :: "server_env \<Rightarrow> (string \<Rightarrow> bool) \<Rightarrow> string \<Rightarrow> string \<Rightarrow> full_addr res" where
  "newFullAddr senv unspecified network address =
    (case SplitHostPort senv address of
       Inl e \<Rightarrow> Inl e
     | Inr (host, port) \<Rightarrow> Inr (network, if unspecified host then [] else host, port))"

fun newListenerStorage :: "server_env \<Rightarrow> (string \<Rightarrow> bool) \<Rightarrow> (string \<times> string \<times> nat) list \<Rightarrow> (full_addr \<rightharpoonup> nat) \<Rightarrow> (full_addr \<rightharpoonup> nat) res" where
  "newListenerStorage senv unspecified [] ls = Inr ls"
| "newListenerStorage senv unspecified ((network, address, l) # rest) ls =
    (case newFullAddr senv unspecified network address of
       Inl e \<Rightarrow> Inl e
     | Inr a \<Rightarrow> newListenerStorage senv unspecified rest (ls(a \<mapsto> l)))"

definition ls_listen :: "server_env \<Rightarrow> (string \<Rightarrow> bool) \<Rightarrow> string \<Rightarrow> string \<Rightarrow> (full_addr \<rightharpoonup> nat) \<Rightarrow> nat res \<times> (full_addr \<rightharpoonup> nat)" where
  "ls_listen senv unspecified network address ls =
    (case newFullAddr senv unspecified network address of
       Inl e \<Rightarrow> (Inl e, ls)
     | Inr a \<Rightarrow> (case ls a of None \<Rightarrow> (Inl FmtErr, ls) | Some l \<Rightarrow> (Inr l, ls(a := None))))"

text \<open>A listener is handed out once: a second request for the same address fails.\<close>

theorem listener_handed_out_once:
  assumes "ls_listen senv u network address ls = (Inr l, ls')" and "newFullAddr senv u network address = newFullAddr senv u network' address'"
  shows "\<exists>e. ls_listen senv u network' address' ls' = (Inl e, ls')"
  using assms by (auto simp: ls_listen_def split: sum.splits option.splits)

section \<open>Witnesses\<close>

definition sample_lib :: lib_env where
  "sample_lib = \<lparr>view_Register_err = (\<lambda>_. None), ParseDuration = (\<lambda>_. Inr Minute), jaeger_err = (\<lambda>_ _ _. None), collector_err = (\<lambda>_. None),
     prometheus_err = None, stackdriver_err = (\<lambda>_ _. None), ocagent_err = (\<lambda>_. None), ocagent_stop_err = None\<rparr>"

definition sample_world :: world where
  "sample_world = \<lparr>w_net = \<lparr>open_listeners = {}, listened = 2\<rparr>, views = {}, traceExporters = {}, viewExporters = {}, nextExporter = 0\<rparr>"


end
