(* ===== verification/Evaluator_Client.thy ===== *)
theory Evaluator_Client
  imports Rpc_Clients Messages
begin

text \<open>
  The synchronizer's client of the evaluator (\<open>internal/app/synchronizer/evaluator_client.go\<close>): the choice
  of the protocol, the gRPC client with its sending and its receiving goroutine, and the HTTP client.
  A goroutine's progress is a sequence of events: what the channel of proposals, the stream and the
  evaluator do next. An event that its goroutine cannot take is ignored.
\<close>

section \<open>Construction\<close>

datatype evaluator = GrpcEvaluator nat | HttpEvaluator http_client string
datatype closer = CloseConn nat | CloseIdleConnections string

definition newGrpcEvaluator :: "sys \<Rightarrow> (evaluator, closer) inst reader" where
  "newGrpcEvaluator os =
    ReadString ''api.evaluator.hostname'' (\<lambda>h. ReadInt64 ''api.evaluator.grpcport'' (\<lambda>p.
      rbind (GRPCClientFromEndpoint os (toAddress h p)) (\<lambda>c. Result (case c of
          Inl e \<Rightarrow> \<lparr>i_value = None, i_close = None, i_err = Some (Wrapped e)\<rparr>
        | Inr conn \<Rightarrow> \<lparr>i_value = Some (GrpcEvaluator conn), i_close = Some (CloseConn conn), i_err = None\<rparr>))))"

definition newHTTPEvaluator :: "sys \<Rightarrow> (evaluator, closer) inst reader" where
  "newHTTPEvaluator os =
    ReadString ''api.evaluator.hostname'' (\<lambda>h. ReadInt64 ''api.evaluator.httpport'' (\<lambda>p.
      rbind (HTTPClientFromEndpoint os (toAddress h p)) (\<lambda>c. Result (case c of
          Inl e \<Rightarrow> \<lparr>i_value = None, i_close = None, i_err = Some (Wrapped e)\<rparr>
        | Inr (client, url) \<Rightarrow> \<lparr>i_value = Some (HttpEvaluator client url), i_close = Some (CloseIdleConnections url), i_err = None\<rparr>))))"

definition newEvaluator :: "sys \<Rightarrow> (evaluator, closer) inst reader" where
  "newEvaluator os =
    ReadIsSet ''api.evaluator.grpcport'' (\<lambda>g. if g then newGrpcEvaluator os else
      ReadIsSet ''api.evaluator.httpport'' (\<lambda>h. if h then newHTTPEvaluator os else
        Result \<lparr>i_value = None, i_close = None, i_err = Some ErrNoEvaluatorType\<rparr>))"

text \<open>\<open>deferredEvaluator.evaluate\<close>: \<open>call\<close> is the outcome of the evaluation with the evaluator it is given.\<close>

definition deferred_evaluate :: "sys \<Rightarrow> config_view \<Rightarrow> (evaluator option \<Rightarrow> unit res) \<Rightarrow> (evaluator, closer) cacher \<Rightarrow>
    unit res \<times> (evaluator, closer) cacher" where
  "deferred_evaluate os cfg call c =
    (case cacher_Get (newEvaluator os) cfg c of
       (Inl e, c1) \<Rightarrow> (Inl e, c1)
     | (Inr ev, c1) \<Rightarrow>
         (case call ev of
            Inl e \<Rightarrow> (Inl e, ForceReset c1)
          | Inr _ \<Rightarrow> (Inr (), c1)))"

section \<open>The gRPC client\<close>

text \<open>
  The table of match ids is shared by the two goroutines: \<open>True\<close> for an id that was sent, \<open>False\<close> once
  it was accepted. \<open>g_queue\<close> holds the proposals of the batch being sent; a goroutine is done when its
  result is there. The error group keeps the first error.
\<close>

record gclient =
  g_ids :: "string \<rightharpoonup> bool"
  g_queue :: "match list"
  g_sent :: "match list"
  g_accepted :: "string list"
  g_sendDone :: bool
  g_recvDone :: bool
  g_err :: "go_error option"

definition gclient_init :: gclient where
  "gclient_init = \<lparr>g_ids = Map.empty, g_queue = [], g_sent = [], g_accepted = [], g_sendDone = False,
     g_recvDone = False, g_err = None\<rparr>"

definition g_fail :: "go_error \<Rightarrow> gclient \<Rightarrow> gclient" where
  "g_fail e g = g\<lparr>g_err := (case g_err g of None \<Rightarrow> Some e | Some e' \<Rightarrow> Some e')\<rparr>"

datatype eval_event =
    Batch "match list"
  | SendNext bool
  | ProposalsClosed bool
  | Response string
  | ResponseEOF
  | ResponseErr go_error

text \<open>The sending goroutine: a batch is taken when the one before it is sent.\<close>

fun send_step :: "eval_event \<Rightarrow> gclient \<Rightarrow> gclient" where
  "send_step (Batch ms) g = (if g_sendDone g \<or> g_queue g \<noteq> [] then g else g\<lparr>g_queue := ms\<rparr>)"
| "send_step (SendNext ok) g =
    (if g_sendDone g then g else
     case g_queue g of
       [] \<Rightarrow> g
     | p # ps \<Rightarrow>
         if g_ids g (m_MatchId p) \<noteq> None then g_fail FmtErr (g\<lparr>g_sendDone := True\<rparr>)
         else
           let g1 = g\<lparr>g_ids := (g_ids g)(m_MatchId p \<mapsto> True), g_queue := ps\<rparr>
           in if ok then g1\<lparr>g_sent := g_sent g @ [p]\<rparr>
              else g_fail (Wrapped (StreamErr 0)) (g1\<lparr>g_sendDone := True\<rparr>))"
| "send_step (ProposalsClosed ok) g =
    (if g_sendDone g \<or> g_queue g \<noteq> [] then g
     else if ok then g\<lparr>g_sendDone := True\<rparr>
     else g_fail (Wrapped (StreamErr 0)) (g\<lparr>g_sendDone := True\<rparr>))"
| "send_step _ g = g"

text \<open>The receiving goroutine.\<close>

fun recv_step :: "eval_event \<Rightarrow> gclient \<Rightarrow> gclient" where
  "recv_step (Response i) g =
    (if g_recvDone g then g else
     case g_ids g i of
       None \<Rightarrow> g_fail FmtErr (g\<lparr>g_recvDone := True\<rparr>)
     | Some False \<Rightarrow> g_fail FmtErr (g\<lparr>g_recvDone := True\<rparr>)
     | Some True \<Rightarrow> g\<lparr>g_ids := (g_ids g)(i \<mapsto> False), g_accepted := g_accepted g @ [i]\<rparr>)"
| "recv_step ResponseEOF g = (if g_recvDone g then g else g\<lparr>g_recvDone := True\<rparr>)"
| "recv_step (ResponseErr e) g = (if g_recvDone g then g else g_fail (Wrapped e) (g\<lparr>g_recvDone := True\<rparr>))"
| "recv_step _ g = g"

fun is_send :: "eval_event \<Rightarrow> bool" where
  "is_send (Batch _) = True"
| "is_send (SendNext _) = True"
| "is_send (ProposalsClosed _) = True"
| "is_send _ = False"

definition gclient_step :: "eval_event \<Rightarrow> gclient \<Rightarrow> gclient" where
  "gclient_step e g = (if is_send e then send_step e g else recv_step e g)"

text \<open>\<open>evaluate\<close>: \<open>connect\<close> is the error of opening the stream; \<open>None\<close> when a goroutine has not ended yet.\<close>

definition grpc_evaluate :: "go_error option \<Rightarrow> eval_event list \<Rightarrow> unit res option \<times> string list" where
  "grpc_evaluate connect evs =
    (case connect of
       Some e \<Rightarrow> (Some (Inl (Wrapped e)), [])
     | None \<Rightarrow>
         let g = fold gclient_step evs gclient_init
         in ((if g_sendDone g \<and> g_recvDone g then Some (case g_err g of Some e \<Rightarrow> Inl e | None \<Rightarrow> Inr ()) else None),
             g_accepted g))"

section \<open>The HTTP client\<close>

text \<open>
  The channels \<open>sc\<close> and \<open>rc\<close> have room for one error; they are closed when the function returns. The
  sending goroutine writes to a pipe that the HTTP transport reads; the transport closes the pipe when
  the request ends, also with an error, and a write fails from then on. A send on a closed channel
  panics.
\<close>

datatype http_main = Requesting | Waiting_for_both | Returned "unit res"

record hclient =
  h_main :: http_main
  h_sendDone :: bool
  h_recvDone :: bool
  h_pipeClosed :: bool
  h_sc :: "go_error option"
  h_rc :: "go_error option"
  h_scClosed :: bool
  h_written :: "match list"
  h_accepted :: "string list"
  h_panic :: bool

definition hclient_init :: hclient where
  "hclient_init = \<lparr>h_main = Requesting, h_sendDone = False, h_recvDone = True, h_pipeClosed = False, h_sc = None, h_rc = None,
     h_scClosed = False, h_written = [], h_accepted = [], h_panic = False\<rparr>"

datatype http_eval_event =
    Write match bool
  | WriteEnd
  | RequestFails
  | DoFails
  | DoSucceeds
  | Item string
  | ItemError
  | ItemEOF
  | Finish

definition h_sendErr :: "go_error \<Rightarrow> hclient \<Rightarrow> hclient" where
  "h_sendErr e h = (if h_scClosed h then h\<lparr>h_panic := True\<rparr> else h\<lparr>h_sc := Some e\<rparr>)"

definition h_return :: "unit res \<Rightarrow> hclient \<Rightarrow> hclient" where
  "h_return r h = h\<lparr>h_main := Returned r, h_scClosed := True\<rparr>"

fun hclient_step :: "http_eval_event \<Rightarrow> hclient \<Rightarrow> hclient" where
  "hclient_step (Write p marshalOk) h =
    (if h_sendDone h \<or> h_panic h then h
     else if \<not> marshalOk then h_sendErr (Status FailedPrecondition) (h\<lparr>h_sendDone := True\<rparr>)
     else if h_pipeClosed h then h_sendErr (Status FailedPrecondition) (h\<lparr>h_sendDone := True\<rparr>)
     else h\<lparr>h_written := h_written h @ [p]\<rparr>)"
| "hclient_step WriteEnd h = (if h_sendDone h \<or> h_panic h then h else h\<lparr>h_sendDone := True\<rparr>)"
| "hclient_step RequestFails h = (if h_main h = Requesting then h_return (Inl (Status Aborted)) h else h)"
| "hclient_step DoFails h =
    (if h_main h = Requesting then h_return (Inl (Status Aborted)) (h\<lparr>h_pipeClosed := True\<rparr>) else h)"
| "hclient_step DoSucceeds h = (if h_main h = Requesting then h\<lparr>h_main := Waiting_for_both, h_recvDone := False\<rparr> else h)"
| "hclient_step (Item i) h = (if h_recvDone h then h else h\<lparr>h_accepted := h_accepted h @ [i]\<rparr>)"
| "hclient_step ItemError h = (if h_recvDone h then h else h\<lparr>h_recvDone := True, h_rc := Some (Status Unavailable)\<rparr>)"
| "hclient_step ItemEOF h = (if h_recvDone h then h else h\<lparr>h_recvDone := True\<rparr>)"
| "hclient_step Finish h =
    (if h_main h = Waiting_for_both \<and> h_sendDone h \<and> h_recvDone h
     then h_return (case h_sc h of Some e \<Rightarrow> Inl e | None \<Rightarrow> (case h_rc h of Some e \<Rightarrow> Inl e | None \<Rightarrow> Inr ())) h
     else h)"

definition http_evaluate :: "http_eval_event list \<Rightarrow> hclient" where
  "http_evaluate evs = fold hclient_step evs hclient_init"

section \<open>Properties of the gRPC client\<close>

text \<open>
  Invariant: the table has exactly the ids of the proposals that were sent (and of the one whose sending
  failed), each once; an id is accepted once, and is then marked.
\<close>

definition gclient_inv :: "gclient \<Rightarrow> bool" where
  "gclient_inv g \<longleftrightarrow> distinct (map m_MatchId (g_sent g)) \<and> m_MatchId ` set (g_sent g) \<subseteq> dom (g_ids g) \<and>
     (g_err g = None \<longrightarrow> dom (g_ids g) = m_MatchId ` set (g_sent g)) \<and>
     distinct (g_accepted g) \<and> (\<forall>i \<in> set (g_accepted g). g_ids g i = Some False)"

lemma gclient_inv_init: "gclient_inv gclient_init"
  by (simp add: gclient_inv_def gclient_init_def)

lemma g_fail_sel [simp]:
  "g_ids (g_fail e g) = g_ids g" "g_sent (g_fail e g) = g_sent g" "g_accepted (g_fail e g) = g_accepted g"
  "g_sendDone (g_fail e g) = g_sendDone g" "g_recvDone (g_fail e g) = g_recvDone g" "g_err (g_fail e g) \<noteq> None"
  "g_queue (g_fail e g) = g_queue g"
  by (simp_all add: g_fail_def split: option.splits)

lemma send_step_inv: "gclient_inv g \<Longrightarrow> gclient_inv (send_step e g)"
  by (cases e) (auto simp: gclient_inv_def Let_def split: list.splits)

lemma recv_step_inv: "gclient_inv g \<Longrightarrow> gclient_inv (recv_step e g)"
  by (cases e) (auto simp: gclient_inv_def split: option.splits bool.splits)

lemma gclient_run_inv: "gclient_inv g \<Longrightarrow> gclient_inv (fold gclient_step evs g)"
  by (induction evs arbitrary: g) (simp_all add: gclient_step_def send_step_inv recv_step_inv)



text \<open>The events of an evaluation without a failure: all batches are sent, then the answers arrive.\<close>

definition feed :: "match list list \<Rightarrow> eval_event list" where
  "feed bs = concat (map (\<lambda>b. Batch b # map (\<lambda>_. SendNext True) b) bs)"

definition marked :: "match list \<Rightarrow> (string \<rightharpoonup> bool) \<Rightarrow> string \<rightharpoonup> bool" where
  "marked ms t = fold (\<lambda>m t. t(m_MatchId m \<mapsto> True)) ms t"

lemma marked_simps: "marked [] t = t" "marked (m # ms) t = marked ms (t(m_MatchId m \<mapsto> True))"
  by (simp_all add: marked_def)

lemma marked_append: "marked (ms @ ms') t = marked ms' (marked ms t)"
  by (simp add: marked_def)

lemma marked_dom: "dom (marked ms t) = dom t \<union> m_MatchId ` set ms"
  by (simp add: marked_def dom_fold_upd)

lemma send_all:
  assumes "distinct (map m_MatchId ms)" and "g_queue g = ms" and "\<not> g_sendDone g" and "dom (g_ids g) \<inter> m_MatchId ` set ms = {}"
  shows "fold gclient_step (map (\<lambda>_. SendNext True) ms) g =
    g\<lparr>g_ids := marked ms (g_ids g), g_queue := [], g_sent := g_sent g @ ms\<rparr>"
  using assms
proof (induction ms arbitrary: g)
  case (Cons m ms)
  then have "g_ids g (m_MatchId m) = None" by auto
  then have "gclient_step (SendNext True) g = g\<lparr>g_ids := (g_ids g)(m_MatchId m \<mapsto> True), g_queue := ms, g_sent := g_sent g @ [m]\<rparr>"
    using Cons.prems by (simp add: gclient_step_def)
  moreover have "fold gclient_step (map (\<lambda>_. SendNext True) ms) (g\<lparr>g_ids := (g_ids g)(m_MatchId m \<mapsto> True), g_queue := ms, g_sent := g_sent g @ [m]\<rparr>) =
      g\<lparr>g_ids := marked ms ((g_ids g)(m_MatchId m \<mapsto> True)), g_queue := [], g_sent := g_sent g @ m # ms\<rparr>"
    by (subst Cons.IH) (use Cons.prems in \<open>auto simp: dom_fun_upd\<close>)
  ultimately show ?case by (simp only: list.map fold_simps marked_simps)
qed (simp add: marked_simps)

lemma feed_all:
  assumes "distinct (map m_MatchId (concat bs))" and "g_queue g = []" and "\<not> g_sendDone g"
    and "dom (g_ids g) \<inter> m_MatchId ` set (concat bs) = {}"
  shows "fold gclient_step (feed bs) g =
    g\<lparr>g_ids := marked (concat bs) (g_ids g), g_queue := [], g_sent := g_sent g @ concat bs\<rparr>"
  using assms
proof (induction bs arbitrary: g)
  case (Cons b bs)
  let ?g1 = "g\<lparr>g_ids := marked b (g_ids g), g_queue := [], g_sent := g_sent g @ b\<rparr>"
  have "gclient_step (Batch b) g = g\<lparr>g_queue := b\<rparr>" using Cons.prems by (simp add: gclient_step_def)
  then have "fold gclient_step (Batch b # map (\<lambda>_. SendNext True) b) g = ?g1"
    using send_all [of b "g\<lparr>g_queue := b\<rparr>"] Cons.prems by auto
  then have "fold gclient_step (feed (b # bs)) g = fold gclient_step (feed bs) ?g1" by (simp add: feed_def)
  also have "\<dots> = ?g1\<lparr>g_ids := marked (concat bs) (g_ids ?g1), g_queue := [],
      g_sent := g_sent ?g1 @ concat bs\<rparr>"
  proof (rule Cons.IH)
    show "dom (g_ids ?g1) \<inter> m_MatchId ` set (concat bs) = {}"
      using Cons.prems(1,4) by (auto simp: marked_dom simp del: set_concat)
  qed (use Cons.prems in auto)
  finally show ?case by (simp add: marked_append)
qed (simp add: feed_def marked_simps)

lemma accept_all:
  assumes "distinct js" and "\<forall>i \<in> set js. g_ids g i = Some True" and "\<not> g_recvDone g"
  shows "fold gclient_step (map Response js) g =
    g\<lparr>g_ids := fold (\<lambda>i t. t(i \<mapsto> False)) js (g_ids g), g_accepted := g_accepted g @ js\<rparr>"
  using assms
proof (induction "js" arbitrary: g)
  case (Cons i js)
  then have "gclient_step (Response i) g = g\<lparr>g_ids := (g_ids g)(i \<mapsto> False), g_accepted := g_accepted g @ [i]\<rparr>"
    by (simp add: gclient_step_def)
  moreover have "fold gclient_step (map Response js) (g\<lparr>g_ids := (g_ids g)(i \<mapsto> False), g_accepted := g_accepted g @ [i]\<rparr>) =
      g\<lparr>g_ids := fold (\<lambda>i t. t(i \<mapsto> False)) js ((g_ids g)(i \<mapsto> False)), g_accepted := g_accepted g @ i # js\<rparr>"
    by (subst Cons.IH) (use Cons.prems in auto)
  ultimately show ?case by (simp only: list.map fold_simps)
qed simp

lemma fold_true: "marked ms t i = (if i \<in> m_MatchId ` set ms then Some True else t i)"
  by (induction ms arbitrary: t) (auto simp: marked_simps)

text \<open>
  An evaluation without a failure passes everything on: when the proposals have distinct match ids and
  the evaluator answers with distinct ids among them, the evaluation succeeds, the evaluator has got all
  proposals in order, and exactly its answers are accepted, in order.
\<close>

theorem grpc_evaluate_complete:
  assumes "distinct (map m_MatchId (concat bs))" and "distinct js" and "set js \<subseteq> m_MatchId ` set (concat bs)"
  shows "grpc_evaluate None (feed bs @ ProposalsClosed True # map Response js @ [ResponseEOF]) = (Some (Inr ()), js) \<and>
    g_sent (fold gclient_step (feed bs @ ProposalsClosed True # map Response js @ [ResponseEOF]) gclient_init) = concat bs"
proof -
  let ?t = "marked (concat bs) Map.empty"
  let ?g1 = "gclient_init\<lparr>g_ids := ?t, g_sent := concat bs\<rparr>"
  have 1: "fold gclient_step (feed bs) gclient_init = ?g1"
    using feed_all [OF assms(1), of gclient_init] by (simp add: gclient_init_def)
  have 2: "gclient_step (ProposalsClosed True) ?g1 = ?g1\<lparr>g_sendDone := True\<rparr>"
    by (simp add: gclient_step_def gclient_init_def)
  have t: "?t i = Some True" if "i \<in> set js" for i
    using assms(3) that fold_true [of "concat bs" Map.empty i] by auto
  have 3: "fold gclient_step (map Response js) (?g1\<lparr>g_sendDone := True\<rparr>) =
      ?g1\<lparr>g_sendDone := True, g_ids := fold (\<lambda>i t. t(i \<mapsto> False)) js ?t, g_accepted := js\<rparr>"
    using accept_all [OF assms(2), of "?g1\<lparr>g_sendDone := True\<rparr>"] t by (simp add: gclient_init_def)
  show ?thesis by (simp add: grpc_evaluate_def 1 2 3 Let_def) (simp add: gclient_step_def gclient_init_def)
qed

theorem grpc_evaluate_complete_witness:
  "grpc_evaluate None (feed [[empty_match]] @ ProposalsClosed True # map Response [[]] @ [ResponseEOF]) = (Some (Inr ()), [[]])"
  using grpc_evaluate_complete [of "[[empty_match]]" "[[]]"] by (simp add: empty_match_def)

section \<open>Properties of the HTTP client\<close>

text \<open>As long as the function has not returned, no goroutine panics.\<close>

lemma hclient_no_panic:
  "(h_scClosed h \<longrightarrow> h_sendDone h) \<and> \<not> h_panic h \<Longrightarrow> RequestFails \<notin> set evs \<Longrightarrow> DoFails \<notin> set evs \<Longrightarrow>
   \<not> h_panic (fold hclient_step evs h)"
proof (induction evs arbitrary: h)
  case (Cons e evs)
  then have "(h_scClosed (hclient_step e h) \<longrightarrow> h_sendDone (hclient_step e h)) \<and> \<not> h_panic (hclient_step e h)"
    by (cases e) (auto simp: h_sendErr_def h_return_def)
  with Cons show ?case by simp
qed simp



end
