(* ===== verification/Synchronizer.thy ===== *)
theory Synchronizer
  imports Evaluator_Client Frontend
begin

text \<open>
  The synchronizer (\<open>internal/app/synchronizer/synchronizer_service.go\<close>): one cycle. The proposals of
  the registered calls flow through a chain of goroutines connected by unbuffered channels: the cut-off
  sender, the fan-in, the table of ticket ids, a buffer, the evaluator client, another buffer, the
  pending release, the fan-out and a buffer per call. Each goroutine has its local state (what it waits
  for and what it holds), and a step of the cycle is a step of one goroutine or a rendezvous of two.
  Calls are numbered by their registration; the number stands for the call's channel \<open>m7c\<close>.
\<close>

section \<open>Goroutines\<close>

text \<open>\<open>cutoffSender\<close>: the goroutine holds a match between its receive and its send; at the end it closes \<open>m2c\<close>.\<close>

datatype relay = RelayIdle | RelayHolds match nat | RelayDone

text \<open>\<open>fanInFanOut\<close>: at its \<open>select\<close>, sending on \<open>m3c\<close>, sending on a call's \<open>m7c\<close>, or returned (and draining).\<close>

datatype fan = FanSelect | FanSend3 match | FanSend7 nat string | FanReturned

text \<open>\<open>cacheMatchIDToTicketIDs\<close>.\<close>

datatype table = TableIdle | TableHolds match | TableDone

text \<open>\<open>bufferMatchChannel\<close> and \<open>bufferStringChannel\<close>: the collected slice, whether the input is still open, and
  whether the output is closed.\<close>

record 'a buffer =
  b_a :: "'a list"
  b_in :: bool
  b_closed :: bool

definition new_buffer :: "'a buffer" where
  "new_buffer = \<lparr>b_a = [], b_in = True, b_closed = False\<rparr>"

text \<open>The input is taken whenever it is open; the slice is handed out when there is one; after the input's end
  the rest is handed out and the output closed.\<close>

definition buf_put :: "'a \<Rightarrow> 'a buffer \<Rightarrow> 'a buffer" where
  "buf_put x b = b\<lparr>b_a := b_a b @ [x]\<rparr>"

definition buf_take :: "'a buffer \<Rightarrow> 'a buffer" where
  "buf_take b = b\<lparr>b_a := []\<rparr>"

definition buf_end :: "'a buffer \<Rightarrow> 'a buffer" where
  "buf_end b = b\<lparr>b_in := False\<rparr>"

definition buf_close :: "'a buffer \<Rightarrow> 'a buffer" where
  "buf_close b = b\<lparr>b_closed := True\<rparr>"

text \<open>\<open>addMatchesToPendingRelease\<close>: waiting for a batch, sending its ids on \<open>m6c\<close>, or done.\<close>

datatype pender = PendWait | PendSend "string list" | PendDone

definition getTicketIds :: "ticket list \<Rightarrow> string list" where
  "getTicketIds tickets = map t_Id tickets"

text \<open>The ids of the tickets of a batch: matches that are not in the table are only logged.\<close>

definition batch_tickets :: "(string \<rightharpoonup> string list) \<Rightarrow> string list \<Rightarrow> string list" where
  "batch_tickets m mIDs = concat (map (\<lambda>mID. case m mID of Some tids \<Rightarrow> tids | None \<Rightarrow> []) mIDs)"

record pend_count =
  totalMatches :: nat
  successfulMatches :: nat
  lastErr :: "go_error option"

text \<open>One round of the loop: the call of the store and the counters. The ids are sent on in either case.\<close>

definition pend_batch :: "('s, 'c) service \<Rightarrow> (string \<rightharpoonup> string list) \<Rightarrow> string list \<Rightarrow> pend_count \<Rightarrow> 's \<Rightarrow>
    bool \<times> pend_count \<times> 's" where
  "pend_batch S m mIDs n s =
    (case AddTicketsToPendingRelease S (batch_tickets m mIDs) s of
       (Inr _, s1) \<Rightarrow> (True, n\<lparr>totalMatches := totalMatches n + length mIDs,
                              successfulMatches := successfulMatches n + length mIDs\<rparr>, s1)
     | (Inl e, s1) \<Rightarrow> (False, n\<lparr>totalMatches := totalMatches n + length mIDs, lastErr := Some e\<rparr>, s1))"

definition pend_cancel :: "pend_count \<Rightarrow> go_error option" where
  "pend_cancel n = (case lastErr n of Some e \<Rightarrow> if successfulMatches n = 0 then Some (Wrapped e) else None | None \<Rightarrow> None)"

text \<open>The whole loop on a given sequence of batches: the ids sent on \<open>m6c\<close>, the cancellation and the store.\<close>

fun addMatchesToPendingRelease :: "('s, 'c) service \<Rightarrow> (string \<rightharpoonup> string list) \<Rightarrow> string list list \<Rightarrow> pend_count \<Rightarrow> 's \<Rightarrow>
    string list \<times> go_error option \<times> 's" where
  "addMatchesToPendingRelease S m [] n s = ([], pend_cancel n, s)"
| "addMatchesToPendingRelease S m (mIDs # bs) n s =
    (case pend_batch S m mIDs n s of (_, n1, s1) \<Rightarrow>
       (case addMatchesToPendingRelease S m bs n1 s1 of (out, c, s2) \<Rightarrow> (mIDs @ out, c, s2)))"

section \<open>Intervals\<close>

definition registrationInterval :: "config_view \<Rightarrow> int" where
  "registrationInterval cfg =
    (if \<not> IsSet cfg ''registrationInterval'' then Second else GetDuration cfg ''registrationInterval'')"

definition proposalCollectionInterval :: "config_view \<Rightarrow> int" where
  "proposalCollectionInterval cfg =
    (if \<not> IsSet cfg ''proposalCollectionInterval'' then 10 * Second else GetDuration cfg ''proposalCollectionInterval'')"

section \<open>The context of a cycle\<close>

text \<open>
  \<open>contextcause.WithCancelCause\<close>: a context that keeps the error given to its first cancellation.
  \<open>x_parent\<close> is the error of the wrapped context, \<open>None\<close> as long as that is not done.
\<close>

record cause_ctx =
  x_parent :: "go_error option"
  x_err :: "go_error option"

definition WithCancelCause :: "go_error option \<Rightarrow> cause_ctx" where
  "WithCancelCause parent = \<lparr>x_parent = parent, x_err = None\<rparr>"

definition cancel_cause :: "go_error option \<Rightarrow> cause_ctx \<Rightarrow> cause_ctx" where
  "cancel_cause e x = x\<lparr>
     x_err := (if x_err x = None \<and> x_parent x = None then e else x_err x),
     x_parent := (case x_parent x of None \<Rightarrow> Some (CtxErr 0) | Some p \<Rightarrow> Some p)\<rparr>"

definition ctx_Err :: "cause_ctx \<Rightarrow> go_error option" where
  "ctx_Err x = (case x_err x of None \<Rightarrow> x_parent x | Some e \<Rightarrow> Some e)"

section \<open>A synchronize call\<close>

text \<open>
  \<open>Synchronize\<close> after its registration. The handler sends the start signal, then serves its \<open>select\<close>; it may
  be in the middle of sending a batch; when its result is decided it drains the buffer, and returns when
  that is closed. \<open>k_ctx\<close> is the error of the stream's context, \<open>k_eof\<close> says that the receiving goroutine has
  called \<open>Done\<close>, \<open>k_cancelMmfs\<close> that the channel of that name holds its signal, \<open>k_buf\<close> is the goroutine of
  \<open>bufferStringChannel\<close> and \<open>k_sent\<close> what the stream has taken.
\<close>

datatype response = StartMmfs | CancelMmfs | MatchId string

datatype call_phase = Starting | Serving | Sending "string list" | Finished "unit res"

record call =
  k_ctx :: "go_error option"
  k_eof :: bool
  k_cancelMmfs :: bool
  k_buf :: "string buffer"
  k_phase :: call_phase
  k_sent :: "response list"

definition new_call :: call where
  "new_call = \<lparr>k_ctx = None, k_eof = False, k_cancelMmfs = False, k_buf = new_buffer, k_phase = Starting, k_sent = []\<rparr>"

definition finish :: "unit res \<Rightarrow> call \<Rightarrow> call" where
  "finish r k = k\<lparr>k_phase := Finished r\<rparr>"

text \<open>\<open>stream.Send\<close> with its outcome: the error ends the handler.\<close>

definition call_send :: "go_error option \<Rightarrow> response \<Rightarrow> call_phase \<Rightarrow> call \<Rightarrow> call" where
  "call_send outcome r p k =
    (case outcome of Some e \<Rightarrow> finish (Inl e) k | None \<Rightarrow> k\<lparr>k_phase := p, k_sent := k_sent k @ [r]\<rparr>)"

datatype call_event =
    SendStart "go_error option"
  | TakeBatch
  | SendId "go_error option"
  | BatchSent
  | BufferClosed
  | SendCancel "go_error option"
  | StreamDone
  | CycleDone
  | DrainBatch

text \<open>A step of the handler: \<open>None\<close> when it is not ready for it. \<open>cycleErr\<close> is the error of the cycle's context.\<close>

fun call_step :: "go_error option \<Rightarrow> call_event \<Rightarrow> call \<Rightarrow> call option" where
  "call_step cycleErr (SendStart r) k =
    (if k_phase k = Starting then Some (call_send r StartMmfs Serving k) else None)"
| "call_step cycleErr TakeBatch k =
    (if k_phase k = Serving \<and> b_a (k_buf k) \<noteq> [] then Some (k\<lparr>k_phase := Sending (b_a (k_buf k)), k_buf := buf_take (k_buf k)\<rparr>) else None)"
| "call_step cycleErr (SendId r) k =
    (case k_phase k of Sending (j # js) \<Rightarrow> Some (call_send r (MatchId j) (Sending js) k) | _ \<Rightarrow> None)"
| "call_step cycleErr BatchSent k =
    (if k_phase k = Sending [] then Some (k\<lparr>k_phase := Serving\<rparr>) else None)"
| "call_step cycleErr BufferClosed k =
    (if k_phase k = Serving \<and> b_closed (k_buf k)
     then Some (finish (case cycleErr of None \<Rightarrow> Inr () | Some e \<Rightarrow> Inl e) k) else None)"
| "call_step cycleErr (SendCancel r) k =
    (if k_phase k = Serving \<and> k_cancelMmfs k then Some (call_send r CancelMmfs Serving (k\<lparr>k_cancelMmfs := False\<rparr>)) else None)"
| "call_step cycleErr StreamDone k =
    (case k_ctx k of Some e \<Rightarrow> if k_phase k = Serving then Some (finish (Inl e) k) else None | None \<Rightarrow> None)"
| "call_step cycleErr CycleDone k =
    (case cycleErr of Some e \<Rightarrow> if k_phase k = Serving then Some (finish (Inl e) k) else None | None \<Rightarrow> None)"
| "call_step cycleErr DrainBatch k =
    (case k_phase k of Finished _ \<Rightarrow> Some (k\<lparr>k_buf := buf_take (k_buf k)\<rparr>) | _ \<Rightarrow> None)"

text \<open>The handler returns when its result is decided and the deferred loop has seen the buffer's end.\<close>

definition returned :: "call \<Rightarrow> bool" where
  "returned k \<longleftrightarrow> (case k_phase k of Finished _ \<Rightarrow> b_closed (k_buf k) | _ \<Rightarrow> False)"

section \<open>The cycle\<close>

text \<open>
  \<open>runCycle\<close>. \<open>c_regs\<close> calls are registered, while \<open>c_regOpen\<close>; \<open>c_wg\<close> is the wait group \<open>allM1cSent\<close>; \<open>c_timer\<close> is
  \<open>None\<close> until the collection timer fires, then the number of calls it has signalled. \<open>c_handed\<close> records the
  matches that the cut-off sender took, \<open>c_passed\<close> the ids that the fan-out processed with the call they went
  to, and \<open>c_pended\<close> the ticket ids that were put in pending release without an error; they influence no step.
\<close>

record 's cycle =
  c_regs :: nat
  c_regOpen :: bool
  c_wg :: nat
  c_timer :: "nat option"
  c_calls :: "nat \<Rightarrow> call"
  c_cutoff :: bool
  c_relay :: relay
  c_fan :: fan
  c_m2nil :: bool
  c_m7cMap :: "string \<rightharpoonup> nat"
  c_table :: table
  c_tickets :: "string \<rightharpoonup> string list"
  c_mbuf :: "match buffer"
  c_eval :: gclient
  c_hold :: "string option"
  c_m5closed :: bool
  c_sbuf :: "string buffer"
  c_pend :: pender
  c_count :: pend_count
  c_ctx :: cause_ctx
  c_cleaned :: bool
  c_db :: 's
  c_handed :: "(match \<times> nat) list"
  c_passed :: "(string \<times> nat option) list"
  c_pended :: "string set"

definition cycle_init :: "'s \<Rightarrow> 's cycle" where
  "cycle_init s = \<lparr>c_regs = 0, c_regOpen = True, c_wg = 0, c_timer = None, c_calls = (\<lambda>_. new_call), c_cutoff = False,
     c_relay = RelayIdle, c_fan = FanSelect, c_m2nil = False, c_m7cMap = Map.empty, c_table = TableIdle, c_tickets = Map.empty,
     c_mbuf = new_buffer, c_eval = gclient_init, c_hold = None, c_m5closed = False, c_sbuf = new_buffer,
     c_pend = PendWait, c_count = \<lparr>totalMatches = 0, successfulMatches = 0, lastErr = None\<rparr>,
     c_ctx = WithCancelCause None, c_cleaned = False, c_db = s, c_handed = [], c_passed = [], c_pended = {}\<rparr>"

definition cancel :: "go_error \<Rightarrow> 's cycle \<Rightarrow> 's cycle" where
  "cancel e c = c\<lparr>c_ctx := cancel_cause (Some e) (c_ctx c)\<rparr>"

definition set_call :: "nat \<Rightarrow> call \<Rightarrow> 's cycle \<Rightarrow> 's cycle" where
  "set_call i k c = c\<lparr>c_calls := (c_calls c)(i := k)\<rparr>"

abbreviation put_m7 :: "nat \<Rightarrow> string \<Rightarrow> 's cycle \<Rightarrow> call" where
  "put_m7 i j c \<equiv> (c_calls c i)\<lparr>k_buf := buf_put j (k_buf (c_calls c i))\<rparr>"

text \<open>
  A step of one goroutine or a rendezvous of two. Other users of the store may change it at any time; a
  stream's context may end at any time, and does when its handler has returned.
\<close>

inductive cycle_step :: "('s, 'c) service \<Rightarrow> 's cycle \<Rightarrow> 's cycle \<Rightarrow> bool" for S where
  other_store: "cycle_step S c (c\<lparr>c_db := s\<rparr>)"
| register: "c_regOpen c \<Longrightarrow> cycle_step S c (c\<lparr>c_regs := c_regs c + 1, c_wg := c_wg c + 1\<rparr>)"
| close_registration: "c_regOpen c \<Longrightarrow> cycle_step S c (c\<lparr>c_regOpen := False\<rparr>)"
| callers_done: "\<not> c_regOpen c \<Longrightarrow> \<forall>i < c_regs c. k_ctx (c_calls c i) \<noteq> None \<Longrightarrow> cycle_step S c (cancel FmtErr c)"
| stream_done: "i < c_regs c \<Longrightarrow> k_ctx (c_calls c i) = None \<Longrightarrow>
    cycle_step S c (set_call i ((c_calls c i)\<lparr>k_ctx := Some e\<rparr>) c)"
| propose: "i < c_regs c \<Longrightarrow> \<not> k_eof (c_calls c i) \<Longrightarrow> c_relay c = RelayIdle \<Longrightarrow>
    cycle_step S c (c\<lparr>c_relay := RelayHolds m i, c_handed := c_handed c @ [(m, i)]\<rparr>)"
| propose_late: "i < c_regs c \<Longrightarrow> \<not> k_eof (c_calls c i) \<Longrightarrow> c_cutoff c \<Longrightarrow> cycle_step S c c"
| all_sent: "i < c_regs c \<Longrightarrow> \<not> k_eof (c_calls c i) \<Longrightarrow>
    cycle_step S c ((set_call i ((c_calls c i)\<lparr>k_eof := True\<rparr>) c)\<lparr>c_wg := c_wg c - 1\<rparr>)"
| cutoff_all_sent: "\<not> c_regOpen c \<Longrightarrow> c_wg c = 0 \<Longrightarrow> cycle_step S c (c\<lparr>c_cutoff := True\<rparr>)"
| cutoff_timeout: "\<not> c_regOpen c \<Longrightarrow> \<not> c_cleaned c \<Longrightarrow> c_timer c = None \<Longrightarrow> cycle_step S c (c\<lparr>c_cutoff := True, c_timer := Some 0\<rparr>)"
| cancel_mmfs: "c_timer c = Some n \<Longrightarrow> n < c_regs c \<Longrightarrow>
    cycle_step S c ((set_call n ((c_calls c n)\<lparr>k_cancelMmfs := True\<rparr>) c)\<lparr>c_timer := Some (n + 1)\<rparr>)"
| relay_stops: "c_cutoff c \<Longrightarrow> c_relay c = RelayIdle \<Longrightarrow> cycle_step S c (c\<lparr>c_relay := RelayDone\<rparr>)"
| fan_in: "c_relay c = RelayHolds m i \<Longrightarrow> c_fan c = FanSelect \<Longrightarrow> \<not> c_m2nil c \<Longrightarrow>
    cycle_step S c (c\<lparr>c_relay := RelayIdle, c_fan := FanSend3 m, c_m7cMap := (c_m7cMap c)(m_MatchId m \<mapsto> i)\<rparr>)"
| fan_closes: "c_relay c = RelayDone \<Longrightarrow> c_fan c = FanSelect \<Longrightarrow> \<not> c_m2nil c \<Longrightarrow> cycle_step S c (c\<lparr>c_m2nil := True\<rparr>)"
| fan_drains: "c_relay c = RelayHolds m i \<Longrightarrow> c_fan c = FanReturned \<Longrightarrow> cycle_step S c (c\<lparr>c_relay := RelayIdle\<rparr>)"
| table_in: "c_fan c = FanSend3 m \<Longrightarrow> c_table c = TableIdle \<Longrightarrow>
    cycle_step S c (c\<lparr>c_fan := FanSelect, c_table := TableHolds m,
      c_tickets := (c_tickets c)(m_MatchId m \<mapsto> getTicketIds (m_Tickets m))\<rparr>)"
| table_out: "c_table c = TableHolds m \<Longrightarrow> b_in (c_mbuf c) \<Longrightarrow>
    cycle_step S c (c\<lparr>c_table := TableIdle, c_mbuf := buf_put m (c_mbuf c)\<rparr>)"
| table_closes: "c_m2nil c \<Longrightarrow> c_table c = TableIdle \<Longrightarrow>
    cycle_step S c (c\<lparr>c_table := TableDone, c_mbuf := buf_end (c_mbuf c)\<rparr>)"
| mbuf_closes: "\<not> b_in (c_mbuf c) \<Longrightarrow> b_a (c_mbuf c) = [] \<Longrightarrow> cycle_step S c (c\<lparr>c_mbuf := buf_close (c_mbuf c)\<rparr>)"
| eval_fails: "c_eval c = gclient_init \<Longrightarrow>
    cycle_step S c (c\<lparr>c_eval := g_fail e ((c_eval c)\<lparr>g_sendDone := True, g_recvDone := True\<rparr>)\<rparr>)"
| eval_batch: "b_a (c_mbuf c) \<noteq> [] \<Longrightarrow> \<not> g_sendDone (c_eval c) \<Longrightarrow> g_queue (c_eval c) = [] \<Longrightarrow>
    cycle_step S c (c\<lparr>c_eval := gclient_step (Batch (b_a (c_mbuf c))) (c_eval c), c_mbuf := buf_take (c_mbuf c)\<rparr>)"
| eval_send: "cycle_step S c (c\<lparr>c_eval := gclient_step (SendNext ok) (c_eval c)\<rparr>)"
| eval_all_sent: "b_closed (c_mbuf c) \<Longrightarrow> cycle_step S c (c\<lparr>c_eval := gclient_step (ProposalsClosed ok) (c_eval c)\<rparr>)"
| eval_accept: "c_hold c = None \<Longrightarrow> \<not> g_recvDone (c_eval c) \<Longrightarrow> g_ids (c_eval c) j = Some True \<Longrightarrow>
    cycle_step S c (c\<lparr>c_eval := gclient_step (Response j) (c_eval c), c_hold := Some j\<rparr>)"
| eval_refuse: "c_hold c = None \<Longrightarrow> g_ids (c_eval c) j \<noteq> Some True \<Longrightarrow>
    cycle_step S c (c\<lparr>c_eval := gclient_step (Response j) (c_eval c)\<rparr>)"
| eval_eof: "c_hold c = None \<Longrightarrow> cycle_step S c (c\<lparr>c_eval := gclient_step ResponseEOF (c_eval c)\<rparr>)"
| eval_error: "c_hold c = None \<Longrightarrow> cycle_step S c (c\<lparr>c_eval := gclient_step (ResponseErr e) (c_eval c)\<rparr>)"
| eval_ends: "g_sendDone (c_eval c) \<Longrightarrow> g_recvDone (c_eval c) \<Longrightarrow> c_hold c = None \<Longrightarrow> \<not> c_m5closed c \<Longrightarrow> g_err (c_eval c) = None \<Longrightarrow>
    cycle_step S c (c\<lparr>c_m5closed := True\<rparr>)"
| eval_ends_err: "g_sendDone (c_eval c) \<Longrightarrow> g_recvDone (c_eval c) \<Longrightarrow> c_hold c = None \<Longrightarrow> \<not> c_m5closed c \<Longrightarrow> g_err (c_eval c) = Some e \<Longrightarrow>
    cycle_step S c ((cancel (Wrapped e) c)\<lparr>c_m5closed := True\<rparr>)"
| sbuf_in: "c_hold c = Some j \<Longrightarrow> b_in (c_sbuf c) \<Longrightarrow> cycle_step S c (c\<lparr>c_hold := None, c_sbuf := buf_put j (c_sbuf c)\<rparr>)"
| sbuf_ends: "c_m5closed c \<Longrightarrow> cycle_step S c (c\<lparr>c_sbuf := buf_end (c_sbuf c)\<rparr>)"
| sbuf_closes: "\<not> b_in (c_sbuf c) \<Longrightarrow> b_a (c_sbuf c) = [] \<Longrightarrow> cycle_step S c (c\<lparr>c_sbuf := buf_close (c_sbuf c)\<rparr>)"
| pend: "c_pend c = PendWait \<Longrightarrow> b_a (c_sbuf c) \<noteq> [] \<Longrightarrow>
    pend_batch S (c_tickets c) (b_a (c_sbuf c)) (c_count c) (c_db c) = (ok, n, s) \<Longrightarrow>
    cycle_step S c (c\<lparr>c_pend := PendSend (b_a (c_sbuf c)), c_sbuf := buf_take (c_sbuf c), c_count := n, c_db := s,
      c_pended := (if ok then c_pended c \<union> set (batch_tickets (c_tickets c) (b_a (c_sbuf c))) else c_pended c)\<rparr>)"
| pend_sent: "c_pend c = PendSend [] \<Longrightarrow> cycle_step S c (c\<lparr>c_pend := PendWait\<rparr>)"
| pend_ends: "c_pend c = PendWait \<Longrightarrow> b_closed (c_sbuf c) \<Longrightarrow> pend_cancel (c_count c) = None \<Longrightarrow> cycle_step S c (c\<lparr>c_pend := PendDone\<rparr>)"
| pend_ends_err: "c_pend c = PendWait \<Longrightarrow> b_closed (c_sbuf c) \<Longrightarrow> pend_cancel (c_count c) = Some e \<Longrightarrow>
    cycle_step S c ((cancel e c)\<lparr>c_pend := PendDone\<rparr>)"
| clean_up: "c_pend c = PendDone \<Longrightarrow> \<not> c_regOpen c \<Longrightarrow> \<not> c_cleaned c \<Longrightarrow>
    cycle_step S c (c\<lparr>c_cleaned := True, c_db := snd (CleanupBackfills S (c_db c))\<rparr>)"
| fan_out: "c_fan c = FanSelect \<Longrightarrow> c_pend c = PendSend (j # js) \<Longrightarrow> c_m7cMap c j = Some i \<Longrightarrow>
    cycle_step S c (c\<lparr>c_fan := FanSend7 i j, c_pend := PendSend js\<rparr>)"
| fan_unknown: "c_fan c = FanSelect \<Longrightarrow> c_pend c = PendSend (j # js) \<Longrightarrow> c_m7cMap c j = None \<Longrightarrow>
    cycle_step S c (c\<lparr>c_pend := PendSend js, c_passed := c_passed c @ [(j, None)]\<rparr>)"
| fan_sent: "c_fan c = FanSend7 i j \<Longrightarrow> b_in (k_buf (c_calls c i)) \<Longrightarrow>
    cycle_step S c ((set_call i (put_m7 i j c) c)\<lparr>c_fan := FanSelect, c_passed := c_passed c @ [(j, Some i)]\<rparr>)"
| fan_returns: "c_fan c = FanSelect \<Longrightarrow> c_pend c = PendDone \<Longrightarrow>
    cycle_step S c (c\<lparr>c_fan := FanReturned\<rparr>)"
| m7_ends: "c_fan c = FanReturned \<Longrightarrow> c_relay c = RelayDone \<Longrightarrow> i < c_regs c \<Longrightarrow>
    cycle_step S c (set_call i ((c_calls c i)\<lparr>k_buf := buf_end (k_buf (c_calls c i))\<rparr>) c)"
| m7_closes: "\<not> b_in (k_buf (c_calls c i)) \<Longrightarrow> b_a (k_buf (c_calls c i)) = [] \<Longrightarrow>
    cycle_step S c (set_call i ((c_calls c i)\<lparr>k_buf := buf_close (k_buf (c_calls c i))\<rparr>) c)"
| serve: "i < c_regs c \<Longrightarrow> call_step (ctx_Err (c_ctx c)) e (c_calls c i) = Some k \<Longrightarrow> cycle_step S c (set_call i k c)"

abbreviation cycle_reachable :: "('s, 'c) service \<Rightarrow> 's \<Rightarrow> 's cycle \<Rightarrow> bool" where
  "cycle_reachable S s \<equiv> (cycle_step S)\<^sup>*\<^sup>* (cycle_init s)"

section \<open>The service\<close>

text \<open>
  \<open>startCycle\<close> holds a token while no cycle runs; a registering call that takes it runs a cycle and puts it
  back when \<open>runCycle\<close> returns, while the goroutines of the cycle may still return matches.
\<close>

record 's sync_service =
  startCycle :: bool
  cycles :: "'s cycle list"

definition newSynchronizerService :: "'s sync_service" where
  "newSynchronizerService = \<lparr>startCycle = True, cycles = []\<rparr>"

inductive service_step :: "('s, 'c) service \<Rightarrow> 's sync_service \<Rightarrow> 's sync_service \<Rightarrow> bool" for S where
  start: "startCycle v \<Longrightarrow> service_step S v (v\<lparr>startCycle := False, cycles := cycles v @ [cycle_init s]\<rparr>)"
| within: "k < length (cycles v) \<Longrightarrow> cycle_step S (cycles v ! k) c' \<Longrightarrow> service_step S v (v\<lparr>cycles := (cycles v)[k := c']\<rparr>)"
| returns: "\<not> startCycle v \<Longrightarrow> c_cleaned (last (cycles v)) \<Longrightarrow> service_step S v (v\<lparr>startCycle := True\<rparr>)"

end
