(* ===== verification/Synchronizer_Properties.thy ===== *)
theory Synchronizer_Properties
  imports Synchronizer "HOL-Library.Sublist"
begin

text \<open>
  The correctness of the synchronizer: invariants of the cycle by induction over its steps (what the
  goroutines hold, the order of the accepted ids, the routing to the calls, the pending release, the ends
  of the channels, the signals), and the theorems that follow from them.
\<close>

section \<open>What a step of the evaluator client changes\<close>

lemma client_queue:
  "set (g_queue (gclient_step (SendNext ok) g)) \<subseteq> set (g_queue g)"
  "g_queue (gclient_step (ProposalsClosed ok) g) = g_queue g" "g_queue (gclient_step (Response j) g) = g_queue g"
  "g_queue (gclient_step ResponseEOF g) = g_queue g" "g_queue (gclient_step (ResponseErr e) g) = g_queue g"
  "\<not> g_sendDone g \<Longrightarrow> g_queue g = [] \<Longrightarrow> g_queue (gclient_step (Batch ms) g) = ms"
  by (auto simp: gclient_step_def Let_def split: list.splits option.splits bool.splits)

lemma client_dom:
  "dom (g_ids (gclient_step (SendNext ok) g)) \<subseteq> dom (g_ids g) \<union> m_MatchId ` set (g_queue g)"
  "g_ids (gclient_step (ProposalsClosed ok) g) = g_ids g" "dom (g_ids (gclient_step (Response j) g)) = dom (g_ids g)"
  "g_ids (gclient_step ResponseEOF g) = g_ids g" "g_ids (gclient_step (ResponseErr e) g) = g_ids g"
  "g_ids (gclient_step (Batch ms) g) = g_ids g"
  by (auto simp: gclient_step_def Let_def split: list.splits option.splits bool.splits)

lemma client_accepted:
  "g_accepted (gclient_step (SendNext ok) g) = g_accepted g"
  "g_accepted (gclient_step (ProposalsClosed ok) g) = g_accepted g" "g_accepted (gclient_step ResponseEOF g) = g_accepted g"
  "g_accepted (gclient_step (ResponseErr e) g) = g_accepted g" "g_accepted (gclient_step (Batch ms) g) = g_accepted g"
  "g_ids g j \<noteq> Some True \<Longrightarrow> g_accepted (gclient_step (Response j) g) = g_accepted g"
  "\<not> g_recvDone g \<Longrightarrow> g_ids g j = Some True \<Longrightarrow> g_accepted (gclient_step (Response j) g) = g_accepted g @ [j]"
  by (auto simp: gclient_step_def Let_def split: list.splits option.splits bool.splits)

lemma gclient_step_inv: "gclient_inv g \<Longrightarrow> gclient_inv (gclient_step e g)"
  by (simp add: gclient_step_def send_step_inv recv_step_inv)

lemma cancel_sel [simp]:
  "c_regs (cancel e c) = c_regs c" "c_regOpen (cancel e c) = c_regOpen c" "c_wg (cancel e c) = c_wg c"
  "c_timer (cancel e c) = c_timer c" "c_calls (cancel e c) = c_calls c" "c_cutoff (cancel e c) = c_cutoff c"
  "c_relay (cancel e c) = c_relay c" "c_fan (cancel e c) = c_fan c" "c_m2nil (cancel e c) = c_m2nil c"
  "c_m7cMap (cancel e c) = c_m7cMap c" "c_table (cancel e c) = c_table c" "c_tickets (cancel e c) = c_tickets c"
  "c_mbuf (cancel e c) = c_mbuf c" "c_eval (cancel e c) = c_eval c" "c_hold (cancel e c) = c_hold c"
  "c_m5closed (cancel e c) = c_m5closed c" "c_sbuf (cancel e c) = c_sbuf c" "c_pend (cancel e c) = c_pend c"
  "c_count (cancel e c) = c_count c" "c_cleaned (cancel e c) = c_cleaned c" "c_db (cancel e c) = c_db c"
  "c_handed (cancel e c) = c_handed c" "c_passed (cancel e c) = c_passed c" "c_pended (cancel e c) = c_pended c"
  by (simp_all add: cancel_def)

lemma set_call_sel [simp]:
  "c_regs (set_call i k c) = c_regs c" "c_regOpen (set_call i k c) = c_regOpen c" "c_wg (set_call i k c) = c_wg c"
  "c_timer (set_call i k c) = c_timer c" "c_cutoff (set_call i k c) = c_cutoff c"
  "c_relay (set_call i k c) = c_relay c" "c_fan (set_call i k c) = c_fan c" "c_m2nil (set_call i k c) = c_m2nil c"
  "c_m7cMap (set_call i k c) = c_m7cMap c" "c_table (set_call i k c) = c_table c"
  "c_tickets (set_call i k c) = c_tickets c" "c_mbuf (set_call i k c) = c_mbuf c" "c_eval (set_call i k c) = c_eval c"
  "c_hold (set_call i k c) = c_hold c" "c_m5closed (set_call i k c) = c_m5closed c"
  "c_sbuf (set_call i k c) = c_sbuf c" "c_pend (set_call i k c) = c_pend c" "c_count (set_call i k c) = c_count c"
  "c_ctx (set_call i k c) = c_ctx c" "c_cleaned (set_call i k c) = c_cleaned c" "c_db (set_call i k c) = c_db c"
  "c_handed (set_call i k c) = c_handed c" "c_passed (set_call i k c) = c_passed c"
  "c_pended (set_call i k c) = c_pended c"
  "c_calls (set_call i k c) = (c_calls c)(i := k)"
  by (simp_all add: set_call_def)

lemma buffer_sel [simp]:
  "b_a (buf_put x b) = b_a b @ [x]" "b_in (buf_put x b) = b_in b" "b_closed (buf_put x b) = b_closed b"
  "b_a (buf_take b) = []" "b_in (buf_take b) = b_in b" "b_closed (buf_take b) = b_closed b"
  "b_a (buf_end b) = b_a b" "\<not> b_in (buf_end b)" "b_closed (buf_end b) = b_closed b"
  "b_a (buf_close b) = b_a b" "b_in (buf_close b) = b_in b" "b_closed (buf_close b)"
  "b_a new_buffer = []" "b_in new_buffer" "\<not> b_closed new_buffer"
  by (simp_all add: buf_put_def buf_take_def buf_end_def buf_close_def new_buffer_def)

section \<open>Invariants\<close>

text \<open>
  Incoming: what a goroutine holds was handed in; a match is known to the fan-out and to the table of
  ticket ids by the time the goroutines after them hold it; and the two tables say what was handed in.
\<close>

definition known :: "'s cycle \<Rightarrow> match \<Rightarrow> bool" where
  "known c m \<longleftrightarrow> c_m7cMap c (m_MatchId m) \<noteq> None \<and> c_tickets c (m_MatchId m) \<noteq> None"

definition proposed :: "(match \<times> nat) list \<Rightarrow> nat \<Rightarrow> string \<Rightarrow> bool" where
  "proposed h i j \<longleftrightarrow> (\<exists>m. (m, i) \<in> set h \<and> m_MatchId m = j)"

definition hold_inv :: "'s cycle \<Rightarrow> bool" where
  "hold_inv c \<longleftrightarrow>
    (\<forall>m i. c_relay c = RelayHolds m i \<longrightarrow> (m, i) \<in> set (c_handed c)) \<and>
    (\<forall>m. c_fan c = FanSend3 m \<longrightarrow> c_m7cMap c (m_MatchId m) \<noteq> None \<and> (\<exists>i. (m, i) \<in> set (c_handed c))) \<and>
    (\<forall>m. c_table c = TableHolds m \<longrightarrow> known c m) \<and>
    (\<forall>m \<in> set (b_a (c_mbuf c)). known c m) \<and> (\<forall>m \<in> set (g_queue (c_eval c)). known c m) \<and>
    (\<forall>j \<in> dom (g_ids (c_eval c)). c_m7cMap c j \<noteq> None \<and> c_tickets c j \<noteq> None)"

definition table_inv :: "'s cycle \<Rightarrow> bool" where
  "table_inv c \<longleftrightarrow>
    (\<forall>j i. c_m7cMap c j = Some i \<longrightarrow> proposed (c_handed c) i j) \<and>
    (\<forall>j tids. c_tickets c j = Some tids \<longrightarrow>
      (\<exists>m i. (m, i) \<in> set (c_handed c) \<and> m_MatchId m = j \<and> tids = getTicketIds (m_Tickets m)))"

text \<open>Outgoing: what the evaluator accepted is, in order, what the fan-out has processed and what the goroutines hold.\<close>

fun fan_ids :: "fan \<Rightarrow> string list" where
  "fan_ids (FanSend7 i j) = [j]"
| "fan_ids _ = []"

fun pend_ids :: "pender \<Rightarrow> string list" where
  "pend_ids (PendSend js) = js"
| "pend_ids _ = []"

definition out_inv :: "'s cycle \<Rightarrow> bool" where
  "out_inv c \<longleftrightarrow> g_accepted (c_eval c) =
     map fst (c_passed c) @ fan_ids (c_fan c) @ pend_ids (c_pend c) @ b_a (c_sbuf c) @ (case c_hold c of None \<Rightarrow> [] | Some j \<Rightarrow> [j])"

text \<open>Routing: an id goes to a call that proposed it, and a call gets what was routed to it, in order, or less.\<close>

definition sent_to :: "nat \<Rightarrow> (string \<times> nat option) list \<Rightarrow> string list" where
  "sent_to i ps = map fst (filter (\<lambda>p. snd p = Some i) ps)"

definition route_inv :: "'s cycle \<Rightarrow> bool" where
  "route_inv c \<longleftrightarrow>
    (\<forall>j x. (j, x) \<in> set (c_passed c) \<longrightarrow> (\<exists>i. x = Some i \<and> proposed (c_handed c) i j)) \<and>
    (\<forall>j i. c_fan c = FanSend7 i j \<longrightarrow> proposed (c_handed c) i j)"

fun ids_of :: "response \<Rightarrow> string list" where
  "ids_of (MatchId j) = [j]"
| "ids_of _ = []"

definition delivered :: "response list \<Rightarrow> string list" where
  "delivered rs = concat (map ids_of rs)"

fun sending :: "call_phase \<Rightarrow> string list" where
  "sending (Sending js) = js"
| "sending _ = []"

fun failed :: "call_phase \<Rightarrow> bool" where
  "failed (Finished (Inl _)) = True"
| "failed _ = False"

definition call_ids :: "call \<Rightarrow> string list" where
  "call_ids k = delivered (k_sent k) @ sending (k_phase k) @ b_a (k_buf k)"

text \<open>A call whose handler has not failed has, sends or buffers everything that was routed to it.\<close>

definition deliver_inv :: "'s cycle \<Rightarrow> bool" where
  "deliver_inv c \<longleftrightarrow> (\<forall>i. subseq (call_ids (c_calls c i)) (sent_to i (c_passed c)) \<and>
     (\<not> failed (k_phase (c_calls c i)) \<longrightarrow> call_ids (c_calls c i) = sent_to i (c_passed c)))"

definition call_ok :: "call \<Rightarrow> bool" where
  "call_ok k \<longleftrightarrow> (b_closed (k_buf k) \<longrightarrow> b_a (k_buf k) = [] \<and> \<not> b_in (k_buf k)) \<and>
     (k_phase k = Finished (Inr ()) \<longrightarrow> b_closed (k_buf k))"

definition calls_inv :: "'s cycle \<Rightarrow> bool" where
  "calls_inv c \<longleftrightarrow> (\<forall>i. call_ok (c_calls c i))"

text \<open>Pending release: as long as no call of the store has failed, the tickets of every id that went on are pending.\<close>

definition covered :: "(match \<times> nat) list \<Rightarrow> string set \<Rightarrow> string \<Rightarrow> bool" where
  "covered h P j \<longleftrightarrow> (\<exists>m i. (m, i) \<in> set h \<and> m_MatchId m = j \<and> set (getTicketIds (m_Tickets m)) \<subseteq> P)"

definition pend_inv :: "'s cycle \<Rightarrow> bool" where
  "pend_inv c \<longleftrightarrow> lastErr (c_count c) = None \<longrightarrow>
     (\<forall>j \<in> set (map fst (c_passed c) @ fan_ids (c_fan c) @ pend_ids (c_pend c)). covered (c_handed c) (c_pended c) j)"

lemma covered_mono: "covered h P j \<Longrightarrow> covered (h @ xs) (P \<union> Q) j"
  by (auto simp: covered_def)

lemma proposed_snoc [simp]: "proposed h i j \<Longrightarrow> proposed (h @ xs) i j"
  by (auto simp: proposed_def)

lemma sent_to_snoc [simp]: "sent_to i (ps @ [(j, Some i)]) = sent_to i ps @ [j]" "k \<noteq> Some i \<Longrightarrow> sent_to i (ps @ [(j, k)]) = sent_to i ps"
  by (simp_all add: sent_to_def)

lemma eval_inv_step: "cycle_step S c c' \<Longrightarrow> gclient_inv (c_eval c) \<Longrightarrow> gclient_inv (c_eval c')"
proof (induction rule: cycle_step.induct)
  case (eval_fails c)
  then show ?case by (simp add: gclient_inv_def gclient_init_def)
qed (simp_all add: gclient_step_inv)

lemma table_inv_step: "cycle_step S c c' \<Longrightarrow> hold_inv c \<Longrightarrow> table_inv c \<Longrightarrow> table_inv c'"
proof (induction rule: cycle_step.induct)
  case (fan_in c m i)
  then have "(m, i) \<in> set (c_handed c)" by (simp add: hold_inv_def)
  with fan_in show ?case by (auto simp: table_inv_def proposed_def)
next
  case (table_in c m)
  then obtain i where "(m, i) \<in> set (c_handed c)" by (auto simp: hold_inv_def)
  with table_in show ?case by (auto simp: table_inv_def)
next
  case (propose i c m)
  then show ?case by (simp add: table_inv_def) blast
qed (simp_all add: table_inv_def)

lemma hold_inv_step: "cycle_step S c c' \<Longrightarrow> hold_inv c \<Longrightarrow> hold_inv c'"
proof (induction rule: cycle_step.induct)
  case (eval_send c ok)
  let ?g = "gclient_step (SendNext ok) (c_eval c)"
  have "\<forall>m \<in> set (g_queue ?g). known c m"
    using eval_send client_queue(1) [of ok "c_eval c"] unfolding hold_inv_def by blast
  moreover have "\<forall>j \<in> dom (g_ids ?g). c_m7cMap c j \<noteq> None \<and> c_tickets c j \<noteq> None"
    using eval_send client_dom(1) [of ok "c_eval c"] unfolding hold_inv_def known_def by blast
  ultimately show ?case using eval_send by (simp add: hold_inv_def known_def)
qed (auto simp: hold_inv_def known_def client_queue client_dom g_fail_def gclient_init_def split: if_splits)

lemma out_inv_step: "cycle_step S c c' \<Longrightarrow> out_inv c \<Longrightarrow> out_inv c'"
  by (induction rule: cycle_step.induct) (simp_all add: out_inv_def client_accepted gclient_init_def)

lemma accepted_known:
  assumes "gclient_inv (c_eval c)" and "hold_inv c" and "j \<in> set (g_accepted (c_eval c))"
  shows "c_m7cMap c j \<noteq> None" and "c_tickets c j \<noteq> None"
proof -
  have "j \<in> dom (g_ids (c_eval c))" using assms(1,3) by (auto simp: gclient_inv_def)
  with assms(2) show "c_m7cMap c j \<noteq> None" "c_tickets c j \<noteq> None" unfolding hold_inv_def by blast+
qed

lemma route_inv_step:
  "cycle_step S c c' \<Longrightarrow> gclient_inv (c_eval c) \<Longrightarrow> hold_inv c \<Longrightarrow> out_inv c \<Longrightarrow> table_inv c \<Longrightarrow> route_inv c \<Longrightarrow> route_inv c'"
proof (induction rule: cycle_step.induct)
  case (fan_unknown c j js)
  have "j \<in> set (g_accepted (c_eval c))" using fan_unknown(2,6) by (simp add: out_inv_def)
  from accepted_known(1) [OF fan_unknown(4,5) this] fan_unknown(3) show ?case by simp
next
  case (propose i c m)
  then show ?case unfolding route_inv_def by (auto simp: proposed_def) blast+
qed (auto simp: route_inv_def table_inv_def)

lemma subseq_drop_right: "subseq (xs @ ys) zs \<Longrightarrow> subseq xs zs"
  by (rule subseq_order.order_trans [OF prefix_imp_subseq [OF prefixI [OF refl]]])

lemma subseq_snoc: "subseq xs zs \<Longrightarrow> subseq (xs @ [j]) (zs @ [j])"
  using list_emb_append_mono [of "(=)" xs zs "[j]" "[j]"] by simp

lemma call_send_cases [elim]:
  assumes "call_send r x p k = k'"
  obtains e where "r = Some e" "k' = k\<lparr>k_phase := Finished (Inl e)\<rparr>" | "r = None" "k' = k\<lparr>k_phase := p, k_sent := k_sent k @ [x]\<rparr>"
  using assms by (cases r) (auto simp: call_send_def finish_def)

lemma delivered_snoc [simp]: "delivered (rs @ [r]) = delivered rs @ ids_of r" "delivered [] = []"
  by (simp_all add: delivered_def)

lemmas call_defs = call_send_def finish_def

lemma unit_res_neq [simp]: "r \<noteq> Inr () \<longleftrightarrow> (\<exists>e. r = Inl e)"
  by (cases r) simp_all

lemma subseq_middle: "subseq (xs @ zs) (xs @ y # ys @ zs)"
proof -
  have "subseq zs ((y # ys) @ zs)" by (rule list_emb_append2) simp
  then show ?thesis using list_emb_append_mono [of "(=)" xs xs] by simp
qed

lemma call_step_ids:
  assumes "call_step ce e k = Some k'" and "call_ok k"
  shows "call_ok k' \<and> subseq (call_ids k') (call_ids k) \<and> (\<not> failed (k_phase k') \<longrightarrow> \<not> failed (k_phase k) \<and> call_ids k' = call_ids k)"
  using assms
  by (cases e) (auto simp: call_ok_def call_ids_def call_defs split: if_splits option.splits call_phase.splits list.splits sum.splits
      intro: subseq_middle)

lemma call_ids_sel [simp]:
  "call_ids (k\<lparr>k_ctx := x\<rparr>) = call_ids k" "call_ids (k\<lparr>k_eof := b\<rparr>) = call_ids k" "call_ids (k\<lparr>k_cancelMmfs := b\<rparr>) = call_ids k"
  "call_ids (k\<lparr>k_buf := buf_put j (k_buf k)\<rparr>) = call_ids k @ [j]" "call_ids (k\<lparr>k_buf := buf_end (k_buf k)\<rparr>) = call_ids k"
  "call_ids (k\<lparr>k_buf := buf_close (k_buf k)\<rparr>) = call_ids k"
  by (simp_all add: call_ids_def)

lemma calls_inv_step: "cycle_step S c c' \<Longrightarrow> calls_inv c \<Longrightarrow> calls_inv c'"
proof (induction rule: cycle_step.induct)
  case (serve i c e k)
  then show ?case using call_step_ids [OF serve(2)] by (simp add: calls_inv_def)
qed (auto simp: calls_inv_def call_ok_def)

lemma deliver_inv_step: "cycle_step S c c' \<Longrightarrow> calls_inv c \<Longrightarrow> deliver_inv c \<Longrightarrow> deliver_inv c'"
proof (induction rule: cycle_step.induct)
  case (serve i c e k)
  have "call_ok (c_calls c i)" using serve(3) by (simp add: calls_inv_def)
  from call_step_ids [OF serve(2) this] serve(4) show ?case
    unfolding deliver_inv_def by (auto intro: subseq_order.order_trans)
next
  case (fan_sent c i j)
  then show ?case by (auto simp: deliver_inv_def intro: subseq_snoc)
qed (simp_all add: deliver_inv_def)

lemma batch_covered:
  assumes "j \<in> set js" and "c_tickets c j = Some tids"
  shows "set tids \<subseteq> set (batch_tickets (c_tickets c) js)"
  using assms by (force simp: batch_tickets_def)

lemma pend_inv_step:
  "cycle_step S c c' \<Longrightarrow> hold_inv c \<Longrightarrow> table_inv c \<Longrightarrow> gclient_inv (c_eval c) \<Longrightarrow> out_inv c \<Longrightarrow> pend_inv c \<Longrightarrow> pend_inv c'"
proof (induction rule: cycle_step.induct)
  case (pend c ok n s)
  show ?case
  proof (cases ok)
    case True
    have err: "lastErr n = lastErr (c_count c)"
      using pend(3) True by (auto simp: pend_batch_def split: prod.splits sum.splits)
    have new: "covered (c_handed c) (c_pended c \<union> set (batch_tickets (c_tickets c) (b_a (c_sbuf c)))) j"
      if j: "j \<in> set (b_a (c_sbuf c))" for j
    proof -
      have "j \<in> set (g_accepted (c_eval c))" using pend(7) j by (simp add: out_inv_def)
      from accepted_known(2) [OF pend(6,4) this] obtain tids where tids: "c_tickets c j = Some tids" by blast
      then obtain m i where "(m, i) \<in> set (c_handed c)" "m_MatchId m = j" "tids = getTicketIds (m_Tickets m)"
        using pend(5) unfolding table_inv_def by blast
      with batch_covered [OF j tids] show ?thesis by (auto simp: covered_def)
    qed
    have old: "covered (c_handed c) (c_pended c \<union> Q) j" if "covered (c_handed c) (c_pended c) j" for j Q
      using covered_mono [OF that, of "[]"] by simp
    show ?thesis using pend(1,8) True err new old by (simp add: pend_inv_def) (metis UnCI UnE)
  next
    case False
    then have "lastErr n \<noteq> None" using pend(3) by (auto simp: pend_batch_def split: prod.splits sum.splits)
    then show ?thesis by (auto simp: pend_inv_def)
  qed
next
  case (propose i c m)
  have "covered (c_handed c @ [(m, i)]) (c_pended c) j" if "covered (c_handed c) (c_pended c) j" for j
    using covered_mono [OF that, of _ "{}"] by simp
  then show ?case using propose by (simp add: pend_inv_def)
qed (simp_all add: pend_inv_def)

definition cycle_inv :: "'s cycle \<Rightarrow> bool" where
  "cycle_inv c \<longleftrightarrow> hold_inv c \<and> table_inv c \<and> gclient_inv (c_eval c) \<and> out_inv c \<and> route_inv c \<and>
     calls_inv c \<and> deliver_inv c \<and> pend_inv c"

lemma cycle_inv_init: "cycle_inv (cycle_init s)"
proof -
  have "g_queue gclient_init = []" "g_ids gclient_init = Map.empty" "g_accepted gclient_init = []" by (simp_all add: gclient_init_def)
  then show ?thesis
    by (simp add: cycle_inv_def cycle_init_def hold_inv_def table_inv_def gclient_inv_init out_inv_def route_inv_def
        deliver_inv_def calls_inv_def call_ok_def call_ids_def new_call_def sent_to_def pend_inv_def)
qed

lemma cycle_inv_step: "cycle_step S c c' \<Longrightarrow> cycle_inv c \<Longrightarrow> cycle_inv c'"
  unfolding cycle_inv_def
  by (intro conjI; elim conjE) (rule hold_inv_step table_inv_step eval_inv_step out_inv_step route_inv_step calls_inv_step
    deliver_inv_step pend_inv_step; assumption)+

lemma cycle_invariant: "cycle_reachable S s c \<Longrightarrow> cycle_inv c"
  by (induction rule: rtranclp_induct) (auto simp: cycle_inv_init intro: cycle_inv_step)

section \<open>Matches that are returned\<close>

lemma subseq_distinct': "subseq xs ys \<Longrightarrow> distinct ys \<Longrightarrow> distinct xs"
proof (induction rule: list_emb.induct)
  case (list_emb_Cons2 x y xs ys)
  then show ?case by (auto elim: list_emb_set)
qed simp_all

lemma proposed_unique:
  assumes "distinct (map (m_MatchId \<circ> fst) h)" and "(m, i) \<in> set h" and "(m', i') \<in> set h" and "m_MatchId m = m_MatchId m'"
  shows "m = m' \<and> i = i'"
proof -
  have "inj_on (m_MatchId \<circ> fst) (set h)" using assms(1) by (simp add: distinct_map)
  from inj_onD [OF this _ assms(2,3)] assms(4) show ?thesis by simp
qed

text \<open>What a call got is what was routed to it, or less.\<close>

lemma delivered_passed:
  assumes "cycle_reachable S s c"
  shows "subseq (delivered (k_sent (c_calls c i))) (sent_to i (c_passed c))"
  using cycle_invariant [OF assms] unfolding cycle_inv_def deliver_inv_def call_ids_def by (blast intro: subseq_drop_right)

lemma sent_to_distinct:
  assumes "cycle_reachable S s c"
  shows "distinct (sent_to i (c_passed c))"
proof -
  have "out_inv c" "gclient_inv (c_eval c)" using cycle_invariant [OF assms] by (simp_all add: cycle_inv_def)
  then have "distinct (map fst (c_passed c))" by (simp add: out_inv_def gclient_inv_def)
  then show ?thesis unfolding sent_to_def by (simp add: distinct_map_filter)
qed

lemma delivered_accepted:
  assumes "cycle_reachable S s c"
  shows "set (delivered (k_sent (c_calls c i))) \<subseteq> set (g_accepted (c_eval c))"
proof
  fix j
  assume "j \<in> set (delivered (k_sent (c_calls c i)))"
  then have "j \<in> set (sent_to i (c_passed c))" by (rule list_emb_set [OF delivered_passed [OF assms]]) simp
  then have "j \<in> set (map fst (c_passed c))" by (auto simp: sent_to_def)
  moreover have "out_inv c" using cycle_invariant [OF assms] by (simp add: cycle_inv_def)
  ultimately show "j \<in> set (g_accepted (c_eval c))" by (simp add: out_inv_def)
qed

text \<open>
  C7: What a synchronize call gets back. In every interleaving of the goroutines, if the match ids proposed
  in the cycle are distinct, then an id returned to a call is that of a match which this very call
  proposed and which the evaluator accepted; it is returned once; and, as long as no call of the store
  failed, all tickets of the match had been put in pending release before.
\<close>

theorem synchronizer_returns:
  assumes run: "cycle_reachable S s c" and ids: "distinct (map (m_MatchId \<circ> fst) (c_handed c))"
    and j: "j \<in> set (delivered (k_sent (c_calls c i)))"
  shows "\<exists>m. (m, i) \<in> set (c_handed c) \<and> m_MatchId m = j \<and> j \<in> set (g_accepted (c_eval c)) \<and>
    distinct (delivered (k_sent (c_calls c i))) \<and> (lastErr (c_count c) = None \<longrightarrow> t_Id ` set (m_Tickets m) \<subseteq> c_pended c)"
proof -
  from cycle_invariant [OF run] have inv: "out_inv c" "route_inv c" "pend_inv c" by (simp_all add: cycle_inv_def)
  note sub = delivered_passed [OF run, of i]
  have "j \<in> set (sent_to i (c_passed c))" by (rule list_emb_set [OF sub j]) simp
  then have passed: "(j, Some i) \<in> set (c_passed c)" by (auto simp: sent_to_def)
  then obtain m where m: "(m, i) \<in> set (c_handed c)" "m_MatchId m = j"
    using inv(2) by (auto simp: route_inv_def proposed_def)
  have acc: "j \<in> set (g_accepted (c_eval c))" using delivered_accepted [OF run] j by blast
  have d: "distinct (delivered (k_sent (c_calls c i)))" by (rule subseq_distinct' [OF sub sent_to_distinct [OF run]])
  have "t_Id ` set (m_Tickets m) \<subseteq> c_pended c" if "lastErr (c_count c) = None"
  proof -
    have "covered (c_handed c) (c_pended c) j" using inv(3) that passed by (force simp: pend_inv_def)
    then obtain m' i' where m': "(m', i') \<in> set (c_handed c)" "m_MatchId m' = j" "set (getTicketIds (m_Tickets m')) \<subseteq> c_pended c"
      by (auto simp: covered_def)
    have "m = m'" using proposed_unique [OF ids m(1) m'(1)] m(2) m'(2) by simp
    with m'(3) show ?thesis by (simp add: getTicketIds_def)
  qed
  with m acc d show ?thesis by (intro exI [of _ m] conjI impI) simp_all
qed

text \<open>The matches on their way to the evaluator, and those the client has sent, were proposed by some call.\<close>

fun fan_match :: "fan \<Rightarrow> match set" where
  "fan_match (FanSend3 m) = {m}"
| "fan_match _ = {}"

fun table_match :: "table \<Rightarrow> match set" where
  "table_match (TableHolds m) = {m}"
| "table_match _ = {}"

definition origin_inv :: "'s cycle \<Rightarrow> bool" where
  "origin_inv c \<longleftrightarrow> fan_match (c_fan c) \<union> table_match (c_table c) \<union> set (b_a (c_mbuf c)) \<union> set (g_queue (c_eval c)) \<union>
     set (g_sent (c_eval c)) \<subseteq> fst ` set (c_handed c)"

lemma client_origin:
  "set (g_queue (gclient_step (SendNext ok) g)) \<union> set (g_sent (gclient_step (SendNext ok) g)) \<subseteq> set (g_queue g) \<union> set (g_sent g)"
  "\<And>e. (\<forall>ok. e \<noteq> SendNext ok) \<Longrightarrow> g_sent (gclient_step e g) = g_sent g"
proof -
  show "set (g_queue (gclient_step (SendNext ok) g)) \<union> set (g_sent (gclient_step (SendNext ok) g)) \<subseteq> set (g_queue g) \<union> set (g_sent g)"
    by (auto simp: gclient_step_def g_fail_def Let_def split: list.splits option.splits bool.splits)
  show "g_sent (gclient_step e g) = g_sent g" if "\<forall>ok. e \<noteq> SendNext ok" for e
    using that by (cases e) (auto simp: gclient_step_def g_fail_def split: list.splits option.splits bool.splits)
qed

lemma origin_inv_step: "cycle_step S c c' \<Longrightarrow> hold_inv c \<Longrightarrow> origin_inv c \<Longrightarrow> origin_inv c'"
proof (induction rule: cycle_step.induct)
  case (fan_in c m i)
  then have "(m, i) \<in> set (c_handed c)" by (simp add: hold_inv_def)
  then have "m \<in> fst ` set (c_handed c)" by force
  with fan_in show ?case by (auto simp: origin_inv_def)
next
  case (eval_send c ok)
  then show ?case using client_origin(1) [of ok "c_eval c"] unfolding origin_inv_def by auto
next
  case (eval_fails c e)
  then show ?case by (auto simp: origin_inv_def g_fail_def)
qed (auto simp: origin_inv_def client_queue client_origin(2))

lemma origin_invariant: "cycle_reachable S s c \<Longrightarrow> origin_inv c"
proof (induction rule: rtranclp_induct)
  case base
  show ?case by (simp add: origin_inv_def cycle_init_def gclient_init_def)
next
  case (step c c')
  have "hold_inv c" using cycle_invariant [OF step(1)] by (simp add: cycle_inv_def)
  from origin_inv_step [OF step(2) this step(3)] show ?case .
qed

section \<open>The ends of the channels\<close>

text \<open>
  An input is closed only when nothing can be sent on it any more; the pending release ends when the
  evaluator has ended and everything it accepted has been sent on; and the evaluator's error cancels the
  cycle before its channel is closed.
\<close>

definition flow_inv :: "'s cycle \<Rightarrow> bool" where
  "flow_inv c \<longleftrightarrow> (c_m2nil c \<longrightarrow> (\<forall>m. c_fan c \<noteq> FanSend3 m)) \<and> (c_table c = TableDone \<longrightarrow> c_m2nil c) \<and>
     (b_in (c_mbuf c) \<longleftrightarrow> c_table c \<noteq> TableDone) \<and>
     (c_m5closed c \<longrightarrow> g_sendDone (c_eval c) \<and> g_recvDone (c_eval c) \<and> c_hold c = None) \<and>
     (\<not> b_in (c_sbuf c) \<longrightarrow> c_m5closed c) \<and> (b_closed (c_sbuf c) \<longrightarrow> \<not> b_in (c_sbuf c) \<and> b_a (c_sbuf c) = []) \<and>
     (c_pend c = PendDone \<longrightarrow> b_closed (c_sbuf c)) \<and> (c_fan c = FanReturned \<longrightarrow> c_pend c = PendDone) \<and>
     (\<forall>i. \<not> b_in (k_buf (c_calls c i)) \<longrightarrow> c_fan c = FanReturned \<and> c_relay c = RelayDone)"

lemma client_done:
  "g_recvDone g \<Longrightarrow> g_recvDone (gclient_step e g)" "g_sendDone g \<Longrightarrow> g_sendDone (gclient_step e g)"
  "g_recvDone g \<Longrightarrow> g_sendDone g \<Longrightarrow> gclient_step e g = g"
  by (cases e; auto simp: gclient_step_def g_fail_def Let_def split: list.splits option.splits bool.splits)+

lemma call_step_in: "call_step ce e k = Some k' \<Longrightarrow> b_in (k_buf k') = b_in (k_buf k)"
  by (cases e) (auto simp: call_defs split: if_splits option.splits call_phase.splits list.splits)

lemma flow_inv_step: "cycle_step S c c' \<Longrightarrow> flow_inv c \<Longrightarrow> flow_inv c'"
proof (induction rule: cycle_step.induct)
  case (serve i c e k)
  then show ?case using call_step_in [OF serve(2)] by (auto simp: flow_inv_def)
qed (auto simp: flow_inv_def client_done)

lemma flow_invariant: "cycle_reachable S s c \<Longrightarrow> flow_inv c"
proof (induction rule: rtranclp_induct)
  case base
  show ?case by (simp add: flow_inv_def cycle_init_def new_call_def)
qed (rule flow_inv_step)

text \<open>
  C13: A slow or failed evaluator does not block the incoming matches, and a slow caller does not block the
  outgoing ones: whenever the fan-in is sending a match, steps that do not involve the evaluator client
  bring it back to its select; an id that the client sends is always taken; and so is an id that the
  fan-out sends to a call.
\<close>

theorem synchronizer_no_block:
  assumes "cycle_reachable S s c"
  shows "(c_fan c = FanSend3 m \<longrightarrow> (\<exists>c'. (cycle_step S)\<^sup>*\<^sup>* c c' \<and> c_fan c' = FanSelect \<and> c_eval c' = c_eval c)) \<and>
    (c_hold c = Some j \<longrightarrow> (\<exists>c'. cycle_step S c c' \<and> c_hold c' = None)) \<and>
    (c_fan c = FanSend7 i j \<longrightarrow> (\<exists>c'. cycle_step S c c' \<and> c_fan c' = FanSelect))"
proof (intro conjI impI)
  note inv = flow_invariant [OF assms]
  assume fan: "c_fan c = FanSend3 m"
  then have table: "c_table c \<noteq> TableDone" and buf: "b_in (c_mbuf c)" using inv by (auto simp: flow_inv_def)
  show "\<exists>c'. (cycle_step S)\<^sup>*\<^sup>* c c' \<and> c_fan c' = FanSelect \<and> c_eval c' = c_eval c"
  proof (cases "c_table c")
    case TableIdle
    from cycle_step.table_in [of c m S, OF fan this] show ?thesis by (auto intro: r_into_rtranclp)
  next
    case (TableHolds m')
    let ?c1 = "c\<lparr>c_table := TableIdle, c_mbuf := buf_put m' (c_mbuf c)\<rparr>"
    have 1: "cycle_step S c ?c1" by (rule cycle_step.table_out [OF TableHolds buf])
    let ?c2 = "?c1\<lparr>c_fan := FanSelect, c_table := TableHolds m,
        c_tickets := (c_tickets ?c1)(m_MatchId m \<mapsto> getTicketIds (m_Tickets m))\<rparr>"
    have 2: "cycle_step S ?c1 ?c2"
      by (rule cycle_step.table_in) (simp_all add: fan)
    have "(cycle_step S)\<^sup>*\<^sup>* c ?c2"
      by (rule converse_rtranclp_into_rtranclp, rule 1, rule r_into_rtranclp, rule 2)
    then show ?thesis by (intro exI [of _ ?c2] conjI) simp_all
  qed (use table in simp)
next
  assume hold: "c_hold c = Some j"
  then have "b_in (c_sbuf c)" using flow_invariant [OF assms] by (auto simp: flow_inv_def)
  from cycle_step.sbuf_in [of c j S, OF hold this] show "\<exists>c'. cycle_step S c c' \<and> c_hold c' = None" by auto
next
  assume fan: "c_fan c = FanSend7 i j"
  then have "b_in (k_buf (c_calls c i))" using flow_invariant [OF assms] by (auto simp: flow_inv_def)
  from cycle_step.fan_sent [of c i j S, OF fan this] show "\<exists>c'. cycle_step S c c' \<and> c_fan c' = FanSelect" by auto
qed

section \<open>A call that returns without an error\<close>

definition error_inv :: "'s cycle \<Rightarrow> bool" where
  "error_inv c \<longleftrightarrow> (c_m5closed c \<and> g_err (c_eval c) \<noteq> None \<longrightarrow> ctx_Err (c_ctx c) \<noteq> None) \<and>
     (\<forall>i. k_phase (c_calls c i) = Finished (Inr ()) \<longrightarrow> g_err (c_eval c) = None)"

lemma cancel_Err [simp]: "ctx_Err (c_ctx (cancel e c)) \<noteq> None"
  by (simp add: ctx_Err_def cancel_def cancel_cause_def split: option.splits)

lemma call_step_nil:
  "call_step ce e k = Some k' \<Longrightarrow> k_phase k' = Finished (Inr ()) \<Longrightarrow> k_phase k = Finished (Inr ()) \<or> b_closed (k_buf k) \<and> ce = None"
  by (cases e) (auto simp: call_defs split: if_splits option.splits call_phase.splits list.splits)

lemma finished_ended:
  assumes "calls_inv c" and "flow_inv c" and "b_closed (k_buf (c_calls c i))"
  shows "c_fan c = FanReturned" and "c_m5closed c" and "c_relay c = RelayDone"
    and "c_pend c = PendDone" and "b_a (c_sbuf c) = []" and "c_hold c = None"
proof -
  have "\<not> b_in (k_buf (c_calls c i))" using assms(1,3) unfolding calls_inv_def call_ok_def by blast
  with assms(2) show fan: "c_fan c = FanReturned" and "c_relay c = RelayDone" unfolding flow_inv_def by blast+
  then show pend: "c_pend c = PendDone" using assms(2) unfolding flow_inv_def by blast
  then show "b_a (c_sbuf c) = []" using assms(2) unfolding flow_inv_def by blast
  from pend show m5: "c_m5closed c" using assms(2) unfolding flow_inv_def by blast
  then show "c_hold c = None" using assms(2) unfolding flow_inv_def by blast
qed

lemma error_inv_step:
  assumes step: "cycle_step S c c'" and inv: "calls_inv c" "flow_inv c" "error_inv c"
  shows "error_inv c'"
proof -
  have m5: "gclient_step e (c_eval c) = c_eval c" "c_eval c \<noteq> gclient_init" if "c_m5closed c" for e
    using inv(2) that by (auto simp: flow_inv_def client_done gclient_init_def)
  have nil: "c_m5closed c" if "k_phase (c_calls c i) = Finished (Inr ())" for i
    using inv(1,2) that by (auto simp: calls_inv_def call_ok_def intro: finished_ended(2))
  from step show ?thesis
  proof (cases rule: cycle_step.cases)
    case (serve i e k)
    have "g_err (c_eval c) = None" if "k_phase k = Finished (Inr ())"
    proof (cases "k_phase (c_calls c i) = Finished (Inr ())")
      case False
      with call_step_nil [OF serve(3) that] have "b_closed (k_buf (c_calls c i))" "ctx_Err (c_ctx c) = None" by auto
      with finished_ended(2) [OF inv(1,2)] inv(3) show ?thesis unfolding error_inv_def by blast
    qed (use inv(3) in \<open>auto simp: error_inv_def\<close>)
    with serve inv(3) show ?thesis by (auto simp: error_inv_def)
  qed (use inv(3) m5 nil in \<open>auto simp: error_inv_def\<close>)
qed

lemma error_invariant: "cycle_reachable S s c \<Longrightarrow> error_inv c"
proof (induction rule: rtranclp_induct)
  case base
  show ?case by (simp add: error_inv_def cycle_init_def new_call_def)
next
  case (step c c')
  have "calls_inv c" using cycle_invariant [OF step(1)] by (simp add: cycle_inv_def)
  from error_inv_step [OF step(2) this flow_invariant [OF step(1)] step(3)] show ?case .
qed

lemma sent_to_filter:
  assumes "\<And>j x. (j, x) \<in> set ps \<Longrightarrow> x = Some i \<longleftrightarrow> P j"
  shows "sent_to i ps = filter P (map fst ps)"
  using assms unfolding sent_to_def filter_map by (intro arg_cong [of _ _ "map fst"] filter_cong) auto

text \<open>
  C4: Nothing is lost. If a synchronize call ends without an error, then the evaluator ended without one,
  and the ids the call got are exactly the ids of its own proposals among those that the evaluator
  accepted, in the order in which they were accepted.
\<close>

theorem synchronizer_complete:
  assumes run: "cycle_reachable S s c" and ids: "distinct (map (m_MatchId \<circ> fst) (c_handed c))"
    and nil: "k_phase (c_calls c i) = Finished (Inr ())"
  shows "g_err (c_eval c) = None \<and>
    delivered (k_sent (c_calls c i)) = filter (\<lambda>j. \<exists>m. (m, i) \<in> set (c_handed c) \<and> m_MatchId m = j) (g_accepted (c_eval c))"
proof
  show "g_err (c_eval c) = None" using error_invariant [OF run] nil by (auto simp: error_inv_def)
  from cycle_invariant [OF run] have inv: "out_inv c" "route_inv c" "calls_inv c" "deliver_inv c" by (simp_all add: cycle_inv_def)
  have closed: "b_closed (k_buf (c_calls c i))" and empty: "b_a (k_buf (c_calls c i)) = []"
    using inv(3) nil unfolding calls_inv_def call_ok_def by blast+
  note ended = finished_ended [OF inv(3) flow_invariant [OF run] closed]
  have acc: "g_accepted (c_eval c) = map fst (c_passed c)" using inv(1) ended by (simp add: out_inv_def)
  have "call_ids (c_calls c i) = sent_to i (c_passed c)" using inv(4) nil by (simp add: deliver_inv_def)
  then have del: "delivered (k_sent (c_calls c i)) = sent_to i (c_passed c)" by (simp add: call_ids_def nil empty)
  have route: "x = Some i \<longleftrightarrow> proposed (c_handed c) i j" if jx: "(j, x) \<in> set (c_passed c)" for j x
  proof -
    obtain i' where i': "x = Some i'" "proposed (c_handed c) i' j" using inv(2) jx unfolding route_inv_def by blast
    then show ?thesis using proposed_unique [OF ids] unfolding proposed_def by blast
  qed
  show "delivered (k_sent (c_calls c i)) = filter (\<lambda>j. \<exists>m. (m, i) \<in> set (c_handed c) \<and> m_MatchId m = j) (g_accepted (c_eval c))"
    using sent_to_filter [of "c_passed c" i, OF route] by (simp add: del acc proposed_def)
qed

section \<open>The signals of a call\<close>

text \<open>
  The wait group counts the calls that still propose; the cut-off has its reason; and a call is signalled
  at most once, by the timer.
\<close>

definition signalled :: "nat option \<Rightarrow> nat \<Rightarrow> nat" where
  "signalled t i = (case t of Some n \<Rightarrow> if i < n then 1 else 0 | None \<Rightarrow> 0)"

definition stream_ok :: "nat \<Rightarrow> call \<Rightarrow> bool" where
  "stream_ok n k \<longleftrightarrow> (k_phase k = Starting \<longrightarrow> k_sent k = []) \<and>
     (k_sent k = [] \<or> hd (k_sent k) = StartMmfs \<and> StartMmfs \<notin> set (tl (k_sent k))) \<and>
     (k_sent k = [] \<longrightarrow> k_phase k = Starting \<or> (\<exists>r. k_phase k = Finished r)) \<and>
     count_list (k_sent k) CancelMmfs + (if k_cancelMmfs k then 1 else 0) \<le> n"

definition proposing :: "(nat \<Rightarrow> call) \<Rightarrow> nat \<Rightarrow> nat" where
  "proposing f n = card {j. j < n \<and> \<not> k_eof (f j)}"

definition signal_inv :: "'s cycle \<Rightarrow> bool" where
  "signal_inv c \<longleftrightarrow> (\<forall>i. stream_ok (signalled (c_timer c) i) (c_calls c i)) \<and>
     (c_timer c \<noteq> None \<longrightarrow> c_cutoff c) \<and> (c_relay c = RelayDone \<longrightarrow> c_cutoff c) \<and> (c_cutoff c \<longrightarrow> \<not> c_regOpen c) \<and>
     (c_cutoff c \<and> c_timer c = None \<longrightarrow> c_wg c = 0) \<and>
     c_wg c = proposing (c_calls c) (c_regs c) \<and> (\<forall>i \<ge> c_regs c. \<not> k_eof (c_calls c i))"

lemma call_step_stream: "call_step ce e k = Some k' \<Longrightarrow> stream_ok n k \<Longrightarrow> stream_ok n k' \<and> k_eof k' = k_eof k"
  by (cases e) (auto simp: stream_ok_def call_defs neq_Nil_conv hd_append split: if_splits option.splits call_phase.splits list.splits)

lemma proposing_simps [simp]:
  "proposing f 0 = 0" "proposing f n = 0 \<longleftrightarrow> (\<forall>j < n. k_eof (f j))"
  by (auto simp: proposing_def)

lemma proposing_Suc [simp]: "\<not> k_eof (f n) \<Longrightarrow> proposing f (Suc n) = Suc (proposing f n)"
proof -
  assume "\<not> k_eof (f n)"
  then have "{j. j < Suc n \<and> \<not> k_eof (f j)} = insert n {j. j < n \<and> \<not> k_eof (f j)}" by auto
  then show ?thesis by (simp add: proposing_def)
qed

lemma proposing_upd [simp]: "k_eof k = k_eof (f i) \<Longrightarrow> proposing (f(i := k)) n = proposing f n"
  unfolding proposing_def by (rule arg_cong [of _ _ card]) auto

lemma proposing_eof: "i < n \<Longrightarrow> \<not> k_eof (f i) \<Longrightarrow> k_eof k \<Longrightarrow> proposing (f(i := k)) n = proposing f n - 1"
proof -
  assume a: "i < n" "\<not> k_eof (f i)" "k_eof k"
  then have "{j. j < n \<and> \<not> k_eof ((f(i := k)) j)} = {j. j < n \<and> \<not> k_eof (f j)} - {i}" by auto
  with a show ?thesis by (simp add: proposing_def)
qed

lemma stream_ok_sel [simp]:
  "stream_ok n (k\<lparr>k_ctx := x\<rparr>) = stream_ok n k" "stream_ok n (k\<lparr>k_eof := b\<rparr>) = stream_ok n k"
  "stream_ok n (k\<lparr>k_buf := bf\<rparr>) = stream_ok n k"
  by (simp_all add: stream_ok_def)

lemma stream_ok_signal: "stream_ok 0 k \<Longrightarrow> stream_ok 1 (k\<lparr>k_cancelMmfs := True\<rparr>)"
  by (auto simp: stream_ok_def)

lemma signalled_simps [simp]: "signalled None i = 0" "signalled (Some n) i = (if i < n then 1 else 0)"
  by (simp_all add: signalled_def)

lemma signal_inv_step: "cycle_step S c c' \<Longrightarrow> signal_inv c \<Longrightarrow> signal_inv c'"
proof (induction rule: cycle_step.induct)
  case (serve i c e k)
  have "stream_ok (signalled (c_timer c) i) k \<and> k_eof k = k_eof (c_calls c i)"
    using serve(3) by (intro call_step_stream [OF serve(2)]) (simp add: signal_inv_def)
  with serve(3) show ?case by (auto simp: signal_inv_def)
next
  case (all_sent i c)
  then show ?case by (auto simp: signal_inv_def proposing_eof)
next
  case (cancel_mmfs c n)
  have ok: "stream_ok (if i < n then 1 else 0) (c_calls c i)" for i
    using cancel_mmfs(3) unfolding signal_inv_def cancel_mmfs(1) signalled_simps by blast
  have "stream_ok 1 ((c_calls c n)\<lparr>k_cancelMmfs := True\<rparr>)" by (rule stream_ok_signal) (use ok [of n] in simp)
  moreover have "stream_ok (if i < Suc n then 1 else 0) (c_calls c i)" if "i \<noteq> n" for i
    using ok [of i] that by (simp add: less_Suc_eq)
  ultimately show ?case using cancel_mmfs by (auto simp: signal_inv_def)
qed (auto simp: signal_inv_def)

lemma signal_invariant: "cycle_reachable S s c \<Longrightarrow> signal_inv c"
proof (induction rule: rtranclp_induct)
  case base
  show ?case by (simp add: signal_inv_def cycle_init_def new_call_def stream_ok_def)
qed (rule signal_inv_step)

text \<open>
  C14: The stream of a call. The first response is the start signal, which is sent once; the signal to cancel
  the match functions is sent at most once, and only after the cut-off of proposals. The handler returns
  only when the collection timer has fired or all calls of the cycle have sent all their proposals,
  also if the cycle was cancelled before.
\<close>

theorem synchronize_stream:
  assumes run: "cycle_reachable S s c"
  shows "(k_sent (c_calls c i) = [] \<or> hd (k_sent (c_calls c i)) = StartMmfs \<and> StartMmfs \<notin> set (tl (k_sent (c_calls c i)))) \<and>
    count_list (k_sent (c_calls c i)) CancelMmfs \<le> 1 \<and> (CancelMmfs \<in> set (k_sent (c_calls c i)) \<longrightarrow> c_cutoff c) \<and>
    (returned (c_calls c i) \<longrightarrow> c_timer c \<noteq> None \<or> (\<forall>j < c_regs c. k_eof (c_calls c j)))"
proof -
  note inv = signal_invariant [OF run]
  then have ok: "stream_ok (signalled (c_timer c) i) (c_calls c i)" by (simp add: signal_inv_def)
  have le: "signalled (c_timer c) i \<le> 1" by (simp add: signalled_def split: option.splits)
  have cut: "c_cutoff c" if "CancelMmfs \<in> set (k_sent (c_calls c i))"
  proof -
    have "0 < count_list (k_sent (c_calls c i)) CancelMmfs" using that by (metis count_list_0_iff gr0I)
    then have "c_timer c \<noteq> None" using ok by (cases "c_timer c") (auto simp: stream_ok_def)
    then show ?thesis using inv by (simp add: signal_inv_def)
  qed
  have ret: "c_timer c \<noteq> None \<or> (\<forall>j < c_regs c. k_eof (c_calls c j))" if "returned (c_calls c i)"
  proof -
    have "b_closed (k_buf (c_calls c i))" using that by (auto simp: returned_def split: call_phase.splits)
    from finished_ended(3) [OF _ flow_invariant [OF run] this] have "c_relay c = RelayDone"
      using cycle_invariant [OF run] by (simp add: cycle_inv_def)
    then have "c_timer c \<noteq> None \<or> c_wg c = 0" using inv by (auto simp: signal_inv_def)
    then show ?thesis using inv by (auto simp: signal_inv_def)
  qed
  from ok le cut ret show ?thesis by (auto simp: stream_ok_def)
qed

section \<open>One cycle at a time\<close>

definition service_inv :: "'s sync_service \<Rightarrow> bool" where
  "service_inv v \<longleftrightarrow>
    (\<forall>k. k + 1 < length (cycles v) \<or> startCycle v \<and> k < length (cycles v) \<longrightarrow> c_cleaned (cycles v ! k)) \<and>
    (\<not> startCycle v \<longrightarrow> cycles v \<noteq> []) \<and> (\<forall>k < length (cycles v). c_cleaned (cycles v ! k) \<longrightarrow> \<not> c_regOpen (cycles v ! k))"

lemma cleaned_stays: "cycle_step S c c' \<Longrightarrow> c_cleaned c \<Longrightarrow> c_cleaned c'"
  by (induction rule: cycle_step.induct) simp_all

lemma cleaned_closed: "cycle_step S c c' \<Longrightarrow> c_cleaned c \<longrightarrow> \<not> c_regOpen c \<Longrightarrow> c_cleaned c' \<longrightarrow> \<not> c_regOpen c'"
  by (induction rule: cycle_step.induct) auto

lemma service_inv_step: "service_step S v v' \<Longrightarrow> service_inv v \<Longrightarrow> service_inv v'"
proof (induction rule: service_step.induct)
  case (start v s)
  then show ?case by (auto simp: service_inv_def cycle_init_def nth_append less_Suc_eq)
next
  case (within k v c')
  then show ?case using cleaned_stays [OF within(2)] cleaned_closed [OF within(2)]
    by (auto simp: service_inv_def nth_list_update)
next
  case (returns v)
  then have "c_cleaned (cycles v ! k)" if "k < length (cycles v)" for k
    using that by (cases "k = length (cycles v) - 1") (auto simp: service_inv_def last_conv_nth)
  with returns show ?case by (auto simp: service_inv_def)
qed

text \<open>
  C22: Cycles do not overlap in their registration: in every reachable state at most one cycle takes
  registrations, it is the newest one, and none does when the token for the next cycle is available.
\<close>

theorem synchronizer_one_cycle:
  assumes run: "(service_step S)\<^sup>*\<^sup>* newSynchronizerService v" and k: "k < length (cycles v)" and op: "c_regOpen (cycles v ! k)"
  shows "k = length (cycles v) - 1 \<and> \<not> startCycle v"
proof -
  have inv: "service_inv v" using run
  proof (induction rule: rtranclp_induct)
    case base
    show ?case by (simp add: service_inv_def newSynchronizerService_def)
  qed (rule service_inv_step)
  then have "\<not> c_cleaned (cycles v ! k)" using k op by (auto simp: service_inv_def)
  with inv k have "\<not> k + 1 < length (cycles v)" "\<not> startCycle v" unfolding service_inv_def by blast+
  with k show ?thesis by linarith
qed

theorem synchronizer_one_cycle_witness:
  "\<exists>v. (service_step ref_store)\<^sup>*\<^sup>* newSynchronizerService v \<and> c_regOpen (cycles v ! 0) \<and> \<not> startCycle v"
proof -
  let ?v = "newSynchronizerService\<lparr>startCycle := False, cycles := cycles newSynchronizerService @ [cycle_init ref_init]\<rparr>"
  have "service_step ref_store newSynchronizerService ?v" by (rule service_step.start) (simp add: newSynchronizerService_def)
  then have r: "(service_step ref_store)\<^sup>*\<^sup>* newSynchronizerService ?v" by (rule r_into_rtranclp)
  have "0 < length (cycles ?v)" "c_regOpen (cycles ?v ! 0)" by (simp_all add: newSynchronizerService_def cycle_init_def)
  with synchronizer_one_cycle [OF r this] r show ?thesis by blast
qed

section \<open>Failures of the pending release\<close>

lemma pend_all_fail:
  assumes "\<And>ids s. \<exists>e s'. AddTicketsToPendingRelease S ids s = (Inl e, s')" and "successfulMatches n = 0"
  shows "fst (snd (addMatchesToPendingRelease S m bs n s)) = None \<longrightarrow> bs = [] \<and> lastErr n = None"
  using assms(2)
proof (induction bs arbitrary: n s)
  case (Cons mIDs bs)
  obtain e s1 where e: "AddTicketsToPendingRelease S (batch_tickets m mIDs) s = (Inl e, s1)" using assms(1) by blast
  let ?n = "n\<lparr>totalMatches := totalMatches n + length mIDs, lastErr := Some e\<rparr>"
  have b: "pend_batch S m mIDs n s = (False, ?n, s1)" using e by (simp add: pend_batch_def)
  from Cons.IH [of ?n s1] Cons.prems have "fst (snd (addMatchesToPendingRelease S m bs ?n s1)) \<noteq> None" by auto
  then show ?case by (auto simp: b split: prod.splits)
qed (auto simp: pend_cancel_def split: option.splits)


section \<open>Witnesses\<close>

text \<open>A run with one call that proposes one match, which the evaluator accepts; then everything ends.\<close>

definition w_match :: match where
  "w_match = empty_match\<lparr>m_MatchId := ''m'', m_Tickets := [ticket_a]\<rparr>"

lemma w_match_sel [simp]: "m_MatchId w_match = ''m''" "m_Tickets w_match = [ticket_a]" "t_Id ticket_a = ''a''"
  by (simp_all add: w_match_def empty_ticket_def)

definition w_started :: call where
  "w_started = new_call\<lparr>k_phase := Serving, k_sent := [StartMmfs]\<rparr>"

definition w_sending :: "'s \<Rightarrow> 's cycle" where
  "w_sending s = (cycle_init s)\<lparr>c_regs := 1, c_wg := 1, c_calls := (\<lambda>_. new_call)(0 := w_started), c_fan := FanSend3 w_match,
     c_m7cMap := [''m'' \<mapsto> 0], c_handed := [(w_match, 0)]\<rparr>"

definition w_delivered :: "'s \<Rightarrow> 's cycle" where
  "w_delivered s = (w_sending s)\<lparr>c_calls := (\<lambda>_. new_call)(0 := w_started\<lparr>k_sent := [StartMmfs, MatchId ''m'']\<rparr>),
     c_fan := FanSelect, c_tickets := [''m'' \<mapsto> [''a'']],
     c_eval := gclient_init\<lparr>g_ids := [''m'' \<mapsto> False], g_sent := [w_match], g_accepted := [''m'']\<rparr>,
     c_count := \<lparr>totalMatches = 1, successfulMatches = 1, lastErr = None\<rparr>,
     c_passed := [(''m'', Some 0)], c_pended := {''a''}\<rparr>"

definition w_ended :: "'s \<Rightarrow> 's cycle" where
  "w_ended s = (w_delivered s)\<lparr>c_regOpen := False, c_wg := 0, c_cutoff := True, c_relay := RelayDone, c_fan := FanReturned,
     c_m2nil := True, c_table := TableDone, c_mbuf := \<lparr>b_a = [], b_in = False, b_closed = True\<rparr>,
     c_eval := (c_eval (w_delivered s))\<lparr>g_sendDone := True, g_recvDone := True\<rparr>, c_m5closed := True,
     c_sbuf := \<lparr>b_a = [], b_in = False, b_closed = True\<rparr>, c_pend := PendDone,
     c_calls := (\<lambda>_. new_call)(0 := w_started\<lparr>k_eof := True, k_buf := \<lparr>b_a = [], b_in = False, b_closed = True\<rparr>,
       k_phase := Finished (Inr ()), k_sent := [StartMmfs, MatchId ''m'']\<rparr>)\<rparr>"

lemma serve': "i < c_regs c \<Longrightarrow> call_step (ctx_Err (c_ctx c)) e (c_calls c i) \<noteq> None \<Longrightarrow>
    cycle_step S c (set_call i (the (call_step (ctx_Err (c_ctx c)) e (c_calls c i))) c)"
  by (rule cycle_step.serve) auto

lemma pend': "c_pend c = PendWait \<Longrightarrow> b_a (c_sbuf c) \<noteq> [] \<Longrightarrow>
    AddTicketsToPendingRelease S (batch_tickets (c_tickets c) (b_a (c_sbuf c))) (c_db c) = (Inr (), s) \<Longrightarrow>
    cycle_step S c (c\<lparr>c_pend := PendSend (b_a (c_sbuf c)), c_sbuf := buf_take (c_sbuf c),
      c_count := (c_count c)\<lparr>totalMatches := totalMatches (c_count c) + length (b_a (c_sbuf c)),
        successfulMatches := successfulMatches (c_count c) + length (b_a (c_sbuf c))\<rparr>, c_db := s,
      c_pended := c_pended c \<union> set (batch_tickets (c_tickets c) (b_a (c_sbuf c)))\<rparr>)"
  using cycle_step.pend [of c S True] by (simp add: pend_batch_def)

lemmas then_step = converse_rtranclp_into_rtranclp [where r = "cycle_step S" for S]
lemmas run_simps = cycle_init_def new_call_def w_started_def set_call_def cancel_def call_defs new_buffer_def buf_put_def
  buf_take_def buf_end_def buf_close_def gclient_step_def gclient_init_def getTicketIds_def batch_tickets_def
  WithCancelCause_def ctx_Err_def pend_cancel_def

lemma sample_sending: "cycle_reachable S s (w_sending s)"
  apply (rule then_step [OF cycle_step.register]; simp add: run_simps)
  apply (rule then_step [OF serve' [of 0 _ "SendStart None"]]; simp add: run_simps)
  apply (rule then_step [OF cycle_step.propose [of 0 _ S w_match]]; simp add: run_simps)
  apply (rule then_step [OF cycle_step.fan_in [of _ w_match 0]]; simp add: run_simps w_sending_def)
  done

lemma sample_delivered:
  assumes "AddTicketsToPendingRelease S [''a''] s = (Inr (), s')"
  shows "(cycle_step S)\<^sup>*\<^sup>* (w_sending s) (w_delivered s')"
  apply (simp add: run_simps w_sending_def)
  apply (rule then_step [OF cycle_step.table_in [of _ w_match]]; simp add: run_simps)
  apply (rule then_step [OF cycle_step.table_out [of _ w_match]]; simp add: run_simps)
  apply (rule then_step [OF cycle_step.eval_batch]; simp add: run_simps)
  apply (rule then_step [OF cycle_step.eval_send [where ok = True]]; simp add: run_simps)
  apply (rule then_step [OF cycle_step.eval_accept [where j = "''m''"]]; simp add: run_simps)
  apply (rule then_step [OF cycle_step.sbuf_in [of _ "''m''"]]; simp add: run_simps)
  apply (rule then_step [OF pend' [where s = s']]; simp add: run_simps assms)
  apply (rule then_step [OF cycle_step.fan_out [of _ "''m''" "[]" 0]]; simp add: run_simps)
  apply (rule then_step [OF cycle_step.fan_sent [of _ 0 "''m''"]]; simp add: run_simps)
  apply (rule then_step [OF serve' [of 0 _ TakeBatch]]; simp add: run_simps)
  apply (rule then_step [OF serve' [of 0 _ "SendId None"]]; simp add: run_simps)
  apply (rule then_step [OF serve' [of 0 _ BatchSent]]; simp add: run_simps)
  apply (rule then_step [OF cycle_step.pend_sent]; simp add: run_simps w_delivered_def w_sending_def)
  done

lemma sample_end: "(cycle_step S)\<^sup>*\<^sup>* (w_delivered s) (w_ended s)"
  apply (simp add: run_simps w_sending_def w_delivered_def)
  apply (rule then_step [OF cycle_step.close_registration]; simp add: run_simps)
  apply (rule then_step [OF cycle_step.all_sent [of 0]]; simp add: run_simps)
  apply (rule then_step [OF cycle_step.cutoff_all_sent]; simp add: run_simps)
  apply (rule then_step [OF cycle_step.relay_stops]; simp add: run_simps)
  apply (rule then_step [OF cycle_step.fan_closes]; simp add: run_simps)
  apply (rule then_step [OF cycle_step.table_closes]; simp add: run_simps)
  apply (rule then_step [OF cycle_step.mbuf_closes]; simp add: run_simps)
  apply (rule then_step [OF cycle_step.eval_all_sent [where ok = True]]; simp add: run_simps)
  apply (rule then_step [OF cycle_step.eval_eof]; simp add: run_simps)
  apply (rule then_step [OF cycle_step.eval_ends]; simp add: run_simps)
  apply (rule then_step [OF cycle_step.sbuf_ends]; simp add: run_simps)
  apply (rule then_step [OF cycle_step.sbuf_closes]; simp add: run_simps)
  apply (rule then_step [OF cycle_step.pend_ends]; simp add: run_simps)
  apply (rule then_step [OF cycle_step.fan_returns]; simp add: run_simps)
  apply (rule then_step [OF cycle_step.m7_ends [of _ 0]]; simp add: run_simps)
  apply (rule then_step [OF cycle_step.m7_closes [of _ 0]]; simp add: run_simps)
  apply (rule then_step [OF serve' [of 0 _ BufferClosed]]; simp add: run_simps w_ended_def w_delivered_def w_sending_def)
  done

lemma ref_add: "\<exists>s'. AddTicketsToPendingRelease ref_store [''a''] ref_init = (Inr (), s')"
  by (rule meetsE [OF statestore.add_pending [OF ref_ok.backend_contract [OF ref_store_def], of "[''a'']"] ref_init_wf(1)]) auto

lemma sample_run: "\<exists>s'. cycle_reachable ref_store ref_init (w_ended s')"
proof -
  obtain s' where "AddTicketsToPendingRelease ref_store [''a''] ref_init = (Inr (), s')" using ref_add by blast
  from rtranclp_trans [OF sample_sending rtranclp_trans [OF sample_delivered [OF this] sample_end]] show ?thesis by blast
qed

lemma w_ended_sel [simp]:
  "c_handed (w_ended s) = [(w_match, 0)]" "lastErr (c_count (w_ended s)) = None" "g_accepted (c_eval (w_ended s)) = [''m'']"
  "k_phase (c_calls (w_ended s) 0) = Finished (Inr ())" "k_sent (c_calls (w_ended s) 0) = [StartMmfs, MatchId ''m'']"
  "returned (c_calls (w_ended s) 0)" "c_timer (w_ended s) = None" "c_regs (w_ended s) = 1"
  by (simp_all add: w_ended_def w_delivered_def w_sending_def run_simps returned_def)

theorem synchronizer_returns_witness:
  "\<exists>c. cycle_reachable ref_store ref_init c \<and> delivered (k_sent (c_calls c 0)) = [''m''] \<and> ''a'' \<in> c_pended c"
proof -
  obtain s' where run: "cycle_reachable ref_store ref_init (w_ended s')" using sample_run by blast
  from synchronizer_returns [OF run, of "''m''" 0] have "''a'' \<in> c_pended (w_ended s')" by (auto simp: delivered_def)
  with run show ?thesis by (intro exI [of _ "w_ended s'"] conjI) (simp_all add: delivered_def)
qed

theorem synchronizer_complete_witness:
  "\<exists>c. cycle_reachable ref_store ref_init c \<and> k_phase (c_calls c 0) = Finished (Inr ()) \<and> g_err (c_eval c) = None \<and>
     delivered (k_sent (c_calls c 0)) = [''m'']"
proof -
  obtain s' where run: "cycle_reachable ref_store ref_init (w_ended s')" using sample_run by blast
  from synchronizer_complete [OF run, of 0] run show ?thesis
    by (intro exI [of _ "w_ended s'"] conjI) (simp_all add: delivered_def)
qed

theorem synchronize_stream_witness:
  "\<exists>c. cycle_reachable ref_store ref_init c \<and> returned (c_calls c 0) \<and> k_eof (c_calls c 0)"
proof -
  obtain s' where run: "cycle_reachable ref_store ref_init (w_ended s')" using sample_run by blast
  from synchronize_stream [OF run, of 0] run show ?thesis by (intro exI [of _ "w_ended s'"] conjI) simp_all
qed

theorem synchronizer_no_block_witness:
  "\<exists>c c'. cycle_reachable ref_store ref_init c \<and> c_fan c = FanSend3 w_match \<and> (cycle_step ref_store)\<^sup>*\<^sup>* c c' \<and> c_fan c' = FanSelect"
proof -
  have "c_fan (w_sending ref_init) = FanSend3 w_match" by (simp add: w_sending_def)
  moreover from this synchronizer_no_block [OF sample_sending [of ref_store ref_init], of w_match] obtain c'
    where "(cycle_step ref_store)\<^sup>*\<^sup>* (w_sending ref_init) c'" "c_fan c' = FanSelect" by auto
  ultimately show ?thesis using sample_sending by (intro exI [of _ "w_sending ref_init"] exI [of _ c'] conjI) simp_all
qed


end
