(* ===== verification/Evaluator_Service.thy ===== *)
theory Evaluator_Service
  imports Default_Evaluator
begin

text \<open>
  The harness of an evaluator (\<open>internal/app/evaluator/evaluator_service.go\<close>) and the default evaluator
  behind it. The evaluator is a function that reads a channel of matches and writes a channel of ids in
  any order it likes: a process that asks for the next match (\<open>None\<close> when the channel is closed), emits
  an id, or returns. It may run forever, so processes are coinductive.
\<close>

section \<open>Evaluators as processes\<close>

codatatype process = Await "match option \<Rightarrow> process" | Emit string process | Return "go_error option"

primrec emitting :: "string list \<Rightarrow> process" where
  "emitting [] = Return None"
| "emitting (i # is) = Emit i (emitting is)"

text \<open>The default evaluator: it reads until the channel is closed, then sends what it accepts.\<close>

primcorec collecting :: "(match list \<Rightarrow> string list) \<Rightarrow> match list \<Rightarrow> process" where
  "collecting ev ms = Await (\<lambda>m. case m of Some m \<Rightarrow> collecting ev (ms @ [m]) | None \<Rightarrow> emitting (ev ms))"

text \<open>
  What a process may have done: the matches it got, whether it has seen the end, the ids it emitted,
  and what it will do next.
\<close>

inductive process_run :: "process \<Rightarrow> match list \<Rightarrow> bool \<Rightarrow> string list \<Rightarrow> process \<Rightarrow> bool" for P where
  run_start: "process_run P [] False [] P"
| run_match: "process_run P got False out (Await k) \<Longrightarrow> process_run P (got @ [m]) False out (k (Some m))"
| run_end: "process_run P got e out (Await k) \<Longrightarrow> process_run P got True out (k None)"
| run_emit: "process_run P got e out (Emit i p) \<Longrightarrow> process_run P got e (out @ [i]) p"

lemma collecting_Await:
  "collecting ev got = Await k \<longleftrightarrow> k = (\<lambda>m. case m of Some m \<Rightarrow> collecting ev (got @ [m]) | None \<Rightarrow> emitting (ev got))"
  "collecting ev got \<noteq> Emit i p" "collecting ev got \<noteq> Return r"
  by (subst collecting.code; auto)+

lemma collecting_run:
  "process_run (collecting ev []) got e out p \<Longrightarrow>
   (if e then \<exists>rest. ev got = out @ rest \<and> p = emitting rest else out = [] \<and> p = collecting ev got)"
proof (induction rule: process_run.induct)
  case (run_match got out k m)
  then have "out = []" "collecting ev got = Await k" by simp_all
  then show ?case by (simp add: collecting_Await)
next
  case (run_end got e out k)
  show ?case
  proof (cases e)
    case True
    with run_end obtain rest where "Await k = emitting rest" by auto
    then show ?thesis by (cases rest) auto
  next
    case False
    with run_end have "out = []" "collecting ev got = Await k" by auto
    then show ?thesis by (simp add: collecting_Await)
  qed
next
  case (run_emit got e out i p)
  show ?case
  proof (cases e)
    case True
    with run_emit obtain rest where "ev got = out @ rest" "Emit i p = emitting rest" by auto
    then show ?thesis using True by (cases rest) auto
  next
    case False
    with run_emit have "collecting ev got = Emit i p" by simp
    then show ?thesis by (simp add: collecting_Await)
  qed
qed simp

section \<open>The harness\<close>

text \<open>
  The three goroutines of \<open>Evaluate\<close>: one receives requests and offers them on \<open>in\<close>; one runs the
  evaluator; one sends what comes out of \<open>out\<close>, and drains it after a failed send. \<open>in\<close> is closed when the
  first is done, \<open>out\<close> when the evaluator has returned. \<open>v_err\<close> is the first error of the group, \<open>v_ctx\<close> the
  error of its context.
\<close>

datatype recv_phase = Receiving | Offering match | Received
datatype send_phase = Listening | SendingOut string | Draining go_error | AllSent

record harness =
  v_recv :: recv_phase
  v_process :: process
  v_send :: send_phase
  v_returned :: bool
  v_err :: "go_error option"
  v_ctx :: "go_error option"
  v_seen :: bool
  v_got :: "match list"
  v_emitted :: "string list"
  v_sent :: "string list"

definition harness_init :: "process \<Rightarrow> harness" where
  "harness_init P = \<lparr>v_recv = Receiving, v_process = P, v_send = Listening, v_returned = False, v_err = None,
     v_ctx = None, v_seen = False, v_got = [], v_emitted = [], v_sent = []\<rparr>"

text \<open>A goroutine of an error group returns: the first error is kept and cancels the context.\<close>

definition group_done :: "go_error option \<Rightarrow> harness \<Rightarrow> harness" where
  "group_done r v =
    (case r of None \<Rightarrow> v
     | Some e \<Rightarrow> v\<lparr>v_err := (case v_err v of None \<Rightarrow> Some e | Some e' \<Rightarrow> Some e'),
                   v_ctx := (case v_ctx v of None \<Rightarrow> Some (CtxErr 0) | Some e' \<Rightarrow> Some e')\<rparr>)"

text \<open>What the stream does in a step of the harness.\<close>

datatype stream_action = Internal | RecvMatch match | RecvEOF | RecvErr go_error | SendResp string | SendFail go_error

inductive harness_step :: "harness \<Rightarrow> stream_action \<Rightarrow> harness \<Rightarrow> bool" where
  recv: "v_recv v = Receiving \<Longrightarrow> harness_step v (RecvMatch m) (v\<lparr>v_recv := Offering m\<rparr>)"
| recv_eof: "v_recv v = Receiving \<Longrightarrow> harness_step v RecvEOF (v\<lparr>v_recv := Received\<rparr>)"
| recv_err: "v_recv v = Receiving \<Longrightarrow> harness_step v (RecvErr e) ((group_done (Some e) v)\<lparr>v_recv := Received\<rparr>)"
| hand_over: "v_recv v = Offering m \<Longrightarrow> v_process v = Await k \<Longrightarrow>
    harness_step v Internal (v\<lparr>v_recv := Receiving, v_process := k (Some m), v_got := v_got v @ [m]\<rparr>)"
| give_up: "v_recv v = Offering m \<Longrightarrow> v_ctx v = Some e \<Longrightarrow>
    harness_step v Internal ((group_done (Some e) v)\<lparr>v_recv := Received\<rparr>)"
| in_closed: "v_recv v = Received \<Longrightarrow> v_process v = Await k \<Longrightarrow>
    harness_step v Internal (v\<lparr>v_process := k None, v_seen := True\<rparr>)"
| emit: "v_process v = Emit i p \<Longrightarrow> v_send v = Listening \<Longrightarrow>
    harness_step v Internal (v\<lparr>v_process := p, v_send := SendingOut i, v_emitted := v_emitted v @ [i]\<rparr>)"
| emit_drained: "v_process v = Emit i p \<Longrightarrow> v_send v = Draining e \<Longrightarrow>
    harness_step v Internal (v\<lparr>v_process := p, v_emitted := v_emitted v @ [i]\<rparr>)"
| returns: "v_process v = Return r \<Longrightarrow> \<not> v_returned v \<Longrightarrow> harness_step v Internal ((group_done r v)\<lparr>v_returned := True\<rparr>)"
| send: "v_send v = SendingOut i \<Longrightarrow> harness_step v (SendResp i) (v\<lparr>v_send := Listening, v_sent := v_sent v @ [i]\<rparr>)"
| send_err: "v_send v = SendingOut i \<Longrightarrow> harness_step v (SendFail e) (v\<lparr>v_send := Draining e\<rparr>)"
| out_closed: "v_send v = Listening \<Longrightarrow> v_returned v \<Longrightarrow> harness_step v Internal (v\<lparr>v_send := AllSent\<rparr>)"
| drained: "v_send v = Draining e \<Longrightarrow> v_returned v \<Longrightarrow> harness_step v Internal ((group_done (Some e) v)\<lparr>v_send := AllSent\<rparr>)"
| ctx_done: "v_ctx v = None \<Longrightarrow> harness_step v Internal (v\<lparr>v_ctx := Some e\<rparr>)"

text \<open>\<open>g.Wait\<close> returns when the three goroutines have; \<open>errors.Wrap\<close> keeps a missing error.\<close>

definition evaluate_result :: "harness \<Rightarrow> unit res option" where
  "evaluate_result v =
    (if v_recv v = Received \<and> v_returned v \<and> v_send v = AllSent
     then Some (case v_err v of None \<Rightarrow> Inr () | Some e \<Rightarrow> Inl (Wrapped e)) else None)"

text \<open>A run of the harness: the matches the stream delivered and whether it came to its end.\<close>

inductive harness_run :: "process \<Rightarrow> match list \<Rightarrow> bool \<Rightarrow> harness \<Rightarrow> bool" for P where
  harness_start: "harness_run P [] False (harness_init P)"
| harness_next: "harness_run P ms e v \<Longrightarrow> harness_step v a v' \<Longrightarrow>
    harness_run P (case a of RecvMatch m \<Rightarrow> ms @ [m] | _ \<Rightarrow> ms) (e \<or> a = RecvEOF) v'"

section \<open>Correctness\<close>

fun held_match :: "recv_phase \<Rightarrow> match list" where
  "held_match (Offering m) = [m]"
| "held_match _ = []"

fun held_id :: "send_phase \<Rightarrow> string list" where
  "held_id (SendingOut i) = [i]"
| "held_id _ = []"

fun is_draining :: "send_phase \<Rightarrow> bool" where
  "is_draining (Draining _) = True"
| "is_draining _ = False"

text \<open>
  The evaluator has got what the stream delivered, up to the match being offered, and as long as no
  error is on its way everything it emitted was sent or is being sent.
\<close>

definition input_inv :: "match list \<Rightarrow> bool \<Rightarrow> harness \<Rightarrow> bool" where
  "input_inv ms e v \<longleftrightarrow> (v_seen v \<longrightarrow> v_recv v = Received) \<and> (v_err v = None \<and> v_recv v = Received \<longrightarrow> e) \<and>
     prefix (v_got v @ held_match (v_recv v)) ms \<and> (v_err v = None \<or> v_recv v \<noteq> Received \<longrightarrow> ms = v_got v @ held_match (v_recv v))"

definition process_inv :: "process \<Rightarrow> harness \<Rightarrow> bool" where
  "process_inv P v \<longleftrightarrow> process_run P (v_got v) (v_seen v) (v_emitted v) (v_process v) \<and>
     (v_returned v \<longrightarrow> (\<exists>r. v_process v = Return r \<and> (v_err v = None \<longrightarrow> r = None)))"

definition output_inv :: "harness \<Rightarrow> bool" where
  "output_inv v \<longleftrightarrow> prefix (v_sent v @ held_id (v_send v)) (v_emitted v) \<and> (v_send v = AllSent \<longrightarrow> v_returned v) \<and>
     (\<not> is_draining (v_send v) \<and> (v_send v \<noteq> AllSent \<or> v_err v = None) \<longrightarrow> v_emitted v = v_sent v @ held_id (v_send v))"

definition harness_inv :: "process \<Rightarrow> match list \<Rightarrow> bool \<Rightarrow> harness \<Rightarrow> bool" where
  "harness_inv P ms e v \<longleftrightarrow> input_inv ms e v \<and> process_inv P v \<and> output_inv v"

lemma group_done_sel [simp]:
  "v_recv (group_done r v) = v_recv v" "v_process (group_done r v) = v_process v" "v_send (group_done r v) = v_send v"
  "v_returned (group_done r v) = v_returned v" "v_seen (group_done r v) = v_seen v" "v_got (group_done r v) = v_got v"
  "v_emitted (group_done r v) = v_emitted v" "v_sent (group_done r v) = v_sent v"
  "v_err (group_done r v) = None \<longleftrightarrow> v_err v = None \<and> r = None"
  by (simp_all add: group_done_def split: option.splits)

lemma input_inv_step:
  "harness_step v a v' \<Longrightarrow> input_inv ms e v \<Longrightarrow> input_inv (case a of RecvMatch m \<Rightarrow> ms @ [m] | _ \<Rightarrow> ms) (e \<or> a = RecvEOF) v'"
  by (induction rule: harness_step.induct) (auto simp: input_inv_def dest: append_prefixD)

lemma process_inv_step: "harness_step v a v' \<Longrightarrow> input_inv ms e v \<Longrightarrow> process_inv P v \<Longrightarrow> process_inv P v'"
proof (induction rule: harness_step.induct)
  case (hand_over v m k)
  then have "\<not> v_seen v" by (auto simp: input_inv_def)
  with hand_over show ?case by (auto simp: process_inv_def intro: run_match)
qed (auto simp: process_inv_def intro: run_end run_emit)

lemma output_inv_step: "harness_step v a v' \<Longrightarrow> process_inv P v \<Longrightarrow> output_inv v \<Longrightarrow> output_inv v'"
  by (induction rule: harness_step.induct) (auto simp: output_inv_def process_inv_def dest: append_prefixD)

lemma harness_inv_step:
  "harness_step v a v' \<Longrightarrow> harness_inv P ms e v \<Longrightarrow>
   harness_inv P (case a of RecvMatch m \<Rightarrow> ms @ [m] | _ \<Rightarrow> ms) (e \<or> a = RecvEOF) v'"
  unfolding harness_inv_def by (blast intro: input_inv_step process_inv_step output_inv_step)

lemma harness_invariant: "harness_run P ms e v \<Longrightarrow> harness_inv P ms e v"
proof (induction rule: harness_run.induct)
  case harness_start
  show ?case by (simp add: harness_inv_def input_inv_def process_inv_def output_inv_def harness_init_def run_start)
qed (rule harness_inv_step)

lemma evaluator_service_nil:
  assumes run: "harness_run P ms e v" and nil: "evaluate_result v = Some (Inr ())"
  shows "\<exists>seen. process_run P ms seen (v_sent v) (Return None)" and "e"
proof -
  note inv = harness_invariant [OF run, unfolded harness_inv_def input_inv_def process_inv_def output_inv_def]
  have v: "v_recv v = Received" "v_returned v" "v_send v = AllSent" "v_err v = None"
    using nil by (auto simp: evaluate_result_def split: if_splits option.splits)
  then have r: "v_got v = ms" "v_emitted v = v_sent v" "v_process v = Return None" using inv by auto
  from inv have "process_run P (v_got v) (v_seen v) (v_emitted v) (v_process v)" by blast
  then show "\<exists>seen. process_run P ms seen (v_sent v) (Return None)" unfolding r by (rule exI)
  show e using inv v by blast
qed

text \<open>
  C26: The harness passes everything through. In every interleaving, for any evaluator, the ids sent are a
  prefix of those the evaluator emitted; and if the call ends without an error, the evaluator was given
  exactly the matches of the stream, which came to its end, it returned without an error, and all its ids
  were sent.
\<close>

theorem evaluator_service_correct:
  assumes run: "harness_run P ms e v"
  shows "prefix (v_sent v) (v_emitted v) \<and>
    (evaluate_result v = Some (Inr ()) \<longrightarrow> (\<exists>seen. process_run P ms seen (v_sent v) (Return None)) \<and> e)"
proof -
  have "prefix (v_sent v @ held_id (v_send v)) (v_emitted v)"
    using harness_invariant [OF run] by (simp add: harness_inv_def output_inv_def)
  then have "prefix (v_sent v) (v_emitted v)" by (rule append_prefixD)
  with evaluator_service_nil [OF run] show ?thesis by blast
qed

section \<open>The default evaluator behind the harness\<close>

definition default_evaluator ::
  "((match_inp \<Rightarrow> match_inp \<Rightarrow> bool) \<Rightarrow> match_inp list \<Rightarrow> match_inp list) \<Rightarrow> (any_msg \<Rightarrow> f64 option) \<Rightarrow> process" where
  "default_evaluator srt unmarshal = collecting (evaluate srt unmarshal) []"

text \<open>What is sent is, at any time, a prefix of what the evaluator accepts of a prefix of the stream.\<close>

lemma default_sent:
  assumes "harness_run (default_evaluator srt unmarshal) ms e v"
  shows "\<exists>rs. prefix rs ms \<and> prefix (v_sent v) (evaluate srt unmarshal rs)"
proof -
  note inv = harness_invariant [OF assms, unfolded harness_inv_def]
  then have "process_run (default_evaluator srt unmarshal) (v_got v) (v_seen v) (v_emitted v) (v_process v)"
    by (simp add: process_inv_def)
  from collecting_run [OF this [unfolded default_evaluator_def]]
  have "prefix (v_emitted v) (evaluate srt unmarshal (v_got v))" by (auto split: if_splits)
  moreover have "prefix (v_sent v) (v_emitted v)" using inv unfolding output_inv_def by (blast dest: append_prefixD)
  moreover have "prefix (v_got v) ms" using inv unfolding input_inv_def by (blast dest: append_prefixD)
  ultimately show ?thesis by (blast intro: prefix_order.order_trans)
qed

lemma default_evaluator_sends:
  assumes run: "harness_run (default_evaluator srt unmarshal) ms e v" and nil: "evaluate_result v = Some (Inr ())"
  shows "v_sent v = evaluate srt unmarshal ms \<and> e"
proof -
  from evaluator_service_nil [OF run nil] obtain seen
    where r: "process_run (default_evaluator srt unmarshal) ms seen (v_sent v) (Return None)" and e by blast
  from collecting_run [OF r [unfolded default_evaluator_def]] have "v_sent v = evaluate srt unmarshal ms"
  proof (cases seen)
    case True
    with collecting_run [OF r [unfolded default_evaluator_def]] obtain rest
      where "evaluate srt unmarshal ms = v_sent v @ rest" "Return None = emitting rest" by auto
    then show ?thesis by (cases rest) auto
  next
    case False
    with collecting_run [OF r [unfolded default_evaluator_def]] have "collecting (evaluate srt unmarshal) ms = Return None" by simp
    then show ?thesis by (simp add: collecting_Await)
  qed
  with \<open>e\<close> show ?thesis by simp
qed

section \<open>The call comes to its end\<close>

text \<open>Steps that need nothing from the other side but that it takes what is sent.\<close>

definition quiet :: "harness \<Rightarrow> harness \<Rightarrow> bool" where
  "quiet v v' \<longleftrightarrow> (\<exists>a. harness_step v a v' \<and> (a = Internal \<or> (\<exists>i. a = SendResp i)))"

definition finishes :: "harness \<Rightarrow> bool" where
  "finishes v \<longleftrightarrow> (\<exists>v'. quiet\<^sup>*\<^sup>* v v' \<and> evaluate_result v' \<noteq> None)"

lemma finishes_step: "harness_step v a v' \<Longrightarrow> a = Internal \<or> (\<exists>i. a = SendResp i) \<Longrightarrow> finishes v' \<Longrightarrow> finishes v"
  unfolding finishes_def quiet_def by (blast intro: converse_rtranclp_into_rtranclp)

lemma finishes_refl: "evaluate_result v \<noteq> None \<Longrightarrow> finishes v"
  unfolding finishes_def by blast

lemma returned_finishes:
  assumes "v_recv v = Received" and "v_returned v"
  shows "finishes v"
proof -
  have ended: "finishes w" if "v_recv w = Received" "v_returned w" "v_send w = AllSent" for w
    by (rule finishes_refl) (use that in \<open>simp add: evaluate_result_def\<close>)
  have listening: "finishes w" if "v_recv w = Received" "v_returned w" "v_send w = Listening" for w
    by (rule finishes_step [OF out_closed [OF that(3,2)]]) (use that ended in simp_all)
  show ?thesis
  proof (cases "v_send v")
    case (SendingOut i)
    show ?thesis by (rule finishes_step [OF send [OF SendingOut]]) (use assms listening in simp_all)
  next
    case (Draining e)
    show ?thesis by (rule finishes_step [OF drained [OF Draining assms(2)]]) (use assms ended in simp_all)
  qed (use assms listening ended in blast)+
qed

lemma emitting_finishes:
  assumes "v_recv v = Received" and "v_process v = emitting is" and "v_send v = AllSent \<longrightarrow> v_returned v"
  shows "finishes v"
  using assms
proof (induction "is" arbitrary: v)
  case Nil
  show ?case
  proof (cases "v_returned v")
    case False
    from Nil(2) have "v_process v = Return None" by simp
    from finishes_step [OF returns [OF this False]] show ?thesis using Nil(1) returned_finishes by simp
  qed (use Nil returned_finishes in blast)
next
  case (Cons i "is")
  show ?case
  proof (cases "v_returned v")
    case False
    have emits: "finishes v" if "v_send v = Listening" "v_process v = emitting (i # is)" "v_recv v = Received" for v
    proof (rule finishes_step [OF emit])
      show "v_process v = Emit i (emitting is)" using that by simp
    qed (use that Cons.IH in auto)
    show ?thesis
    proof (cases "v_send v")
      case (SendingOut j)
      show ?thesis by (rule finishes_step [OF send [OF SendingOut]]) (use emits Cons.prems in auto)
    next
      case (Draining e)
      have "v_process v = Emit i (emitting is)" using Cons.prems by simp
      from finishes_step [OF emit_drained [OF this Draining]] show ?thesis using Cons.IH Cons.prems Draining by simp
    qed (use emits Cons.prems False in auto)
  qed (use Cons returned_finishes in blast)
qed

text \<open>
  C27: The default evaluator's call does not hang. Once the stream has been received, or has failed, steps
  of the harness and sends alone lead to the end of the call. An evaluator that returns without reading
  its input does hang the call: while a match is offered and the context is not done, the receiving
  goroutine stays where it is.
\<close>

theorem evaluator_service_ends:
  assumes "harness_run P ms e v"
  shows "(P = default_evaluator srt unmarshal \<and> v_recv v = Received \<longrightarrow> finishes v) \<and>
    (P = Return None \<and> v_recv v = Offering m \<and> harness_step v a v' \<and> v_ctx v' = None \<longrightarrow> v_recv v' = Offering m)"
proof (intro conjI impI; elim conjE)
  note inv = harness_invariant [OF assms, unfolded harness_inv_def]
  assume P: "P = default_evaluator srt unmarshal" and recv: "v_recv v = Received"
  have run: "process_run (collecting (evaluate srt unmarshal) []) (v_got v) (v_seen v) (v_emitted v) (v_process v)"
    using inv by (simp add: process_inv_def P default_evaluator_def)
  have out: "v_send v = AllSent \<longrightarrow> v_returned v" using inv by (simp add: output_inv_def)
  show "finishes v"
  proof (cases "v_seen v")
    case True
    with collecting_run [OF run] obtain rest where "v_process v = emitting rest" by auto
    from emitting_finishes [OF recv this out] show ?thesis .
  next
    case False
    with collecting_run [OF run] have "v_process v = collecting (evaluate srt unmarshal) (v_got v)" by simp
    then obtain k where k: "v_process v = Await k" "k None = emitting (evaluate srt unmarshal (v_got v))"
      by (subst (asm) collecting.code) auto
    show ?thesis by (rule finishes_step [OF in_closed [OF recv k(1)]]) (use emitting_finishes recv k(2) out in auto)
  qed
next
  note inv = harness_invariant [OF assms, unfolded harness_inv_def]
  assume P: "P = Return None" and offer: "v_recv v = Offering m" and step: "harness_step v a v'" and ctx: "v_ctx v' = None"
  have "process_run (Return None) (v_got v) (v_seen v) (v_emitted v) (v_process v)" using inv P by (simp add: process_inv_def)
  then have "v_process v = Return None" by (induction rule: process_run.induct) simp_all
  with step offer ctx show "v_recv v' = Offering m"
    by (auto elim!: harness_step.cases simp: group_done_def split: option.splits)
qed

section \<open>Witnesses\<close>

text \<open>A stream with one match, which the default evaluator accepts.\<close>

definition one_match :: match where
  "one_match = empty_match\<lparr>m_MatchId := ''m''\<rparr>"

abbreviation w_process :: process where
  "w_process \<equiv> default_evaluator insertion_sort sample_unmarshal"

definition w_sent :: harness where
  "w_sent = (harness_init w_process)\<lparr>v_recv := Received, v_process := Return None, v_send := AllSent, v_returned := True,
     v_seen := True, v_got := [one_match], v_emitted := [''m''], v_sent := [''m'']\<rparr>"

lemma evaluate_one: "evaluate insertion_sort sample_unmarshal [one_match] = [''m'']"
  by (simp add: evaluate_greedy accepted_def sample_defs one_match_def empty_match_def)

lemma harness_internal: "harness_run P ms e v \<Longrightarrow> harness_step v Internal v' \<Longrightarrow> harness_run P ms e v'"
  using harness_next [of P ms e v Internal v'] by simp

lemma w_run: "harness_run w_process [one_match] True w_sent"
proof -
  let ?ev = "evaluate insertion_sort sample_unmarshal"
  let ?v0 = "harness_init w_process"
  obtain k where k: "w_process = Await k" "k (Some one_match) = collecting ?ev [one_match]"
    by (rule that [OF collecting.code [of ?ev "[]", folded default_evaluator_def]]) simp
  obtain k' where k': "collecting ?ev [one_match] = Await k'" "k' None = emitting [''m'']"
    by (rule that [OF collecting.code]) (simp add: evaluate_one)
  note s = harness_init_def group_done_def
  have "harness_run w_process [one_match] False (?v0\<lparr>v_recv := Offering one_match\<rparr>)"
    using harness_next [OF harness_start recv [of ?v0 one_match]] by (simp add: s)
  from harness_internal [OF this hand_over [of _ one_match k]] k
  have "harness_run w_process [one_match] False (?v0\<lparr>v_process := Await k', v_got := [one_match]\<rparr>)" by (simp add: s k'(1))
  from harness_next [OF this recv_eof]
  have "harness_run w_process [one_match] True (?v0\<lparr>v_recv := Received, v_process := Await k', v_got := [one_match]\<rparr>)" by (simp add: s)
  from harness_internal [OF this in_closed [of _ k']] k'
  have "harness_run w_process [one_match] True (?v0\<lparr>v_recv := Received, v_process := Emit ''m'' (Return None), v_got := [one_match],
      v_seen := True\<rparr>)" by (simp add: s)
  from harness_internal [OF this emit [of _ "''m''" "Return None"]]
  have "harness_run w_process [one_match] True (?v0\<lparr>v_recv := Received, v_process := Return None, v_got := [one_match],
      v_seen := True, v_send := SendingOut ''m'', v_emitted := [''m'']\<rparr>)" by (simp add: s)
  from harness_next [OF this send [of _ "''m''"]]
  have "harness_run w_process [one_match] True (?v0\<lparr>v_recv := Received, v_process := Return None, v_got := [one_match],
      v_seen := True, v_sent := [''m''], v_emitted := [''m'']\<rparr>)" by (simp add: s)
  from harness_internal [OF this returns [of _ None]]
  have "harness_run w_process [one_match] True (?v0\<lparr>v_recv := Received, v_process := Return None, v_got := [one_match],
      v_seen := True, v_sent := [''m''], v_emitted := [''m''], v_returned := True\<rparr>)" by (simp add: s)
  from harness_internal [OF this out_closed] show ?thesis by (simp add: s w_sent_def)
qed

lemma w_sent_sel [simp]: "v_sent w_sent = [''m'']" "v_recv w_sent = Received" "evaluate_result w_sent = Some (Inr ())"
  by (simp_all add: w_sent_def harness_init_def evaluate_result_def)

theorem evaluator_service_correct_witness:
  "\<exists>seen. process_run w_process [one_match] seen [''m''] (Return None)"
  using evaluator_service_correct [OF w_run] by simp

theorem evaluator_service_ends_witness:
  "finishes w_sent"
  using evaluator_service_ends [OF w_run, of insertion_sort sample_unmarshal] by simp

end
