(* ===== verification/Evaluation.thy ===== *)
theory Evaluation
  imports Evaluator_Client Evaluator_Service
begin

text \<open>
  The synchronizer's gRPC client (\<open>Evaluator_Client\<close>) in conversation with an evaluator's harness
  (\<open>Evaluator_Service\<close>). The stream between them delivers requests and responses in order; it may break at any
  time, and then the two sides see errors, while what is on its way may never arrive.
\<close>

record conversation =
  e_client :: gclient
  e_up :: "match list"
  e_upClosed :: bool
  e_down :: "string list"
  e_server :: harness
  e_delivered :: "match list"
  e_end :: bool

definition conversation_init :: "process \<Rightarrow> conversation" where
  "conversation_init P = \<lparr>e_client = gclient_init, e_up = [], e_upClosed = False, e_down = [], e_server = harness_init P,
     e_delivered = [], e_end = False\<rparr>"

text \<open>A step of the client, with what it puts on the stream, or a step of the harness.\<close>

definition newly_sent :: "gclient \<Rightarrow> gclient \<Rightarrow> match list" where
  "newly_sent g g' = drop (length (g_sent g)) (g_sent g')"

inductive conversation_step :: "conversation \<Rightarrow> conversation \<Rightarrow> bool" where
  client_batch: "conversation_step w (w\<lparr>e_client := gclient_step (Batch ms) (e_client w)\<rparr>)"
| client_send: "g = gclient_step (SendNext ok) (e_client w) \<Longrightarrow>
    conversation_step w (w\<lparr>e_client := g, e_up := e_up w @ newly_sent (e_client w) g\<rparr>)"
| client_close: "conversation_step w (w\<lparr>e_client := gclient_step (ProposalsClosed ok) (e_client w),
      e_upClosed := (e_upClosed w \<or> ok \<and> \<not> g_sendDone (e_client w) \<and> g_queue (e_client w) = [])\<rparr>)"
| client_response: "e_down w = j # js \<Longrightarrow> \<not> g_recvDone (e_client w) \<Longrightarrow>
    conversation_step w (w\<lparr>e_client := gclient_step (Response j) (e_client w), e_down := js\<rparr>)"
| client_eof: "e_down w = [] \<Longrightarrow> evaluate_result (e_server w) = Some (Inr ()) \<Longrightarrow>
    conversation_step w (w\<lparr>e_client := gclient_step ResponseEOF (e_client w)\<rparr>)"
| client_err: "conversation_step w (w\<lparr>e_client := gclient_step (ResponseErr e) (e_client w)\<rparr>)"
| client_fails: "e_client w = gclient_init \<Longrightarrow>
    conversation_step w (w\<lparr>e_client := g_fail e ((e_client w)\<lparr>g_sendDone := True, g_recvDone := True\<rparr>)\<rparr>)"
| server_recv: "e_up w = m # ms \<Longrightarrow> harness_step (e_server w) (RecvMatch m) v \<Longrightarrow>
    conversation_step w (w\<lparr>e_up := ms, e_server := v, e_delivered := e_delivered w @ [m]\<rparr>)"
| server_eof: "e_up w = [] \<Longrightarrow> e_upClosed w \<Longrightarrow> harness_step (e_server w) RecvEOF v \<Longrightarrow>
    conversation_step w (w\<lparr>e_server := v, e_end := True\<rparr>)"
| server_send: "harness_step (e_server w) (SendResp i) v \<Longrightarrow>
    conversation_step w (w\<lparr>e_server := v, e_down := e_down w @ [i]\<rparr>)"
| server_step: "harness_step (e_server w) a v \<Longrightarrow> a = Internal \<or> (\<exists>e. a = RecvErr e \<or> a = SendFail e) \<Longrightarrow>
    conversation_step w (w\<lparr>e_server := v\<rparr>)"

abbreviation conversation_reachable :: "process \<Rightarrow> conversation \<Rightarrow> bool" where
  "conversation_reachable P \<equiv> conversation_step\<^sup>*\<^sup>* (conversation_init P)"

section \<open>Invariant\<close>

text \<open>The harness has what the client sent, in order, and the client has what the harness sent.\<close>

definition conversation_inv :: "process \<Rightarrow> conversation \<Rightarrow> bool" where
  "conversation_inv P w \<longleftrightarrow> harness_run P (e_delivered w) (e_end w) (e_server w) \<and>
     e_delivered w @ e_up w = g_sent (e_client w) \<and> prefix (g_accepted (e_client w)) (v_sent (e_server w)) \<and>
     (\<not> g_recvDone (e_client w) \<longrightarrow> g_accepted (e_client w) @ e_down w = v_sent (e_server w))"

lemma client_sent:
  "\<exists>new. g_sent (gclient_step (SendNext ok) g) = g_sent g @ new"
  "g_sent (gclient_step (Batch ms) g) = g_sent g" "g_sent (gclient_step (ProposalsClosed ok) g) = g_sent g"
  "g_sent (gclient_step (Response j) g) = g_sent g" "g_sent (gclient_step ResponseEOF g) = g_sent g"
  "g_sent (gclient_step (ResponseErr e) g) = g_sent g"
  by (auto simp: gclient_step_def g_fail_def Let_def split: list.splits option.splits bool.splits)

lemma client_recv:
  "g_accepted (gclient_step (SendNext ok) g) = g_accepted g" "g_recvDone (gclient_step (SendNext ok) g) = g_recvDone g"
  "g_accepted (gclient_step (Batch ms) g) = g_accepted g" "g_recvDone (gclient_step (Batch ms) g) = g_recvDone g"
  "g_accepted (gclient_step (ProposalsClosed ok) g) = g_accepted g" "g_recvDone (gclient_step (ProposalsClosed ok) g) = g_recvDone g"
  "g_accepted (gclient_step ResponseEOF g) = g_accepted g" "g_recvDone (gclient_step ResponseEOF g)"
  "g_accepted (gclient_step (ResponseErr e) g) = g_accepted g" "g_recvDone (gclient_step (ResponseErr e) g)"
  by (auto simp: gclient_step_def g_fail_def Let_def split: list.splits option.splits bool.splits)

lemma client_response_cases:
  assumes "\<not> g_recvDone g"
  obtains "g_accepted (gclient_step (Response j) g) = g_accepted g @ [j]"
  | "g_accepted (gclient_step (Response j) g) = g_accepted g" "g_recvDone (gclient_step (Response j) g)"
proof (cases "g_ids g j = Some True")
  case True
  with assms show ?thesis by (intro that(1)) (simp add: gclient_step_def)
next
  case False
  with assms show ?thesis by (intro that(2)) (auto simp: gclient_step_def g_fail_def split: option.splits bool.splits)
qed

lemma harness_sent:
  "harness_step v a v' \<Longrightarrow> v_sent v' = (case a of SendResp i \<Rightarrow> v_sent v @ [i] | _ \<Rightarrow> v_sent v)"
  by (induction rule: harness_step.induct) simp_all

lemma conversation_inv_step: "conversation_step w w' \<Longrightarrow> conversation_inv P w \<Longrightarrow> conversation_inv P w'"
proof (induction rule: conversation_step.induct)
  case (client_send g ok w)
  then show ?case using client_sent(1) [of ok "e_client w"] by (auto simp: conversation_inv_def client_recv newly_sent_def)
next
  case (client_response w j js)
  have sent: "v_sent (e_server w) = g_accepted (e_client w) @ j # js" using client_response by (simp add: conversation_inv_def)
  then have "prefix (g_accepted (e_client w) @ [j]) (v_sent (e_server w))" by simp
  with client_response sent show ?case
    by (cases rule: client_response_cases [OF client_response(2), of j]) (auto simp: conversation_inv_def client_sent)
next
  case (server_recv w m ms v)
  then show ?case using harness_next [of P _ _ "e_server w" "RecvMatch m" v] harness_sent [OF server_recv(2)]
    by (auto simp: conversation_inv_def)
next
  case (server_eof w v)
  then show ?case using harness_next [of P _ _ "e_server w" RecvEOF v] harness_sent [OF server_eof(3)]
    by (auto simp: conversation_inv_def)
next
  case (server_send w i v)
  then show ?case using harness_next [of P _ _ "e_server w" "SendResp i" v] harness_sent [OF server_send(1)]
    by (auto simp: conversation_inv_def)
next
  case (server_step w a v)
  then show ?case using harness_next [of P _ _ "e_server w" a v] harness_sent [OF server_step(1)]
    by (auto simp: conversation_inv_def)
next
  case (client_fails w e)
  then show ?case by (auto simp: conversation_inv_def g_fail_def gclient_init_def)
qed (auto simp: conversation_inv_def client_sent client_recv)

lemma conversation_invariant: "conversation_reachable P w \<Longrightarrow> conversation_inv P w"
proof (induction rule: rtranclp_induct)
  case base
  show ?case by (simp add: conversation_inv_def conversation_init_def gclient_init_def harness_start) (simp add: harness_init_def)
qed (rule conversation_inv_step)

text \<open>The end: the client ends without an error only after the harness did, and that only after the end of the requests.\<close>

definition end_inv :: "conversation \<Rightarrow> bool" where
  "end_inv w \<longleftrightarrow> (e_upClosed w \<longrightarrow> g_sendDone (e_client w)) \<and> (e_end w \<longrightarrow> e_up w = [] \<and> e_upClosed w) \<and>
     (g_recvDone (e_client w) \<and> g_err (e_client w) = None \<longrightarrow>
        g_accepted (e_client w) = v_sent (e_server w) \<and> evaluate_result (e_server w) = Some (Inr ()))"

lemma client_err_sticky: "g_err g = Some e \<Longrightarrow> g_err (gclient_step ev g) \<noteq> None"
  by (cases ev) (auto simp: gclient_step_def g_fail_def Let_def split: list.splits option.splits bool.splits)

lemma client_done_stays:
  "g_sendDone g \<Longrightarrow> g_sendDone (gclient_step ev g)" "g_sendDone g \<Longrightarrow> gclient_step (SendNext ok) g = g"
  "\<not> g_sendDone g \<Longrightarrow> g_queue g = [] \<Longrightarrow> g_sendDone (gclient_step (ProposalsClosed ok) g)"
  "g_recvDone (gclient_step (Response j) g) \<Longrightarrow> \<not> g_recvDone g \<Longrightarrow> g_err (gclient_step (Response j) g) \<noteq> None"
  "g_recvDone g \<Longrightarrow> gclient_step ResponseEOF g = g"
  "g_recvDone g \<Longrightarrow> gclient_step (ResponseErr e) g = g" "\<not> g_recvDone g \<Longrightarrow> g_err (gclient_step (ResponseErr e) g) \<noteq> None"
  by (cases ev; auto simp: gclient_step_def g_fail_def Let_def split: list.splits option.splits bool.splits)+

lemma harness_nil_stays:
  assumes "harness_step v a v'" and "harness_run P ms e v" and "evaluate_result v = Some (Inr ())"
  shows "evaluate_result v' = Some (Inr ()) \<and> v_sent v' = v_sent v"
proof -
  have v: "v_recv v = Received" "v_returned v" "v_send v = AllSent" "v_err v = None"
    using assms(3) by (auto simp: evaluate_result_def split: if_splits option.splits)
  have "\<exists>r. v_process v = Return r" using harness_invariant [OF assms(2)] v by (auto simp: harness_inv_def process_inv_def)
  with assms(1,3) v show ?thesis by (cases rule: harness_step.cases) (auto simp: evaluate_result_def)
qed

lemma end_inv_step:
  "conversation_step w w' \<Longrightarrow> conversation_inv P w \<Longrightarrow> end_inv w \<Longrightarrow> end_inv w'"
proof (induction rule: conversation_step.induct)
  case (client_send g ok w)
  have "g_err g \<noteq> None" if "g_err (e_client w) \<noteq> None" using that client_err_sticky client_send(1) by auto
  moreover have "g = e_client w" if "g_sendDone (e_client w)" using that client_done_stays(2) client_send(1) by simp
  ultimately show ?case using client_send client_recv(1,2) [of ok "e_client w"] client_done_stays(1) [of "e_client w" "SendNext ok"]
    by (cases "g_sendDone (e_client w)") (auto simp: end_inv_def newly_sent_def)
next
  case (server_recv w m ms v)
  from harness_nil_stays [OF server_recv(2)] server_recv show ?case by (auto simp: end_inv_def conversation_inv_def)
next
  case (server_eof w v)
  from harness_nil_stays [OF server_eof(3)] server_eof show ?case by (auto simp: end_inv_def conversation_inv_def)
next
  case (server_send w i v)
  from harness_nil_stays [OF server_send(1)] server_send show ?case by (auto simp: end_inv_def conversation_inv_def)
next
  case (server_step w a v)
  from harness_nil_stays [OF server_step(1)] server_step show ?case by (auto simp: end_inv_def conversation_inv_def)
next
  case (client_response w j js)
  then show ?case using client_done_stays(1) [of "e_client w" "Response j"] client_done_stays(4) [of j "e_client w"]
    by (auto simp: end_inv_def)
next
  case (client_eof w)
  then show ?case using client_done_stays(1) [of "e_client w" ResponseEOF]
    by (cases "g_recvDone (e_client w)") (auto simp: end_inv_def client_done_stays(5) conversation_inv_def client_recv)
next
  case (client_err w e)
  then show ?case using client_done_stays(1) [of "e_client w" "ResponseErr e"] client_done_stays(7) [of "e_client w" e]
    by (cases "g_recvDone (e_client w)") (auto simp: end_inv_def client_done_stays(6))
next
  case (client_close w ok)
  have "g_err (e_client w) = None" if "g_err (gclient_step (ProposalsClosed ok) (e_client w)) = None"
    using that client_err_sticky by (cases "g_err (e_client w)") auto
  with client_close show ?case using client_done_stays(1,3) [of "e_client w"]
    by (auto simp: end_inv_def client_recv)
next
  case (client_batch w ms)
  have "g_err (e_client w) = None" if "g_err (gclient_step (Batch ms) (e_client w)) = None"
    using that client_err_sticky by (cases "g_err (e_client w)") auto
  with client_batch show ?case using client_done_stays(1) [of "e_client w" "Batch ms"] by (auto simp: end_inv_def client_recv)
next
  case (client_fails w e)
  then show ?case by (auto simp: end_inv_def g_fail_def gclient_init_def)
qed

lemma end_invariant: "conversation_reachable P w \<Longrightarrow> end_inv w"
proof (induction rule: rtranclp_induct)
  case base
  show ?case by (simp add: end_inv_def conversation_init_def gclient_init_def)
next
  case (step w w')
  from end_inv_step [OF step(2) conversation_invariant [OF step(1)] step(3)] show ?case .
qed

section \<open>The default evaluator\<close>

lemma default_accepted:
  assumes "conversation_reachable (default_evaluator srt unmarshal) w"
  shows "\<exists>rs. prefix rs (g_sent (e_client w)) \<and> prefix (g_accepted (e_client w)) (evaluate srt unmarshal rs)"
proof -
  note inv = conversation_invariant [OF assms, unfolded conversation_inv_def]
  from default_sent [OF inv [THEN conjunct1]] obtain rs
    where "prefix rs (e_delivered w)" "prefix (v_sent (e_server w)) (evaluate srt unmarshal rs)" by blast
  moreover have "prefix (e_delivered w) (g_sent (e_client w))" using inv by (metis prefixI)
  ultimately show ?thesis using inv by (blast intro: prefix_order.order_trans)
qed

text \<open>
  C25: Client, stream and default evaluator together. If the client's call of the default evaluator ends
  without an error, then in every interleaving of all their goroutines it has accepted exactly the ids
  that \<open>evaluate\<close> accepts of the matches it sent; and at any time before, whether errors occur or not, what
  it has accepted is a prefix of what \<open>evaluate\<close> accepts of some first part of these matches.
\<close>

theorem default_evaluation:
  assumes run: "conversation_reachable (default_evaluator srt unmarshal) w"
  shows "(\<exists>rs. prefix rs (g_sent (e_client w)) \<and> prefix (g_accepted (e_client w)) (evaluate srt unmarshal rs)) \<and>
    (g_recvDone (e_client w) \<and> g_err (e_client w) = None \<longrightarrow>
      g_sendDone (e_client w) \<and> g_accepted (e_client w) = evaluate srt unmarshal (g_sent (e_client w)))"
proof (intro conjI impI default_accepted [OF run]; elim conjE)
  note inv = conversation_invariant [OF run, unfolded conversation_inv_def] and ends = end_invariant [OF run, unfolded end_inv_def]
  assume "g_recvDone (e_client w)" "g_err (e_client w) = None"
  then have acc: "g_accepted (e_client w) = v_sent (e_server w)" and nil: "evaluate_result (e_server w) = Some (Inr ())"
    using ends by auto
  have run': "harness_run (default_evaluator srt unmarshal) (e_delivered w) (e_end w) (e_server w)" using inv by blast
  from default_evaluator_sends [OF this nil] have "e_end w" and sent: "v_sent (e_server w) = evaluate srt unmarshal (e_delivered w)"
    by auto
  then have "e_up w = []" and sd: "g_sendDone (e_client w)" using ends by auto
  with inv have "e_delivered w = g_sent (e_client w)" by auto
  with acc sent show "g_accepted (e_client w) = evaluate srt unmarshal (g_sent (e_client w))" by simp
  from sd show "g_sendDone (e_client w)" .
qed

section \<open>Witness\<close>

definition w_conversation :: conversation where
  "w_conversation = \<lparr>
     e_client = gclient_init\<lparr>g_ids := [''m'' \<mapsto> False], g_sent := [one_match], g_accepted := [''m''], g_sendDone := True, g_recvDone := True\<rparr>,
     e_up = [], e_upClosed = True, e_down = [], e_server = w_sent, e_delivered = [one_match], e_end = True\<rparr>"

lemmas conversation_then = converse_rtranclp_into_rtranclp [where r = conversation_step]
lemmas talk_simps = conversation_init_def harness_init_def gclient_init_def gclient_step_def newly_sent_def group_done_def
  evaluate_result_def

lemma one_match_id [simp]: "m_MatchId one_match = ''m''"
  by (simp add: one_match_def)

lemma w_conversation_run: "conversation_reachable w_process w_conversation"
proof -
  let ?ev = "evaluate insertion_sort sample_unmarshal"
  obtain k where k: "w_process = Await k" "k (Some one_match) = collecting ?ev [one_match]"
    by (rule that [OF collecting.code [of ?ev "[]", folded default_evaluator_def]]) simp
  obtain k' where k': "collecting ?ev [one_match] = Await k'" "k' None = emitting [''m'']"
    by (rule that [OF collecting.code]) (simp add: evaluate_one)
  note s = talk_simps k k'
  show ?thesis
    apply (rule conversation_then [OF client_batch [of _ "[one_match]"]], simp add: s)
    apply (rule conversation_then [OF client_send [of _ True]]; simp add: s)
    apply (rule conversation_then [OF client_close [of _ True]], simp add: s)
    apply (rule conversation_then [OF server_recv [OF _ harness_step.recv [of _ one_match]]]; simp add: s)
    apply (rule conversation_then [OF server_step [OF hand_over [of _ one_match k]]]; simp add: s)
    apply (rule conversation_then [OF server_eof [OF _ _ recv_eof]]; simp add: s)
    apply (rule conversation_then [OF server_step [OF in_closed [of _ k']]]; simp add: s)
    apply (rule conversation_then [OF server_step [OF emit [of _ "''m''" "Return None"]]]; simp add: s)
    apply (rule conversation_then [OF server_send [OF harness_step.send [of _ "''m''"]]]; simp add: s)
    apply (rule conversation_then [OF client_response [of _ "''m''" "[]"]]; simp add: s)
    apply (rule conversation_then [OF server_step [OF harness_step.returns [of _ None]]]; simp add: s)
    apply (rule conversation_then [OF server_step [OF out_closed]]; simp add: s)
    apply (rule conversation_then [OF client_eof]; simp add: s w_conversation_def w_sent_def)
    done
qed

theorem default_evaluation_witness:
  "\<exists>w. conversation_reachable w_process w \<and> g_sent (e_client w) = [one_match] \<and>
     g_accepted (e_client w) = evaluate insertion_sort sample_unmarshal [one_match]"
proof -
  have "g_recvDone (e_client w_conversation) \<and> g_err (e_client w_conversation) = None" "g_sent (e_client w_conversation) = [one_match]"
    by (simp_all add: w_conversation_def gclient_init_def)
  with default_evaluation [OF w_conversation_run] w_conversation_run show ?thesis by auto
qed

end
