(* ===== verification/Redis_Pool.thy ===== *)
theory Redis_Pool
  imports Rpc_Clients
begin

text \<open>
  The connections of the state store (\<open>internal/statestore/redis.go\<close>): the addresses and URLs made from the
  configuration, the pools, and what a dial of each pool does, with and without a Redis sentinel. The
  client library is a parameter: \<open>DialURL\<close>, the query of a sentinel for the address of a master, and
  \<open>PoolGet\<close>, the connection that a pool hands out, which is \<open>None\<close> while the caller waits for one.
\<close>

section \<open>Addresses\<close>

definition getSentinelAddr :: "config_view \<Rightarrow> string" where
  "getSentinelAddr cfg = GetString cfg ''redis.sentinelHostname'' @ '':'' @ GetString cfg ''redis.sentinelPort''"

definition getMasterAddr :: "config_view \<Rightarrow> string" where
  "getMasterAddr cfg = GetString cfg ''redis.hostname'' @ '':'' @ GetString cfg ''redis.port''"

definition string_of_bytes :: "bytes \<Rightarrow> string" where
  "string_of_bytes = map (\<lambda>b. char_of (unat b))"

text \<open>\<open>redisURLFromAddr\<close>: a password that cannot be read ends the process, which is \<open>None\<close>.\<close>

definition redisURLFromAddr :: "sys \<Rightarrow> string \<Rightarrow> config_view \<Rightarrow> bool \<Rightarrow> string option" where
  "redisURLFromAddr os addr cfg usePassword =
    (let redisURL = ''redis://'' in
     if usePassword then
       (case ReadFile os (GetString cfg ''redis.passwordPath'') of
          Inl e \<Rightarrow> None
        | Inr passwordData \<Rightarrow> Some (redisURL @ GetString cfg ''redis.user'' @ '':'' @ string_of_bytes passwordData @ ''@'' @ addr))
     else Some (redisURL @ addr))"

section \<open>Pools\<close>

record pool_opts =
  MaxIdle :: int
  MaxActive :: int
  IdleTimeout :: int
  PoolWait :: bool

record 'w redis_lib =
  DialURL :: "string \<Rightarrow> int \<Rightarrow> 'w \<Rightarrow> nat res \<times> 'w"
  SentinelMaster :: "nat \<Rightarrow> string \<Rightarrow> 'w \<Rightarrow> string list res \<times> 'w"
  PoolGet :: "pool_opts \<Rightarrow> 'w \<Rightarrow> (nat res \<times> 'w) option"

text \<open>
  A pool: its options and its \<open>DialContext\<close>. The first argument of a dial is the error of the context, if it is
  done. The outcomes of a dial: it waits for a connection of the sentinel pool (until its context is done), it ends the
  process, or it returns.
\<close>

datatype 'w dial_outcome = Waits | Exits | Returns "nat res" 'w

record 'w redis_pool =
  pool_options :: pool_opts
  DialContext :: "go_error option \<Rightarrow> 'w \<Rightarrow> 'w dial_outcome"

definition dial_url :: "'w redis_lib \<Rightarrow> string \<Rightarrow> int \<Rightarrow> go_error option \<Rightarrow> 'w \<Rightarrow> 'w dial_outcome" where
  "dial_url lib url timeout ctxErr w =
    (case ctxErr of Some e \<Rightarrow> Returns (Inl e) w | None \<Rightarrow> (case DialURL lib url timeout w of (r, w') \<Rightarrow> Returns r w'))"

text \<open>\<open>testOnBorrow\<close>: \<open>idle\<close> is the time since the last use, \<open>ping\<close> the outcome of a \<open>PING\<close>.\<close>

definition testOnBorrow :: "int \<Rightarrow> go_error option \<Rightarrow> go_error option" where
  "testOnBorrow idle ping = (if idle < 15 * Second then None else ping)"

definition getHealthCheckPool :: "sys \<Rightarrow> 'w redis_lib \<Rightarrow> config_view \<Rightarrow> 'w redis_pool option" where
  "getHealthCheckPool os lib cfg =
    (let healthCheckTimeout = GetDuration cfg ''redis.pool.healthCheckTimeout'';
         healthCheckURL = (if IsSet cfg ''redis.sentinelHostname''
           then redisURLFromAddr os (getSentinelAddr cfg) cfg (GetBool cfg ''redis.sentinelUsePassword'')
           else redisURLFromAddr os (getMasterAddr cfg) cfg (GetBool cfg ''redis.usePassword''))
     in case healthCheckURL of
          None \<Rightarrow> None
        | Some url \<Rightarrow> Some \<lparr>pool_options = \<lparr>MaxIdle = 3, MaxActive = 0, IdleTimeout = 10 * healthCheckTimeout, PoolWait = True\<rparr>,
            DialContext = dial_url lib url healthCheckTimeout\<rparr>)"

definition configured_opts :: "config_view \<Rightarrow> pool_opts" where
  "configured_opts cfg = \<lparr>MaxIdle = GetInt cfg ''redis.pool.maxIdle'', MaxActive = GetInt cfg ''redis.pool.maxActive'',
     IdleTimeout = GetDuration cfg ''redis.pool.idleTimeout'', PoolWait = True\<rparr>"

definition getSentinelPool :: "sys \<Rightarrow> 'w redis_lib \<Rightarrow> config_view \<Rightarrow> 'w redis_pool option" where
  "getSentinelPool os lib cfg =
    (case redisURLFromAddr os (getSentinelAddr cfg) cfg (GetBool cfg ''redis.sentinelUsePassword'') of
       None \<Rightarrow> None
     | Some sentinelURL \<Rightarrow> Some \<lparr>pool_options = configured_opts cfg,
         DialContext = dial_url lib sentinelURL (GetDuration cfg ''redis.pool.idleTimeout'')\<rparr>)"

text \<open>
  The dial through a sentinel: take a connection of the sentinel pool, ask for the master, connect to it. The
  connection to the sentinel is not closed. \<open>masterInfo\<close> is indexed without a check.
\<close>

definition sentinel_dial :: "sys \<Rightarrow> 'w redis_lib \<Rightarrow> config_view \<Rightarrow> 'w redis_pool \<Rightarrow> go_error option \<Rightarrow> 'w \<Rightarrow> 'w dial_outcome" where
  "sentinel_dial os lib cfg sentinelPool ctxErr w =
    (case ctxErr of
       Some e \<Rightarrow> Returns (Inl e) w
     | None \<Rightarrow>
         (case PoolGet lib (pool_options sentinelPool) w of
            None \<Rightarrow> Waits
          | Some (Inl e, w1) \<Rightarrow> Returns (Inl (Status Unavailable)) w1
          | Some (Inr sentinelConn, w1) \<Rightarrow>
              (case SentinelMaster lib sentinelConn (GetString cfg ''redis.sentinelMaster'') w1 of
                 (Inl e, w2) \<Rightarrow> Returns (Inl (Status Unavailable)) w2
               | (Inr masterInfo, w2) \<Rightarrow>
                   if length masterInfo < 2 then Returns (Inl Panic) w2
                   else (case redisURLFromAddr os (masterInfo ! 0 @ '':'' @ masterInfo ! 1) cfg (GetBool cfg ''redis.usePassword'') of
                           None \<Rightarrow> Exits
                         | Some masterURL \<Rightarrow> dial_url lib masterURL (GetDuration cfg ''redis.pool.idleTimeout'') None w2))))"

definition GetRedisPool :: "sys \<Rightarrow> 'w redis_lib \<Rightarrow> config_view \<Rightarrow> 'w redis_pool option" where
  "GetRedisPool os lib cfg =
    (if IsSet cfg ''redis.sentinelHostname'' then
       (case getSentinelPool os lib cfg of
          None \<Rightarrow> None
        | Some sentinelPool \<Rightarrow> Some \<lparr>pool_options = configured_opts cfg, DialContext = sentinel_dial os lib cfg sentinelPool\<rparr>)
     else
       (case redisURLFromAddr os (getMasterAddr cfg) cfg (GetBool cfg ''redis.usePassword'') of
          None \<Rightarrow> None
        | Some masterURL \<Rightarrow> Some \<lparr>pool_options = configured_opts cfg,
            DialContext = dial_url lib masterURL (GetDuration cfg ''redis.pool.idleTimeout'')\<rparr>))"

text \<open>\<open>newRedis\<close>: the pool of the store and that of the health check.\<close>

definition newRedis :: "sys \<Rightarrow> 'w redis_lib \<Rightarrow> config_view \<Rightarrow> ('w redis_pool \<times> 'w redis_pool) option" where
  "newRedis os lib cfg =
    (case GetRedisPool os lib cfg of
       None \<Rightarrow> None
     | Some pool \<Rightarrow> (case getHealthCheckPool os lib cfg of None \<Rightarrow> None | Some healthCheckPool \<Rightarrow> Some (pool, healthCheckPool)))"

section \<open>Properties\<close>

text \<open>
  What the documentation of the pool promises: a connection handed out counts as in use until it is closed,
  and with \<open>Wait\<close> a pool at its limit hands out none. \<open>in_use\<close> observes the sentinel pool; dialling a master and
  asking a sentinel do not change it.
\<close>

definition pool_contract :: "('w \<Rightarrow> nat) \<Rightarrow> 'w redis_lib \<Rightarrow> pool_opts \<Rightarrow> bool" where
  "pool_contract in_use lib opts \<longleftrightarrow>
    (\<forall>w c w'. PoolGet lib opts w = Some (Inr c, w') \<longrightarrow> in_use w' = in_use w + 1) \<and>
    (\<forall>w e w'. PoolGet lib opts w = Some (Inl e, w') \<longrightarrow> in_use w' = in_use w) \<and>
    (\<forall>w. PoolWait opts \<and> 0 < MaxActive opts \<and> MaxActive opts \<le> int (in_use w) \<longrightarrow> PoolGet lib opts w = None) \<and>
    (\<forall>url t w. in_use (snd (DialURL lib url t w)) = in_use w) \<and>
    (\<forall>c name w. in_use (snd (SentinelMaster lib c name w)) = in_use w)"

text \<open>Dials one after the other, with the connections they return; \<open>None\<close> when one does not return.\<close>

fun dials :: "('w \<Rightarrow> 'w dial_outcome) \<Rightarrow> nat \<Rightarrow> 'w \<Rightarrow> (nat list \<times> 'w) option" where
  "dials dial 0 w = Some ([], w)"
| "dials dial (Suc n) w =
    (case dial w of
       Returns r w' \<Rightarrow> (case dials dial n w' of
           None \<Rightarrow> None
         | Some (cs, w'') \<Rightarrow> Some (case r of Inl _ \<Rightarrow> cs | Inr c \<Rightarrow> c # cs, w''))
     | _ \<Rightarrow> None)"

lemma pool_contractD:
  assumes "pool_contract in_use lib opts"
  shows "PoolGet lib opts w = Some (Inr c, w') \<Longrightarrow> in_use w' = in_use w + 1"
    and "PoolGet lib opts w = Some (Inl e, w') \<Longrightarrow> in_use w' = in_use w"
    and "PoolWait opts \<Longrightarrow> 0 < MaxActive opts \<Longrightarrow> MaxActive opts \<le> int (in_use w) \<Longrightarrow> PoolGet lib opts w = None"
    and "DialURL lib url t w = (r, w') \<Longrightarrow> in_use w' = in_use w"
    and "SentinelMaster lib c name w = (i, w') \<Longrightarrow> in_use w' = in_use w"
  using assms unfolding pool_contract_def by (blast, blast, blast, metis snd_conv, metis snd_conv)

lemma dial_url_in_use:
  assumes "pool_contract in_use lib opts" and "dial_url lib url t ctxErr w = Returns r w'"
  shows "in_use w' = in_use w"
proof (cases ctxErr)
  case None
  then have "DialURL lib url t w = (r, w')" using assms(2) by (simp add: dial_url_def split: prod.splits)
  then show ?thesis by (rule pool_contractD(4) [OF assms(1)])
qed (use assms(2) in \<open>simp add: dial_url_def\<close>)

abbreviation full :: "pool_opts \<Rightarrow> nat \<Rightarrow> bool" where
  "full opts n \<equiv> PoolWait opts \<and> 0 < MaxActive opts \<and> MaxActive opts \<le> int n"

text \<open>A dial through the sentinel that returns a connection has taken one of the sentinel pool for good.\<close>

lemma sentinel_dial_in_use:
  assumes c: "pool_contract in_use lib (pool_options p)" and d: "sentinel_dial os lib cfg p None w = Returns r w'"
  shows "in_use w \<le> in_use w' \<and> (\<forall>k. r = Inr k \<longrightarrow> in_use w' = in_use w + 1 \<and> \<not> full (pool_options p) (in_use w))"
proof -
  obtain g w1 where g: "PoolGet lib (pool_options p) w = Some (g, w1)" using d by (auto simp: sentinel_dial_def split: option.splits)
  show ?thesis
  proof (cases g)
    case (Inl e)
    then show ?thesis using d g pool_contractD(2) [OF c, of w e w1] by (auto simp: sentinel_dial_def)
  next
    case (Inr k)
    obtain i w2 where i: "SentinelMaster lib k (GetString cfg ''redis.sentinelMaster'') w1 = (i, w2)" by (metis surj_pair)
    have 1: "in_use w1 = in_use w + 1" using pool_contractD(1) [OF c] g Inr by blast
    have 2: "\<not> full (pool_options p) (in_use w)" using pool_contractD(3) [OF c, of w] g by auto
    have "in_use w' = in_use w2"
    proof (cases "\<exists>url. dial_url lib url (GetDuration cfg ''redis.pool.idleTimeout'') None w2 = Returns r w'")
      case True
      then show ?thesis using dial_url_in_use [OF c] by blast
    next
      case False
      then show ?thesis using d g i Inr by (simp add: sentinel_dial_def split: sum.splits if_splits option.splits)
    qed
    with 1 2 pool_contractD(5) [OF c i] show ?thesis by simp
  qed
qed

lemma sentinel_dials_bound:
  assumes c: "pool_contract in_use lib (pool_options p)" and lim: "PoolWait (pool_options p)" "0 < MaxActive (pool_options p)"
  shows "dials (sentinel_dial os lib cfg p None) n w = Some (cs, w') \<Longrightarrow>
    cs = [] \<or> int (in_use w + length cs) \<le> MaxActive (pool_options p)"
proof (induction n arbitrary: w cs)
  case (Suc n)
  then obtain r w1 cs1 where d: "sentinel_dial os lib cfg p None w = Returns r w1" and
    rest: "dials (sentinel_dial os lib cfg p None) n w1 = Some (cs1, w')" "cs = (case r of Inl _ \<Rightarrow> cs1 | Inr c \<Rightarrow> c # cs1)"
    by (auto split: dial_outcome.splits option.splits)
  from Suc.IH [OF rest(1)] sentinel_dial_in_use [OF c d] rest(2) lim show ?case by (cases r) auto
qed simp

text \<open>
  C36: The connections of the store. Without a sentinel every dial connects to the configured address, with the
  credentials exactly if a password is to be used. With a sentinel every dial connects to the master that the
  sentinel names at that time; but since the connections to the sentinel are never closed, no more dials
  succeed than \<open>redis.pool.maxActive\<close>, if it is positive, and the next one waits. A dial with a context that is
  done fails and does nothing.
\<close>

theorem redis_pool_dials:
  assumes pool: "GetRedisPool os lib cfg = Some p" and contract: "pool_contract in_use lib (configured_opts cfg)"
  shows "pool_options p = configured_opts cfg \<and> DialContext p (Some e) w = Returns (Inl e) w \<and>
    (if IsSet cfg ''redis.sentinelHostname'' then
      (\<forall>conn w1 host port w2 url. PoolGet lib (configured_opts cfg) w = Some (Inr conn, w1) \<and>
         SentinelMaster lib conn (GetString cfg ''redis.sentinelMaster'') w1 = (Inr [host, port], w2) \<and>
         redisURLFromAddr os (host @ '':'' @ port) cfg (GetBool cfg ''redis.usePassword'') = Some url \<longrightarrow>
         DialContext p None w = (case DialURL lib url (GetDuration cfg ''redis.pool.idleTimeout'') w2 of (r, w') \<Rightarrow> Returns r w')) \<and>
      (\<forall>n cs w'. 0 < GetInt cfg ''redis.pool.maxActive'' \<and> in_use w = 0 \<and> dials (DialContext p None) n w = Some (cs, w') \<longrightarrow>
         int (length cs) \<le> GetInt cfg ''redis.pool.maxActive'') \<and>
      (0 < GetInt cfg ''redis.pool.maxActive'' \<and> GetInt cfg ''redis.pool.maxActive'' \<le> int (in_use w) \<longrightarrow> DialContext p None w = Waits)
    else
      (\<exists>url. redisURLFromAddr os (getMasterAddr cfg) cfg (GetBool cfg ''redis.usePassword'') = Some url \<and>
         DialContext p None w = (case DialURL lib url (GetDuration cfg ''redis.pool.idleTimeout'') w of (r, w') \<Rightarrow> Returns r w')))"
proof (cases "IsSet cfg ''redis.sentinelHostname''")
  case False
  then show ?thesis using pool by (auto simp: GetRedisPool_def dial_url_def split: option.splits)
next
  case True
  then obtain sp where sp0: "getSentinelPool os lib cfg = Some sp"
    "p = \<lparr>pool_options = configured_opts cfg, DialContext = sentinel_dial os lib cfg sp\<rparr>"
    using pool by (auto simp: GetRedisPool_def split: option.splits)
  then have sp: "pool_options sp = configured_opts cfg" "p = \<lparr>pool_options = configured_opts cfg, DialContext = sentinel_dial os lib cfg sp\<rparr>"
    by (auto simp: getSentinelPool_def split: option.splits)
  have opts: "PoolWait (configured_opts cfg)" "MaxActive (configured_opts cfg) = GetInt cfg ''redis.pool.maxActive''"
    by (simp_all add: configured_opts_def)
  have "int (length cs) \<le> GetInt cfg ''redis.pool.maxActive''"
    if "0 < GetInt cfg ''redis.pool.maxActive''" "in_use w = 0" "dials (DialContext p None) n w = Some (cs, w')" for n cs w'
    using sentinel_dials_bound [of in_use lib sp os cfg n w cs w'] contract that by (auto simp: sp opts)
  moreover have "DialContext p None w = Waits"
    if "0 < GetInt cfg ''redis.pool.maxActive''" "GetInt cfg ''redis.pool.maxActive'' \<le> int (in_use w)"
  proof -
    have "PoolGet lib (configured_opts cfg) w = None" using pool_contractD(3) [OF contract] that opts by simp
    then show ?thesis by (simp add: sp sentinel_dial_def)
  qed
  ultimately show ?thesis using True by (auto simp: sp sentinel_dial_def dial_url_def)
qed

text \<open>A sentinel that names one master, and a pool of one connection: the first dial succeeds, the second waits.\<close>

definition sentinel_cfg :: config_view where
  "sentinel_cfg = \<lparr>IsSet = (\<lambda>_. True), GetString = (\<lambda>_. ''x''), GetInt = (\<lambda>_. 1), GetInt64 = (\<lambda>_. 0), GetFloat64 = (\<lambda>_. Fin 0),
     GetStringSlice = (\<lambda>_. []), GetBool = (\<lambda>_. False), GetDuration = (\<lambda>_. 0)\<rparr>"

definition counting_lib :: "nat redis_lib" where
  "counting_lib = \<lparr>DialURL = (\<lambda>url t w. (Inr 7, w)), SentinelMaster = (\<lambda>c name w. (Inr [''h'', ''6379''], w)),
     PoolGet = (\<lambda>opts w. if full opts w then None else Some (Inr w, w + 1))\<rparr>"

lemma counting_contract: "pool_contract id counting_lib opts"
  by (auto simp: pool_contract_def counting_lib_def split: if_splits)

theorem redis_pool_dials_witness:
  "\<exists>p. GetRedisPool sample_sys counting_lib sentinel_cfg = Some p \<and> DialContext p None 0 = Returns (Inr 7) 1 \<and> DialContext p None 1 = Waits"
proof -
  obtain p where p: "GetRedisPool sample_sys counting_lib sentinel_cfg = Some p"
    by (simp add: GetRedisPool_def getSentinelPool_def redisURLFromAddr_def sentinel_cfg_def)
  note dials = redis_pool_dials [OF p counting_contract]
  have s: "IsSet sentinel_cfg k" "GetInt sentinel_cfg k = 1" "GetBool sentinel_cfg k = False" for k by (simp_all add: sentinel_cfg_def)
  have get: "PoolGet counting_lib (configured_opts sentinel_cfg) 0 = Some (Inr 0, 1)"
    by (simp add: counting_lib_def configured_opts_def s)
  have "DialContext p None 0 = Returns (Inr 7) 1"
    using dials [where w = 0] get by (simp add: s redisURLFromAddr_def) (simp add: counting_lib_def)
  moreover have "DialContext p None 1 = Waits" using dials [where w = 1] by (simp add: s)
  ultimately show ?thesis using p by blast
qed

end
