(* ===== verification/Synchronizer_Client.thy ===== *)
theory Synchronizer_Client
  imports Rpc_Clients
begin

text \<open>
  The backend's client of the synchronizer (\<open>internal/app/backend/synchronizer_client.go\<close>): a connection that is
  kept in a cacher, and the call that opens a stream on it; and the set-up of the log from the
  configuration (\<open>internal/logging/logging.go\<close>).
\<close>

section \<open>The client\<close>

text \<open>The connection is both the value and the close function; an error of the close is only logged.\<close>

definition newSynchronizerClient :: "sys \<Rightarrow> (nat, nat) inst reader" where
  "newSynchronizerClient os =
    rbind (GRPCClientFromConfig os ''api.synchronizer'') (\<lambda>r. Result (case r of
        Inl e \<Rightarrow> \<lparr>i_value = None, i_close = None, i_err = Some e\<rparr>
      | Inr conn \<Rightarrow> \<lparr>i_value = Some conn, i_close = Some conn, i_err = None\<rparr>))"

text \<open>\<open>synchronize\<close>: \<open>open_stream\<close> is the outcome of the generated client's \<open>Synchronize\<close>; a value of another type would panic.\<close>

definition synchronize :: "sys \<Rightarrow> config_view \<Rightarrow> (nat \<Rightarrow> 'stream res) \<Rightarrow> (nat, nat) cacher \<Rightarrow> 'stream res \<times> (nat, nat) cacher" where
  "synchronize os cfg open_stream c =
    (case cacher_Get (newSynchronizerClient os) cfg c of
       (Inl e, c1) \<Rightarrow> (Inl e, c1)
     | (Inr client, c1) \<Rightarrow> (case client of None \<Rightarrow> (Inl Panic, c1) | Some conn \<Rightarrow> (open_stream conn, c1)))"

text \<open>Calls one after the other, each with the configuration of its time.\<close>

primrec synchronize_calls :: "sys \<Rightarrow> (nat \<Rightarrow> 'stream res) \<Rightarrow> config_view list \<Rightarrow> (nat, nat) cacher \<Rightarrow> 'stream res list \<times> (nat, nat) cacher" where
  "synchronize_calls os open_stream [] c = ([], c)"
| "synchronize_calls os open_stream (cfg # cfgs) c =
    (case synchronize os cfg open_stream c of (r, c1) \<Rightarrow>
       (case synchronize_calls os open_stream cfgs c1 of (rs, c2) \<Rightarrow> (r # rs, c2)))"

lemma construct_client:
  "construct cfg (newSynchronizerClient os) = (case construct cfg (GRPCClientFromConfig os ''api.synchronizer'') of
     Inl e \<Rightarrow> \<lparr>i_value = None, i_close = None, i_err = Some e\<rparr>
   | Inr conn \<Rightarrow> \<lparr>i_value = Some conn, i_close = Some conn, i_err = None\<rparr>)"
  by (simp add: newSynchronizerClient_def)

lemma synchronize_result:
  assumes "cacher_inv (newSynchronizerClient os) c"
  shows "fst (synchronize os cfg open_stream c) =
      (case construct cfg (GRPCClientFromConfig os ''api.synchronizer'') of Inl e \<Rightarrow> Inl e | Inr conn \<Rightarrow> open_stream conn)"
    and "cacher_inv (newSynchronizerClient os) (snd (synchronize os cfg open_stream c))"
proof -
  obtain r c1 where g: "cacher_Get (newSynchronizerClient os) cfg c = (r, c1)" by (metis surj_pair)
  have "r = (case construct cfg (GRPCClientFromConfig os ''api.synchronizer'') of Inl e \<Rightarrow> Inl e | Inr conn \<Rightarrow> Inr (Some conn))"
    using cacher_Get_result [OF assms, of cfg] g by (simp add: construct_client split: sum.splits)
  then show "fst (synchronize os cfg open_stream c) =
      (case construct cfg (GRPCClientFromConfig os ''api.synchronizer'') of Inl e \<Rightarrow> Inl e | Inr conn \<Rightarrow> open_stream conn)"
    using g by (simp add: synchronize_def split: sum.splits)
  have "snd (synchronize os cfg open_stream c) = c1" using g by (simp add: synchronize_def split: sum.splits option.splits)
  then show "cacher_inv (newSynchronizerClient os) (snd (synchronize os cfg open_stream c))"
    using cacher_inv_Get [OF assms, of cfg] g by simp
qed

text \<open>
  Every call is made on the connection that the configuration of its time gives, or fails with the error of making
  it; no connection is closed twice, and only the one in the cache is open.
\<close>

theorem synchronizer_client_current:
  assumes "synchronize_calls os open_stream cfgs NewCacher = (rs, c)"
  shows "rs = map (\<lambda>cfg. case construct cfg (GRPCClientFromConfig os ''api.synchronizer'') of Inl e \<Rightarrow> Inl e | Inr conn \<Rightarrow> open_stream conn) cfgs \<and>
    mset (opened_log c) = mset (closed_log c) + (case c_c c of None \<Rightarrow> {#} | Some k \<Rightarrow> {#k#})"
proof -
  let ?p = "newSynchronizerClient os"
  have "rs = map (\<lambda>cfg. case construct cfg (GRPCClientFromConfig os ''api.synchronizer'') of Inl e \<Rightarrow> Inl e | Inr conn \<Rightarrow> open_stream conn) cfgs \<and>
      cacher_inv ?p c"
    if "synchronize_calls os open_stream cfgs c0 = (rs, c)" "cacher_inv ?p c0" for c0
    using that
  proof (induction cfgs arbitrary: c0 rs)
    case (Cons cfg cfgs)
    obtain r c1 where s: "synchronize os cfg open_stream c0 = (r, c1)" by (metis surj_pair)
    obtain rs' where rest: "synchronize_calls os open_stream cfgs c1 = (rs', c)" "rs = r # rs'"
      using Cons.prems(1) s by (auto split: prod.splits)
    from synchronize_result [OF Cons.prems(2), of cfg open_stream] s Cons.IH [OF rest(1)] rest(2) show ?case by simp
  qed simp
  from this [OF assms cacher_inv_new] show ?thesis by (simp add: cacher_inv_def)
qed

section \<open>The log\<close>

datatype formatter = StackdriverFormatter | JSONFormatter | TextFormatter

definition newFormatter :: "string \<Rightarrow> formatter" where
  "newFormatter s =
    (if ToLower s = ''stackdriver'' then StackdriverFormatter
     else if ToLower s = ''json'' then JSONFormatter
     else TextFormatter)"

text \<open>The state of the logger: its formatter, its level and the warnings it was given.\<close>

record log_state =
  log_formatter :: formatter
  log_level :: level
  warnings :: nat

definition ConfigureLogging :: "config_view \<Rightarrow> log_state \<Rightarrow> log_state" where
  "ConfigureLogging cfg s =
    (let s1 = s\<lparr>log_formatter := newFormatter (GetString cfg ''logging.format'')\<rparr>;
         l = toLevel (GetString cfg ''logging.level'');
         s2 = s1\<lparr>log_level := l\<rparr>
     in if isDebugLevel l then s2\<lparr>warnings := warnings s2 + 1\<rparr> else s2)"

text \<open>The warning is given exactly when the clients log payloads; a second set-up changes nothing but the warnings.\<close>

lemma configure_logging:
  "warnings (ConfigureLogging cfg s) = (if construct cfg IsDebugEnabled then warnings s + 1 else warnings s)"
  "ConfigureLogging cfg (ConfigureLogging cfg s) = (ConfigureLogging cfg s)\<lparr>warnings := warnings (ConfigureLogging cfg (ConfigureLogging cfg s))\<rparr>"
  by (simp_all add: ConfigureLogging_def IsDebugEnabled_def IsDebugLevel_def Let_def)

end
