(* ===== verification/Tools.thy ===== *)
theory Tools
  imports Rpc_Clients Floats
begin

text \<open>
  The tools: the certificate generator (\<open>tools/certgen\<close>), with the guards on its parameters, the names of a
  certificate and the two files it writes, and the reaper of abandoned name spaces (\<open>tools/reaper\<close>). The
  cryptography, the parsing of addresses, the file system and the cluster are parameters.
\<close>

section \<open>Names of a certificate\<close>

text \<open>\<open>strings.SplitN(s, sep, -1)\<close> and \<open>strings.Split\<close> for a separator of one character.\<close>

fun split_on :: "char \<Rightarrow> string \<Rightarrow> string list" where
  "split_on c [] = [[]]"
| "split_on c (x # xs) = (if x = c then [] # split_on c xs else (case split_on c xs of [] \<Rightarrow> [[x]] | p # ps \<Rightarrow> (x # p) # ps))"

fun expandHostnames :: "string list \<Rightarrow> string list" where
  "expandHostnames [] = []"
| "expandHostnames (hostname # hostnames) =
    (let parts = split_on (CHR '':'') hostname
     in hostname # (if length parts = 2 then [parts ! 0] else []) @ expandHostnames hostnames)"

datatype key_usage = KeyEncipherment | DigitalSignature | CertSign

record cert_params =
  CertificateAuthority :: bool
  RootPublicCertificateData :: bytes
  RootPrivateKeyData :: bytes
  ValidityDuration :: int
  Hostnames :: "string list"
  RSAKeyLength :: int

record cert_template =
  ct_serial :: nat
  NotBefore :: int
  NotAfter :: int
  KeyUsage :: "key_usage set"
  IsCA :: bool
  IPAddresses :: "bytes list"
  DNSNames :: "string list"

text \<open>
  The standard library: random numbers, keys, signatures and PEM. \<open>pem.Decode\<close> returns \<open>None\<close> when it finds no block;
  a private key is the bytes of its encoding.
\<close>

record crypto =
  RandInt :: "nat \<Rightarrow> nat res"
  ParseIP :: "string \<Rightarrow> bytes option"
  GenerateKey :: "int \<Rightarrow> bytes res"
  PublicKey :: "bytes \<Rightarrow> bytes"
  CreateCertificate :: "cert_template \<Rightarrow> cert_template \<Rightarrow> bytes \<Rightarrow> bytes \<Rightarrow> bytes res"
  pemDecode :: "bytes \<Rightarrow> bytes option"
  pemEncode :: "string \<Rightarrow> bytes \<Rightarrow> bytes"
  x509ParseCertificate :: "bytes \<Rightarrow> cert_template res"
  ParsePKCS1PrivateKey :: "bytes \<Rightarrow> bytes res"

definition cert_names :: "crypto \<Rightarrow> string list \<Rightarrow> cert_template \<Rightarrow> cert_template" where
  "cert_names lib hostnames t =
    fold (\<lambda>h t. case ParseIP lib h of Some ip \<Rightarrow> t\<lparr>IPAddresses := IPAddresses t @ [ip]\<rparr> | None \<Rightarrow> t\<lparr>DNSNames := DNSNames t @ [h]\<rparr>)
      (expandHostnames hostnames) t"

definition localhost_names :: "crypto \<Rightarrow> cert_template \<Rightarrow> cert_template" where
  "localhost_names lib t = t\<lparr>DNSNames := DNSNames t @ [''localhost''],
     IPAddresses := IPAddresses t @ (case ParseIP lib ''127.0.0.1'' of Some ip \<Rightarrow> [ip] | None \<Rightarrow> [[]])\<rparr>"

definition certTemplate :: "crypto \<Rightarrow> cert_params \<Rightarrow> nat \<Rightarrow> int \<Rightarrow> cert_template" where
  "certTemplate lib params serialNumber startTimestamp =
    localhost_names lib (cert_names lib (Hostnames params)
      \<lparr>ct_serial = serialNumber, NotBefore = startTimestamp, NotAfter = startTimestamp + ValidityDuration params,
       KeyUsage = {KeyEncipherment, DigitalSignature} \<union> (if CertificateAuthority params then {CertSign} else {}),
       IsCA = CertificateAuthority params, IPAddresses = [], DNSNames = []\<rparr>)"

text \<open>\<open>ReadKeyPair\<close>: data without a PEM block are dereferenced.\<close>

definition ReadKeyPair :: "crypto \<Rightarrow> bytes \<Rightarrow> bytes \<Rightarrow> (cert_template \<times> bytes) res" where
  "ReadKeyPair lib publicCertFileData privateKeyFileData =
    (case pemDecode lib publicCertFileData of
       None \<Rightarrow> Inl Panic
     | Some certBytes \<Rightarrow>
         (case x509ParseCertificate lib certBytes of
            Inl e \<Rightarrow> Inl (Wrapped e)
          | Inr publicCertificate \<Rightarrow>
              (case pemDecode lib privateKeyFileData of
                 None \<Rightarrow> Inl Panic
               | Some keyBytes \<Rightarrow>
                   (case ParsePKCS1PrivateKey lib keyBytes of Inl e \<Rightarrow> Inl (Wrapped e) | Inr privateKey \<Rightarrow> Inr (publicCertificate, privateKey)))))"

definition CreateCertificateAndPrivateKey :: "crypto \<Rightarrow> int \<Rightarrow> cert_params \<Rightarrow> (bytes \<times> bytes) res" where
  "CreateCertificateAndPrivateKey lib startTimestamp params =
    (case RandInt lib (2 ^ 128) of
       Inl e \<Rightarrow> Inl (Wrapped e)
     | Inr serialNumber \<Rightarrow>
         (let template = certTemplate lib params serialNumber startTimestamp in
          case GenerateKey lib (RSAKeyLength params) of
            Inl e \<Rightarrow> Inl (Wrapped e)
          | Inr privateKey \<Rightarrow>
              (case (if RootPublicCertificateData params \<noteq> [] then ReadKeyPair lib (RootPublicCertificateData params) (RootPrivateKeyData params)
                     else Inr (template, privateKey)) of
                 Inl e \<Rightarrow> Inl e
               | Inr (parentTemplate, parentPrivateKey) \<Rightarrow>
                   (case CreateCertificate lib template parentTemplate (PublicKey lib privateKey) parentPrivateKey of
                      Inl e \<Rightarrow> Inl (Wrapped e)
                    | Inr cert \<Rightarrow> Inr (pemEncode lib ''CERTIFICATE'' cert, pemEncode lib ''RSA PRIVATE KEY'' privateKey)))))"

section \<open>The length of the key\<close>

text \<open>
  \<open>int(math.Pow(math.Sqrt(float64(n)), 2))\<close>. The square root of a double is correctly rounded: \<open>isqrt\<close> gives the
  integer part of the root scaled by \<open>2 ^ 60\<close>, which together with whether it is exact decides the
  rounding of a root below \<open>2 ^ 32\<close>. The root of a negative number is a NaN, whose conversion is left open.
\<close>

fun isqrt :: "nat \<Rightarrow> nat" where
  "isqrt n = (if n = 0 then 0 else let r = 2 * isqrt (n div 4) in if (r + 1) * (r + 1) \<le> n then r + 1 else r)"

declare isqrt.simps [simp del]

definition f64_sqrt_nat :: "nat \<Rightarrow> f64" where
  "f64_sqrt_nat v =
    (let s = isqrt (v * 4 ^ 60) in f64_round ((if s * s = v * 4 ^ 60 then of_nat s else of_nat s + 1 / 2) / 2 ^ 60))"

definition int_of_f64 :: "int \<Rightarrow> f64 \<Rightarrow> int" where
  "int_of_f64 other x = (case x of Fin r \<Rightarrow> (if 0 \<le> r then \<lfloor>r\<rfloor> else \<lceil>r\<rceil>) | _ \<Rightarrow> other)"

definition pow_sqrt :: "int \<Rightarrow> int \<Rightarrow> int" where
  "pow_sqrt other n =
    (if n < 0 then other
     else let r = (case f64_round (of_int n) of Fin v \<Rightarrow> f64_sqrt_nat (nat \<lfloor>v\<rfloor>) | x \<Rightarrow> x) in int_of_f64 other (f64_mul r r))"

section \<open>The files\<close>

text \<open>The files written so far, and which paths cannot be opened for writing.\<close>

record files =
  contents :: "string \<rightharpoonup> bytes"
  write_err :: "string \<Rightarrow> go_error option"

definition WriteFile :: "string \<Rightarrow> bytes \<Rightarrow> files \<Rightarrow> go_error option \<times> files" where
  "WriteFile path d fs = (case write_err fs path of Some e \<Rightarrow> (Some e, fs) | None \<Rightarrow> (None, fs\<lparr>contents := (contents fs)(path \<mapsto> d)\<rparr>))"

definition valid_params :: "int \<Rightarrow> string \<Rightarrow> string \<Rightarrow> cert_params \<Rightarrow> bool" where
  "valid_params nan pub priv params \<longleftrightarrow>
    \<not> (pub = [] \<or> priv = [] \<or> (RootPublicCertificateData params \<noteq> [] \<and> RootPrivateKeyData params = []) \<or>
       (RootPublicCertificateData params = [] \<and> RootPrivateKeyData params \<noteq> []) \<or> Hostnames params = [] \<or>
       pow_sqrt nan (RSAKeyLength params) \<noteq> RSAKeyLength params \<or> ValidityDuration params = 0)"

definition CreateCertificateAndPrivateKeyFiles :: "crypto \<Rightarrow> int \<Rightarrow> int \<Rightarrow> string \<Rightarrow> string \<Rightarrow> cert_params \<Rightarrow> files \<Rightarrow> unit res \<times> files" where
  "CreateCertificateAndPrivateKeyFiles lib nan now pub priv params fs =
    (if \<not> valid_params nan pub priv params then (Inl FmtErr, fs)
     else case CreateCertificateAndPrivateKey lib now params of
       Inl e \<Rightarrow> (Inl e, fs)
     | Inr (certPem, keyPem) \<Rightarrow>
         (case WriteFile pub certPem fs of
            (Some e, fs1) \<Rightarrow> (Inl (Wrapped e), fs1)
          | (None, fs1) \<Rightarrow>
              (case WriteFile priv keyPem fs1 of (Some e, fs2) \<Rightarrow> (Inl (Wrapped e), fs2) | (None, fs2) \<Rightarrow> (Inr (), fs2))))"

text \<open>\<open>createCertificateViaFlags\<close>: the flags in the order of their declaration.\<close>

record cert_flags =
  caFlag :: bool
  rootPublicCertificateFlag :: string
  rootPrivateKeyFlag :: string
  publicCertificateFlag :: string
  privateKeyFlag :: string
  validityDurationFlag :: int
  hostnamesFlag :: string
  rsaKeyLengthFlag :: int

definition createCertificateViaFlags :: "sys \<Rightarrow> crypto \<Rightarrow> int \<Rightarrow> int \<Rightarrow> cert_flags \<Rightarrow> files \<Rightarrow> unit res \<times> files" where
  "createCertificateViaFlags os lib nan now f fs =
    (let params = \<lparr>CertificateAuthority = caFlag f, RootPublicCertificateData = [], RootPrivateKeyData = [],
           ValidityDuration = validityDurationFlag f, Hostnames = split_on (CHR '','') (hostnamesFlag f), RSAKeyLength = rsaKeyLengthFlag f\<rparr>;
         create = CreateCertificateAndPrivateKeyFiles lib nan now (publicCertificateFlag f) (privateKeyFlag f)
     in if rootPublicCertificateFlag f = [] then create params fs
        else if rootPrivateKeyFlag f = [] then (Inl FmtErr, fs)
        else case ReadFile os (rootPublicCertificateFlag f) of
          Inl _ \<Rightarrow> (Inl FmtErr, fs)
        | Inr c \<Rightarrow> (case ReadFile os (rootPrivateKeyFlag f) of
            Inl _ \<Rightarrow> (Inl FmtErr, fs)
          | Inr k \<Rightarrow> create (params\<lparr>RootPublicCertificateData := c, RootPrivateKeyData := k\<rparr>) fs))"

section \<open>The reaper\<close>

text \<open>A name space of the cluster: its name and the time of its creation.\<close>

record namespace =
  ns_Name :: string
  ns_CreationTimestamp :: int

definition isOrphaned :: "int \<Rightarrow> int \<Rightarrow> namespace \<Rightarrow> bool" where
  "isOrphaned now age ns \<longleftrightarrow> ns_CreationTimestamp ns < now - age \<and> HasPrefix (ns_Name ns) ''open-match''"

text \<open>The loop of \<open>ReapNamespaces\<close>: \<open>now k\<close> is the time at the \<open>k\<close>-th item, \<open>del\<close> the outcome of a deletion. \<open>err\<close> is the variable of the function.\<close>

fun reap_loop :: "(nat \<Rightarrow> int) \<Rightarrow> int \<Rightarrow> (string \<Rightarrow> go_error option) \<Rightarrow> nat \<Rightarrow> namespace list \<Rightarrow> go_error option \<Rightarrow> string list \<Rightarrow> go_error option \<times> string list" where
  "reap_loop now age del k [] err deleted = (err, deleted)"
| "reap_loop now age del k (ns # items) err deleted =
    (if \<not> isOrphaned (now k) age ns then reap_loop now age del (k + 1) items err deleted
     else case del (ns_Name ns) of
       Some e \<Rightarrow> reap_loop now age del (k + 1) items (Some e) deleted
     | None \<Rightarrow> reap_loop now age del (k + 1) items None (deleted @ [ns_Name ns]))"

text \<open>\<open>ReapNamespaces\<close>: \<open>config\<close> and \<open>client\<close> are the errors of making a client, \<open>items\<close> the outcome of the listing.\<close>

definition ReapNamespaces :: "(string \<Rightarrow> bool) \<Rightarrow> string \<Rightarrow> string \<Rightarrow> (string \<Rightarrow> go_error option) \<Rightarrow> go_error option \<Rightarrow> namespace list res \<Rightarrow>
    (nat \<Rightarrow> int) \<Rightarrow> int \<Rightarrow> (string \<Rightarrow> go_error option) \<Rightarrow> go_error option \<times> string list" where
  "ReapNamespaces fileExists homeDir kubeconfigFromEnv config client items now age del =
    (let kubeconfig = homeDir @ ''/.kube/config'';
         kubeconfig = (if \<not> fileExists kubeconfig \<and> fileExists kubeconfigFromEnv then kubeconfigFromEnv else kubeconfig)
     in case config kubeconfig of
          Some e \<Rightarrow> (Some (Wrapped e), [])
        | None \<Rightarrow> (case client of
            Some e \<Rightarrow> (Some (Wrapped e), [])
          | None \<Rightarrow> (case items of
              Inl e \<Rightarrow> (Some (Wrapped e), [])
            | Inr ns \<Rightarrow> reap_loop now age del 0 ns None [])))"

section \<open>Properties of the certificates\<close>

text \<open>The names of the hosts, and those of the hosts given with a port, are names of the certificate.\<close>

lemma split_on_nonempty [simp]: "split_on c xs \<noteq> []"
  by (induction xs) (auto split: list.splits)

lemma split_on_none: "c \<notin> set xs \<Longrightarrow> split_on c xs = [xs]"
  by (induction xs) auto

lemma split_on_host: "c \<notin> set h \<Longrightarrow> c \<notin> set p \<Longrightarrow> split_on c (h @ c # p) = [h, p]"
  by (induction h) (auto simp: split_on_none)

lemma expand_keeps: "h \<in> set hs \<Longrightarrow> h \<in> set (expandHostnames hs)"
  by (induction hs) (auto simp: Let_def)

lemma expand_host:
  "h @ CHR '':'' # p \<in> set hs \<Longrightarrow> CHR '':'' \<notin> set h \<Longrightarrow> CHR '':'' \<notin> set p \<Longrightarrow> h \<in> set (expandHostnames hs)"
  by (induction hs) (auto simp: Let_def split_on_host)

definition names :: "crypto \<Rightarrow> cert_template \<Rightarrow> string \<Rightarrow> bool" where
  "names lib t h \<longleftrightarrow> (case ParseIP lib h of Some ip \<Rightarrow> ip \<in> set (IPAddresses t) | None \<Rightarrow> h \<in> set (DNSNames t))"

lemma cert_names_fold:
  "h \<in> set hs \<or> names lib t h \<Longrightarrow>
   names lib (fold (\<lambda>h t. case ParseIP lib h of Some ip \<Rightarrow> t\<lparr>IPAddresses := IPAddresses t @ [ip]\<rparr> | None \<Rightarrow> t\<lparr>DNSNames := DNSNames t @ [h]\<rparr>) hs t) h"
proof (induction hs arbitrary: t)
  case (Cons x hs)
  show ?case unfolding fold_simps comp_def
    by (rule Cons.IH) (use Cons.prems in \<open>auto simp: names_def split: option.splits\<close>)
qed simp

lemma certificate_names:
  assumes "h \<in> set (Hostnames params) \<or> (\<exists>p. h @ CHR '':'' # p \<in> set (Hostnames params) \<and> CHR '':'' \<notin> set h \<and> CHR '':'' \<notin> set p)"
  shows "names lib (certTemplate lib params n now) h"
proof -
  have "h \<in> set (expandHostnames (Hostnames params))" using assms expand_keeps expand_host by blast
  then have "names lib (cert_names lib (Hostnames params) t) h" for t unfolding cert_names_def by (intro cert_names_fold disjI1)
  then show ?thesis unfolding certTemplate_def localhost_names_def names_def by (auto split: option.splits)
qed

text \<open>The integer square root, and exact doubles.\<close>

lemma isqrt_bounds: "isqrt n * isqrt n \<le> n \<and> n < (isqrt n + 1) * (isqrt n + 1)"
proof (induction n rule: isqrt.induct)
  case (1 n)
  show ?case
  proof (cases "n = 0")
    case True
    then show ?thesis by (simp add: isqrt.simps)
  next
    case False
    let ?q = "isqrt (n div 4)"
    have IH: "?q * ?q \<le> n div 4" "n div 4 < (?q + 1) * (?q + 1)" using 1 False by auto
    then have "2 * ?q * (2 * ?q) \<le> n" "n < (2 * ?q + 2) * (2 * ?q + 2)" by (simp_all add: algebra_simps) presburger+
    then show ?thesis using False by (subst (1 2 3 4) isqrt.simps) (simp add: Let_def algebra_simps)
  qed
qed

lemma isqrt_square [simp]: "isqrt (k * k) = k"
proof -
  have "isqrt (k * k) \<le> k" using isqrt_bounds [of "k * k"] by (metis mult_strict_mono' linorder_not_le zero_le)
  moreover have "k < isqrt (k * k) + 1" using isqrt_bounds [of "k * k"] by (metis mult_le_mono linorder_not_le)
  ultimately show ?thesis by simp
qed

lemma round_exact:
  assumes "0 \<le> n" and "n < 2 ^ 53"
  shows "f64_round (of_int n) = Fin (of_int n)"
proof (cases "n = 0")
  case False
  let ?r = "of_int n :: rat" and ?e = "ulp_exp (of_int n)"
  have pos: "0 < ?r" using assms False by simp
  have "rat_log2 ?r < 53"
  proof (rule ccontr)
    assume "\<not> rat_log2 ?r < 53"
    then have "(2 powi 53 :: rat) \<le> 2 powi rat_log2 ?r" by (intro power_int_increasing) auto
    then have "2 powi 53 \<le> ?r" using rat_log2_bounds(1) [OF pos] by linarith
    moreover have "?r < 2 ^ 53" using assms(2) by (metis of_int_less_iff of_int_numeral of_int_power)
    ultimately show False by (simp add: power_int_def)
  qed
  then have "?e \<le> 0" by (simp add: ulp_exp_def)
  then have "?r / 2 powi ?e = of_int (n * 2 ^ nat (- ?e))" by (simp add: power_int_def field_simps)
  then have "round_even (?r / 2 powi ?e) = n * 2 ^ nat (- ?e)" by (metis round_even_of_int)
  then have "round_pos ?r = of_int (n * 2 ^ nat (- ?e)) * 2 powi ?e" by (simp only: round_pos_def)
  then have "round_pos ?r = ?r" using \<open>?r / 2 powi ?e = _\<close> by (metis nonzero_eq_divide_eq power_int_not_zero zero_neq_numeral)
  moreover have "?r < 2 ^ 1024"
  proof -
    have "n < 2 ^ 1024" using assms(2) by (rule less_trans) simp
    then show ?thesis by (metis of_int_less_iff of_int_numeral of_int_power)
  qed
  ultimately show ?thesis using pos by (simp add: f64_round_def round_rat_def Let_def)
qed simp

text \<open>The check on the length of the key accepts every square; a length such as 9 is not a power of two.\<close>

lemma pow_sqrt_square:
  assumes "0 \<le> k" and "k < 2 ^ 26"
  shows "pow_sqrt nan (k * k) = k * k"
proof -
  have kk: "k * k < 2 ^ 53"
  proof -
    have "k * k \<le> 2 ^ 26 * 2 ^ 26" using assms by (intro mult_mono) auto
    then show ?thesis by simp
  qed
  obtain m where m: "k = int m" using assms(1) nonneg_int_cases by blast
  have s: "isqrt (m * m * 4 ^ 60) = m * 2 ^ 60"
  proof -
    have "m * m * 4 ^ 60 = (m * 2 ^ 60) * (m * 2 ^ 60)" by simp
    then show ?thesis by (metis isqrt_square)
  qed
  have "f64_sqrt_nat (m * m) = Fin (of_int k)"
    unfolding f64_sqrt_nat_def Let_def s using round_exact [of k] assms by (simp add: m)
  moreover have "nat \<lfloor>of_int (k * k) :: rat\<rfloor> = m * m" unfolding floor_of_int m by (simp add: nat_mult_distrib)
  ultimately have "pow_sqrt nan (k * k) = int_of_f64 nan (f64_round (of_int (k * k)))"
    using assms(1) round_exact [of "k * k"] kk by (simp add: pow_sqrt_def)
  also have "f64_round (of_int (k * k)) = Fin (of_int (k * k))" using assms(1) kk by (intro round_exact) auto
  finally show ?thesis using assms(1) by (simp only: int_of_f64_def f64.case floor_of_int) simp
qed

text \<open>
  The files of the certificate generator. With parameters it refuses, nothing is written. If it succeeds,
  the two paths hold the certificate and its key, in this order, and nothing else has changed; the
  certificate is valid from now for the given time, and for every host name, also without its port, and the
  local host. If it fails otherwise, nothing was written, or only the certificate, when the key could not be.
  A key length that is a square passes, whether it is a power of two or not.
\<close>

theorem certgen_files:
  assumes run: "CreateCertificateAndPrivateKeyFiles lib nan now pub priv params fs = (r, fs')"
  shows "(\<not> valid_params nan pub priv params \<longrightarrow> r = Inl FmtErr \<and> fs' = fs) \<and>
    (r = Inr () \<longrightarrow> (\<exists>n cert key parent parentKey. GenerateKey lib (RSAKeyLength params) = Inr key \<and>
       CreateCertificate lib (certTemplate lib params n now) parent (PublicKey lib key) parentKey = Inr cert \<and>
       fs' = fs\<lparr>contents := (contents fs)(pub \<mapsto> pemEncode lib ''CERTIFICATE'' cert, priv \<mapsto> pemEncode lib ''RSA PRIVATE KEY'' key)\<rparr> \<and>
       NotAfter (certTemplate lib params n now) = now + ValidityDuration params \<and> ''localhost'' \<in> set (DNSNames (certTemplate lib params n now)) \<and>
       (\<forall>h. h \<in> set (Hostnames params) \<or> (\<exists>p. h @ CHR '':'' # p \<in> set (Hostnames params) \<and> CHR '':'' \<notin> set h \<and> CHR '':'' \<notin> set p) \<longrightarrow>
         names lib (certTemplate lib params n now) h))) \<and>
    (\<forall>e. r = Inl e \<longrightarrow> fs' = fs \<or> (\<exists>c. fs' = fs\<lparr>contents := (contents fs)(pub \<mapsto> c)\<rparr> \<and> write_err fs priv \<noteq> None)) \<and>
    (\<forall>k. 0 \<le> k \<and> k < 2 ^ 26 \<longrightarrow> pow_sqrt nan (k * k) = k * k)"
proof (intro conjI impI allI)
  assume "\<not> valid_params nan pub priv params"
  then show "r = Inl FmtErr" "fs' = fs" using run by (simp_all add: CreateCertificateAndPrivateKeyFiles_def)
next
  assume "r = Inr ()"
  then obtain c k where ck: "CreateCertificateAndPrivateKey lib now params = Inr (c, k)"
    and fs': "fs' = fs\<lparr>contents := (contents fs)(pub \<mapsto> c, priv \<mapsto> k)\<rparr>"
    using run by (auto simp: CreateCertificateAndPrivateKeyFiles_def WriteFile_def split: if_splits sum.splits option.splits)
  obtain n key parent parentKey cert where "GenerateKey lib (RSAKeyLength params) = Inr key"
    "CreateCertificate lib (certTemplate lib params n now) parent (PublicKey lib key) parentKey = Inr cert"
    "c = pemEncode lib ''CERTIFICATE'' cert" "k = pemEncode lib ''RSA PRIVATE KEY'' key"
    using ck by (auto simp: CreateCertificateAndPrivateKey_def Let_def split: sum.splits)
  moreover have "NotAfter (cert_names lib hs t) = NotAfter t" for hs t
    unfolding cert_names_def by (rule fold_invariant [where Q = "\<lambda>_. True" and P = "\<lambda>u. NotAfter u = NotAfter t"]) (auto split: option.splits)
  ultimately show "\<exists>n cert key parent parentKey. GenerateKey lib (RSAKeyLength params) = Inr key \<and>
       CreateCertificate lib (certTemplate lib params n now) parent (PublicKey lib key) parentKey = Inr cert \<and>
       fs' = fs\<lparr>contents := (contents fs)(pub \<mapsto> pemEncode lib ''CERTIFICATE'' cert, priv \<mapsto> pemEncode lib ''RSA PRIVATE KEY'' key)\<rparr> \<and>
       NotAfter (certTemplate lib params n now) = now + ValidityDuration params \<and> ''localhost'' \<in> set (DNSNames (certTemplate lib params n now)) \<and>
       (\<forall>h. h \<in> set (Hostnames params) \<or> (\<exists>p. h @ CHR '':'' # p \<in> set (Hostnames params) \<and> CHR '':'' \<notin> set h \<and> CHR '':'' \<notin> set p) \<longrightarrow>
         names lib (certTemplate lib params n now) h)"
    using fs' certificate_names by (intro exI [of _ n] exI [of _ cert] exI [of _ key] exI [of _ parent] exI [of _ parentKey])
      (auto simp: certTemplate_def localhost_names_def)
next
  fix e assume "r = Inl e"
  then show "fs' = fs \<or> (\<exists>c. fs' = fs\<lparr>contents := (contents fs)(pub \<mapsto> c)\<rparr> \<and> write_err fs priv \<noteq> None)"
    using run by (auto simp: CreateCertificateAndPrivateKeyFiles_def WriteFile_def split: if_splits sum.splits option.splits)
next
  fix k :: int assume "0 \<le> k \<and> k < 2 ^ 26"
  then show "pow_sqrt nan (k * k) = k * k" using pow_sqrt_square by blast
qed

definition sample_crypto :: crypto where
  "sample_crypto = \<lparr>RandInt = (\<lambda>_. Inr 1), ParseIP = (\<lambda>_. None), GenerateKey = (\<lambda>_. Inr [1]), PublicKey = id,
     CreateCertificate = (\<lambda>_ _ _ _. Inr [2]), pemDecode = Some, pemEncode = (\<lambda>_ b. b), x509ParseCertificate = (\<lambda>_. Inl FmtErr),
     ParsePKCS1PrivateKey = Inr\<rparr>"

definition sample_params :: cert_params where
  "sample_params = \<lparr>CertificateAuthority = False, RootPublicCertificateData = [], RootPrivateKeyData = [], ValidityDuration = Hour,
     Hostnames = [''om:51505''], RSAKeyLength = 9\<rparr>"

theorem certgen_files_witness:
  "\<exists>fs'. CreateCertificateAndPrivateKeyFiles sample_crypto 0 0 ''c'' ''k'' sample_params \<lparr>contents = Map.empty, write_err = (\<lambda>_. None)\<rparr> = (Inr (), fs') \<and>
     contents fs' = [''c'' \<mapsto> [2], ''k'' \<mapsto> [1]] \<and> (\<exists>n. names sample_crypto (certTemplate sample_crypto sample_params n 0) ''om'')"
proof -
  let ?fs = "\<lparr>contents = Map.empty, write_err = (\<lambda>_. None)\<rparr>"
  have "pow_sqrt 0 9 = 9" using pow_sqrt_square [of 3 0] by simp
  then have "valid_params 0 ''c'' ''k'' sample_params" by (simp add: valid_params_def sample_params_def)
  moreover have "CreateCertificateAndPrivateKey sample_crypto 0 sample_params = Inr ([2], [1])"
    by (simp add: CreateCertificateAndPrivateKey_def sample_crypto_def sample_params_def)
  ultimately obtain fs' where run: "CreateCertificateAndPrivateKeyFiles sample_crypto 0 0 ''c'' ''k'' sample_params ?fs = (Inr (), fs')"
    by (simp add: CreateCertificateAndPrivateKeyFiles_def WriteFile_def)
  from certgen_files [OF run] obtain n cert key parent parentKey where
    key: "GenerateKey sample_crypto (RSAKeyLength sample_params) = Inr key"
      "CreateCertificate sample_crypto (certTemplate sample_crypto sample_params n 0) parent (PublicKey sample_crypto key) parentKey = Inr cert"
    and fs': "fs' = ?fs\<lparr>contents := (contents ?fs)(''c'' \<mapsto> pemEncode sample_crypto ''CERTIFICATE'' cert, ''k'' \<mapsto> pemEncode sample_crypto ''RSA PRIVATE KEY'' key)\<rparr>"
    and all: "\<forall>h. h \<in> set (Hostnames sample_params) \<or>
      (\<exists>p. h @ CHR '':'' # p \<in> set (Hostnames sample_params) \<and> CHR '':'' \<notin> set h \<and> CHR '':'' \<notin> set p) \<longrightarrow>
      names sample_crypto (certTemplate sample_crypto sample_params n 0) h" by blast
  have "''om'' @ CHR '':'' # ''51505'' \<in> set (Hostnames sample_params) \<and> CHR '':'' \<notin> set ''om'' \<and> CHR '':'' \<notin> set ''51505''"
    by (simp add: sample_params_def)
  with all have "names sample_crypto (certTemplate sample_crypto sample_params n 0) ''om''" by blast
  moreover have "contents fs' = [''c'' \<mapsto> [2], ''k'' \<mapsto> [1]]" using key fs' by (simp add: sample_crypto_def)
  ultimately show ?thesis using run by blast
qed

section \<open>What the reaper deletes\<close>

text \<open>
  The reaper deletes exactly the name spaces that are old enough, begin with the prefix and can be deleted.
  Its result is the outcome of the last deletion only: an error before a successful deletion is lost.
\<close>

lemma reap_loop_result:
  assumes "\<And>k. now k = t"
  shows "reap_loop now age del k items err deleted =
    (let os = map ns_Name (filter (isOrphaned t age) items)
     in (if os = [] then err else del (last os), deleted @ filter (\<lambda>n. del n = None) os))"
proof (induction items arbitrary: k err deleted)
  case (Cons ns items)
  then show ?case by (cases "del (ns_Name ns)") (auto simp: assms Let_def)
qed simp

theorem reaper_deletes:
  assumes "config kubeconfig = None" and "\<And>k. now k = t" and "kubeconfig = homeDir @ ''/.kube/config''" and "fileExists kubeconfig"
  shows "ReapNamespaces fileExists homeDir env config None (Inr items) now age del =
    (let os = map ns_Name (filter (isOrphaned t age) items) in (if os = [] then None else del (last os), filter (\<lambda>n. del n = None) os))"
proof -
  have "ReapNamespaces fileExists homeDir env config None (Inr items) now age del = reap_loop now age del 0 items None []"
    using assms(1,3,4) by (simp add: ReapNamespaces_def)
  then show ?thesis unfolding reap_loop_result [OF assms(2)] by (simp add: Let_def)
qed

end
