(* ===== verification/Metrics.thy ===== *)
theory Metrics
  imports Prelude
begin

text \<open>
  The metrics of \<open>internal/telemetry/metrics.go\<close>: measures with the views that are registered for them, and what
  a view shows of the data recorded. The library's part is the documented meaning of its aggregations.
\<close>

datatype aggregation = LastValue | Count | Distribution "rat list"

record measure =
  ms_Name :: string
  ms_Description :: string
  ms_Unit :: string

record metric_view =
  mv_Name :: string
  mv_Measure :: measure
  mv_Description :: string
  mv_Aggregation :: aggregation
  mv_TagKeys :: "string list"

text \<open>
  The state: the registered views, and the data of every measure, in their order. Data of a measure without a
  view are dropped. \<open>register_err\<close> is the error of registering a view, \<open>tag_err\<close> that of the tags of a context.
\<close>

record metrics =
  registered_views :: "metric_view list"
  data :: "string \<Rightarrow> int list"
  register_err :: "metric_view \<Rightarrow> bool"

definition register_view :: "metric_view \<Rightarrow> metrics \<Rightarrow> metrics" where
  "register_view v m = (if register_err m v then m else m\<lparr>registered_views := registered_views m @ [v]\<rparr>)"

definition view_for :: "aggregation \<Rightarrow> measure \<Rightarrow> string list \<Rightarrow> metric_view" where
  "view_for a s tags = \<lparr>mv_Name = ms_Name s, mv_Measure = s, mv_Description = ms_Description s, mv_Aggregation = a, mv_TagKeys = tags\<rparr>"

definition histogramView :: "measure \<Rightarrow> rat list \<Rightarrow> string list \<Rightarrow> metrics \<Rightarrow> metrics" where
  "histogramView s bounds tags m = register_view (view_for (Distribution bounds) s tags) m"

definition gaugeView :: "measure \<Rightarrow> string list \<Rightarrow> metrics \<Rightarrow> metrics" where
  "gaugeView s tags m = register_view (view_for LastValue s tags) m"

definition counterView :: "measure \<Rightarrow> string list \<Rightarrow> metrics \<Rightarrow> metrics" where
  "counterView s tags m = register_view (view_for Count s tags) m"

definition Gauge :: "string \<Rightarrow> string \<Rightarrow> string list \<Rightarrow> metrics \<Rightarrow> measure \<times> metrics" where
  "Gauge name description tags m =
    (let s = \<lparr>ms_Name = name, ms_Description = description, ms_Unit = ''1''\<rparr> in (s, gaugeView s tags m))"

definition Counter :: "string \<Rightarrow> string \<Rightarrow> string list \<Rightarrow> metrics \<Rightarrow> measure \<times> metrics" where
  "Counter name description tags m =
    (let s = \<lparr>ms_Name = name, ms_Description = ''Count of '' @ description @ ''.'', ms_Unit = ''1''\<rparr> in (s, counterView s tags m))"

definition HistogramWithBounds :: "string \<Rightarrow> string \<Rightarrow> string \<Rightarrow> rat list \<Rightarrow> string list \<Rightarrow> metrics \<Rightarrow> measure \<times> metrics" where
  "HistogramWithBounds name description ut bounds tags m =
    (let s = \<lparr>ms_Name = name, ms_Description = description, ms_Unit = ut\<rparr> in (s, histogramView s bounds tags m))"

definition stats_Record :: "measure \<Rightarrow> int \<Rightarrow> metrics \<Rightarrow> metrics" where
  "stats_Record s n m =
    (if \<exists>v \<in> set (registered_views m). mv_Measure v = s then m\<lparr>data := (data m)(ms_Name s := data m (ms_Name s) @ [n])\<rparr> else m)"

definition SetGauge :: "bool \<Rightarrow> measure \<Rightarrow> int \<Rightarrow> metrics \<Rightarrow> metrics" where
  "SetGauge tag_err s n m = (if tag_err then m else stats_Record s n m)"

definition RecordNUnitMeasurement :: "bool \<Rightarrow> measure \<Rightarrow> int \<Rightarrow> metrics \<Rightarrow> metrics" where
  "RecordNUnitMeasurement tag_err s n m = (if tag_err then m else stats_Record s n m)"

definition RecordUnitMeasurement :: "bool \<Rightarrow> measure \<Rightarrow> metrics \<Rightarrow> metrics" where
  "RecordUnitMeasurement tag_err s m = RecordNUnitMeasurement tag_err s 1 m"

text \<open>What a view shows: the last value, the number of data, or the number of data in every bucket.\<close>

datatype shown = ShowLast "int option" | ShowCount nat | ShowBuckets "nat list"

definition bucket_of :: "rat list \<Rightarrow> int \<Rightarrow> nat" where
  "bucket_of bounds n = length (takeWhile (\<lambda>b. b \<le> of_int n) bounds)"

definition view_data :: "metric_view \<Rightarrow> metrics \<Rightarrow> shown" where
  "view_data v m =
    (let ds = data m (ms_Name (mv_Measure v))
     in case mv_Aggregation v of
          LastValue \<Rightarrow> ShowLast (if ds = [] then None else Some (last ds))
        | Count \<Rightarrow> ShowCount (length ds)
        | Distribution bounds \<Rightarrow> ShowBuckets (map (\<lambda>k. length (filter (\<lambda>n. bucket_of bounds n = k) ds)) [0..<length bounds + 1]))"

section \<open>What the metrics show\<close>

lemma fold_record:
  assumes "\<exists>v \<in> set (registered_views m). mv_Measure v = s"
  shows "data (fold (stats_Record s) ns m) (ms_Name s) = data m (ms_Name s) @ ns"
  using assms by (induction ns arbitrary: m) (simp_all add: stats_Record_def)

lemma bucket_le: "bucket_of bounds n \<le> length bounds"
  unfolding bucket_of_def by (rule length_takeWhile_le)

lemma buckets_sum: "(\<And>n. n \<in> set ds \<Longrightarrow> f n < k) \<Longrightarrow> sum_list (map (\<lambda>j. length (filter (\<lambda>n. f n = j) ds)) [0..<k]) = length ds"
proof (induction ds)
  case (Cons d ds)
  have "sum_list (map (\<lambda>j. length (filter (\<lambda>n. f n = j) (d # ds))) [0..<k]) =
      sum_list (map (\<lambda>j. (if f d = j then 1 else 0) + length (filter (\<lambda>n. f n = j) ds)) [0..<k])"
    by (intro arg_cong [where f = sum_list] map_cong) auto
  also have "\<dots> = sum_list (map (\<lambda>j. if f d = j then 1 else 0) [0..<k]) + length ds"
    using Cons by (simp add: sum_list_addf)
  also have "sum_list (map (\<lambda>j. if f d = j then 1 else 0 :: nat) [0..<k]) = 1"
    using Cons.prems [of d] by (simp add: interv_sum_list_conv_sum_set_nat)
  finally show ?case by simp
qed (simp add: sum_list_0)

text \<open>
  A gauge shows the value set last; the buckets of a histogram add up to the number of data; and a counter
  shows how many times something was recorded, whatever number of units was recorded each time.
\<close>

theorem metrics_show:
  assumes "\<not> register_err m v" and "data m name = []"
  shows "Gauge name d tags m = (s, m1) \<Longrightarrow> v = view_for LastValue s tags \<Longrightarrow>
      view_data v (fold (SetGauge False s) ns m1) = ShowLast (if ns = [] then None else Some (last ns))"
    and "Counter name d tags m = (s, m1) \<Longrightarrow> v = view_for Count s tags \<Longrightarrow>
      view_data v (fold (RecordNUnitMeasurement False s) ns m1) = ShowCount (length ns)"
    and "HistogramWithBounds name d ut bounds tags m = (s, m1) \<Longrightarrow> v = view_for (Distribution bounds) s tags \<Longrightarrow>
      \<exists>bs. view_data v (fold (RecordNUnitMeasurement False s) ns m1) = ShowBuckets bs \<and> sum_list bs = length ns"
proof -
  have rec: "SetGauge False s = stats_Record s" "RecordNUnitMeasurement False s = stats_Record s" for s
    by (simp_all add: fun_eq_iff SetGauge_def RecordNUnitMeasurement_def)
  have reg: "data (fold (stats_Record s) ns (register_view v m)) (ms_Name s) = ns" if "v = view_for a s tags" "ms_Name s = name" for a s
    using fold_record [of "register_view v m" s ns] assms that by (simp add: register_view_def view_for_def)
  have shown: "data (fold (stats_Record s) ns m1) (ms_Name (mv_Measure v)) = ns" if "m1 = register_view v m" "v = view_for a s tags" "ms_Name s = name" for a s
    using reg [OF that(2,3)] that(1,2) by (simp add: view_for_def)
  show "view_data v (fold (SetGauge False s) ns m1) = ShowLast (if ns = [] then None else Some (last ns))"
    if "Gauge name d tags m = (s, m1)" "v = view_for LastValue s tags"
  proof -
    from that have "m1 = register_view v m" "ms_Name s = name" by (auto simp: Gauge_def gaugeView_def Let_def)
    from shown [OF this(1) that(2) this(2)] show ?thesis by (simp add: view_data_def rec that(2)) (simp add: view_for_def)
  qed
  show "view_data v (fold (RecordNUnitMeasurement False s) ns m1) = ShowCount (length ns)"
    if "Counter name d tags m = (s, m1)" "v = view_for Count s tags"
  proof -
    from that have "m1 = register_view v m" "ms_Name s = name" by (auto simp: Counter_def counterView_def Let_def)
    from shown [OF this(1) that(2) this(2)] show ?thesis by (simp add: view_data_def rec that(2)) (simp add: view_for_def)
  qed
  show "\<exists>bs. view_data v (fold (RecordNUnitMeasurement False s) ns m1) = ShowBuckets bs \<and> sum_list bs = length ns"
    if "HistogramWithBounds name d ut bounds tags m = (s, m1)" "v = view_for (Distribution bounds) s tags"
  proof -
    from that have m1: "m1 = register_view v m" "ms_Name s = name" by (auto simp: HistogramWithBounds_def histogramView_def Let_def)
    have agg: "mv_Aggregation v = Distribution bounds" by (simp add: that(2) view_for_def)
    have "sum_list (map (\<lambda>k. length (filter (\<lambda>n. bucket_of bounds n = k) ns)) [0..<length bounds + 1]) = length ns"
      by (rule buckets_sum) (simp add: bucket_le less_Suc_eq_le)
    then show ?thesis unfolding view_data_def Let_def rec shown [OF m1(1) that(2) m1(2)] agg by simp
  qed
qed

end
