(* ===== verification/Swagger_UI.thy ===== *)
theory Swagger_UI
  imports Rpc_Server
begin

text \<open>
  The page with the interface of the services (\<open>internal/app/swaggerui/swaggerui.go\<close>): static files, and a
  reverse proxy for every service, whose address comes from the configuration.
\<close>

section \<open>The proxy\<close>

record url =
  u_Scheme :: string
  u_Host :: string
  u_Path :: string
  u_RawQuery :: string

record http_request =
  rq_URL :: url
  rq_Header :: "string \<rightharpoonup> string list"

text \<open>\<open>overlayURLProxy\<close>: the director of the proxy, which the library applies to a copy of the request.\<close>

definition overlayURLProxy :: "url \<Rightarrow> http_request \<Rightarrow> http_request" where
  "overlayURLProxy target req =
    (let targetQuery = u_RawQuery target;
         u = rq_URL req;
         q = (if targetQuery = [] \<or> u_RawQuery u = [] then targetQuery @ u_RawQuery u else targetQuery @ ''&'' @ u_RawQuery u);
         h = (if rq_Header req ''User-Agent'' = None then (rq_Header req)(''User-Agent'' \<mapsto> [[]]) else rq_Header req)
     in req\<lparr>rq_URL := u\<lparr>u_Scheme := u_Scheme target, u_Host := u_Host target, u_RawQuery := q\<rparr>, rq_Header := h\<rparr>)"

text \<open>
  \<open>bindHandler\<close> and \<open>mustURLParse\<close>. A handler of the router is the name of the static files, of the health check, or the endpoint that a
  proxy was made for. An error of the client panics; an endpoint that does not parse ends the process.
\<close>

datatype serve_outcome = ServeExit | ServePanic | Routing mux

definition bindHandler :: "sys \<Rightarrow> (string \<Rightarrow> url option) \<Rightarrow> config_view \<Rightarrow> string \<Rightarrow> string \<Rightarrow> mux \<Rightarrow> serve_outcome" where
  "bindHandler os parse cfg path service m =
    (case construct cfg (HTTPClientFromConfig os (''api.'' @ service)) of
       Inl e \<Rightarrow> ServePanic
     | Inr (client, endpoint) \<Rightarrow>
         (case parse endpoint of
            None \<Rightarrow> ServeExit
          | Some target \<Rightarrow> (case mux_Handle path endpoint m of Inl e \<Rightarrow> ServePanic | Inr m' \<Rightarrow> Routing m')))"

fun bind_handlers :: "sys \<Rightarrow> (string \<Rightarrow> url option) \<Rightarrow> config_view \<Rightarrow> (string \<times> string) list \<Rightarrow> mux \<Rightarrow> serve_outcome" where
  "bind_handlers os parse cfg [] m = Routing m"
| "bind_handlers os parse cfg ((path, service) # rest) m =
    (case bindHandler os parse cfg path service m of Routing m' \<Rightarrow> bind_handlers os parse cfg rest m' | r \<Rightarrow> r)"

definition swagger_services :: "(string \<times> string) list" where
  "swagger_services = [(''/v1/frontend/'', ''frontend''), (''/v1/backend/'', ''backend''), (''/v1/queryservice/'', ''queryservice''),
     (''/v1/synchronizer/'', ''synchronizer''), (''/v1/evaluator/'', ''evaluator''), (''/v1/matchfunction/'', ''functions'')]"

text \<open>\<open>serve\<close>, up to the call of \<open>ListenAndServe\<close>: \<open>wd\<close> is the working directory.\<close>

definition swagger_serve :: "sys \<Rightarrow> (string \<Rightarrow> url option) \<Rightarrow> string res \<Rightarrow> config_view \<Rightarrow> serve_outcome" where
  "swagger_serve os parse wd cfg =
    (case wd of
       Inl e \<Rightarrow> ServeExit
     | Inr baseDir \<Rightarrow>
         (case Stat os (baseDir @ ''/static'') of
            Some e \<Rightarrow> ServeExit
          | None \<Rightarrow>
              (case mux_Handle ''/'' ''static'' [] of
                 Inl e \<Rightarrow> ServePanic
               | Inr m \<Rightarrow> (case mux_Handle HealthCheckEndpoint ''health'' m of
                   Inl e \<Rightarrow> ServePanic
                 | Inr m \<Rightarrow> bind_handlers os parse cfg swagger_services m))))"

section \<open>Where requests go\<close>

text \<open>The endpoint of a service.\<close>

definition endpoint :: "sys \<Rightarrow> config_view \<Rightarrow> string \<Rightarrow> string res" where
  "endpoint os cfg service = map_sum id snd (construct cfg (HTTPClientFromConfig os (''api.'' @ service)))"

lemma bind_handlers_routes:
  assumes "bind_handlers os parse cfg svs m = Routing m'"
  shows "\<exists>es. map fst es = map fst svs \<and> m' = m @ es \<and> (\<forall>i < length svs. endpoint os cfg (snd (svs ! i)) = Inr (snd (es ! i)))"
  using assms
proof (induction os parse cfg svs m rule: bind_handlers.induct)
  case (2 os parse cfg path service rest m)
  then obtain client ep where c: "construct cfg (HTTPClientFromConfig os (''api.'' @ service)) = Inr (client, ep)"
    and b: "bindHandler os parse cfg path service m = Routing (m @ [(path, ep)])"
    by (auto simp: bindHandler_def mux_Handle_def split: sum.splits option.splits if_splits serve_outcome.splits)
  from 2(1) [OF b] 2(2) b obtain es where es: "map fst es = map fst rest" "m' = (m @ [(path, ep)]) @ es"
    "\<forall>i < length rest. endpoint os cfg (snd (rest ! i)) = Inr (snd (es ! i))" by auto
  have "\<forall>i < length ((path, service) # rest). endpoint os cfg (snd (((path, service) # rest) ! i)) = Inr (snd (((path, ep) # es) ! i))"
    using es(3) c by (auto simp: endpoint_def nth_Cons split: nat.split)
  with es(1,2) show ?case by (intro exI [of _ "(path, ep) # es"]) simp
qed auto

text \<open>
  Requests below the path of a service go to the endpoint that the configuration has under the key given for
  it, and the query of the request is kept after that of the endpoint; all others are for static files or the
  health check. The keys for the query service and the match function are \<open>queryservice\<close> and \<open>functions\<close>.
\<close>

lemma routes_shape:
  assumes "swagger_serve os parse wd cfg = Routing m"
  obtains e1 e2 e3 e4 e5 e6 where
    "m = [(''/'', ''static''), (HealthCheckEndpoint, ''health''), (''/v1/frontend/'', e1), (''/v1/backend/'', e2), (''/v1/queryservice/'', e3),
       (''/v1/synchronizer/'', e4), (''/v1/evaluator/'', e5), (''/v1/matchfunction/'', e6)]"
    "endpoint os cfg ''frontend'' = Inr e1" "endpoint os cfg ''backend'' = Inr e2" "endpoint os cfg ''queryservice'' = Inr e3"
    "endpoint os cfg ''synchronizer'' = Inr e4" "endpoint os cfg ''evaluator'' = Inr e5" "endpoint os cfg ''functions'' = Inr e6"
proof -
  have "bind_handlers os parse cfg swagger_services [(''/'', ''static''), (HealthCheckEndpoint, ''health'')] = Routing m"
    using assms by (auto simp: swagger_serve_def mux_Handle_def split: sum.splits option.splits)
  from bind_handlers_routes [OF this] obtain es where es: "map fst es = map fst swagger_services"
    "m = [(''/'', ''static''), (HealthCheckEndpoint, ''health'')] @ es"
    "\<forall>i < length swagger_services. endpoint os cfg (snd (swagger_services ! i)) = Inr (snd (es ! i))" by auto
  have "length es = 6" using arg_cong [OF es(1), of length] by (simp add: swagger_services_def)
  then obtain p1 p2 p3 p4 p5 p6 where p: "es = [p1, p2, p3, p4, p5, p6]" by (auto simp: length_Suc_conv numeral_eq_Suc)
  show ?thesis
    by (rule that [of "snd p1" "snd p2" "snd p3" "snd p4" "snd p5" "snd p6"])
      (use es p in \<open>auto simp: swagger_services_def All_less_Suc2 prod_eq_iff numeral_eq_Suc\<close>)
qed

theorem swagger_routes:
  assumes "swagger_serve os parse wd cfg = Routing m"
  shows "\<forall>(path, service) \<in> set swagger_services. \<forall>rest. \<exists>e. mux_match m (path @ rest) = Some e \<and> endpoint os cfg service = Inr e"
proof -
  obtain e1 e2 e3 e4 e5 e6 where
    "m = [(''/'', ''static''), (HealthCheckEndpoint, ''health''), (''/v1/frontend/'', e1), (''/v1/backend/'', e2), (''/v1/queryservice/'', e3),
       (''/v1/synchronizer/'', e4), (''/v1/evaluator/'', e5), (''/v1/matchfunction/'', e6)]"
    "endpoint os cfg ''frontend'' = Inr e1" "endpoint os cfg ''backend'' = Inr e2" "endpoint os cfg ''queryservice'' = Inr e3"
    "endpoint os cfg ''synchronizer'' = Inr e4" "endpoint os cfg ''evaluator'' = Inr e5" "endpoint os cfg ''functions'' = Inr e6"
    by (rule routes_shape [OF assms])
  then show ?thesis by (auto simp: swagger_services_def mux_match_def HasPrefix_def)
qed

lemma itoa_0: "itoa 0 = ''0''"
  by code_simp

text \<open>A configuration without the key \<open>api.queryservice\<close> gives the query service the endpoint \<open>http://:0\<close>.\<close>

lemma endpoint_unset:
  assumes "GetString cfg (''api.'' @ service @ ''.hostname'') = []" and "GetInt cfg (''api.'' @ service @ ''.httpport'') = 0"
    and "GetString cfg certPath = []" and "urlParse os = Inr"
  shows "endpoint os cfg service = Inr ''http://:0''"
  using assms itoa_0 by (simp add: endpoint_def HTTPClientFromConfig_def paramsFromConfig_def construct_readCertificate HTTPClientFromParams_def
      usingTLS_def sanitizeHTTPAddress_def toAddress_def ToLower_def lower_char_def HasPrefix_def Let_def attachTransport_def)

text \<open>The proxy keeps the path, the query and a user agent of the request.\<close>

lemma overlay_keeps:
  "u_Path (rq_URL (overlayURLProxy t r)) = u_Path (rq_URL r)" "u_Host (rq_URL (overlayURLProxy t r)) = u_Host t"
  "u_RawQuery t = [] \<Longrightarrow> u_RawQuery (rq_URL (overlayURLProxy t r)) = u_RawQuery (rq_URL r)"
  "rq_Header r ''User-Agent'' = Some ua \<Longrightarrow> rq_Header (overlayURLProxy t r) = rq_Header r"
  by (simp_all add: overlayURLProxy_def Let_def)

end
