(* ===== verification/Spec2Isabelle.thy ===== *)
theory Spec2Isabelle
  imports Demo Scale_Drivers Filter_Testcases Application Synchronizer_Properties Evaluation Redis_Pool Synchronizer_Client Tools Metrics Swagger_UI
begin

text \<open>
  Open Match: a verification of its services.

  \<^bold>\<open>The program.\<close> Players' clients create tickets and game servers create backfills through the frontend; a
  director fetches matches and assigns tickets through the backend. For a fetch the backend calls a match
  function, which finds tickets through the query service, and sends its proposals to the synchronizer.
  The synchronizer collects the proposals of all fetches in a cycle, has the evaluator choose among
  those that overlap, puts the tickets of the accepted ones in pending release and returns the accepted
  ids. All services share a state store on Redis.

  \<^bold>\<open>The theories\<close>, in the order of their imports, with the files under \<open>src/\<close> they model:

    \<^item> \<open>Prelude\<close>: Go's errors, integers, doubles, durations and decimal strings; shared lemmas.
    \<^item> \<open>Messages\<close>: the message structs of \<open>pkg/pb\<close> and \<open>internal/ipb\<close>, and \<open>internal/config/view.go\<close>.
    \<^item> \<open>Pool_Filter\<close>: \<open>internal/filter/filter.go\<close>.
    \<^item> \<open>Default_Evaluator\<close>: \<open>internal/app/evaluator/defaulteval/evaluator.go\<close>.
    \<^item> \<open>Redis\<close>: the interface of the Redis client library as a parameter (\<open>env\<close>) with the documented effect
      of each command, stated as a locale over an abstract key space.
    \<^item> \<open>Store_Service\<close>: \<open>internal/statestore/public.go\<close>: the record \<open>service\<close> of the operations, the abstract
      store (ticket, index, pending, backfill and acknowledgement tables) and, as the locale \<open>statestore\<close>,
      the contract of the operations on it.
    \<^item> \<open>Ticket_Store\<close>, \<open>Backfill_Store\<close>, \<open>Redis_Backend\<close>: \<open>internal/statestore\<close> (\<open>ticket.go\<close>, \<open>backfill.go\<close>, \<open>redis.go\<close>,
      \<open>instrumented.go\<close>): every operation as the commands it sends and what it makes of the replies.
    \<^item> \<open>Redis_Reference\<close>, \<open>Store_Properties\<close>: a concrete Redis on lists that satisfies the interface, the
      refinement of the abstract store and the properties of the operations.
    \<^item> \<open>Frontend\<close>, \<open>Backend\<close>: \<open>internal/app/frontend/frontend_service.go\<close>, \<open>internal/app/backend/backend_service.go\<close>:
      every handler, over any store that meets the contract.
    \<^item> \<open>Query\<close>: \<open>internal/app/query\<close>: the caches, the protocol of concurrent requests, and the paged queries.
    \<^item> \<open>Cacher\<close>, \<open>Rpc_Clients\<close>: \<open>internal/config/cacher.go\<close>, \<open>internal/rpc/clients.go\<close>, \<open>clientcache.go\<close>: instances that
      are rebuilt when the configuration they read has changed, and the clients built from it.
    \<^item> \<open>Match_Function\<close>: \<open>pkg/matchfunction/matchfunction.go\<close> and the match functions of \<open>examples/functions/golang\<close>.
    \<^item> \<open>Evaluator_Client\<close>: \<open>internal/app/synchronizer/evaluator_client.go\<close>.
    \<^item> \<open>Evaluator_Service\<close>: \<open>internal/app/evaluator/evaluator_service.go\<close>: the harness around any evaluator, which
      is a process that reads and writes channels, and the default evaluator as such a process.
    \<^item> \<open>Evaluation\<close>: the evaluator client and the harness at the two ends of a stream.
    \<^item> \<open>Synchronizer\<close>, \<open>Synchronizer_Properties\<close>: \<open>internal/app/synchronizer/synchronizer_service.go\<close> and
      \<open>internal/appmain/contextcause\<close>: the goroutines of a cycle, the calls, and their correctness.
    \<^item> \<open>Store_Typing\<close>: a type system for the ids of tickets and backfills in the store.
    \<^item> \<open>Filter_Testcases\<close>: \<open>internal/filter/testcases\<close>, the table of filtering cases that the tests share.
    \<^item> \<open>Floats\<close>: rounded arithmetic of \<open>float64\<close>, which Go specifies as IEEE 754.
    \<^item> \<open>Scale_Scenarios\<close>, \<open>Team_Shooter\<close>: \<open>examples/scale/scenarios\<close>: the profiles, tickets, match functions and
      evaluators of the four game scenarios of the scale tests.
    \<^item> \<open>Rpc_Server\<close>: \<open>internal/rpc/server.go\<close>, \<open>insecure.go\<close>, \<open>tls_server.go\<close>: the parameters of a server, its start and
      stop, and the listeners it owns.
    \<^item> \<open>Application\<close>: \<open>internal/appmain\<close>, \<open>internal/telemetry\<close> and the \<open>BindService\<close> functions of \<open>internal/app\<close>: the start
      and stop of a service with everything it registers.
    \<^item> \<open>Redis_Pool\<close>: the connections of \<open>internal/statestore/redis.go\<close>: addresses, pools, and what a dial does with and
      without a sentinel.
    \<^item> \<open>Synchronizer_Client\<close>: \<open>internal/app/backend/synchronizer_client.go\<close>, and the set-up of the log in \<open>internal/logging\<close>.
    \<^item> \<open>Metrics\<close>: \<open>internal/telemetry/metrics.go\<close>; \<open>Swagger_UI\<close>: \<open>internal/app/swaggerui\<close>, the routes and the proxy of the
      page with the interface of the services.
    \<^item> \<open>Tutorials\<close>: \<open>tutorials\<close>: match functions, profiles, tickets, the custom evaluator, the director and the polling
      frontend. Identical copies of a file are modelled once.
    \<^item> \<open>Demo\<close>: \<open>examples/demo\<close>: the value with many subscribers, the object that components update, the director and
      the players.
    \<^item> \<open>Scale_Drivers\<close>: \<open>examples/scale/backend\<close> and \<open>frontend\<close>: the workers, channels and counters of the drivers.
    \<^item> \<open>Tools\<close>: \<open>tools/certgen\<close> and \<open>tools/reaper\<close>.
    \<^item> this theory: the cycle together with the conversation of its evaluator client.

  \<^bold>\<open>State and operations.\<close> A Go struct is a record with the fields of the struct; a method is a function of
  its receiver that returns the result and the new receiver. The operations of the store take and
  return the state of the store. A result is \<open>Inl\<close> of an error or \<open>Inr\<close> of a value, and the branches of a
  definition are the returns of the method. Concurrent code (the query cache, the fetch, the evaluator
  clients, the cycle) is a step relation or a step function on the states of the goroutines: a step is
  what one goroutine does between two communications, or a rendezvous on a channel. Theorems about them
  hold for every reachable state, that is, for every interleaving.

  \<^bold>\<open>What is shown.\<close> The Redis-backed store refines the abstract store, and every handler of the frontend and
  the backend is proved over the contract only. The caches answer with what the store held after the
  request came in, without races and without getting stuck. The pool filter, the evaluator's tables and
  the configuration cacher equal their reference definitions. An id that the synchronizer returns was
  proposed by that call, accepted by the evaluator and put in pending release; a call that ends without
  an error got all of its accepted ids; and with the default evaluator behind its service no two matches
  that a cycle returns share a ticket or a backfill. The pages of a query are put together again by a
  match function, and the match function with backfills uses every ticket once. Calls of the store that
  respect the kinds of ids keep it well typed. A service that is stopped gives back its listeners, views
  and exporters. The match functions of the scale scenarios end, use their tickets once and keep to their
  bounds, and their evaluators equal a first-come reference. The director and the frontend of the tutorials work
  together with the services: what is fetched is assigned, found by the poll and deleted. The drivers of the
  scale tests lose no match and count right in every interleaving. The pool of the store connects to the master
  that is configured or that the sentinel names, within the bound of its sentinel pool. Failed connections, expired backfills, malformed requests,
  failing streams and cancelled contexts are branches of the model and have their own theorems.

  \<^bold>\<open>Bounds and fuel.\<close> Loops over slices and maps are structural recursions. The sending loop of the query
  service is total because the page size is positive; \<open>send_results_pages\<close> shows it. The loop of the
  scenario with backfills that makes new matches may run for ever and is a \<open>partial_function\<close>;
  \<open>statefull_mmf_correct\<close> shows when it ends. So may the loops of the tutorials' match functions (\<open>make_loop\<close>), which
  end if there is a pool, and the polling loop of their frontend (\<open>deleteOnAssign\<close>), which ends when the ticket
  is assigned; \<open>tutorial_matches\<close> and \<open>tutorial_end_to_end\<close> show it. Streams are finite
  lists of events, so that a definition describes a finite prefix of a run; no theorem bounds the
  length. Durations and counters are \<open>int\<close> and \<open>nat\<close>; where the code converts (nanoseconds of a time to
  a score, decimal strings to integers) the range of \<open>int64\<close> is part of the definition.

  \<^bold>\<open>Parameters.\<close> What is not in the repository is an argument of the definitions: the Redis client, protobuf
  marshalling, \<open>sort.Sort\<close>, the wall clock, \<open>xid\<close>, gRPC and HTTP connections, files. What the proofs need of
  them is a hypothesis with its documented behaviour, and each such hypothesis is shown to hold for a
  concrete instance.

  \<^bold>\<open>Not modelled.\<close> Generated protobuf and gateway code, which protoc writes; what is printed, in a log or on a
  page; what the gRPC and HTTP libraries do while they serve, the web page of the demo and the server of the
  reaper among them; signals, flags and the mains; the reading and watching of configuration files by \<open>viper\<close>,
  of which the model has the resulting view; and the support of the tests, in-memory servers and fakes. The
  cycle is modelled with the gRPC evaluator client; the HTTP client is modelled on its own.
\<close>

section \<open>A cycle with the default evaluator\<close>

text \<open>
  The cycle of the synchronizer and the conversation of its evaluator client with the evaluator's
  service, in step: a step of the client is a step of both, the other goroutines of the cycle and the
  service move on their own.
\<close>

inductive world_step :: "('s, 'c) service \<Rightarrow> 's cycle \<times> conversation \<Rightarrow> 's cycle \<times> conversation \<Rightarrow> bool" for S where
  cycle_moves: "cycle_step S c c' \<Longrightarrow> c_eval c' = c_eval c \<Longrightarrow> world_step S (c, w) (c', w)"
| client_moves: "cycle_step S c c' \<Longrightarrow> conversation_step w w' \<Longrightarrow> e_client w = c_eval c \<Longrightarrow> e_client w' = c_eval c' \<Longrightarrow>
    world_step S (c, w) (c', w')"
| service_moves: "conversation_step w w' \<Longrightarrow> e_client w' = e_client w \<Longrightarrow> world_step S (c, w) (c, w')"

abbreviation world_reachable :: "('s, 'c) service \<Rightarrow> process \<Rightarrow> 's \<Rightarrow> 's cycle \<times> conversation \<Rightarrow> bool" where
  "world_reachable S P s \<equiv> (world_step S)\<^sup>*\<^sup>* (cycle_init s, conversation_init P)"

lemma world_projections:
  "world_reachable S P s x \<Longrightarrow>
   cycle_reachable S s (fst x) \<and> conversation_reachable P (snd x) \<and> e_client (snd x) = c_eval (fst x)"
proof (induction rule: rtranclp_induct)
  case base
  show ?case by (simp add: cycle_init_def conversation_init_def)
next
  case (step x y)
  from step(2,3) show ?case by (induction rule: world_step.induct) (auto intro: rtranclp.rtrancl_into_rtrancl)
qed

lemma collect_matches: "mi_match ` set (collect unmarshal ms) \<subseteq> set ms"
  by (induction ms) (auto split: option.splits)

lemma evaluate_prefix:
  assumes "go_sort srt" and "prefix ids (evaluate srt unmarshal rs)"
  shows "\<exists>ms. map m_MatchId ms = ids \<and> set ms \<subseteq> set rs \<and> sorted_wrt (\<lambda>a b. \<not> collides a b) ms"
proof -
  let ?acc = "map mi_match (accepted srt unmarshal rs)"
  have acc: "evaluate srt unmarshal rs = map m_MatchId ?acc" by (simp add: evaluate_greedy)
  have "set (accepted srt unmarshal rs) \<subseteq> set (collect unmarshal rs)"
    using set_greedy(2) [of "[]" "srt byScore_Less (collect unmarshal rs)"] go_sort.set_srt [OF assms(1)] by (simp add: accepted_def)
  then have sub: "set ?acc \<subseteq> set rs" using collect_matches [of unmarshal rs] by auto
  have srt: "sorted_wrt (\<lambda>a b. \<not> collides a b) ?acc" by (simp add: accepted_def sorted_wrt_map greedy_disjoint)
  have "ids = map m_MatchId (take (length ids) ?acc)" using assms(2) unfolding acc by (metis prefix_def append_eq_conv_conj take_map)
  moreover have "set (take (length ids) ?acc) \<subseteq> set rs" using set_take_subset sub by (rule order_trans)
  ultimately show ?thesis using sorted_wrt_take [OF srt] by (intro exI [of _ "take (length ids) ?acc"]) simp
qed

text \<open>
  C2: No two matches that a cycle returns overlap. With the default evaluator behind its service, in every
  interleaving of the goroutines of the synchronizer, the evaluator client and the service, and whatever
  errors occur, all ids returned to the calls of a cycle belong to matches that were proposed in it and of
  which no two share a ticket or a backfill.
\<close>

theorem returned_matches_disjoint:
  assumes sort: "go_sort srt" and run: "world_reachable S (default_evaluator srt unmarshal) s (c, w)"
  shows "\<exists>ms. set ms \<subseteq> fst ` set (c_handed c) \<and> sorted_wrt (\<lambda>a b. \<not> collides a b) ms \<and>
    (\<forall>i. set (delivered (k_sent (c_calls c i))) \<subseteq> m_MatchId ` set ms)"
proof -
  from world_projections [OF run] have cyc: "cycle_reachable S s c" and client: "e_client w = c_eval c"
    and talk: "conversation_reachable (default_evaluator srt unmarshal) w" by simp_all
  from default_accepted [OF talk] obtain rs where rs: "prefix rs (g_sent (c_eval c))"
    and acc: "prefix (g_accepted (c_eval c)) (evaluate srt unmarshal rs)" unfolding client by blast
  from evaluate_prefix [OF sort acc] obtain ms where ms: "map m_MatchId ms = g_accepted (c_eval c)" "set ms \<subseteq> set rs"
    "sorted_wrt (\<lambda>a b. \<not> collides a b) ms" by blast
  have "set rs \<subseteq> fst ` set (c_handed c)" using set_mono_prefix [OF rs] origin_invariant [OF cyc] unfolding origin_inv_def by blast
  moreover have "set (delivered (k_sent (c_calls c i))) \<subseteq> m_MatchId ` set ms" for i
    using delivered_accepted [OF cyc, of i] ms(1) by (metis set_map)
  ultimately show ?thesis using ms by (intro exI [of _ ms]) blast
qed

text \<open>A cycle with one call and one proposal, which the default evaluator accepts.\<close>

definition w_returned :: "'s cycle \<times> conversation \<Rightarrow> bool" where
  "w_returned x \<longleftrightarrow> c_handed (fst x) = [(w_match, 0)] \<and> delivered (k_sent (c_calls (fst x) 0)) = [''m'']"

definition can_return :: "('s, 'c) service \<Rightarrow> 's cycle \<times> conversation \<Rightarrow> bool" where
  "can_return S x \<longleftrightarrow> (\<exists>y. (world_step S)\<^sup>*\<^sup>* x y \<and> w_returned y)"

lemma world_then: "world_step S x y \<Longrightarrow> can_return S y \<Longrightarrow> can_return S x"
  unfolding can_return_def by (blast intro: converse_rtranclp_into_rtranclp)

lemma world_returned: "w_returned x \<Longrightarrow> can_return S x"
  unfolding can_return_def by blast

lemma evaluate_w_match: "evaluate insertion_sort sample_unmarshal [w_match] = [''m'']"
  by (simp add: evaluate_greedy accepted_def sample_defs w_match_def empty_match_def)

lemma w_run_world:
  assumes add: "AddTicketsToPendingRelease S [''a''] s = (Inr (), s')"
  shows "can_return S (cycle_init s, conversation_init w_process)"
proof -
  let ?ev = "evaluate insertion_sort sample_unmarshal"
  obtain k where k: "w_process = Await k" "k (Some w_match) = collecting ?ev [w_match]"
    by (rule that [OF collecting.code [of ?ev "[]", folded default_evaluator_def]]) simp
  obtain k' where k': "collecting ?ev [w_match] = Await k'" "k' None = emitting [''m'']"
    by (rule that [OF collecting.code]) (simp add: evaluate_w_match)
  note s = run_simps talk_simps k k' add
  show ?thesis
  apply (rule world_then [OF cycle_moves [OF cycle_step.register]]; simp add: s)
  apply (rule world_then [OF cycle_moves [OF serve' [of 0 _ "SendStart None"]]]; simp add: s)
  apply (rule world_then [OF cycle_moves [OF cycle_step.propose [of 0 _ S w_match]]]; simp add: s)
  apply (rule world_then [OF cycle_moves [OF cycle_step.fan_in [of _ w_match 0]]]; simp add: s)
  apply (rule world_then [OF cycle_moves [OF cycle_step.table_in [of _ w_match]]]; simp add: s)
  apply (rule world_then [OF cycle_moves [OF cycle_step.table_out [of _ w_match]]]; simp add: s)
  apply (rule world_then [OF client_moves [OF cycle_step.eval_batch client_batch [of _ "[w_match]"]]]; simp add: s)
  apply (rule world_then [OF client_moves [OF cycle_step.eval_send [where ok = True] client_send [of _ True]]]; simp add: s)
  apply (rule world_then [OF cycle_moves [OF cycle_step.close_registration]]; simp add: s)
  apply (rule world_then [OF cycle_moves [OF cycle_step.all_sent [of 0]]]; simp add: s)
  apply (rule world_then [OF cycle_moves [OF cycle_step.cutoff_all_sent]]; simp add: s)
  apply (rule world_then [OF cycle_moves [OF cycle_step.relay_stops]]; simp add: s)
  apply (rule world_then [OF cycle_moves [OF cycle_step.fan_closes]]; simp add: s)
  apply (rule world_then [OF cycle_moves [OF cycle_step.table_closes]]; simp add: s)
  apply (rule world_then [OF cycle_moves [OF cycle_step.mbuf_closes]]; simp add: s)
  apply (rule world_then [OF client_moves [OF cycle_step.eval_all_sent [where ok = True] client_close [of _ True]]]; simp add: s)
  apply (rule world_then [OF service_moves [OF server_recv [OF _ harness_step.recv [of _ w_match]]]]; simp add: s)
  apply (rule world_then [OF service_moves [OF server_step [OF hand_over [of _ w_match k]]]]; simp add: s)
  apply (rule world_then [OF service_moves [OF server_eof [OF _ _ recv_eof]]]; simp add: s)
  apply (rule world_then [OF service_moves [OF server_step [OF in_closed [of _ k']]]]; simp add: s)
  apply (rule world_then [OF service_moves [OF server_step [OF emit [of _ "''m''" "Return None"]]]]; simp add: s)
  apply (rule world_then [OF service_moves [OF server_send [OF harness_step.send [of _ "''m''"]]]]; simp add: s)
  apply (rule world_then [OF client_moves [OF cycle_step.eval_accept [where j = "''m''"] client_response [of _ "''m''" "[]"]]]; simp add: s)
  apply (rule world_then [OF cycle_moves [OF cycle_step.sbuf_in [of _ "''m''"]]]; simp add: s)
  apply (rule world_then [OF cycle_moves [OF pend' [where s = s']]]; simp add: s)
  apply (rule world_then [OF cycle_moves [OF cycle_step.fan_out [of _ "''m''" "[]" 0]]]; simp add: s)
  apply (rule world_then [OF cycle_moves [OF cycle_step.fan_sent [of _ 0 "''m''"]]]; simp add: s)
  apply (rule world_then [OF cycle_moves [OF serve' [of 0 _ TakeBatch]]]; simp add: s)
  apply (rule world_then [OF cycle_moves [OF serve' [of 0 _ "SendId None"]]]; simp add: s)
  apply (rule world_returned; simp add: w_returned_def delivered_def)
  done
qed

theorem returned_matches_disjoint_witness:
  "\<exists>c w ms. world_reachable ref_store w_process ref_init (c, w) \<and> set ms \<subseteq> fst ` set (c_handed c) \<and>
     set (delivered (k_sent (c_calls c 0))) = {''m''} \<and> {''m''} \<subseteq> m_MatchId ` set ms"
proof -
  obtain s' where "AddTicketsToPendingRelease ref_store [''a''] ref_init = (Inr (), s')" using ref_add by blast
  from w_run_world [OF this] obtain c w where run: "world_reachable ref_store w_process ref_init (c, w)"
    and d: "delivered (k_sent (c_calls c 0)) = [''m'']" by (auto simp: can_return_def w_returned_def)
  from returned_matches_disjoint [OF insertion.go_sort_axioms run] obtain ms where ms: "set ms \<subseteq> fst ` set (c_handed c)"
    "\<forall>i. set (delivered (k_sent (c_calls c i))) \<subseteq> m_MatchId ` set ms" by blast
  from ms(2) d have "{''m''} \<subseteq> m_MatchId ` set ms" by (metis empty_set list.simps(15))
  with run ms(1) d show ?thesis by (intro exI [of _ c] exI [of _ w] exI [of _ ms] conjI) simp_all
qed

end
